(* ===== verification/Prelude.thy ===== *)
theory Prelude
  imports
    Main
    "HOL-Library.AList"
    "HOL-Library.Word"
    "HOL-Library.Char_ord"
    "HOL-Library.List_Lexorder"
begin

text \<open>
  Shared vocabulary of the development: results and the sequencing of fallible stateful
  operations, unsigned 64-bit arithmetic with the saturating and checked variants of Rust,
  hash maps as association lists, the generic runs of an operation alphabet over a state, and the locales \<open>automaton_inv\<close> and
  \<open>one_shot\<close>, whose lemmas the components instantiate.
\<close>

named_theorems guard_defs \<open>guards and small lookups of an operation, unfolded when its branches are analysed\<close>

section \<open>Results and sequencing\<close>

abbreviation Ok :: "'a \<Rightarrow> 'e + 'a" where "Ok \<equiv> Inr"
abbreviation Err :: "'e \<Rightarrow> 'e + 'a" where "Err \<equiv> Inl"

definition is_ok :: "'e + 'a \<Rightarrow> bool" where
  "is_ok r = (case r of Inl _ \<Rightarrow> False | Inr _ \<Rightarrow> True)"

lemma is_ok_simps [simp]: "is_ok (Inr a)" "\<not> is_ok (Inl e)"
  by (simp_all add: is_ok_def)

lemma is_ok_iff: "is_ok r \<longleftrightarrow> (\<exists>a. r = Inr a)"
  by (cases r) auto

text \<open>A chain of guarded early returns succeeds exactly when every guard is false.\<close>

lemma if_err_ok: "(if c then Inl e else r) = Inr v \<longleftrightarrow> \<not> c \<and> r = Inr v"
  by simp

text \<open>
  The \<open>?\<close> operator of Rust on a \<open>&mut self\<close> method: the pair of the new state and the result is
  passed on, an error stops the computation but keeps the state reached so far.
\<close>

definition and_then :: "'s \<times> ('e + 'a) \<Rightarrow> ('s \<Rightarrow> 'a \<Rightarrow> 's \<times> ('e + 'b)) \<Rightarrow> 's \<times> ('e + 'b)" where
  "and_then p k = (case p of (s, r) \<Rightarrow> (case r of Inl e \<Rightarrow> (s, Inl e) | Inr a \<Rightarrow> k s a))"

lemma and_then_simps [simp]:
  "and_then (s, Inl e) k = (s, Inl e)"
  "and_then (s, Inr a) k = k s a"
  by (simp_all add: and_then_def)

lemma and_then_ok:
  "and_then p k = (s', Inr b) \<longleftrightarrow> (\<exists>s a. p = (s, Inr a) \<and> k s a = (s', Inr b))"
  by (cases p) (auto simp: and_then_def split: sum.splits)

text \<open>The \<open>?\<close> operator in a function without state.\<close>

definition res_bind :: "'e + 'a \<Rightarrow> ('a \<Rightarrow> 'e + 'b) \<Rightarrow> 'e + 'b" where
  "res_bind r k = (case r of Inl e \<Rightarrow> Inl e | Inr a \<Rightarrow> k a)"

lemma res_bind_simps [simp]:
  "res_bind (Inl e) k = Inl e"
  "res_bind (Inr a) k = k a"
  by (simp_all add: res_bind_def)

lemma res_bind_ok: "res_bind r k = Inr b \<longleftrightarrow> (\<exists>a. r = Inr a \<and> k a = Inr b)"
  by (cases r) auto

lemma find_SomeD: "find P xs = Some x \<Longrightarrow> P x \<and> x \<in> set xs"
  by (induction xs) (auto split: if_splits)

lemma find_unique:
  assumes "distinct (map f xs)"
  shows "find (\<lambda>x. f x = k) xs = Some x \<longleftrightarrow> x \<in> set xs \<and> f x = k"
  using assms by (induction xs) auto

text \<open>Sorting and removing neighbours that are equal, as in \<open>sort\<close> and \<open>dedup\<close>.\<close>

lemma distinct_remdups_adj: "sorted xs \<Longrightarrow> distinct (remdups_adj (xs :: 'a::linorder list))"
  by (induction xs rule: remdups_adj.induct) (auto simp: order.antisym)

lemma remdups_adj_sort: "remdups_adj (sort (xs :: 'a::linorder list)) = sorted_list_of_set (set xs)"
  by (rule sym, rule sorted_list_of_set.idem_if_sorted_distinct [THEN subst [of _ _ "\<lambda>z. sorted_list_of_set (set xs) = z"]])
    (simp_all add: distinct_remdups_adj)

lemma sorted_wrt_concat_pieces:
  assumes "sorted_wrt P (concat (map f xs))" and "symp P" and "distinct (map g xs)"
    and "x \<in> set xs" and "y \<in> set xs" and "g x \<noteq> g y" and "a \<in> set (f x)" and "b \<in> set (f y)"
  shows "P a b"
proof -
  from assms(4) obtain ys zs where xs: "xs = ys @ x # zs" by (auto simp: in_set_conv_decomp)
  with assms(5,6) have "y \<in> set ys \<or> y \<in> set zs" by auto
  then show ?thesis
  proof
    assume "y \<in> set ys"
    then have "P b a" using assms(1,7,8) xs by (auto simp: sorted_wrt_append)
    with assms(2) show ?thesis by (rule sympD)
  next
    assume "y \<in> set zs"
    then show ?thesis using assms(1,7,8) xs by (auto simp: sorted_wrt_append)
  qed
qed

section \<open>Unsigned machine integers\<close>

type_synonym u8 = "8 word"
type_synonym u16 = "16 word"
type_synonym u32 = "32 word"
type_synonym u64 = "64 word"
type_synonym bytes = "u8 list"

definition saturating_add :: "'a::len word \<Rightarrow> 'a word \<Rightarrow> 'a word" where
  "saturating_add a b = (if unat a + unat b < 2 ^ LENGTH('a) then a + b else -1)"

definition saturating_sub :: "'a::len word \<Rightarrow> 'a word \<Rightarrow> 'a word" where
  "saturating_sub a b = (if b \<le> a then a - b else 0)"

definition checked_add :: "'a::len word \<Rightarrow> 'a word \<Rightarrow> 'a word option" where
  "checked_add a b = (if unat a + unat b < 2 ^ LENGTH('a) then Some (a + b) else None)"

definition div_ceil :: "'a::len word \<Rightarrow> 'a word \<Rightarrow> 'a word" where
  "div_ceil a b = (let q = a div b; r = a mod b in if 0 < r then q + 1 else q)"

lemma unat_add_no_overflow:
  "unat (a :: 'a::len word) + unat b < 2 ^ LENGTH('a) \<Longrightarrow> unat (a + b) = unat a + unat b"
  by (simp add: unat_word_ariths)

lemma unat_saturating_add:
  "unat (saturating_add (a :: 'a::len word) b) = min (unat a + unat b) (2 ^ LENGTH('a) - 1)"
  by (auto simp: saturating_add_def unat_add_no_overflow unsigned_minus_1_eq_mask mask_eq_exp_minus_1)

lemma saturating_add_ge: "a \<le> saturating_add a (b :: 'a::len word)"
proof -
  have "unat a \<le> 2 ^ LENGTH('a) - 1"
    using unsigned_less [of a, where ?'a = nat] by linarith
  then show ?thesis
    by (simp add: word_le_nat_alt unat_saturating_add)
qed

lemma saturating_add_le_sum: "unat (saturating_add a b) \<le> unat a + unat (b :: 'a::len word)"
  by (simp add: unat_saturating_add)

lemma unat_saturating_sub: "unat (saturating_sub a (b :: 'a::len word)) = unat a - unat b"
  by (auto simp: saturating_sub_def word_le_nat_alt unat_sub)

lemma checked_add_SomeD:
  assumes "checked_add a b = Some c"
  shows "unat c = unat a + unat b" and "a \<le> c"
proof -
  from assms show "unat c = unat a + unat b"
    by (auto simp: checked_add_def unat_add_no_overflow split: if_splits)
  then show "a \<le> c" by (simp add: word_le_nat_alt)
qed

section \<open>Hash maps\<close>

text \<open>
  A Rust \<open>HashMap\<close> is an association list with distinct keys: the list is the order in which one
  traversal of the map meets the entries.  The order is unspecified in Rust, and no definition
  or theorem fixes it: the theorems quantify over every list.
\<close>

type_synonym ('k, 'v) hashmap = "('k \<times> 'v) list"

definition hm_wf :: "('k, 'v) hashmap \<Rightarrow> bool" where
  "hm_wf m = distinct (map fst m)"

definition hm_get :: "('k, 'v) hashmap \<Rightarrow> 'k \<Rightarrow> 'v option" where
  "hm_get m k = map_of m k"

definition hm_insert :: "'k \<Rightarrow> 'v \<Rightarrow> ('k, 'v) hashmap \<Rightarrow> ('k, 'v) hashmap" where
  "hm_insert k v m = AList.update k v m"

definition hm_remove :: "'k \<Rightarrow> ('k, 'v) hashmap \<Rightarrow> ('k, 'v) hashmap" where
  "hm_remove k m = AList.delete k m"

definition hm_values :: "('k, 'v) hashmap \<Rightarrow> 'v list" where
  "hm_values m = map snd m"

text \<open>A \<open>for v in map.values_mut()\<close> loop whose body touches only \<open>v\<close>.\<close>

definition hm_map :: "('v \<Rightarrow> 'v) \<Rightarrow> ('k, 'v) hashmap \<Rightarrow> ('k, 'v) hashmap" where
  "hm_map f m = map (\<lambda>(k, v). (k, f v)) m"

definition hm_retain :: "('v \<Rightarrow> bool) \<Rightarrow> ('k, 'v) hashmap \<Rightarrow> ('k, 'v) hashmap" where
  "hm_retain p m = filter (\<lambda>(k, v). p v) m"

lemma hm_get_empty [simp]: "hm_get [] k = None"
  by (simp add: hm_get_def)

lemma hm_get_insert [simp]: "hm_get (hm_insert k v m) k' = (if k' = k then Some v else hm_get m k')"
  by (simp add: hm_get_def hm_insert_def update_conv')

lemma hm_get_remove [simp]: "hm_get (hm_remove k m) k' = (if k' = k then None else hm_get m k')"
  by (simp add: hm_get_def hm_remove_def delete_conv')

lemma hm_get_map [simp]: "hm_get (hm_map f m) k = map_option f (hm_get m k)"
  by (induction m) (auto simp: hm_get_def hm_map_def)

lemma hm_get_retain:
  "hm_wf m \<Longrightarrow> hm_get (hm_retain p m) k = (case hm_get m k of None \<Rightarrow> None | Some v \<Rightarrow> if p v then Some v else None)"
  by (induction m) (auto simp: hm_wf_def hm_get_def hm_retain_def map_of_eq_None_iff image_iff split: option.splits)

lemma hm_get_retain_SomeD: "hm_wf m \<Longrightarrow> hm_get (hm_retain p m) k = Some v \<Longrightarrow> hm_get m k = Some v \<and> p v"
  by (auto simp: hm_get_retain split: option.splits if_splits)

lemma hm_wf_empty [simp]: "hm_wf []"
  by (simp add: hm_wf_def)

lemma hm_wf_insert [simp]: "hm_wf m \<Longrightarrow> hm_wf (hm_insert k v m)"
  by (simp add: hm_wf_def hm_insert_def distinct_update)

lemma hm_wf_remove [simp]: "hm_wf m \<Longrightarrow> hm_wf (hm_remove k m)"
  by (simp add: hm_wf_def hm_remove_def distinct_delete)

lemma hm_map_keys [simp]: "map fst (hm_map f m) = map fst m"
  by (induction m) (auto simp: hm_map_def)

lemma hm_wf_map [simp]: "hm_wf (hm_map f m) = hm_wf m"
  by (simp add: hm_wf_def)

lemma hm_wf_retain [simp]: "hm_wf m \<Longrightarrow> hm_wf (hm_retain p m)"
  by (induction m) (auto simp: hm_wf_def hm_retain_def)

lemma hm_get_in_set: "hm_get m k = Some v \<Longrightarrow> (k, v) \<in> set m"
  by (simp add: hm_get_def map_of_SomeD)

lemma hm_get_iff: "hm_wf m \<Longrightarrow> hm_get m k = Some v \<longleftrightarrow> (k, v) \<in> set m"
  by (simp add: hm_get_def hm_wf_def)

lemma hm_values_iff: "hm_wf m \<Longrightarrow> v \<in> set (hm_values m) \<longleftrightarrow> (\<exists>k. hm_get m k = Some v)"
  by (force simp: hm_values_def hm_get_iff)

text \<open>Counting the values that satisfy a predicate, as the code does with \<open>filter().count()\<close>.\<close>

definition hm_count :: "('v \<Rightarrow> bool) \<Rightarrow> ('k, 'v) hashmap \<Rightarrow> nat" where
  "hm_count p m = length (filter p (hm_values m))"

lemma hm_count_simps [simp]:
  "hm_count p [] = 0"
  "hm_count p ((k, v) # m) = (if p v then Suc (hm_count p m) else hm_count p m)"
  by (simp_all add: hm_count_def hm_values_def)

lemma hm_count_map: "hm_count p (hm_map f m) = hm_count (p \<circ> f) m"
  by (induction m) (auto simp: hm_map_def)

lemma hm_count_mono: "(\<And>v. v \<in> snd ` set m \<Longrightarrow> p v \<Longrightarrow> q v) \<Longrightarrow> hm_count p m \<le> hm_count q m"
proof (induction m)
  case Nil
  then show ?case by simp
next
  case (Cons e m)
  then have "hm_count p m \<le> hm_count q m" by simp
  with Cons.prems show ?case by (cases e) auto
qed

lemma hm_count_map_le: "(\<And>v. p (f v) \<Longrightarrow> p v) \<Longrightarrow> hm_count p (hm_map f m) \<le> hm_count p m"
  unfolding hm_count_map by (rule hm_count_mono) simp

lemma hm_count_retain_le: "hm_count p (hm_retain q m) \<le> hm_count p m"
  by (induction m) (auto simp: hm_retain_def)

lemma hm_count_insert_le: "hm_count p (hm_insert k v m) \<le> Suc (hm_count p m)"
  by (induction m) (auto simp: hm_insert_def)

lemma hm_count_insert_not: "\<not> p v \<Longrightarrow> hm_count p (hm_insert k v m) \<le> hm_count p m"
  by (induction m) (auto simp: hm_insert_def)

lemma hm_count_insert_same: "hm_get m k = Some v \<Longrightarrow> p v \<Longrightarrow> hm_count p (hm_insert k w m) \<le> hm_count p m"
  by (induction m) (auto simp: hm_insert_def hm_get_def)

lemma hm_count_remove_le: "hm_count p (hm_remove k m) \<le> hm_count p m"
  by (induction m) (auto simp: hm_remove_def)

lemma hm_count_zero_iff: "hm_count p m = 0 \<longleftrightarrow> (\<forall>v \<in> set (hm_values m). \<not> p v)"
  by (auto simp: hm_count_def filter_empty_conv)

lemma hm_insert_same [simp]: "hm_get m k = Some v \<Longrightarrow> hm_insert k v m = m"
  by (induction m) (auto simp: hm_insert_def hm_get_def)

lemma hm_count_card:
  assumes "hm_wf m"
  shows "hm_count p m = card {k. \<exists>v. hm_get m k = Some v \<and> p v}"
proof -
  have "hm_count p m = length (filter (\<lambda>(k, v). p v) m)"
    by (simp add: hm_count_def hm_values_def filter_map comp_def case_prod_beta')
  also have "\<dots> = length (map fst (filter (\<lambda>(k, v). p v) m))"
    by simp
  also have "\<dots> = card (set (map fst (filter (\<lambda>(k, v). p v) m)))"
    using assms by (intro distinct_card [symmetric]) (simp add: hm_wf_def distinct_map_filter)
  also have "set (map fst (filter (\<lambda>(k, v). p v) m)) = {k. \<exists>v. hm_get m k = Some v \<and> p v}"
    using assms by (force simp: hm_get_iff)
  finally show ?thesis .
qed

lemma hm_count_le:
  assumes "hm_wf m" "hm_wf m'"
    and "\<And>k v'. hm_get m' k = Some v' \<Longrightarrow> p v' \<Longrightarrow> \<exists>v. hm_get m k = Some v \<and> p v"
  shows "hm_count p m' \<le> hm_count p m"
proof -
  have "{k. \<exists>v. hm_get m k = Some v \<and> p v} \<subseteq> fst ` set m"
    by (force dest: hm_get_in_set)
  then have "finite {k. \<exists>v. hm_get m k = Some v \<and> p v}"
    by (rule finite_subset) simp
  then show ?thesis
    using assms by (auto simp: hm_count_card intro!: card_mono)
qed

text \<open>A loop that updates the entries of a list of keys one after the other.\<close>

definition hm_update :: "('v \<Rightarrow> 'v) \<Rightarrow> 'k \<Rightarrow> ('k, 'v) hashmap \<Rightarrow> ('k, 'v) hashmap" where
  "hm_update f k m = (case hm_get m k of None \<Rightarrow> m | Some v \<Rightarrow> hm_insert k (f v) m)"

lemma hm_wf_update [simp]: "hm_wf m \<Longrightarrow> hm_wf (hm_update f k m)"
  by (simp add: hm_update_def split: option.split)

lemma hm_get_update: "hm_get (hm_update f k m) k' = (if k' = k then map_option f (hm_get m k) else hm_get m k')"
  by (auto simp: hm_update_def split: option.split)

lemma hm_wf_update_all [simp]: "hm_wf m \<Longrightarrow> hm_wf (fold (hm_update f) ks m)"
  by (induction ks arbitrary: m) simp_all

lemma hm_get_update_all:
  "distinct ks \<Longrightarrow> hm_get (fold (hm_update f) ks m) k = (if k \<in> set ks then map_option f (hm_get m k) else hm_get m k)"
  by (induction ks arbitrary: m) (auto simp: hm_get_update)

lemma hm_keys_where:
  "hm_wf m \<Longrightarrow> distinct (map fst (filter (\<lambda>(k, v). p v) m))"
  "hm_wf m \<Longrightarrow> k \<in> set (map fst (filter (\<lambda>(k, v). p v) m)) \<longleftrightarrow> (\<exists>v. hm_get m k = Some v \<and> p v)"
  by (simp add: hm_wf_def distinct_map_filter) (force simp: hm_get_iff)

lemma hm_get_update_where:
  assumes "hm_wf m"
  shows "hm_get (fold (hm_update f) (map fst (filter (\<lambda>(k, v). p v) m)) m) k =
    map_option (\<lambda>v. if p v then f v else v) (hm_get m k)"
  using hm_keys_where [OF assms, where p = p] by (cases "hm_get m k") (auto simp: hm_get_update_all)

text \<open>An invariant of the entries of a map.\<close>

definition hm_all :: "('k \<Rightarrow> 'v \<Rightarrow> bool) \<Rightarrow> ('k, 'v) hashmap \<Rightarrow> bool" where
  "hm_all P m = (hm_wf m \<and> list_all (\<lambda>(k, v). P k v) m)"

lemma hm_all_iff: "hm_all P m \<longleftrightarrow> hm_wf m \<and> (\<forall>k v. hm_get m k = Some v \<longrightarrow> P k v)"
  by (auto simp: hm_all_def list_all_iff hm_get_iff)

lemma hm_all_wf: "hm_all P m \<Longrightarrow> hm_wf m"
  by (simp add: hm_all_def)

lemma hm_all_get: "hm_all P m \<Longrightarrow> hm_get m k = Some v \<Longrightarrow> P k v"
  by (simp add: hm_all_iff)

lemma hm_all_empty [simp]: "hm_all P []"
  by (simp add: hm_all_def)

lemma hm_all_insert: "hm_all P m \<Longrightarrow> P k v \<Longrightarrow> hm_all P (hm_insert k v m)"
  by (simp add: hm_all_iff)

lemma hm_all_remove: "hm_all P m \<Longrightarrow> hm_all P (hm_remove k m)"
  by (simp add: hm_all_iff)

lemma hm_all_retain: "hm_all P m \<Longrightarrow> hm_all P (hm_retain q m)"
  by (auto simp: hm_all_iff dest: hm_get_retain_SomeD)

section \<open>Runs\<close>

text \<open>
  The operations of a component as one alphabet: \<open>step s op\<close> is the state and the output of one
  call, \<open>run_state\<close> and \<open>run_trace\<close> those of a sequence of calls.
\<close>

fun run_state :: "('s \<Rightarrow> 'op \<Rightarrow> 's \<times> 'o) \<Rightarrow> 's \<Rightarrow> 'op list \<Rightarrow> 's" where
  "run_state step s [] = s"
| "run_state step s (x # xs) = run_state step (fst (step s x)) xs"

fun run_trace :: "('s \<Rightarrow> 'op \<Rightarrow> 's \<times> 'o) \<Rightarrow> 's \<Rightarrow> 'op list \<Rightarrow> ('op \<times> 'o) list" where
  "run_trace step s [] = []"
| "run_trace step s (x # xs) = (x, snd (step s x)) # run_trace step (fst (step s x)) xs"

lemma run_state_append [simp]:
  "run_state step s (xs @ ys) = run_state step (run_state step s xs) ys"
  by (induction xs arbitrary: s) auto

lemma run_trace_append [simp]:
  "run_trace step s (xs @ ys) = run_trace step s xs @ run_trace step (run_state step s xs) ys"
  by (induction xs arbitrary: s) auto

lemma map_fst_run_trace [simp]: "map fst (run_trace step s xs) = xs"
  by (induction xs arbitrary: s) auto

lemma run_trace_split:
  assumes "run_trace step s xs = pre @ (x, y) # post"
  shows "run_trace step s (map fst pre) = pre" and "y = snd (step (run_state step s (map fst pre)) x)"
  using assms
proof (induction pre arbitrary: s xs)
  case Nil
  { case 1 show ?case by simp }
  { case 2 then show ?case by (cases xs) auto }
next
  case (Cons a pre)
  { case 1 with Cons.IH(1) show ?case by (cases xs) auto }
  { case 2 with Cons.IH(2) show ?case by (cases xs) auto }
qed

text \<open>States that operations with the property \<open>A\<close> lead to.\<close>

definition steps_by :: "('op \<Rightarrow> bool) \<Rightarrow> ('s \<Rightarrow> 'op \<Rightarrow> 's \<times> 'o) \<Rightarrow> 's \<Rightarrow> 's \<Rightarrow> bool" where
  "steps_by A step s s' = (\<exists>xs. list_all A xs \<and> s' = run_state step s xs)"

lemma steps_by_refl [simp]: "steps_by A step s s"
  unfolding steps_by_def by (rule exI [of _ "[]"]) simp

lemma steps_by_one: "A x \<Longrightarrow> s' = fst (step s x) \<Longrightarrow> steps_by A step s s'"
  unfolding steps_by_def by (rule exI [of _ "[x]"]) simp

lemma steps_by_trans: "steps_by A step s s' \<Longrightarrow> steps_by A step s' s'' \<Longrightarrow> steps_by A step s s''"
  unfolding steps_by_def by (metis list_all_append run_state_append)

lemma steps_by_induct [consumes 1, case_names refl step]:
  assumes "steps_by A step s s'" and "P s" and "\<And>t x. P t \<Longrightarrow> A x \<Longrightarrow> P (fst (step t x))"
  shows "P s'"
proof -
  from assms(1) obtain xs where "list_all A xs" "s' = run_state step s xs" by (auto simp: steps_by_def)
  with assms(2) show ?thesis by (induction xs arbitrary: s) (auto intro: assms(3))
qed

text \<open>An invariant that every operation of a component keeps.\<close>

locale automaton_inv =
  fixes step :: "'s \<Rightarrow> 'op \<Rightarrow> 's \<times> 'o"
    and inv :: "'s \<Rightarrow> bool"
  assumes inv_step: "inv s \<Longrightarrow> inv (fst (step s x))"
begin

lemma inv_run: "inv s \<Longrightarrow> inv (run_state step s xs)"
  by (induction xs arbitrary: s) (auto intro: inv_step)

lemma inv_steps_by: "steps_by A step s s' \<Longrightarrow> inv s \<Longrightarrow> inv s'"
  by (induction rule: steps_by_induct) (auto intro: inv_step)

text \<open>What is true of the output of one call in every state of the invariant is true of every call of a run.\<close>

lemma inv_trace:
  assumes "inv s" and "\<And>s x. inv s \<Longrightarrow> P x (snd (step s x))"
  shows "\<forall>(x, y) \<in> set (run_trace step s xs). P x y"
  using assms(1)
proof (induction xs arbitrary: s)
  case Nil
  then show ?case by simp
next
  case (Cons x xs)
  from Cons.IH [OF inv_step [OF Cons.prems]] assms(2) [OF Cons.prems] show ?case by simp
qed

end

text \<open>
  Single-use resources.  \<open>wins k x y\<close> says that the call \<open>x\<close> with result \<open>y\<close> used up the resource
  \<open>k\<close>; \<open>spent k s\<close> that it can no longer be used up in \<open>s\<close>.  \<open>legal k x\<close> says that the call does not
  create a resource under the identifier \<open>k\<close>.
\<close>

locale one_shot = automaton_inv step inv
  for step :: "'s \<Rightarrow> 'op \<Rightarrow> 's \<times> 'o"
    and inv :: "'s \<Rightarrow> bool" +
  fixes wins :: "'k \<Rightarrow> 'op \<Rightarrow> 'o \<Rightarrow> bool"
    and spent :: "'k \<Rightarrow> 's \<Rightarrow> bool"
    and legal :: "'k \<Rightarrow> 'op \<Rightarrow> bool"
  assumes win_spends: "inv s \<Longrightarrow> wins k x (snd (step s x)) \<Longrightarrow> spent k (fst (step s x))"
    and spent_no_win: "inv s \<Longrightarrow> spent k s \<Longrightarrow> \<not> wins k x (snd (step s x))"
    and spent_step: "inv s \<Longrightarrow> legal k x \<Longrightarrow> spent k s \<Longrightarrow> spent k (fst (step s x))"
begin

text \<open>
  Every use is paid for by a creation: a run uses \<open>k\<close> at most as often as it creates \<open>k\<close>, plus once
  if \<open>k\<close> was usable at the start.
\<close>

lemma wins_bounded:
  "inv s \<Longrightarrow> length (filter (\<lambda>(x, y). wins k x y) (run_trace step s xs))
     \<le> (if spent k s then 0 else 1) + length (filter (\<lambda>x. \<not> legal k x) xs)"
proof (induction xs arbitrary: s)
  case Nil
  then show ?case by simp
next
  case (Cons x xs)
  let ?s = "fst (step s x)"
  have IH: "length (filter (\<lambda>(x, y). wins k x y) (run_trace step ?s xs))
      \<le> (if spent k ?s then 0 else 1) + length (filter (\<lambda>x. \<not> legal k x) xs)"
    using Cons.prems by (intro Cons.IH inv_step)
  show ?case
  proof (cases "wins k x (snd (step s x))")
    case True
    with Cons.prems have "spent k ?s" "\<not> spent k s"
      using win_spends spent_no_win by blast+
    with IH True show ?thesis by simp
  next
    case False
    have "legal k x \<Longrightarrow> spent k s \<Longrightarrow> spent k ?s"
      using Cons.prems by (rule spent_step)
    with IH False show ?thesis by (auto split: if_splits)
  qed
qed

lemma spent_steps_by:
  assumes "steps_by A step s s'" and "inv s" and "spent k s" and "\<And>x. A x \<Longrightarrow> legal k x"
  shows "spent k s'"
proof -
  from assms(1) have "inv s' \<and> spent k s'"
    by (induction rule: steps_by_induct) (use assms in \<open>auto intro: inv_step spent_step\<close>)
  then show ?thesis ..
qed

lemma spent_wins_bounded:
  "inv s \<Longrightarrow> spent k s \<Longrightarrow> length (filter (\<lambda>(x, y). wins k x y) (run_trace step s xs))
     \<le> length (filter (\<lambda>x. \<not> legal k x) xs)"
  using wins_bounded [of s k xs] by simp

end

end
