(* ===== verification/Rust_Strings.thy ===== *)
theory Rust_Strings
  imports Prelude "HOL-Library.Sublist"
begin

text \<open>
  The part of Rust's \<open>str\<close> that the sources use.  A \<open>String\<close> is the list of the bytes of its UTF-8
  encoding (a \<open>char\<close> of HOL is one byte), so \<open>len\<close> is \<open>length\<close>, comparison is the bytewise
  lexicographic order of \<open>List_Lexorder\<close>, and \<open>trim\<close> removes the encodings of the code points
  with the Unicode property White_Space at both ends.
\<close>

section \<open>Trimming\<close>

definition ws_seqs :: "string list" where
  "ws_seqs =
     [[CHR 0x09], [CHR 0x0A], [CHR 0x0B], [CHR 0x0C], [CHR 0x0D], [CHR 0x20],
      [CHR 0xC2, CHR 0x85], [CHR 0xC2, CHR 0xA0], [CHR 0xE1, CHR 0x9A, CHR 0x80],
      [CHR 0xE2, CHR 0x80, CHR 0x80], [CHR 0xE2, CHR 0x80, CHR 0x81],
      [CHR 0xE2, CHR 0x80, CHR 0x82], [CHR 0xE2, CHR 0x80, CHR 0x83],
      [CHR 0xE2, CHR 0x80, CHR 0x84], [CHR 0xE2, CHR 0x80, CHR 0x85],
      [CHR 0xE2, CHR 0x80, CHR 0x86], [CHR 0xE2, CHR 0x80, CHR 0x87],
      [CHR 0xE2, CHR 0x80, CHR 0x88], [CHR 0xE2, CHR 0x80, CHR 0x89],
      [CHR 0xE2, CHR 0x80, CHR 0x8A], [CHR 0xE2, CHR 0x80, CHR 0xA8],
      [CHR 0xE2, CHR 0x80, CHR 0xA9], [CHR 0xE2, CHR 0x80, CHR 0xAF],
      [CHR 0xE2, CHR 0x81, CHR 0x9F], [CHR 0xE3, CHR 0x80, CHR 0x80]]"

fun starts_with :: "string \<Rightarrow> string \<Rightarrow> bool" where
  "starts_with s [] = True"
| "starts_with [] (p # ps) = False"
| "starts_with (x # xs) (p # ps) = (x = p \<and> starts_with xs ps)"

definition ends_with :: "string \<Rightarrow> string \<Rightarrow> bool" where
  "ends_with s p = starts_with (rev s) (rev p)"

fun contains_str :: "string \<Rightarrow> string \<Rightarrow> bool" where
  "contains_str [] p = (p = [])"
| "contains_str (x # xs) p = (starts_with (x # xs) p \<or> contains_str xs p)"

lemma starts_with_prefix: "starts_with s p \<longleftrightarrow> prefix p s"
  by (induction s p rule: starts_with.induct) auto

lemma ends_with_suffix: "ends_with s p \<longleftrightarrow> suffix p s"
  by (simp add: ends_with_def starts_with_prefix suffix_to_prefix)

lemma contains_str_sublist: "contains_str s p \<longleftrightarrow> sublist p s"
  by (induction s) (auto simp: starts_with_prefix sublist_Cons_right)

lemma contains_str_set: "contains_str s p \<Longrightarrow> set p \<subseteq> set s"
  by (simp add: contains_str_sublist set_mono_sublist)

lemma starts_with_set: "starts_with s p \<Longrightarrow> set p \<subseteq> set s"
  by (simp add: starts_with_prefix set_mono_prefix)

text \<open>
  \<open>strip ws s\<close> removes leading members of \<open>ws\<close> for as long as there is one (the empty word is
  never removed).
\<close>

function strip :: "string list \<Rightarrow> string \<Rightarrow> string" where
  "strip ws s =
     (case find (\<lambda>w. w \<noteq> [] \<and> starts_with s w) ws of
        None \<Rightarrow> s
      | Some w \<Rightarrow> strip ws (drop (length w) s))"
  by pat_completeness auto
termination
proof (relation "measure (\<lambda>(ws, s). length s)")
  show "wf (measure (\<lambda>(ws, s). length s))" by simp
next
  fix ws s w
  assume "find (\<lambda>w. w \<noteq> [] \<and> starts_with s w) ws = Some w"
  then have "w \<noteq> []" and "prefix w s"
    by (auto simp: find_Some_iff starts_with_prefix)
  then show "((ws, drop (length w) s), ws, s) \<in> measure (\<lambda>(ws, s). length s)"
    by (auto simp: prefix_def)
qed

declare strip.simps [simp del]

definition trim_start :: "string \<Rightarrow> string" where
  "trim_start s = strip ws_seqs s"

definition trim_end :: "string \<Rightarrow> string" where
  "trim_end s = rev (strip (map rev ws_seqs) (rev s))"

definition trim :: "string \<Rightarrow> string" where
  "trim s = trim_end (trim_start s)"

definition stripped :: "string list \<Rightarrow> string \<Rightarrow> bool" where
  "stripped ws s = (\<forall>w \<in> set ws. w \<noteq> [] \<longrightarrow> \<not> prefix w s)"

lemma find_ws_None:
  "find (\<lambda>w. w \<noteq> [] \<and> starts_with s w) ws = None \<longleftrightarrow> stripped ws s"
  by (auto simp: find_None_iff stripped_def starts_with_prefix)

lemma strip_id: "stripped ws s \<Longrightarrow> strip ws s = s"
  by (subst strip.simps) (simp add: find_ws_None [symmetric])

lemma strip_props: "suffix (strip ws s) s \<and> stripped ws (strip ws s)"
proof (induction ws s rule: strip.induct)
  case (1 ws s)
  show ?case
  proof (cases "find (\<lambda>w. w \<noteq> [] \<and> starts_with s w) ws")
    case None
    then have "stripped ws s" by (simp add: find_ws_None)
    then show ?thesis by (simp add: strip_id)
  next
    case (Some w)
    then have eq: "strip ws s = strip ws (drop (length w) s)"
      by (subst strip.simps) simp
    from "1.IH" [OF Some] show ?thesis
      by (auto simp: eq intro: suffix_order.trans suffix_drop)
  qed
qed

lemma stripped_prefix: "stripped ws s \<Longrightarrow> prefix t s \<Longrightarrow> stripped ws t"
  by (auto simp: stripped_def dest: prefix_order.trans)

lemma trim_end_prefix: "prefix (trim_end s) s"
  using strip_props [of "map rev ws_seqs" "rev s"] by (simp add: trim_end_def suffix_to_prefix)

lemma trim_stripped:
  "stripped ws_seqs (trim s)" "stripped (map rev ws_seqs) (rev (trim s))"
  using strip_props [of ws_seqs s] strip_props [of "map rev ws_seqs" "rev (trim_start s)"]
    stripped_prefix [OF _ trim_end_prefix [of "trim_start s"]]
  by (simp_all add: trim_def trim_start_def trim_end_def)

lemma trim_idI: "stripped ws_seqs s \<Longrightarrow> stripped (map rev ws_seqs) (rev s) \<Longrightarrow> trim s = s"
  by (simp add: trim_def trim_start_def trim_end_def strip_id)

lemma trim_trim [simp]: "trim (trim s) = trim s"
  by (rule trim_idI) (rule trim_stripped)+

lemma trim_sublist: "sublist (trim s) s"
proof -
  have "sublist (trim s) (trim_start s)"
    by (simp add: trim_def trim_end_prefix prefix_imp_sublist)
  also have "sublist (trim_start s) s"
    using strip_props [of ws_seqs s] by (simp add: trim_start_def suffix_imp_sublist)
  finally show ?thesis .
qed

lemma trim_set: "set (trim s) \<subseteq> set s"
  by (rule set_mono_sublist) (rule trim_sublist)

text \<open>A string that begins and ends with characters of no white-space sequence is not changed.\<close>

definition ws_chars :: "char set" where
  "ws_chars = \<Union> (set ` set ws_seqs)"

lemma trim_no_ws:
  assumes "set s \<inter> ws_chars = {}"
  shows "trim s = s"
proof (rule trim_idI)
  have pre: "set w \<inter> ws_chars = {}" if "prefix w s \<or> prefix w (rev s)" for w
    using that assms by (auto simp: prefix_def rev_eq_append_conv)
  have ws: "w = []" if "w \<in> set ws_seqs" "set w \<inter> ws_chars = {}" for w
    using that by (cases w rule: list.exhaust) (auto simp: ws_chars_def)
  show "stripped ws_seqs s"
    using pre ws by (auto simp: stripped_def)
  show "stripped (map rev ws_seqs) (rev s)"
    using pre ws by (fastforce simp: stripped_def)
qed

section \<open>Lower case\<close>

definition lower_char :: "char \<Rightarrow> char" where
  "lower_char c = (if CHR ''A'' \<le> c \<and> c \<le> CHR ''Z'' then char_of (of_char c + (32 :: nat)) else c)"

definition to_ascii_lowercase :: "string \<Rightarrow> string" where
  "to_ascii_lowercase s = map lower_char s"

lemma of_lower_char:
  "(of_char (lower_char c) :: nat) =
     (if 65 \<le> (of_char c :: nat) \<and> of_char c \<le> (90 :: nat) then of_char c + 32 else of_char c)"
  by (auto simp: lower_char_def less_eq_char_def of_char_of)

lemma lower_char_idem [simp]: "lower_char (lower_char c) = lower_char c"
proof -
  have "(of_char (lower_char (lower_char c)) :: nat) = of_char (lower_char c)"
    by (auto simp: of_lower_char)
  then show ?thesis by simp
qed

lemma to_ascii_lowercase_idem [simp]: "to_ascii_lowercase (to_ascii_lowercase s) = to_ascii_lowercase s"
  by (simp add: to_ascii_lowercase_def)

lemma length_to_ascii_lowercase [simp]: "length (to_ascii_lowercase s) = length s"
  by (simp add: to_ascii_lowercase_def)

lemma to_ascii_lowercase_Nil [simp]: "to_ascii_lowercase s = [] \<longleftrightarrow> s = []"
  by (simp add: to_ascii_lowercase_def)

text \<open>The normal form used for relying-party identifiers throughout: \<open>trim().to_ascii_lowercase()\<close>.\<close>

definition normalize :: "string \<Rightarrow> string" where
  "normalize s = to_ascii_lowercase (trim s)"

text \<open>No upper-case letter is part of a white-space sequence, so the two steps commute.\<close>

definition no_upper :: "char \<Rightarrow> bool" where
  "no_upper c = (of_char c < (65 :: nat) \<or> (122 :: nat) < of_char c)"

lemma ws_chars_no_upper: "c \<in> ws_chars \<Longrightarrow> no_upper c"
  by (auto simp: ws_chars_def ws_seqs_def no_upper_def)

lemma lower_char_ws_iff: "no_upper w \<Longrightarrow> lower_char c = w \<longleftrightarrow> c = w"
proof -
  assume w: "no_upper w"
  have "lower_char c = w \<longleftrightarrow> (of_char (lower_char c) :: nat) = of_char w"
    by simp
  also have "\<dots> \<longleftrightarrow> (of_char c :: nat) = of_char w"
    using w by (auto simp: of_lower_char no_upper_def)
  finally show ?thesis by simp
qed

lemma starts_with_lower:
  "\<forall>c \<in> set w. no_upper c \<Longrightarrow> starts_with (map lower_char s) w = starts_with s w"
  by (induction s w rule: starts_with.induct) (auto simp: lower_char_ws_iff)

lemma strip_lower:
  assumes "\<forall>w \<in> set ws. \<forall>c \<in> set w. no_upper c"
  shows "strip ws (map lower_char s) = map lower_char (strip ws s)"
  using assms
proof (induction ws s rule: strip.induct)
  case (1 ws s)
  have f: "find (\<lambda>w. w \<noteq> [] \<and> starts_with (map lower_char s) w) ws =
      find (\<lambda>w. w \<noteq> [] \<and> starts_with s w) ws"
    by (rule find_cong) (use "1.prems" in \<open>auto simp: starts_with_lower\<close>)
  show ?case
  proof (cases "find (\<lambda>w. w \<noteq> [] \<and> starts_with s w) ws")
    case None
    then show ?thesis by (simp add: f strip.simps [of ws "map lower_char s"] strip.simps [of ws s])
  next
    case (Some w)
    with "1.IH" [OF Some "1.prems"] show ?thesis
      by (simp add: f strip.simps [of ws "map lower_char s"] strip.simps [of ws s] drop_map)
  qed
qed

lemma trim_lower: "trim (to_ascii_lowercase s) = to_ascii_lowercase (trim s)"
proof -
  have "\<forall>w \<in> set ws_seqs. \<forall>c \<in> set w. no_upper c"
    using ws_chars_no_upper by (auto simp: ws_chars_def)
  then show ?thesis
    by (simp add: trim_def trim_start_def trim_end_def to_ascii_lowercase_def strip_lower rev_map)
qed

lemma normalize_idem [simp]: "normalize (normalize s) = normalize s"
  by (simp add: normalize_def trim_lower)

lemma trim_normalize [simp]: "trim (normalize s) = normalize s"
  by (simp add: normalize_def trim_lower)

lemma lower_normalize [simp]: "to_ascii_lowercase (normalize s) = normalize s"
  by (simp add: normalize_def)

lemma normalize_trim [simp]: "normalize (trim s) = normalize s"
  by (simp add: normalize_def)

lemma normalize_lower [simp]: "normalize (to_ascii_lowercase s) = normalize s"
  by (simp add: normalize_def trim_lower)

lemma ex_normalize [simp]: "normalize ''A.b'' = ''a.b''" "normalize ''a.b'' = ''a.b''"
  by code_simp+

section \<open>Splitting\<close>

text \<open>\<open>s.split(c)\<close>: always at least one piece, an empty piece between adjacent separators.\<close>

fun split_on :: "char \<Rightarrow> string \<Rightarrow> string list" where
  "split_on c [] = [[]]"
| "split_on c (x # xs) =
     (if x = c then [] # split_on c xs
      else (case split_on c xs of [] \<Rightarrow> [[x]] | y # ys \<Rightarrow> (x # y) # ys))"

lemma split_on_nonempty [simp]: "split_on c s \<noteq> []"
  by (induction s) (auto split: list.splits)

lemma split_on_set: "x \<in> set s \<Longrightarrow> x = c \<or> (\<exists>l \<in> set (split_on c s). x \<in> set l)"
  by (induction s) (auto split: list.splits)

lemma split_on_sep: "l \<in> set (split_on c s) \<Longrightarrow> x \<in> set l \<Longrightarrow> x \<noteq> c \<and> x \<in> set s"
proof (induction s arbitrary: l)
  case (Cons y s)
  then show ?case
    by (cases "split_on c s") (auto split: if_splits, blast+)
qed simp

text \<open>\<open>strip_prefix\<close>, \<open>strip_suffix\<close> with one character, and what follows the last occurrence of a character (\<open>rfind\<close>).\<close>

definition strip_prefix :: "string \<Rightarrow> string \<Rightarrow> string option" where
  "strip_prefix s p = (if starts_with s p then Some (drop (length p) s) else None)"

definition strip_suffix_char :: "string \<Rightarrow> char \<Rightarrow> string option" where
  "strip_suffix_char s c = (if s \<noteq> [] \<and> last s = c then Some (butlast s) else None)"

definition after_last :: "char \<Rightarrow> string \<Rightarrow> string option" where
  "after_last c s = (if c \<in> set s then Some (rev (takeWhile (\<lambda>x. x \<noteq> c) (rev s))) else None)"

lemma strip_prefix_append [simp]: "strip_prefix (p @ s) p = Some s"
  by (simp add: strip_prefix_def starts_with_prefix)

section \<open>Bytes\<close>

definition as_bytes :: "string \<Rightarrow> bytes" where
  "as_bytes s = map of_char s"

definition byte_char :: "u8 \<Rightarrow> char" where
  "byte_char b = char_of (unat b)"

lemma byte_char_of_char [simp]: "byte_char (of_char c) = c"
proof -
  have "unat (of_nat (of_char c) :: u8) = of_char c"
    using of_char_mod_256 [of c, where ?'a = nat] by (simp add: unsigned_of_nat take_bit_eq_mod)
  then have "unat (of_char c :: u8) = of_char c" by (simp only: of_nat_of_char)
  then show ?thesis by (simp add: byte_char_def)
qed

lemma map_byte_char_as_bytes [simp]: "map byte_char (as_bytes s) = s"
  by (simp add: as_bytes_def comp_def)

lemma as_bytes_byte_char: "as_bytes (map byte_char bs) = bs"
proof -
  have "of_char (byte_char b) = b" for b :: u8
  proof -
    have "(of_char (char_of (unat b)) :: nat) = unat b"
      using unsigned_less [of b, where ?'a = nat] by simp
    then have "(of_nat (of_char (char_of (unat b))) :: u8) = b" by simp
    then show ?thesis by (simp only: byte_char_def of_nat_of_char)
  qed
  then show ?thesis by (simp add: as_bytes_def comp_def)
qed

lemma length_as_bytes [simp]: "length (as_bytes s) = length s"
  by (simp add: as_bytes_def)

lemma as_bytes_inj [simp]: "as_bytes s = as_bytes t \<longleftrightarrow> s = t"
  by (metis map_byte_char_as_bytes)

section \<open>Integers as bytes\<close>

text \<open>\<open>to_le_bytes\<close> and \<open>from_le_bytes\<close> of the unsigned integer types.\<close>

definition to_le_bytes :: "'a::len word \<Rightarrow> bytes" where
  "to_le_bytes w = map (\<lambda>i. ucast (drop_bit (8 * i) w)) [0..<LENGTH('a) div 8]"

fun le_value :: "bytes \<Rightarrow> nat" where
  "le_value [] = 0"
| "le_value (b # bs) = unat b + 256 * le_value bs"

definition from_le_bytes :: "bytes \<Rightarrow> 'a::len word" where
  "from_le_bytes bs = of_nat (le_value bs)"

lemma length_to_le_bytes [simp]: "length (to_le_bytes (w :: 'a::len word)) = LENGTH('a) div 8"
  by (simp add: to_le_bytes_def)

lemma to_le_bytes_inj:
  assumes "8 dvd LENGTH('a::len)"
  shows "to_le_bytes (v :: 'a word) = to_le_bytes w \<longleftrightarrow> v = w"
proof
  assume eq: "to_le_bytes v = to_le_bytes w"
  show "v = w"
  proof (rule bit_word_eqI)
    fix n assume n: "n < LENGTH('a)"
    let ?i = "n div 8"
    from n assms have i: "?i < LENGTH('a) div 8" by (auto elim!: dvdE)
    then have "to_le_bytes v ! ?i = to_le_bytes w ! ?i" using eq by simp
    with i have "(ucast (drop_bit (8 * ?i) v) :: u8) = ucast (drop_bit (8 * ?i) w)"
      by (simp add: to_le_bytes_def)
    then have "bit (ucast (drop_bit (8 * ?i) v) :: u8) (n mod 8) = bit (ucast (drop_bit (8 * ?i) w) :: u8) (n mod 8)"
      by simp
    then show "bit v n = bit w n" by (simp add: bit_simps)
  qed
qed simp

lemma le_value_append: "le_value (xs @ ys) = le_value xs + 256 ^ length xs * le_value ys"
  by (induction xs) (simp_all add: algebra_simps)

lemma unat_byte: "unat (ucast (drop_bit (8 * n) w) :: u8) = unat w div 256 ^ n mod 256"
  by (simp add: unsigned_ucast_eq unsigned_take_bit_eq unat_drop_bit_eq take_bit_eq_mod drop_bit_eq_div [where 'a = nat] power_mult)

lemma le_value_bytes: "le_value (map (\<lambda>i. ucast (drop_bit (8 * i) w)) [0..<n]) = unat w mod 256 ^ n"
proof (induction n)
  case (Suc n)
  have "unat w mod (256 ^ n * 256) = 256 ^ n * (unat w div 256 ^ n mod 256) + unat w mod 256 ^ n" by (rule mod_mult2_eq)
  with Suc show ?case by (simp add: le_value_append unat_byte power_Suc2 del: power_Suc)
qed simp

lemma from_to_le_bytes [simp]:
  assumes "8 dvd LENGTH('a::len)"
  shows "from_le_bytes (to_le_bytes (w :: 'a word)) = w"
proof -
  have "(256 :: nat) ^ (LENGTH('a) div 8) = 2 ^ LENGTH('a)"
    using assms power_mult [of "2 :: nat" 8 "LENGTH('a) div 8"] by simp
  then have "le_value (to_le_bytes w) = unat w" by (simp add: to_le_bytes_def le_value_bytes unsigned_less)
  then show ?thesis by (simp add: from_le_bytes_def)
qed

section \<open>Slices\<close>

text \<open>\<open>data[a..b]\<close>.\<close>

definition slice :: "nat \<Rightarrow> nat \<Rightarrow> 'a list \<Rightarrow> 'a list" where
  "slice a b xs = take (b - a) (drop a xs)"

lemma length_slice: "length (slice a b xs) = min (b - a) (length xs - a)"
  by (simp add: slice_def)

section \<open>Decimal numbers\<close>

text \<open>The \<open>Display\<close> of an unsigned integer.\<close>

fun show_nat :: "nat \<Rightarrow> string" where
  "show_nat n = (if n < 10 then [char_of (48 + n)] else show_nat (n div 10) @ [char_of (48 + n mod 10)])"

declare show_nat.simps [simp del]

end
