(* ===== verification/Ids.thy ===== *)
theory Ids
  imports Rust_Strings
begin

text \<open>
  The identifiers of \<open>passless-core/src/agent/ids.rs\<close>: opaque random identifiers, profile names and
  credential references.  The crates \<open>hex\<close>, \<open>sha2\<close> and \<open>rand\<close> are not part of the repository:
  \<open>hex_encode\<close>, \<open>hex_decode\<close>, \<open>sha256\<close> and the random bytes are arguments of the definitions.
\<close>

section \<open>Errors\<close>

datatype id_error =
    Empty string
  | PathTraversal string
  | PathSeparator string
  | NullByte string
  | ControlCharacter string
  | TooLong string nat
  | Whitespace string
  | InvalidFormat string
  | InvalidHex string

section \<open>Opaque identifiers\<close>

definition OPAQUE_ID_BYTES :: nat where "OPAQUE_ID_BYTES = 32"
definition MAX_PROFILE_ID_LEN :: nat where "MAX_PROFILE_ID_LEN = 128"

datatype principal_session_id = PrincipalSessionId string
datatype endpoint_id = EndpointId string
datatype policy_generation_id = PolicyGenerationId string
datatype intent_id = IntentId (intent_id_str: string)
datatype grant_id = GrantId (grant_id_str: string)
datatype pending_request_id = PendingRequestId (pending_request_id_str: string)
datatype registration_grant_id = RegistrationGrantId string

text \<open>\<open>new\<close>: the hexadecimal form of \<open>OPAQUE_ID_BYTES\<close> random bytes.\<close>

definition opaque_new :: "(bytes \<Rightarrow> string) \<Rightarrow> bytes \<Rightarrow> string" where
  "opaque_new hex_encode rnd = hex_encode (take OPAQUE_ID_BYTES rnd)"

definition is_ascii_lowercase :: "char \<Rightarrow> bool" where
  "is_ascii_lowercase c = (CHR ''a'' \<le> c \<and> c \<le> CHR ''z'')"

definition is_ascii_digit :: "char \<Rightarrow> bool" where
  "is_ascii_digit c = (CHR ''0'' \<le> c \<and> c \<le> CHR ''9'')"

text \<open>\<open>FromStr\<close> of the macro \<open>opaque_id!\<close>; \<open>name\<close> is \<open>stringify!($name)\<close>.\<close>

definition opaque_from_str :: "(string \<Rightarrow> bytes option) \<Rightarrow> string \<Rightarrow> string \<Rightarrow> id_error + string" where
  "opaque_from_str hex_decode name s =
     (if s = [] then Err (Empty name)
      else if length s \<noteq> OPAQUE_ID_BYTES * 2 then
        Err (InvalidHex (name @ '' must be '' @ show_nat (OPAQUE_ID_BYTES * 2) @
               '' hex characters, got '' @ show_nat (length s)))
      else if \<not> list_all (\<lambda>c. is_ascii_lowercase c \<or> is_ascii_digit c) s then
        Err (InvalidHex (name @ '' must be lowercase hex, got: '' @ s))
      else if hex_decode s = None then
        Err (InvalidHex (name @ '' contains invalid hex characters: '' @ s))
      else Ok s)"

section \<open>Profile identifiers\<close>

datatype profile_id = ProfileId (profile_id_str: string)

definition profile_id_validate :: "string \<Rightarrow> id_error + unit" where
  "profile_id_validate s =
     (if s = [] then Err (Empty ''ProfileId'')
      else if length s > MAX_PROFILE_ID_LEN then Err (TooLong ''ProfileId'' MAX_PROFILE_ID_LEN)
      else if s \<noteq> trim s then Err (Whitespace s)
      else if CHR 0x00 \<in> set s then Err (NullByte s)
      else if contains_str s ''..'' then Err (PathTraversal s)
      else if CHR ''/'' \<in> set s \<or> CHR 0x5C \<in> set s then Err (PathSeparator s)
      else if list_ex (\<lambda>b. b < CHR 0x20 \<or> b = CHR 0x7F) s then Err (ControlCharacter s)
      else if s = ''.'' then Err (PathTraversal s)
      else Ok ())"

definition profile_id_new :: "string \<Rightarrow> id_error + profile_id" where
  "profile_id_new s = (case profile_id_validate s of Inl e \<Rightarrow> Err e | Inr _ \<Rightarrow> Ok (ProfileId s))"

section \<open>Credential references\<close>

datatype credential_ref = CredentialRef (cred_bytes: bytes)

definition CREDENTIAL_REF_DOMAIN_SEPARATOR :: string where
  "CREDENTIAL_REF_DOMAIN_SEPARATOR = ''passless/credential-ref/v1''"

definition credential_ref_new :: "(bytes \<Rightarrow> bytes) \<Rightarrow> string \<Rightarrow> bytes \<Rightarrow> credential_ref" where
  "credential_ref_new sha256 domain_separator credential_id =
     CredentialRef (sha256 (as_bytes domain_separator @ credential_id))"

definition with_default_domain :: "(bytes \<Rightarrow> bytes) \<Rightarrow> bytes \<Rightarrow> credential_ref" where
  "with_default_domain sha256 credential_id =
     credential_ref_new sha256 CREDENTIAL_REF_DOMAIN_SEPARATOR credential_id"

definition cred_to_hex :: "(bytes \<Rightarrow> string) \<Rightarrow> credential_ref \<Rightarrow> string" where
  "cred_to_hex hex_encode c = hex_encode (cred_bytes c)"

definition cred_from_hex :: "(string \<Rightarrow> bytes option) \<Rightarrow> string \<Rightarrow> id_error + credential_ref" where
  "cred_from_hex hex_decode s =
     (case hex_decode s of
        None \<Rightarrow> Err (InvalidHex (''invalid hex: '' @ s))
      | Some bs \<Rightarrow>
          if length bs \<noteq> 32 then Err (InvalidHex (''expected 32 bytes, got '' @ show_nat (length bs)))
          else Ok (CredentialRef bs))"

text \<open>Types of other modules that the identifiers travel with: policy digests and ceremony actions.\<close>

datatype policy_digest = PolicyDigest (digest_bytes: bytes)

datatype intent_action = Register | Authenticate

text \<open>\<open>config.rs\<close>: the scope entry that stands for every relying party.\<close>

definition ANY_RP_ID :: string where "ANY_RP_ID = ''*''"

text \<open>References are compared by their bytes; the sorted sets of the grant registry use this order.\<close>

instantiation credential_ref :: linorder
begin

definition less_eq_credential_ref :: "credential_ref \<Rightarrow> credential_ref \<Rightarrow> bool" where
  "less_eq_credential_ref a b = (cred_bytes a \<le> cred_bytes b)"

definition less_credential_ref :: "credential_ref \<Rightarrow> credential_ref \<Rightarrow> bool" where
  "less_credential_ref a b = (cred_bytes a < cred_bytes b)"

instance
proof
  fix a b c :: credential_ref
  show "a < b \<longleftrightarrow> a \<le> b \<and> \<not> b \<le> a"
    by (auto simp: less_eq_credential_ref_def less_credential_ref_def)
  show "a \<le> a"
    by (simp add: less_eq_credential_ref_def)
  show "a \<le> b \<Longrightarrow> b \<le> c \<Longrightarrow> a \<le> c"
    unfolding less_eq_credential_ref_def by (rule order_trans)
  show "a \<le> b \<Longrightarrow> b \<le> a \<Longrightarrow> a = b"
    by (cases a; cases b) (simp add: less_eq_credential_ref_def)
  show "a \<le> b \<or> b \<le> a"
    by (auto simp: less_eq_credential_ref_def)
qed

end

section \<open>Properties\<close>

text \<open>The maps of the engine are keyed by the string of an identifier, which determines it.\<close>

lemma intent_id_str_eq: "intent_id_str a = intent_id_str b \<longleftrightarrow> a = b"
  by (cases a; cases b) simp

lemma grant_id_str_eq: "grant_id_str a = grant_id_str b \<longleftrightarrow> a = b"
  by (cases a; cases b) simp

lemma pending_request_id_str_eq: "pending_request_id_str a = pending_request_id_str b \<longleftrightarrow> a = b"
  by (cases a; cases b) simp

lemma profile_id_new_ok:
  "profile_id_new s = Ok p \<longleftrightarrow> profile_id_validate s = Ok () \<and> p = ProfileId s"
  by (auto simp: profile_id_new_def split: sum.splits)

text \<open>
  A profile identifier is safe as one component of a file-system path, and nothing else is
  rejected: the accepted strings are exactly the non-empty trimmed strings of at most 128 bytes
  with no control byte, no separator, no \<open>..\<close> and different from \<open>.\<close>.
\<close>

lemma profile_id_validate_iff:
  "profile_id_validate s = Ok () \<longleftrightarrow>
     s \<noteq> [] \<and> length s \<le> 128 \<and> trim s = s \<and> s \<noteq> ''.'' \<and> \<not> sublist ''..'' s \<and>
     CHR ''/'' \<notin> set s \<and> CHR 0x5C \<notin> set s \<and> (\<forall>c \<in> set s. CHR 0x20 \<le> c \<and> c \<noteq> CHR 0x7F)"
proof -
  have ctl: "list_ex (\<lambda>b. b < CHR 0x20 \<or> b = CHR 0x7F) s \<longleftrightarrow>
      \<not> (\<forall>c \<in> set s. CHR 0x20 \<le> c \<and> c \<noteq> CHR 0x7F)"
    unfolding list_ex_iff not_less [symmetric] by blast
  have nul: "CHR 0x00 \<notin> set s" if "\<forall>c \<in> set s. CHR 0x20 \<le> c \<and> c \<noteq> CHR 0x7F"
  proof
    assume "CHR 0x00 \<in> set s"
    with that have "CHR 0x20 \<le> CHR 0x00" by blast
    then show False by (simp add: less_eq_char_def)
  qed
  have sym: "s = trim s \<longleftrightarrow> trim s = s" by (rule eq_commute)
  show ?thesis
    unfolding profile_id_validate_def MAX_PROFILE_ID_LEN_def contains_str_sublist ctl if_err_ok not_less sym
    using nul by (simp only: not_not refl simp_thms) satx
qed

lemma opaque_from_str_ok:
  "opaque_from_str hex_decode name s = Ok t \<longleftrightarrow>
     t = s \<and> length s = 64 \<and> (\<forall>c \<in> set s. is_ascii_lowercase c \<or> is_ascii_digit c) \<and> hex_decode s \<noteq> None"
  by (auto simp: opaque_from_str_def OPAQUE_ID_BYTES_def list_all_iff)

lemma cred_hex_roundtrip:
  assumes "\<And>bs. hex_decode (hex_encode bs) = Some bs" and "length (cred_bytes c) = 32"
  shows "cred_from_hex hex_decode (cred_to_hex hex_encode c) = Ok c"
  using assms by (cases c) (simp add: cred_from_hex_def cred_to_hex_def)

end
