(* ===== verification/Ip_Literals.thy ===== *)
theory Ip_Literals
  imports Ids
begin

text \<open>
  Which strings the standard library reads as IP addresses.  A reader consumes a prefix of the input
  and returns the rest, or fails and consumes nothing; the values read are not needed.  The
  functions follow \<open>core::net::parser\<close>.
\<close>

definition to_digit :: "nat \<Rightarrow> char \<Rightarrow> nat option" where
  "to_digit radix c =
     (let n = of_char c;
          d = (if 48 \<le> n \<and> n \<le> 57 then n - 48
               else if 97 \<le> n \<and> n \<le> 122 then n - 87
               else if 65 \<le> n \<and> n \<le> 90 then n - 55
               else 36)
      in if d < radix then Some d else None)"

text \<open>\<open>read_number\<close> with a digit bound: all digits that follow are read, more than the bound fail.\<close>

fun digits_value :: "nat \<Rightarrow> string \<Rightarrow> nat \<Rightarrow> nat \<Rightarrow> nat \<times> nat \<times> string" where
  "digits_value radix [] acc n = (acc, n, [])"
| "digits_value radix (c # cs) acc n =
     (case to_digit radix c of
        None \<Rightarrow> (acc, n, c # cs)
      | Some d \<Rightarrow> digits_value radix cs (acc * radix + d) (n + 1))"

definition read_number :: "nat \<Rightarrow> nat \<Rightarrow> nat \<Rightarrow> bool \<Rightarrow> string \<Rightarrow> string option" where
  "read_number radix max_digits bound allow_zero_prefix s =
     (case digits_value radix s 0 0 of
        (v, n, rest) \<Rightarrow>
          if max_digits < n \<or> n = 0 then None
          else if \<not> allow_zero_prefix \<and> hd s = CHR ''0'' \<and> 1 < n then None
          else if bound \<le> v then None
          else Some rest)"

definition read_given_char :: "char \<Rightarrow> string \<Rightarrow> string option" where
  "read_given_char c s = (case s of [] \<Rightarrow> None | x # xs \<Rightarrow> if x = c then Some xs else None)"

definition read_separator :: "char \<Rightarrow> nat \<Rightarrow> (string \<Rightarrow> string option) \<Rightarrow> string \<Rightarrow> string option" where
  "read_separator sep index inner s =
     (if 0 < index then Option.bind (read_given_char sep s) inner else inner s)"

definition read_octet :: "string \<Rightarrow> string option" where
  "read_octet = read_number 10 3 256 False"

fun read_octets :: "nat \<Rightarrow> nat \<Rightarrow> string \<Rightarrow> string option" where
  "read_octets i 0 s = Some s"
| "read_octets i (Suc k) s = Option.bind (read_separator CHR ''.'' i read_octet s) (read_octets (Suc i) k)"

definition read_ipv4_addr :: "string \<Rightarrow> string option" where
  "read_ipv4_addr s = read_octets 0 4 s"

text \<open>\<open>read_groups\<close> with \<open>k\<close> slots left at index \<open>i\<close>: how many groups were read, and whether an IPv4 address ended them.\<close>

fun read_groups :: "nat \<Rightarrow> nat \<Rightarrow> string \<Rightarrow> nat \<times> bool \<times> string" where
  "read_groups i 0 s = (i, False, s)"
| "read_groups i (Suc k) s =
     (case (if 0 < k then read_separator CHR '':'' i read_ipv4_addr s else None) of
        Some rest \<Rightarrow> (i + 2, True, rest)
      | None \<Rightarrow>
          (case read_separator CHR '':'' i (read_number 16 4 65536 True) s of
             None \<Rightarrow> (i, False, s)
           | Some rest \<Rightarrow> read_groups (Suc i) k rest))"

definition read_ipv6_addr :: "string \<Rightarrow> string option" where
  "read_ipv6_addr s =
     (case read_groups 0 8 s of
        (head_size, head_ipv4, rest) \<Rightarrow>
          if head_size = 8 then Some rest
          else if head_ipv4 then None
          else Option.bind (read_given_char CHR '':'' rest) (\<lambda>r1.
               Option.bind (read_given_char CHR '':'' r1) (\<lambda>r2.
                 case read_groups 0 (8 - (head_size + 1)) r2 of (_, _, r3) \<Rightarrow> Some r3)))"

definition parse_ipv4 :: "string \<Rightarrow> bool" where
  "parse_ipv4 s = (length s \<le> 15 \<and> read_ipv4_addr s = Some [])"

definition parse_ipv6 :: "string \<Rightarrow> bool" where
  "parse_ipv6 s = (read_ipv6_addr s = Some [])"

definition parse_ip :: "string \<Rightarrow> bool" where
  "parse_ip s = (case read_ipv4_addr s of Some rest \<Rightarrow> rest = [] | None \<Rightarrow> read_ipv6_addr s = Some [])"

section \<open>An IPv6 address contains a colon\<close>

lemma read_given_char_Some: "read_given_char c s = Some r \<longleftrightarrow> s = c # r"
  by (cases s) (auto simp: read_given_char_def)

lemma digits_value_suffix: "digits_value radix s acc n = (v, m, rest) \<Longrightarrow> set rest \<subseteq> set s"
  by (induction radix s acc n arbitrary: v m rest rule: digits_value.induct) (fastforce split: option.splits)+

lemma read_number_suffix: "read_number radix k b z s = Some r \<Longrightarrow> set r \<subseteq> set s"
  by (auto simp: read_number_def split: prod.splits if_splits dest: digits_value_suffix)

lemma read_separator_Some:
  "read_separator sep i inner s = Some r \<Longrightarrow> (0 < i \<longrightarrow> sep \<in> set s) \<and> (\<exists>t. set t \<subseteq> set s \<and> inner t = Some r)"
  by (auto simp: read_separator_def bind_eq_Some_conv read_given_char_Some split: if_splits)

lemma read_groups_colon:
  "read_groups i k s = (n, v4, rest) \<Longrightarrow> 0 < i \<Longrightarrow> n = i \<or> CHR '':'' \<in> set s"
  by (cases k) (auto split: option.splits if_splits dest: read_separator_Some)

lemma read_groups_suffix: "read_groups i k s = (n, v4, rest) \<Longrightarrow> \<not> v4 \<Longrightarrow> set rest \<subseteq> set s"
proof (induction i k s arbitrary: n v4 rest rule: read_groups.induct)
  case (2 i k s)
  show ?case
  proof (cases "read_separator CHR '':'' i (read_number 16 4 65536 True) s")
    case None
    with "2.prems" show ?thesis by (auto split: option.splits if_splits)
  next
    case (Some r)
    then have "set r \<subseteq> set s" by (auto dest!: read_separator_Some dest: read_number_suffix)
    moreover from "2.prems" Some have g: "read_groups (Suc i) k r = (n, v4, rest)"
      and "(if 0 < k then read_separator CHR '':'' i read_ipv4_addr s else None) = None"
      by (auto split: option.splits if_splits)
    ultimately show ?thesis using "2.IH" [OF _ Some g] "2.prems" by auto
  qed
qed simp

lemma ipv6_has_colon:
  assumes "read_ipv6_addr s = Some r"
  shows "CHR '':'' \<in> set s"
proof -
  obtain n v4 rest where g: "read_groups 0 8 s = (n, v4, rest)" by (cases "read_groups 0 8 s") auto
  show ?thesis
  proof (cases "n = 8")
    case False
    with assms g have "\<not> v4" and "CHR '':'' \<in> set rest"
      by (auto simp: read_ipv6_addr_def bind_eq_Some_conv read_given_char_Some split: if_splits)
    with read_groups_suffix [OF g] show ?thesis by auto
  next
    case True
    let ?num = "read_separator CHR '':'' 0 (read_number 16 4 65536 True)"
    have eq: "read_groups 0 8 s = (case read_separator CHR '':'' 0 read_ipv4_addr s of
        Some rest \<Rightarrow> (2, True, rest)
      | None \<Rightarrow> (case ?num s of None \<Rightarrow> (0, False, s) | Some rest \<Rightarrow> read_groups 1 7 rest))"
      using read_groups.simps(2) [of 0 7 s] by (simp split: option.split)
    with g True obtain r where r: "?num s = Some r" "read_groups 1 7 r = (8, v4, rest)"
      by (auto split: option.splits)
    then have "CHR '':'' \<in> set r" using read_groups_colon by fastforce
    moreover from r(1) have "set r \<subseteq> set s" by (auto dest!: read_separator_Some dest: read_number_suffix)
    ultimately show ?thesis by auto
  qed
qed

end
