(* ===== verification/Rp_Rules.thy ===== *)
theory Rp_Rules
  imports Ip_Literals
begin

text \<open>
  Relying-party rules, from \<open>passless-core/src/agent/config.rs\<close>: the text forms of the configuration
  enumerations, the ceremony policies and their validation, and the validation of relying-party
  identifiers.  The public suffix list is the crate \<open>psl\<close>; \<open>psl_domain\<close> stands for \<open>psl::List.domain\<close>, which
  returns the registrable domain of a name, or nothing.  Error values keep which check failed and
  leave the wording of the message out.
\<close>

section \<open>Enumerations and their text forms\<close>

datatype credential_selection = Single | FirstMatching | Newest | Credential credential_ref

definition selection_serialize :: "(bytes \<Rightarrow> string) \<Rightarrow> credential_selection \<Rightarrow> string" where
  "selection_serialize hex_encode sel =
     (case sel of
        Single \<Rightarrow> ''single''
      | FirstMatching \<Rightarrow> ''first-matching''
      | Newest \<Rightarrow> ''newest''
      | Credential reference \<Rightarrow> ''credential:'' @ cred_to_hex hex_encode reference)"

datatype selection_error = UnknownSelection | BadCredentialRef id_error

definition selection_deserialize :: "(string \<Rightarrow> bytes option) \<Rightarrow> string \<Rightarrow> selection_error + credential_selection" where
  "selection_deserialize hex_decode v =
     (if v = ''single'' then Ok Single
      else if v = ''first-matching'' \<or> v = ''first_matching'' then Ok FirstMatching
      else if v = ''newest'' then Ok Newest
      else case strip_prefix v ''credential:'' of
        None \<Rightarrow> Err UnknownSelection
      | Some reference \<Rightarrow>
          (case cred_from_hex hex_decode reference of
             Inl e \<Rightarrow> Err (BadCredentialRef e)
           | Inr c \<Rightarrow> Ok (Credential c)))"

datatype human_verification_prompt = Always | WhenRequired

datatype agent_mode = SameUser | Isolated

definition agent_mode_display :: "agent_mode \<Rightarrow> string" where
  "agent_mode_display m = (case m of SameUser \<Rightarrow> ''same-user'' | Isolated \<Rightarrow> ''isolated'')"

definition agent_mode_from_str :: "string \<Rightarrow> agent_mode option" where
  "agent_mode_from_str s =
     (if s = ''same-user'' \<or> s = ''same_user'' then Some SameUser
      else if s = ''isolated'' then Some Isolated
      else None)"

datatype cdp_expose_mode = Pipe | Port

definition cdp_expose_display :: "cdp_expose_mode \<Rightarrow> string" where
  "cdp_expose_display m = (case m of Pipe \<Rightarrow> ''pipe'' | Port \<Rightarrow> ''port'')"

definition cdp_expose_from_str :: "string \<Rightarrow> cdp_expose_mode option" where
  "cdp_expose_from_str s = (if s = ''pipe'' then Some Pipe else if s = ''port'' then Some Port else None)"

datatype browser_scope = ScopeSession | ScopeProfile

definition browser_scope_display :: "browser_scope \<Rightarrow> string" where
  "browser_scope_display m = (case m of ScopeSession \<Rightarrow> ''session'' | ScopeProfile \<Rightarrow> ''profile'')"

definition browser_scope_from_str :: "string \<Rightarrow> browser_scope option" where
  "browser_scope_from_str s =
     (if s = ''session'' then Some ScopeSession else if s = ''profile'' then Some ScopeProfile else None)"

section \<open>Ceremony policies\<close>

datatype agent_authorization = Deny | Confirm | Allow
datatype user_presence_source = UpHuman | UpAgent | UpNone
datatype user_verification_source = UvHuman | UvAgent | UvNone

record agent_ceremony_policy =
  authorization :: agent_authorization
  user_presence :: user_presence_source
  user_verification :: user_verification_source

datatype config_error =
    DenyWithEvidence string
  | AllowWithHumanPresence string
  | RpIdEmpty
  | RpIdScheme string
  | RpIdPath string
  | RpIdPort string
  | RpIdWildcard string
  | RpIdTrailingDot string
  | RpIdIpAddress string
  | RpIdNotDns string
  | RpIdSingleLabel string
  | RpIdPublicSuffix string
  | DurationTooShort u64
  | DurationTooLong u64
  | PassPinAbsolute
  | PassPinTraversal
  | PassPinNotRelative
  | PassPinOverlap
  | DeviceNul string
  | DeviceTooLong string
  | DeviceHumanCollision
  | PrincipalUserEmpty
  | MaxOperationsRange
  | MaxSessionsRange
  | CdpPortFixed
  | SelectionNotInRefs string
  | LegacyAndRules
  | DuplicateRule string
  | WildcardLegacy
  | WildcardMode
  | WildcardCredentialRefs
  | WildcardRegistration
  | WildcardSelection
  | BrowserCommandEmpty
  | BrowserCommandNul nat
  | SameUserStorage
  | IsolatedDeviceIncomplete
  | IsolatedNoStorage
  | IsolatedBrowserUser
  | IsolatedBrowserRoot
  | StartUrlEmpty
  | StartUrlScheme
  | AuditPathMissing
  | UnknownAcknowledgement string
  | InvalidProfileId string
  | GlobalNotAcknowledged string
  | RegistrationNotAcknowledged string
  | RootsOverlap string string
  | HumanOverlap string
  | DeviceCollision profile_id

definition policy_validate :: "string \<Rightarrow> agent_ceremony_policy \<Rightarrow> config_error + unit" where
  "policy_validate rp_id p =
     (if authorization p = Deny \<and> (user_presence p \<noteq> UpNone \<or> user_verification p \<noteq> UvNone)
      then Err (DenyWithEvidence rp_id)
      else if authorization p = Allow \<and> user_presence p = UpHuman then Err (AllowWithHumanPresence rp_id)
      else Ok ())"

definition policy_legacy_confirm :: "bool \<Rightarrow> agent_ceremony_policy" where
  "policy_legacy_confirm require_uv =
     \<lparr>authorization = Confirm, user_presence = UpHuman,
      user_verification = (if require_uv then UvHuman else UvNone)\<rparr>"

definition policy_deny :: agent_ceremony_policy where
  "policy_deny = \<lparr>authorization = Deny, user_presence = UpNone, user_verification = UvNone\<rparr>"

definition policy_autonomous :: agent_ceremony_policy where
  "policy_autonomous = \<lparr>authorization = Allow, user_presence = UpAgent, user_verification = UvAgent\<rparr>"

definition policy_supervised :: agent_ceremony_policy where
  "policy_supervised = \<lparr>authorization = Confirm, user_presence = UpHuman, user_verification = UvHuman\<rparr>"

text \<open>The two representations of a policy in the configuration file: an alias or the three fields.\<close>

datatype policy_repr =
    Alias string
  | Fields agent_authorization user_presence_source user_verification_source

definition policy_deserialize :: "policy_repr \<Rightarrow> agent_ceremony_policy option" where
  "policy_deserialize repr =
     (case repr of
        Alias alias \<Rightarrow>
          (if alias = ''deny'' then Some policy_deny
           else if alias = ''autonomous'' then Some policy_autonomous
           else if alias = ''supervised'' then Some policy_supervised
           else None)
      | Fields a up uv \<Rightarrow> Some \<lparr>authorization = a, user_presence = up, user_verification = uv\<rparr>)"

record agent_rp_rule =
  rule_rp_id :: string
  register :: agent_ceremony_policy
  authenticate :: agent_ceremony_policy
  rule_credential_selection :: "credential_selection option"

section \<open>Validation of relying-party identifiers\<close>

definition cfg_normalize_rp_id :: "string \<Rightarrow> string" where
  "cfg_normalize_rp_id raw = normalize raw"

definition is_ipv4 :: "string \<Rightarrow> bool" where
  "is_ipv4 s = parse_ipv4 s"

definition is_ipv6 :: "string \<Rightarrow> bool" where
  "is_ipv6 s =
     (let stripped = Option.bind (strip_prefix s ''['') (\<lambda>r. strip_suffix_char r CHR '']'');
          candidate = (case stripped of Some c \<Rightarrow> c | None \<Rightarrow> s)
      in parse_ipv6 candidate)"

definition is_ip_address :: "string \<Rightarrow> bool" where
  "is_ip_address s = (parse_ip s \<or> is_ipv4 s \<or> is_ipv6 s)"

definition is_ascii_alphanumeric :: "char \<Rightarrow> bool" where
  "is_ascii_alphanumeric c = (is_ascii_lowercase c \<or> (CHR ''A'' \<le> c \<and> c \<le> CHR ''Z'') \<or> is_ascii_digit c)"

definition valid_dns_label :: "string \<Rightarrow> bool" where
  "valid_dns_label label =
     (label \<noteq> [] \<and> length label \<le> 63 \<and> list_all (\<lambda>c. is_ascii_alphanumeric c \<or> c = CHR ''-'') label \<and>
      \<not> starts_with label ''-'' \<and> \<not> ends_with label ''-'')"

definition is_valid_dns_name :: "string \<Rightarrow> bool" where
  "is_valid_dns_name s = (s \<noteq> [] \<and> list_all valid_dns_label (split_on CHR ''.'' s))"

definition is_public_suffix :: "(bytes \<Rightarrow> bytes option) \<Rightarrow> string \<Rightarrow> bool" where
  "is_public_suffix psl_domain domain = (psl_domain (as_bytes domain) = None)"

definition validate_rp_id :: "(bytes \<Rightarrow> bytes option) \<Rightarrow> string \<Rightarrow> config_error + string" where
  "validate_rp_id psl_domain raw =
     (let trimmed = trim raw; normalized = cfg_normalize_rp_id trimmed in
      if trimmed = [] then Err RpIdEmpty
      else if contains_str trimmed ''://'' then Err (RpIdScheme trimmed)
      else if CHR ''/'' \<in> set trimmed then Err (RpIdPath trimmed)
      else if (case after_last CHR '':'' trimmed of
                 None \<Rightarrow> False
               | Some after \<Rightarrow> after \<noteq> [] \<and> list_all is_ascii_digit after) then Err (RpIdPort trimmed)
      else if starts_with trimmed ''*.'' \<or> starts_with trimmed ''*'' then Err (RpIdWildcard trimmed)
      else if ends_with trimmed ''.'' then Err (RpIdTrailingDot trimmed)
      else if is_ip_address normalized then Err (RpIdIpAddress normalized)
      else if \<not> is_valid_dns_name normalized then Err (RpIdNotDns normalized)
      else if CHR ''.'' \<notin> set normalized then Err (RpIdSingleLabel normalized)
      else if is_public_suffix psl_domain normalized then Err (RpIdPublicSuffix normalized)
      else Ok normalized)"

definition validate_agent_rp_rule_id :: "(bytes \<Rightarrow> bytes option) \<Rightarrow> string \<Rightarrow> config_error + string" where
  "validate_agent_rp_rule_id psl_domain raw =
     (let trimmed = trim raw in
      if trimmed = ANY_RP_ID then Ok ANY_RP_ID else validate_rp_id psl_domain trimmed)"

section \<open>What the checks amount to\<close>

definition dns_char :: "char \<Rightarrow> bool" where
  "dns_char c = (is_ascii_alphanumeric c \<or> c = CHR ''-'' \<or> c = CHR ''.'')"

lemma dns_name_chars: "is_valid_dns_name s \<Longrightarrow> c \<in> set s \<Longrightarrow> dns_char c"
  using split_on_set [of c s "CHR ''.''"]
  by (auto simp: is_valid_dns_name_def list_all_iff valid_dns_label_def dns_char_def)

lemma not_dns_chars: "\<not> dns_char CHR '':''" "\<not> dns_char CHR ''/''" "\<not> dns_char CHR ''*''" "\<not> dns_char CHR ''[''"
  by code_simp+

text \<open>The check runs on the trimmed string, the DNS check on its lower-case form: these characters are not letters.\<close>

lemma lower_char_in:
  assumes "no_upper w" and "w \<in> set s"
  shows "w \<in> set (to_ascii_lowercase s)"
  using assms lower_char_ws_iff [of w w] by (force simp: to_ascii_lowercase_def)

lemma split_on_snoc: "\<exists>ys. ys \<noteq> [] \<and> split_on c (t @ [c]) = ys @ [[]]"
proof (induction t)
  case Nil
  then show ?case by simp
next
  case (Cons x t)
  then obtain y ys where "split_on c (t @ [c]) = (y # ys) @ [[]]" by (metis neq_Nil_conv)
  then show ?case
    by (cases "x = c") (auto intro: exI [of _ "[] # y # ys"] exI [of _ "(x # y) # ys"])
qed

lemma split_on_last_empty: "s = t @ [c] \<Longrightarrow> [] \<in> set (split_on c s)"
  using split_on_snoc [of c t] by auto

lemma valid_dns_no_trailing_dot: "is_valid_dns_name s \<Longrightarrow> \<not> ends_with s ''.''"
proof
  assume dns: "is_valid_dns_name s" and "ends_with s ''.''"
  then obtain t where "s = t @ ''.''" by (auto simp: ends_with_suffix suffix_def)
  then have "[] \<in> set (split_on CHR ''.'' s)" by (rule split_on_last_empty)
  with dns show False by (auto simp: is_valid_dns_name_def list_all_iff valid_dns_label_def)
qed

lemma valid_dns_ip: "is_valid_dns_name s \<Longrightarrow> is_ip_address s \<longleftrightarrow> read_ipv4_addr s = Some []"
proof -
  assume dns: "is_valid_dns_name s"
  have colon: "CHR '':'' \<notin> set s" and bracket: "CHR ''['' \<notin> set s"
    using dns_name_chars [OF dns] not_dns_chars by blast+
  then have "read_ipv6_addr s = None" using ipv6_has_colon by (cases "read_ipv6_addr s") auto
  moreover from bracket have "\<not> starts_with s ''[''" by (cases s) auto
  ultimately show ?thesis
    by (auto simp: is_ip_address_def parse_ip_def is_ipv4_def parse_ipv4_def is_ipv6_def parse_ipv6_def strip_prefix_def
        split: option.splits)
qed

lemma validate_rp_id_ok:
  "validate_rp_id psl_domain raw = Ok n \<longleftrightarrow>
     n = normalize raw \<and> is_valid_dns_name n \<and> CHR ''.'' \<in> set n \<and> read_ipv4_addr n \<noteq> Some [] \<and>
     psl_domain (as_bytes n) \<noteq> None"
  (is "?lhs \<longleftrightarrow> ?rhs")
proof
  assume ?lhs
  then have "n = normalize raw" "is_valid_dns_name n" "\<not> is_ip_address n" "CHR ''.'' \<in> set n" "\<not> is_public_suffix psl_domain n"
    unfolding validate_rp_id_def Let_def if_err_ok cfg_normalize_rp_id_def normalize_trim by auto
  then show ?rhs by (simp add: valid_dns_ip is_public_suffix_def)
next
  assume r: ?rhs
  then have n: "n = to_ascii_lowercase (trim raw)" by (simp add: normalize_def)
  have upper: "no_upper CHR '':''" "no_upper CHR ''/''" "no_upper CHR ''*''" "no_upper CHR ''.''" by code_simp+
  have absent: "c \<notin> set (trim raw)" if "no_upper c" "\<not> dns_char c" for c
    using that lower_char_in dns_name_chars r by (auto simp: n)
  have chars: "CHR '':'' \<notin> set (trim raw)" "CHR ''/'' \<notin> set (trim raw)" "CHR ''*'' \<notin> set (trim raw)"
    using absent upper not_dns_chars by blast+
  from chars(1) have "\<not> contains_str (trim raw) ''://''"
    using contains_str_set [of "trim raw" "''://''"] by auto
  moreover from chars(3) have "\<not> starts_with (trim raw) ''*.''" "\<not> starts_with (trim raw) ''*''"
    using starts_with_set [of "trim raw" "''*.''"] starts_with_set [of "trim raw" "''*''"] by auto
  moreover from chars(1) have "after_last CHR '':'' (trim raw) = None" by (simp add: after_last_def)
  moreover have "\<not> ends_with (trim raw) ''.''"
  proof
    assume "ends_with (trim raw) ''.''"
    then obtain t where "trim raw = t @ ''.''" by (auto simp: ends_with_suffix suffix_def)
    then have "n = to_ascii_lowercase t @ ''.''" by (simp add: n to_ascii_lowercase_def lower_char_ws_iff [OF upper(4), THEN iffD2])
    then have "ends_with n ''.''" by (simp add: ends_with_suffix)
    with r valid_dns_no_trailing_dot show False by blast
  qed
  moreover have "trim raw \<noteq> []"
  proof
    assume "trim raw = []"
    then have "n = []" by (simp add: n)
    with r show False by simp
  qed
  moreover have "\<not> is_ip_address n" using r valid_dns_ip [of n] by blast
  moreover note chars(2)
  ultimately show ?lhs
    using r unfolding validate_rp_id_def Let_def if_err_ok cfg_normalize_rp_id_def normalize_trim is_public_suffix_def
    by (simp only: option.case not_False_eq_True simp_thms) blast
qed

text \<open>A small identifier for the witnesses of this and later theories.\<close>

lemma ex_rp_id:
  assumes "psl_domain (as_bytes ''a.b'') \<noteq> None"
  shows "validate_rp_id psl_domain ''a.b'' = Ok ''a.b''" and "validate_rp_id psl_domain ''A.b'' = Ok ''a.b''"
proof -
  have "is_ascii_alphanumeric CHR ''a''" "is_ascii_alphanumeric CHR ''b''" by code_simp+
  then have "is_valid_dns_name ''a.b''"
    by (simp add: is_valid_dns_name_def valid_dns_label_def ends_with_def)
  moreover have "to_digit 10 CHR ''a'' = None" by code_simp
  then have "read_ipv4_addr ''a.b'' = None"
    by (simp add: read_ipv4_addr_def eval_nat_numeral read_separator_def read_octet_def read_number_def)
  ultimately show "validate_rp_id psl_domain ''a.b'' = Ok ''a.b''" "validate_rp_id psl_domain ''A.b'' = Ok ''a.b''"
    using assms by (simp_all add: validate_rp_id_ok)
qed

section \<open>Properties\<close>

text \<open>C40. The ten checks of \<open>validate_rp_id\<close> amount to five: the accepted identifiers are exactly those whose normal
  form is a DNS name of at least two labels, not an IPv4 literal, with a registrable domain.
  The checks for schemes, paths, ports, wildcards, trailing dots and IPv6 literals reject nothing
  that the others accept, and the result is always the normal form.\<close>

theorem validate_rp_id_iff:
  "validate_rp_id psl_domain raw = Ok n \<longleftrightarrow>
     n = normalize raw \<and> is_valid_dns_name n \<and> CHR ''.'' \<in> set n \<and> read_ipv4_addr n \<noteq> Some [] \<and>
     psl_domain (as_bytes n) \<noteq> None"
  by (rule validate_rp_id_ok)

text \<open>The text forms of the configuration enumerations can be read back: a credential selection, an agent
  mode, a browser scope and a CDP exposure mode are recovered from what is written for them,
  provided the hexadecimal decoder inverts the encoder on 32-byte references.\<close>

theorem config_text_roundtrip:
  assumes "\<And>bs. length bs = 32 \<Longrightarrow> hex_decode (hex_encode bs) = Some bs"
    and "\<And>c. sel = Credential c \<Longrightarrow> length (cred_bytes c) = 32"
  shows "selection_deserialize hex_decode (selection_serialize hex_encode sel) = Ok sel \<and>
    agent_mode_from_str (agent_mode_display mode) = Some mode \<and>
    browser_scope_from_str (browser_scope_display scope) = Some scope \<and>
    cdp_expose_from_str (cdp_expose_display expose) = Some expose"
proof (intro conjI)
  show "selection_deserialize hex_decode (selection_serialize hex_encode sel) = Ok sel"
  proof (cases sel)
    case (Credential c)
    with assms have "cred_from_hex hex_decode (hex_encode (cred_bytes c)) = Ok c"
      by (simp add: cred_from_hex_def)
    then show ?thesis
      using strip_prefix_append [of "''credential:''" "hex_encode (cred_bytes c)"]
      by (simp add: selection_deserialize_def selection_serialize_def cred_to_hex_def Credential)
  qed (simp_all add: selection_deserialize_def selection_serialize_def)
  show "agent_mode_from_str (agent_mode_display mode) = Some mode"
    by (cases mode) (simp_all add: agent_mode_from_str_def agent_mode_display_def)
  show "browser_scope_from_str (browser_scope_display scope) = Some scope"
    by (cases scope) (simp_all add: browser_scope_from_str_def browser_scope_display_def)
  show "cdp_expose_from_str (cdp_expose_display expose) = Some expose"
    by (cases expose) (simp_all add: cdp_expose_from_str_def cdp_expose_display_def)
qed

theorem config_text_roundtrip_witness:
  "selection_deserialize (\<lambda>s. Some (as_bytes s)) (selection_serialize (map byte_char)
     (Credential (CredentialRef (replicate 32 7)))) = Ok (Credential (CredentialRef (replicate 32 7)))"
  by (rule config_text_roundtrip [THEN conjunct1]) (auto simp: as_bytes_byte_char)

end
