(* ===== verification/Paths.thy ===== *)
theory Paths
  imports Rust_Strings
begin

text \<open>
  File-system paths as \<open>std::path\<close> sees them on Unix: equality, prefixes and joins are taken component
  by component.  \<open>fs_canonicalize\<close> is \<open>fs::canonicalize\<close>, the resolution of an existing path by the
  operating system.
\<close>

datatype path_component = RootDir | CurDir | ParentDir | Normal string

type_synonym path = "path_component list"

text \<open>\<open>components\<close> of a path string: repeated separators and inner \<open>.\<close> components disappear.\<close>

definition component_of :: "string \<Rightarrow> path" where
  "component_of seg =
     (if seg = [] \<or> seg = ''.'' then [] else if seg = ''..'' then [ParentDir] else [Normal seg])"

definition path_of :: "string \<Rightarrow> path" where
  "path_of s =
     (let segs = split_on CHR ''/'' s;
          start = (if starts_with s ''/'' then [RootDir] else if hd segs = ''.'' then [CurDir] else [])
      in start @ concat (map component_of segs))"

definition is_absolute :: "path \<Rightarrow> bool" where
  "is_absolute p = (case p of RootDir # _ \<Rightarrow> True | _ \<Rightarrow> False)"

definition path_join :: "path \<Rightarrow> path \<Rightarrow> path" where
  "path_join a b =
     (if is_absolute b then b else if a = [] then b else a @ (case b of CurDir # b' \<Rightarrow> b' | _ \<Rightarrow> b))"

definition path_starts_with :: "path \<Rightarrow> path \<Rightarrow> bool" where
  "path_starts_with p base = (take (length base) p = base)"

definition file_name :: "path \<Rightarrow> string option" where
  "file_name p = (if p = [] then None else case last p of Normal n \<Rightarrow> Some n | _ \<Rightarrow> None)"

definition parent :: "path \<Rightarrow> path option" where
  "parent p = (if p = [] \<or> last p = RootDir then None else Some (butlast p))"

text \<open>\<open>display\<close> of a path: its components joined by separators.\<close>

definition component_display :: "path_component \<Rightarrow> string" where
  "component_display c = (case c of RootDir \<Rightarrow> [] | CurDir \<Rightarrow> ''.'' | ParentDir \<Rightarrow> ''..'' | Normal n \<Rightarrow> n)"

fun join_display :: "path \<Rightarrow> string" where
  "join_display [] = []"
| "join_display [c] = component_display c"
| "join_display (c # cs) = component_display c @ ''/'' @ join_display cs"

definition path_display :: "path \<Rightarrow> string" where
  "path_display p = (if p = [RootDir] then ''/'' else join_display p)"

lemma path_starts_with_prefix: "path_starts_with p base \<longleftrightarrow> prefix base p"
  by (metis append_eq_conv_conj path_starts_with_def prefix_def)

lemma file_name_Some: "file_name p = Some n \<longleftrightarrow> p \<noteq> [] \<and> p = butlast p @ [Normal n]"
  by (cases p rule: rev_cases) (auto simp: file_name_def split: path_component.splits)

text \<open>
  \<open>BackendConfig::canonicalize_path\<close>: canonicalise the longest existing prefix and append the rest.  The
  loop ends because the parent of a path with a file name is shorter.
\<close>

function canon_loop :: "(path \<Rightarrow> path option) \<Rightarrow> path \<Rightarrow> path \<Rightarrow> string list \<Rightarrow> path" where
  "canon_loop fs_canonicalize orig current rest =
     (case fs_canonicalize current of
        Some base \<Rightarrow> fold (\<lambda>component result. path_join result [Normal component]) (rev rest) base
      | None \<Rightarrow>
          (case file_name current of
             Some name \<Rightarrow>
               canon_loop fs_canonicalize orig (case parent current of Some p \<Rightarrow> p | None \<Rightarrow> []) (rest @ [name])
           | None \<Rightarrow> orig))"
  by pat_completeness auto
termination
proof (relation "measure (\<lambda>(fs, orig, current, rest). length current)", goal_cases)
  case (2 fs orig current rest name)
  then have "current \<noteq> []" by (simp add: file_name_Some)
  then show ?case by (auto simp: parent_def)
qed simp

declare canon_loop.simps [simp del]

definition canonicalize_path :: "(path \<Rightarrow> path option) \<Rightarrow> path \<Rightarrow> path" where
  "canonicalize_path fs_canonicalize path =
     (case fs_canonicalize path of Some p \<Rightarrow> p | None \<Rightarrow> canon_loop fs_canonicalize path path [])"

lemma push_names:
  "base \<noteq> [] \<Longrightarrow> fold (\<lambda>component result. path_join result [Normal component]) names base = base @ map Normal names"
  by (induction names arbitrary: base) (simp_all add: path_join_def is_absolute_def)

lemma canon_loop_prefix:
  assumes "fs pre = Some base" and "base \<noteq> []" and "\<And>k. 0 < k \<Longrightarrow> k \<le> length names \<Longrightarrow> fs (pre @ map Normal (take k names)) = None"
  shows "canon_loop fs orig (pre @ map Normal names) rest = base @ map Normal (names @ rev rest)"
  using assms(3)
proof (induction names arbitrary: rest rule: rev_induct)
  case Nil
  with assms show ?case by (simp add: canon_loop.simps [of fs orig pre] push_names)
next
  case (snoc n names)
  let ?p = "pre @ map Normal names @ [Normal n]"
  have none: "fs ?p = None" using snoc.prems [of "Suc (length names)"] by simp
  have "fs (pre @ map Normal (take k names)) = None" if "0 < k" "k \<le> length names" for k
    using snoc.prems [of k] that by simp
  from snoc.IH [OF this, of "rest @ [n]"] none show ?case
    by (simp add: canon_loop.simps [of fs orig ?p] file_name_def parent_def butlast_append)
qed

text \<open>\<open>canonicalize_path\<close> terminates and resolves the longest existing prefix: if a prefix of the path resolves and
  no longer one does, the result is the resolved prefix followed by the remaining names.\<close>

theorem canonicalize_longest_prefix:
  assumes "fs pre = Some base" and "base \<noteq> []"
    and "\<And>k. 0 < k \<Longrightarrow> k \<le> length names \<Longrightarrow> fs (pre @ map Normal (take k names)) = None"
  shows "canonicalize_path fs (pre @ map Normal names) = base @ map Normal names"
proof (cases "names = []")
  case True
  with assms show ?thesis by (simp add: canonicalize_path_def)
next
  case False
  then have "fs (pre @ map Normal names) = None" using assms(3) [of "length names"] by simp
  then show ?thesis
    using canon_loop_prefix [of fs pre base names "pre @ map Normal names" "[]", OF assms(1,2)] assms(3)
    by (simp add: canonicalize_path_def)
qed

theorem canonicalize_longest_prefix_witness:
  "canonicalize_path (\<lambda>p. if p = [RootDir, Normal ''a''] then Some [RootDir, Normal ''r''] else None)
     [RootDir, Normal ''a'', Normal ''b''] = [RootDir, Normal ''r'', Normal ''b'']"
  using canonicalize_longest_prefix [where pre = "[RootDir, Normal ''a'']" and base = "[RootDir, Normal ''r'']" and names = "[''b'']" and
      fs = "\<lambda>p. if p = [RootDir, Normal ''a''] then Some [RootDir, Normal ''r''] else None"]
  by (simp add: le_Suc_eq)

end
