(* ===== verification/Agent_Config.thy ===== *)
theory Agent_Config
  imports Rp_Rules Paths
begin

text \<open>
  Agent profiles, from \<open>passless-core/src/agent/config.rs\<close>: durations, device identities, storage
  configuration, the rules of a profile, and the validation of a profile and of the whole agent
  configuration.  \<open>psl_domain\<close> is the public suffix list and \<open>fs_canonicalize\<close> the path resolution of the
  operating system.
\<close>

section \<open>Durations, devices, storage\<close>

definition MAX_DURATION_SECS :: u64 where "MAX_DURATION_SECS = 86400 * 365"
definition MIN_DURATION_SECS :: u64 where "MIN_DURATION_SECS = 1"

datatype bounded_duration = BoundedDuration (bd_secs: u64)

definition bounded_duration_new :: "u64 \<Rightarrow> config_error + bounded_duration" where
  "bounded_duration_new secs =
     (if secs < MIN_DURATION_SECS then Err (DurationTooShort secs)
      else if MAX_DURATION_SECS < secs then Err (DurationTooLong secs)
      else Ok (BoundedDuration secs))"

definition DEVICE_NAME_MAX :: nat where "DEVICE_NAME_MAX = 128 - 1"
definition DEVICE_PHYS_MAX :: nat where "DEVICE_PHYS_MAX = 64 - 1"
definition DEVICE_UNIQ_MAX :: nat where "DEVICE_UNIQ_MAX = 64 - 1"
definition HUMAN_DEVICE_NAME :: string where "HUMAN_DEVICE_NAME = ''virtual-fido''"
definition HUMAN_DEVICE_PHYS :: string where "HUMAN_DEVICE_PHYS = ''virtual-fido-001''"
definition HUMAN_VENDOR_ID :: u16 where "HUMAN_VENDOR_ID = 0x15d9"
definition HUMAN_PRODUCT_ID :: u16 where "HUMAN_PRODUCT_ID = 0x0a37"

record device_identity =
  dev_name :: string
  dev_phys :: string
  dev_uniq :: string
  dev_vendor_id :: u16
  dev_product_id :: u16

definition validate_device_field :: "string \<Rightarrow> string \<Rightarrow> nat \<Rightarrow> config_error + unit" where
  "validate_device_field v field max_len =
     (if CHR 0x00 \<in> set v then Err (DeviceNul field)
      else if max_len < length v then Err (DeviceTooLong field)
      else Ok ())"

definition device_validate :: "device_identity \<Rightarrow> config_error + unit" where
  "device_validate d =
     res_bind (validate_device_field (dev_name d) ''name'' DEVICE_NAME_MAX) (\<lambda>_.
     res_bind (validate_device_field (dev_phys d) ''phys'' DEVICE_PHYS_MAX) (\<lambda>_.
     res_bind (validate_device_field (dev_uniq d) ''uniq'' DEVICE_UNIQ_MAX) (\<lambda>_.
       if dev_name d = HUMAN_DEVICE_NAME \<and> dev_phys d = HUMAN_DEVICE_PHYS \<and>
          dev_vendor_id d = HUMAN_VENDOR_ID \<and> dev_product_id d = HUMAN_PRODUCT_ID
       then Err DeviceHumanCollision
       else Ok ())))"

datatype agent_storage_config =
    Local path path
  | Pass path string string path
  | Tpm path string path bool

definition credential_state_path :: "(path \<Rightarrow> path option) \<Rightarrow> agent_storage_config \<Rightarrow> path" where
  "credential_state_path fs_canonicalize s =
     canonicalize_path fs_canonicalize
       (case s of
          Local p _ \<Rightarrow> p
        | Pass store_path p _ _ \<Rightarrow> path_join store_path (path_of p)
        | Tpm p _ _ _ \<Rightarrow> p)"

definition pin_state_path :: "(path \<Rightarrow> path option) \<Rightarrow> agent_storage_config \<Rightarrow> path" where
  "pin_state_path fs_canonicalize s =
     canonicalize_path fs_canonicalize
       (case s of
          Local _ pin_path \<Rightarrow> pin_path
        | Pass store_path _ _ pin_path \<Rightarrow> path_join store_path pin_path
        | Tpm _ _ pin_path _ \<Rightarrow> pin_path)"

definition all_paths :: "(path \<Rightarrow> path option) \<Rightarrow> agent_storage_config \<Rightarrow> (string \<times> path) list" where
  "all_paths fs_canonicalize s =
     [(''credential'', credential_state_path fs_canonicalize s), (''pin'', pin_state_path fs_canonicalize s)]"

definition overlaps :: "path \<Rightarrow> path \<Rightarrow> bool" where
  "overlaps a b = (path_starts_with a b \<or> path_starts_with b a)"

fun check_pin_components :: "path \<Rightarrow> config_error + unit" where
  "check_pin_components [] = Ok ()"
| "check_pin_components (c # cs) =
     (case c of
        ParentDir \<Rightarrow> Err PassPinTraversal
      | RootDir \<Rightarrow> Err PassPinNotRelative
      | _ \<Rightarrow> check_pin_components cs)"

definition storage_validate :: "(path \<Rightarrow> path option) \<Rightarrow> agent_storage_config \<Rightarrow> config_error + unit" where
  "storage_validate fs_canonicalize s =
     (case s of
        Pass store_path p _ pin_path \<Rightarrow>
          (if is_absolute pin_path then Err PassPinAbsolute
           else res_bind (check_pin_components pin_path) (\<lambda>_.
             let cred_canon = canonicalize_path fs_canonicalize (path_join store_path (path_of p));
                 pin_canon = canonicalize_path fs_canonicalize (path_join store_path pin_path)
             in if overlaps cred_canon pin_canon then Err PassPinOverlap else Ok ()))
      | _ \<Rightarrow> Ok ())"

section \<open>Profiles\<close>

definition MAX_OPERATIONS :: u16 where "MAX_OPERATIONS = 4096"
definition MAX_CONCURRENT_SESSIONS :: u16 where "MAX_CONCURRENT_SESSIONS = 64"

record agent_profile_config =
  pc_mode :: agent_mode
  pc_principal_user :: string
  pc_rp_ids :: "string list"
  pc_require_uv :: bool
  pc_credential_refs :: "credential_ref list option"
  pc_max_grant_ttl :: "bounded_duration option"
  pc_max_session_ttl :: "bounded_duration option"
  pc_max_operations :: u16
  pc_max_concurrent_sessions :: u16
  pc_browser_scope :: browser_scope
  pc_credential_selection :: credential_selection
  pc_human_verification_prompt :: human_verification_prompt
  pc_storage :: "agent_storage_config option"
  pc_registration_allowed :: bool
  pc_rules :: "agent_rp_rule list"
  pc_device :: device_identity
  pc_start_url :: "string option"
  pc_browser_command :: "string list option"
  pc_browser_user :: "string option"
  pc_browser_runtime_root :: "path option"
  pc_browser_cdp_expose :: "cdp_expose_mode option"
  pc_browser_cdp_port :: "u16 option"

definition effective_rules :: "agent_profile_config \<Rightarrow> agent_rp_rule list" where
  "effective_rules p =
     (if pc_rules p \<noteq> [] then pc_rules p
      else map (\<lambda>rp_id.
        \<lparr>rule_rp_id = rp_id,
         register = (if pc_registration_allowed p then policy_legacy_confirm (pc_require_uv p) else policy_deny),
         authenticate = policy_legacy_confirm (pc_require_uv p),
         rule_credential_selection = None\<rparr>) (pc_rp_ids p))"

definition allowed_rp_ids :: "agent_profile_config \<Rightarrow> string list" where
  "allowed_rp_ids p =
     map rule_rp_id (filter (\<lambda>r. authorization (register r) \<noteq> Deny \<or> authorization (authenticate r) \<noteq> Deny)
       (effective_rules p))"

definition rule_for_rp :: "(bytes \<Rightarrow> bytes option) \<Rightarrow> string \<Rightarrow> agent_profile_config \<Rightarrow> agent_rp_rule option" where
  "rule_for_rp psl_domain rp_id p =
     (case validate_rp_id psl_domain rp_id of
        Inl _ \<Rightarrow> None
      | Inr normalized \<Rightarrow>
          (let rules = effective_rules p in
           case find (\<lambda>r. cfg_normalize_rp_id (rule_rp_id r) = normalized) rules of
             Some r \<Rightarrow> Some r
           | None \<Rightarrow> find (\<lambda>r. cfg_normalize_rp_id (rule_rp_id r) = ANY_RP_ID) rules))"

definition credential_selection_for_rp ::
    "(bytes \<Rightarrow> bytes option) \<Rightarrow> string \<Rightarrow> agent_profile_config \<Rightarrow> credential_selection" where
  "credential_selection_for_rp psl_domain rp_id p =
     (case Option.bind (rule_for_rp psl_domain rp_id p) rule_credential_selection of
        Some s \<Rightarrow> s
      | None \<Rightarrow> pc_credential_selection p)"

definition allows_registration :: "agent_profile_config \<Rightarrow> bool" where
  "allows_registration p = list_ex (\<lambda>r. authorization (register r) \<noteq> Deny) (effective_rules p)"

definition allows_authentication :: "agent_profile_config \<Rightarrow> bool" where
  "allows_authentication p = list_ex (\<lambda>r. authorization (authenticate r) \<noteq> Deny) (effective_rules p)"

definition requires_human_uv :: "agent_profile_config \<Rightarrow> bool" where
  "requires_human_uv p =
     list_ex (\<lambda>r. user_verification (register r) = UvHuman \<or> user_verification (authenticate r) = UvHuman)
       (effective_rules p)"

section \<open>Validation of a profile\<close>

text \<open>\<open>validate\<close> runs in six phases, one definition each, in the order of the code.\<close>

definition selection_outside_refs :: "agent_profile_config \<Rightarrow> credential_selection \<Rightarrow> bool" where
  "selection_outside_refs p sel =
     (case sel of
        Credential reference \<Rightarrow>
          (case pc_credential_refs p of Some refs \<Rightarrow> reference \<notin> set refs | None \<Rightarrow> False)
      | _ \<Rightarrow> False)"

definition validate_limits :: "agent_profile_config \<Rightarrow> config_error + unit" where
  "validate_limits p =
     (if pc_principal_user p = [] then Err PrincipalUserEmpty
      else if pc_max_operations p = 0 \<or> MAX_OPERATIONS < pc_max_operations p then Err MaxOperationsRange
      else if pc_browser_scope p = ScopeSession \<and>
         (pc_max_concurrent_sessions p = 0 \<or> MAX_CONCURRENT_SESSIONS < pc_max_concurrent_sessions p)
      then Err MaxSessionsRange
      else if pc_browser_scope p = ScopeSession \<and> 1 < pc_max_concurrent_sessions p \<and>
         pc_browser_cdp_expose p = Some Port \<and>
         (case pc_browser_cdp_port p of Some port \<Rightarrow> port | None \<Rightarrow> 0) \<noteq> 0
      then Err CdpPortFixed
      else if pc_browser_scope p = ScopeProfile \<and> MAX_CONCURRENT_SESSIONS < pc_max_concurrent_sessions p
      then Err MaxSessionsRange
      else if selection_outside_refs p (pc_credential_selection p) then Err (SelectionNotInRefs [])
      else if pc_rules p \<noteq> [] \<and> (pc_rp_ids p \<noteq> [] \<or> pc_registration_allowed p \<or> pc_require_uv p)
      then Err LegacyAndRules
      else Ok ())"

fun validate_rules :: "(bytes \<Rightarrow> bytes option) \<Rightarrow> agent_profile_config \<Rightarrow> string list \<Rightarrow> agent_rp_rule list \<Rightarrow> config_error + unit" where
  "validate_rules psl_domain p seen [] = Ok ()"
| "validate_rules psl_domain p seen (r # rs) =
     res_bind (validate_agent_rp_rule_id psl_domain (rule_rp_id r)) (\<lambda>_.
       let normalized = normalize (rule_rp_id r) in
       if normalized \<in> set seen then Err (DuplicateRule (rule_rp_id r))
       else
         res_bind (policy_validate (rule_rp_id r) (register r)) (\<lambda>_.
         res_bind (policy_validate (rule_rp_id r) (authenticate r)) (\<lambda>_.
           if (case rule_credential_selection r of Some sel \<Rightarrow> selection_outside_refs p sel | None \<Rightarrow> False)
           then Err (SelectionNotInRefs (rule_rp_id r))
           else validate_rules psl_domain p (normalized # seen) rs)))"

definition validate_wildcard :: "agent_profile_config \<Rightarrow> config_error + unit" where
  "validate_wildcard p =
     (case find (\<lambda>r. cfg_normalize_rp_id (rule_rp_id r) = ANY_RP_ID) (effective_rules p) of
        None \<Rightarrow> Ok ()
      | Some r \<Rightarrow>
          if pc_rules p = [] then Err WildcardLegacy
          else if pc_mode p \<noteq> SameUser then Err WildcardMode
          else if pc_credential_refs p \<noteq> None then Err WildcardCredentialRefs
          else if authorization (register r) \<noteq> Deny then Err WildcardRegistration
          else if (case rule_credential_selection r of Some (Credential _) \<Rightarrow> True | _ \<Rightarrow> False)
          then Err WildcardSelection
          else Ok ())"

fun check_browser_args :: "nat \<Rightarrow> string list \<Rightarrow> config_error + unit" where
  "check_browser_args i [] = Ok ()"
| "check_browser_args i (arg # args) =
     (if CHR 0x00 \<in> set arg then Err (BrowserCommandNul i) else check_browser_args (i + 1) args)"

definition validate_browser_command :: "agent_profile_config \<Rightarrow> config_error + unit" where
  "validate_browser_command p =
     (case pc_browser_command p of
        None \<Rightarrow> Ok ()
      | Some cmd \<Rightarrow> if cmd = [] then Err BrowserCommandEmpty else check_browser_args 0 cmd)"

definition validate_mode :: "(path \<Rightarrow> path option) \<Rightarrow> agent_profile_config \<Rightarrow> config_error + unit" where
  "validate_mode fs_canonicalize p =
     (case pc_mode p of
        SameUser \<Rightarrow> if pc_storage p \<noteq> None then Err SameUserStorage else Ok ()
      | Isolated \<Rightarrow>
          if dev_name (pc_device p) = [] \<or> dev_phys (pc_device p) = [] \<or> dev_uniq (pc_device p) = []
          then Err IsolatedDeviceIncomplete
          else res_bind (device_validate (pc_device p)) (\<lambda>_.
            case pc_storage p of
              None \<Rightarrow> Err IsolatedNoStorage
            | Some storage \<Rightarrow>
                res_bind (storage_validate fs_canonicalize storage) (\<lambda>_.
                  if pc_browser_user p \<noteq> None then Err IsolatedBrowserUser
                  else if pc_browser_runtime_root p \<noteq> None then Err IsolatedBrowserRoot
                  else Ok ())))"

definition validate_start_url :: "agent_profile_config \<Rightarrow> config_error + unit" where
  "validate_start_url p =
     (case pc_start_url p of
        None \<Rightarrow> Ok ()
      | Some url \<Rightarrow>
          if url = [] then Err StartUrlEmpty
          else if \<not> starts_with url ''https://'' \<and> \<not> starts_with url ''http://'' then Err StartUrlScheme
          else Ok ())"

definition profile_validate ::
    "(bytes \<Rightarrow> bytes option) \<Rightarrow> (path \<Rightarrow> path option) \<Rightarrow> agent_profile_config \<Rightarrow> config_error + unit" where
  "profile_validate psl_domain fs_canonicalize p =
     res_bind (validate_limits p) (\<lambda>_.
     res_bind (validate_rules psl_domain p [] (effective_rules p)) (\<lambda>_.
     res_bind (validate_wildcard p) (\<lambda>_.
     res_bind (validate_browser_command p) (\<lambda>_.
     res_bind (validate_mode fs_canonicalize p) (\<lambda>_.
       validate_start_url p)))))"

section \<open>Validation of the agent configuration\<close>

text \<open>The \<open>BTreeMap\<close> of profiles is the list of its entries in the order of their keys.\<close>

record agent_config =
  ag_enabled :: bool
  ag_profiles :: "(string, agent_profile_config) hashmap"
  ag_audit_path :: "path option"
  ag_acknowledge_global_same_user :: "string list"
  ag_acknowledge_same_user_registration :: "string list"

definition global_same_user :: "agent_profile_config \<Rightarrow> bool" where
  "global_same_user p =
     (pc_mode p = SameUser \<and>
      list_ex (\<lambda>r. cfg_normalize_rp_id (rule_rp_id r) = ANY_RP_ID \<and> authorization (authenticate r) \<noteq> Deny)
        (effective_rules p))"

fun validate_profiles ::
    "(bytes \<Rightarrow> bytes option) \<Rightarrow> (path \<Rightarrow> path option) \<Rightarrow> agent_config \<Rightarrow> (string, agent_profile_config) hashmap \<Rightarrow>
     config_error + (profile_id \<times> agent_profile_config) list" where
  "validate_profiles psl_domain fs c [] = Ok []"
| "validate_profiles psl_domain fs c ((name, p) # ps) =
     (case profile_id_new name of
        Inl _ \<Rightarrow> Err (InvalidProfileId name)
      | Inr pid \<Rightarrow>
          res_bind (profile_validate psl_domain fs p) (\<lambda>_.
            if global_same_user p \<and> name \<notin> set (ag_acknowledge_global_same_user c)
            then Err (GlobalNotAcknowledged name)
            else if pc_mode p = SameUser \<and> allows_registration p \<and>
               name \<notin> set (ag_acknowledge_same_user_registration c)
            then Err (RegistrationNotAcknowledged name)
            else res_bind (validate_profiles psl_domain fs c ps) (\<lambda>rest. Ok ((pid, p) # rest))))"

definition storage_roots :: "(path \<Rightarrow> path option) \<Rightarrow> profile_id \<times> agent_profile_config \<Rightarrow> (string \<times> path) list" where
  "storage_roots fs = (\<lambda>(pid, p).
     case pc_storage p of
       None \<Rightarrow> []
     | Some storage \<Rightarrow> map (\<lambda>(suff, pth). (profile_id_str pid @ ''.storage.'' @ suff, pth)) (all_paths fs storage))"

definition all_roots ::
    "(path \<Rightarrow> path option) \<Rightarrow> agent_config \<Rightarrow> (profile_id \<times> agent_profile_config) list \<Rightarrow> (string \<times> path) list" where
  "all_roots fs c vs =
     (case ag_audit_path c of None \<Rightarrow> [] | Some audit \<Rightarrow> [(''audit_path'', canonicalize_path fs audit)]) @
     concat (map (storage_roots fs) vs)"

fun check_roots :: "(string \<times> path) list \<Rightarrow> config_error + unit" where
  "check_roots [] = Ok ()"
| "check_roots ((name_a, path_a) # rs) =
     (case find (\<lambda>(_, path_b). overlaps path_a path_b) rs of
        Some (name_b, _) \<Rightarrow> Err (RootsOverlap name_a name_b)
      | None \<Rightarrow> check_roots rs)"

definition check_human :: "(path \<Rightarrow> path option) \<Rightarrow> path option \<Rightarrow> (string \<times> path) list \<Rightarrow> config_error + unit" where
  "check_human fs human_state_path roots =
     (case human_state_path of
        None \<Rightarrow> Ok ()
      | Some human_path \<Rightarrow>
          (let canonical_human = canonicalize_path fs human_path in
           case find (\<lambda>(_, root). overlaps root canonical_human) roots of
             Some (name, _) \<Rightarrow> Err (HumanOverlap name)
           | None \<Rightarrow> Ok ()))"

definition device_key :: "device_identity \<Rightarrow> string" where
  "device_key d =
     dev_name d @ '':'' @ dev_phys d @ '':'' @ dev_uniq d @ '':'' @ show_nat (unat (dev_vendor_id d)) @ '':'' @
     show_nat (unat (dev_product_id d))"

fun check_devices :: "string list \<Rightarrow> (profile_id \<times> agent_profile_config) list \<Rightarrow> config_error + unit" where
  "check_devices seen [] = Ok ()"
| "check_devices seen ((pid, p) # vs) =
     (if pc_mode p = SameUser then check_devices seen vs
      else if device_key (pc_device p) \<in> set seen then Err (DeviceCollision pid)
      else check_devices (device_key (pc_device p) # seen) vs)"

definition agent_config_validate ::
    "(bytes \<Rightarrow> bytes option) \<Rightarrow> (path \<Rightarrow> path option) \<Rightarrow> path option \<Rightarrow> agent_config \<Rightarrow> config_error + unit" where
  "agent_config_validate psl_domain fs human_state_path c =
     (if \<not> ag_enabled c then Ok ()
      else if ag_audit_path c = None then Err AuditPathMissing
      else
        (case find (\<lambda>name. hm_get (ag_profiles c) name = None)
                (ag_acknowledge_global_same_user c @ ag_acknowledge_same_user_registration c) of
           Some name \<Rightarrow> Err (UnknownAcknowledgement name)
         | None \<Rightarrow>
             res_bind (validate_profiles psl_domain fs c (ag_profiles c)) (\<lambda>validated_profiles.
               let roots = all_roots fs c validated_profiles in
               res_bind (check_roots roots) (\<lambda>_.
               res_bind (check_human fs human_state_path roots) (\<lambda>_.
                 check_devices [] validated_profiles)))))"

definition get_profile :: "string \<Rightarrow> agent_config \<Rightarrow> agent_profile_config option" where
  "get_profile name c = hm_get (ag_profiles c) name"

definition profiles_for_rp_id ::
    "(bytes \<Rightarrow> bytes option) \<Rightarrow> string \<Rightarrow> agent_config \<Rightarrow> (string, agent_profile_config) hashmap" where
  "profiles_for_rp_id psl_domain rp_id c =
     (case validate_rp_id psl_domain rp_id of
        Inl _ \<Rightarrow> []
      | Inr normalized \<Rightarrow>
          filter (\<lambda>(_, p). list_ex (\<lambda>r.
            let rule_rp = cfg_normalize_rp_id (rule_rp_id r) in rule_rp = normalized \<or> rule_rp = ANY_RP_ID)
            (effective_rules p)) (ag_profiles c))"

section \<open>What a validated profile satisfies\<close>

definition policy_sound :: "agent_ceremony_policy \<Rightarrow> bool" where
  "policy_sound q =
     ((authorization q = Deny \<longrightarrow> user_presence q = UpNone \<and> user_verification q = UvNone) \<and>
      (authorization q = Allow \<longrightarrow> user_presence q \<noteq> UpHuman))"

lemma policy_validate_ok: "policy_validate rp q = Ok () \<longleftrightarrow> policy_sound q"
  by (auto simp: policy_validate_def policy_sound_def)

lemma rule_id_ok:
  assumes "validate_agent_rp_rule_id psl raw = Ok n"
  shows "normalize raw = ANY_RP_ID \<or> validate_rp_id psl raw = Ok (normalize raw)"
proof (cases "trim raw = ANY_RP_ID")
  case True
  then have "normalize raw = to_ascii_lowercase ANY_RP_ID" by (simp add: normalize_def)
  also have "\<dots> = ANY_RP_ID" by (simp add: ANY_RP_ID_def) code_simp
  finally show ?thesis by simp
next
  case False
  with assms have "validate_rp_id psl (trim raw) = Ok n" by (simp add: validate_agent_rp_rule_id_def Let_def)
  then show ?thesis unfolding validate_rp_id_ok normalize_trim by blast
qed

definition rule_ok :: "(bytes \<Rightarrow> bytes option) \<Rightarrow> agent_rp_rule \<Rightarrow> bool" where
  "rule_ok psl r =
     ((normalize (rule_rp_id r) = ANY_RP_ID \<or> validate_rp_id psl (rule_rp_id r) = Ok (normalize (rule_rp_id r))) \<and>
      policy_sound (register r) \<and> policy_sound (authenticate r))"

lemma validate_rules_ok:
  "validate_rules psl p seen rs = Ok () \<Longrightarrow>
     list_all (rule_ok psl) rs \<and> distinct (map (\<lambda>r. normalize (rule_rp_id r)) rs) \<and>
     (\<forall>r \<in> set rs. normalize (rule_rp_id r) \<notin> set seen)"
proof (induction psl p seen rs rule: validate_rules.induct)
  case (1 psl p seen)
  then show ?case by simp
next
  case (2 psl p seen r rs)
  let ?n = "normalize (rule_rp_id r)"
  from "2.prems" obtain n where id: "validate_agent_rp_rule_id psl (rule_rp_id r) = Ok n"
    and new: "?n \<notin> set seen"
    and pol: "policy_validate (rule_rp_id r) (register r) = Ok ()" "policy_validate (rule_rp_id r) (authenticate r) = Ok ()"
    and sel: "\<not> (case rule_credential_selection r of Some sel \<Rightarrow> selection_outside_refs p sel | None \<Rightarrow> False)"
    and rest: "validate_rules psl p (?n # seen) rs = Ok ()"
    by (auto simp: res_bind_ok Let_def split: if_splits)
  have "rule_ok psl r" using rule_id_ok [OF id] pol by (simp add: rule_ok_def policy_validate_ok)
  moreover from "2.IH" [OF refl new sel rest]
  have "list_all (rule_ok psl) rs" "distinct (map (\<lambda>r. normalize (rule_rp_id r)) rs)"
    "\<forall>r \<in> set rs. normalize (rule_rp_id r) \<notin> set (?n # seen)" by blast+
  ultimately show ?case using new by auto
qed

lemma profile_validate_ok:
  assumes "profile_validate psl fs p = Ok ()"
  shows "validate_limits p = Ok ()" and "validate_rules psl p [] (effective_rules p) = Ok ()"
    and "validate_wildcard p = Ok ()" and "validate_mode fs p = Ok ()" and "validate_start_url p = Ok ()"
  using assms by (auto simp: profile_validate_def res_bind_ok)

lemmas profile_rules_ok = validate_rules_ok [OF profile_validate_ok(2)]

lemma validate_wildcard_ok:
  assumes "profile_validate psl fs p = Ok ()" and "r \<in> set (effective_rules p)" and "normalize (rule_rp_id r) = ANY_RP_ID"
  shows "pc_rules p \<noteq> [] \<and> pc_mode p = SameUser \<and> pc_credential_refs p = None \<and> authorization (register r) = Deny"
proof -
  have "distinct (map (\<lambda>r. normalize (rule_rp_id r)) (effective_rules p))"
    using profile_rules_ok [OF assms(1)] by blast
  from find_unique [OF this] assms(2,3)
  have "find (\<lambda>r. cfg_normalize_rp_id (rule_rp_id r) = ANY_RP_ID) (effective_rules p) = Some r"
    by (simp add: cfg_normalize_rp_id_def)
  with profile_validate_ok(3) [OF assms(1)] show ?thesis
    by (simp add: validate_wildcard_def split: if_splits)
qed

definition device_ok :: "device_identity \<Rightarrow> bool" where
  "device_ok d =
     (dev_name d \<noteq> [] \<and> dev_phys d \<noteq> [] \<and> dev_uniq d \<noteq> [] \<and>
      length (dev_name d) < 128 \<and> length (dev_phys d) < 64 \<and> length (dev_uniq d) < 64 \<and>
      (dev_name d = HUMAN_DEVICE_NAME \<longrightarrow> dev_phys d = HUMAN_DEVICE_PHYS \<longrightarrow>
       dev_vendor_id d = HUMAN_VENDOR_ID \<longrightarrow> dev_product_id d \<noteq> HUMAN_PRODUCT_ID))"

lemma validate_device_field_ok: "validate_device_field v f n = Ok () \<Longrightarrow> length v \<le> n"
  by (auto simp: validate_device_field_def split: if_splits)

lemma device_validate_ok:
  assumes "device_validate d = Ok ()" and "dev_name d \<noteq> []" and "dev_phys d \<noteq> []" and "dev_uniq d \<noteq> []"
  shows "device_ok d"
proof -
  from assms(1) have f: "validate_device_field (dev_name d) ''name'' DEVICE_NAME_MAX = Ok ()"
    "validate_device_field (dev_phys d) ''phys'' DEVICE_PHYS_MAX = Ok ()"
    "validate_device_field (dev_uniq d) ''uniq'' DEVICE_UNIQ_MAX = Ok ()"
    and h: "\<not> (dev_name d = HUMAN_DEVICE_NAME \<and> dev_phys d = HUMAN_DEVICE_PHYS \<and>
          dev_vendor_id d = HUMAN_VENDOR_ID \<and> dev_product_id d = HUMAN_PRODUCT_ID)"
    by (auto simp: device_validate_def res_bind_ok split: if_splits)
  from f [THEN validate_device_field_ok] h assms(2-) show ?thesis
    by (auto simp: device_ok_def DEVICE_NAME_MAX_def DEVICE_PHYS_MAX_def DEVICE_UNIQ_MAX_def)
qed

lemma validate_mode_ok:
  assumes "validate_mode fs p = Ok ()"
  shows "case pc_mode p of
      SameUser \<Rightarrow> pc_storage p = None
    | Isolated \<Rightarrow> device_ok (pc_device p) \<and> pc_storage p \<noteq> None \<and> pc_browser_user p = None"
  using assms by (auto simp: validate_mode_def res_bind_ok device_validate_ok split: agent_mode.splits if_splits option.splits)

section \<open>What a validated configuration satisfies\<close>

lemma overlaps_sym: "overlaps a b = overlaps b a"
  by (auto simp: overlaps_def)

lemma check_roots_ok: "check_roots rs = Ok () \<longleftrightarrow> sorted_wrt (\<lambda>a b. \<not> overlaps (snd a) (snd b)) rs"
  by (induction rs rule: check_roots.induct) (fastforce simp: find_None_iff split: option.splits dest!: find_SomeD)+

lemma check_human_ok:
  "check_human fs (Some h) rs = Ok () \<longleftrightarrow> list_all (\<lambda>r. \<not> overlaps (snd r) (canonicalize_path fs h)) rs"
  by (fastforce simp: check_human_def Let_def find_None_iff list_all_iff split: option.splits dest!: find_SomeD)

lemma profile_id_new_eq: "profile_id_new name = Ok pid \<Longrightarrow> pid = ProfileId name"
  by (simp add: profile_id_new_ok)

lemma validate_profiles_ok:
  "validate_profiles psl fs c ps = Ok vs \<Longrightarrow>
     vs = map (\<lambda>(name, p). (ProfileId name, p)) ps \<and>
     list_all (\<lambda>(name, p). profile_validate psl fs p = Ok () \<and>
       (global_same_user p \<longrightarrow> name \<in> set (ag_acknowledge_global_same_user c)) \<and>
       (pc_mode p = SameUser \<and> allows_registration p \<longrightarrow> name \<in> set (ag_acknowledge_same_user_registration c))) ps"
proof (induction ps arbitrary: vs)
  case Nil
  then show ?case by simp
next
  case (Cons x ps)
  obtain name p where x: "x = (name, p)" by (cases x)
  from Cons.prems obtain pid rest where "profile_id_new name = Ok pid" "profile_validate psl fs p = Ok ()"
    "global_same_user p \<Longrightarrow> name \<in> set (ag_acknowledge_global_same_user c)"
    "pc_mode p = SameUser \<Longrightarrow> allows_registration p \<Longrightarrow> name \<in> set (ag_acknowledge_same_user_registration c)"
    "validate_profiles psl fs c ps = Ok rest" "vs = (pid, p) # rest"
    unfolding x by (auto simp: res_bind_ok split: sum.splits if_splits)
  with Cons.IH [of rest] show ?case by (auto simp: x dest: profile_id_new_eq)
qed

lemma check_devices_ok:
  "check_devices seen vs = Ok () \<longleftrightarrow>
     (let keys = map (\<lambda>(_, p). device_key (pc_device p)) (filter (\<lambda>(_, p). pc_mode p \<noteq> SameUser) vs)
      in distinct keys \<and> set keys \<inter> set seen = {})"
  by (induction seen vs rule: check_devices.induct) (auto simp: Let_def)

lemma agent_config_validate_ok:
  assumes "agent_config_validate psl fs human c = Ok ()" and "ag_enabled c"
  obtains vs where "validate_profiles psl fs c (ag_profiles c) = Ok vs" and "check_roots (all_roots fs c vs) = Ok ()"
    and "check_human fs human (all_roots fs c vs) = Ok ()" and "check_devices [] vs = Ok ()" and "ag_audit_path c \<noteq> None"
  using assms by (auto simp: agent_config_validate_def res_bind_ok Let_def split: if_splits option.splits)

section \<open>Properties\<close>

text \<open>Example data for the witnesses: a same-user profile with a wildcard rule and two isolated profiles.\<close>

abbreviation cex_psl :: "bytes \<Rightarrow> bytes option" where "cex_psl \<equiv> \<lambda>d. Some d"
abbreviation cex_fs :: "path \<Rightarrow> path option" where "cex_fs \<equiv> \<lambda>p. Some p"

definition cex_rule :: "string \<Rightarrow> agent_ceremony_policy \<Rightarrow> agent_ceremony_policy \<Rightarrow> agent_rp_rule" where
  "cex_rule rp reg auth = \<lparr>rule_rp_id = rp, register = reg, authenticate = auth, rule_credential_selection = None\<rparr>"

definition cex_profile ::
    "agent_mode \<Rightarrow> agent_storage_config option \<Rightarrow> agent_rp_rule list \<Rightarrow> string \<Rightarrow> agent_profile_config" where
  "cex_profile mode storage rules dev =
     \<lparr>pc_mode = mode, pc_principal_user = ''u'', pc_rp_ids = [], pc_require_uv = False, pc_credential_refs = None,
      pc_max_grant_ttl = None, pc_max_session_ttl = None, pc_max_operations = 64, pc_max_concurrent_sessions = 1,
      pc_browser_scope = ScopeSession, pc_credential_selection = Single, pc_human_verification_prompt = Always,
      pc_storage = storage, pc_registration_allowed = False, pc_rules = rules,
      pc_device = \<lparr>dev_name = dev, dev_phys = ''x'', dev_uniq = ''y'', dev_vendor_id = 1, dev_product_id = 2\<rparr>,
      pc_start_url = None, pc_browser_command = None, pc_browser_user = None, pc_browser_runtime_root = None,
      pc_browser_cdp_expose = None, pc_browser_cdp_port = None\<rparr>"

definition cex_storage :: "string \<Rightarrow> agent_storage_config" where
  "cex_storage d = Local [RootDir, Normal d, Normal ''c''] [RootDir, Normal d, Normal ''p'']"

definition cex_global :: agent_profile_config where
  "cex_global = cex_profile SameUser None [cex_rule ''*'' policy_deny policy_autonomous, cex_rule ''a.b'' policy_deny policy_supervised] []"

definition cex_isolated :: "string \<Rightarrow> agent_profile_config" where
  "cex_isolated d = cex_profile Isolated (Some (cex_storage d)) [cex_rule ''a.b'' policy_supervised policy_supervised] d"

definition cex_config :: agent_config where
  "cex_config = \<lparr>ag_enabled = True,
     ag_profiles = [(''g'', cex_global), (''i'', cex_isolated ''i''), (''j'', cex_isolated ''j'')],
     ag_audit_path = Some [RootDir, Normal ''audit''], ag_acknowledge_global_same_user = [''g''],
     ag_acknowledge_same_user_registration = []\<rparr>"

lemma cex_rp: "validate_rp_id cex_psl ''a.b'' = Ok ''a.b''" "validate_rp_id cex_psl ''A.b'' = Ok ''a.b''"
  by (simp_all add: ex_rp_id)

lemma cex_trim: "trim ''a.b'' = ''a.b''" "trim ''*'' = ''*''" "normalize ''*'' = ''*''"
  by code_simp+

lemma cex_rule_ids:
  "validate_agent_rp_rule_id cex_psl ''a.b'' = Ok ''a.b''" "validate_agent_rp_rule_id cex_psl ''*'' = Ok ''*''"
  "normalize ''*'' = ''*''"
  by (simp_all add: validate_agent_rp_rule_id_def Let_def cex_trim ANY_RP_ID_def cex_rp)

lemma cex_global_valid: "profile_validate cex_psl cex_fs cex_global = Ok ()"
  by (simp add: cex_global_def cex_profile_def cex_rule_def profile_validate_def validate_limits_def effective_rules_def
      MAX_OPERATIONS_def MAX_CONCURRENT_SESSIONS_def selection_outside_refs_def cex_rule_ids Let_def policy_validate_def
      policy_deny_def policy_autonomous_def policy_supervised_def validate_wildcard_def cfg_normalize_rp_id_def ANY_RP_ID_def
      validate_browser_command_def validate_mode_def validate_start_url_def)

lemma cex_isolated_valid:
  "d \<in> {''i'', ''j''} \<Longrightarrow> profile_validate cex_psl cex_fs (cex_isolated d) = Ok ()"
  by (auto simp: cex_isolated_def cex_profile_def cex_rule_def profile_validate_def validate_limits_def effective_rules_def
      MAX_OPERATIONS_def MAX_CONCURRENT_SESSIONS_def selection_outside_refs_def cex_rule_ids Let_def policy_validate_def
      policy_supervised_def validate_wildcard_def cfg_normalize_rp_id_def ANY_RP_ID_def validate_browser_command_def
      validate_mode_def validate_start_url_def device_validate_def validate_device_field_def DEVICE_NAME_MAX_def
      DEVICE_PHYS_MAX_def DEVICE_UNIQ_MAX_def HUMAN_DEVICE_NAME_def cex_storage_def storage_validate_def)

lemma cex_profile_ids: "profile_id_new [c] = Ok (ProfileId [c])" if "c \<in> {CHR ''g'', CHR ''i'', CHR ''j''}"
  using that by (elim insertE; simp; code_simp)

lemma cex_config_valid: "agent_config_validate cex_psl cex_fs (Some [RootDir, Normal ''home'']) cex_config = Ok ()"
proof -
  have g: "global_same_user cex_global" "\<not> allows_registration cex_global" "pc_mode cex_global = SameUser" "pc_storage cex_global = None"
    by (simp_all add: global_same_user_def allows_registration_def cex_global_def cex_profile_def cex_rule_def effective_rules_def
        cfg_normalize_rp_id_def cex_rule_ids ANY_RP_ID_def policy_deny_def policy_autonomous_def)
  have i: "pc_mode (cex_isolated d) = Isolated" "\<not> global_same_user (cex_isolated d)" "pc_storage (cex_isolated d) = Some (cex_storage d)"
    "dev_name (pc_device (cex_isolated d)) = d" for d
    by (simp_all add: cex_isolated_def cex_profile_def global_same_user_def)
  have "validate_profiles cex_psl cex_fs cex_config (ag_profiles cex_config) =
      Ok [(ProfileId ''g'', cex_global), (ProfileId ''i'', cex_isolated ''i''), (ProfileId ''j'', cex_isolated ''j'')]"
    using g i by (simp add: cex_config_def cex_profile_ids cex_global_valid cex_isolated_valid)
  moreover have "check_devices [] [(ProfileId ''g'', cex_global), (ProfileId ''i'', cex_isolated ''i''), (ProfileId ''j'', cex_isolated ''j'')] = Ok ()"
    using g i by (simp add: device_key_def)
  ultimately show ?thesis
    using g i by (simp add: agent_config_validate_def cex_config_def hm_get_def all_roots_def storage_roots_def all_paths_def
        check_human_def credential_state_path_def pin_state_path_def cex_storage_def canonicalize_path_def overlaps_def
        path_starts_with_def)
qed

text \<open>A validated profile is safe: its rules are pairwise different and each is a valid identifier or the wildcard;
  a denied ceremony carries no evidence and an automatically allowed one never claims human
  presence; a wildcard rule occurs only in same-user mode, with explicit rules, without pinned
  credentials, and denies registration; a same-user profile has no storage of its own; an
  isolated one has storage, no separate browser user, and a complete device identity within the
  kernel's limits that is not the one of the human authenticator.\<close>

theorem validated_profile_safe:
  assumes "profile_validate psl fs p = Ok ()"
  shows "list_all (rule_ok psl) (effective_rules p) \<and> distinct (map (\<lambda>r. normalize (rule_rp_id r)) (effective_rules p)) \<and>
    list_all (\<lambda>r. normalize (rule_rp_id r) = ANY_RP_ID \<longrightarrow>
      pc_rules p \<noteq> [] \<and> pc_mode p = SameUser \<and> pc_credential_refs p = None \<and> authorization (register r) = Deny)
      (effective_rules p) \<and>
    (case pc_mode p of
       SameUser \<Rightarrow> pc_storage p = None
     | Isolated \<Rightarrow> device_ok (pc_device p) \<and> pc_storage p \<noteq> None \<and> pc_browser_user p = None)"
proof (intro conjI)
  show "list_all (rule_ok psl) (effective_rules p)" "distinct (map (\<lambda>r. normalize (rule_rp_id r)) (effective_rules p))"
    using profile_rules_ok [OF assms] by blast+
  show "list_all (\<lambda>r. normalize (rule_rp_id r) = ANY_RP_ID \<longrightarrow>
      pc_rules p \<noteq> [] \<and> pc_mode p = SameUser \<and> pc_credential_refs p = None \<and> authorization (register r) = Deny)
      (effective_rules p)"
    using validate_wildcard_ok [OF assms] unfolding list_all_iff by blast
  show "case pc_mode p of
       SameUser \<Rightarrow> pc_storage p = None
     | Isolated \<Rightarrow> device_ok (pc_device p) \<and> pc_storage p \<noteq> None \<and> pc_browser_user p = None"
    by (rule validate_mode_ok [OF profile_validate_ok(4) [OF assms]])
qed

theorem validated_profile_safe_witness: "device_ok (pc_device (cex_isolated ''i''))"
  using validated_profile_safe [OF cex_isolated_valid, of "''i''"] by (simp add: cex_isolated_def cex_profile_def)

text \<open>The rule that governs a relying party is unique and the most specific one: for a validated profile the rule found is
  the rule with the same normal form, or, only if there is none, the wildcard rule.\<close>

theorem rule_for_rp_most_specific:
  assumes "profile_validate psl fs p = Ok ()"
  shows "rule_for_rp psl rp p = Some r \<longleftrightarrow>
    validate_rp_id psl rp = Ok (normalize rp) \<and> r \<in> set (effective_rules p) \<and>
    (normalize (rule_rp_id r) = normalize rp \<or>
     normalize (rule_rp_id r) = ANY_RP_ID \<and> normalize rp \<notin> set (map (\<lambda>r. normalize (rule_rp_id r)) (effective_rules p)))"
proof (cases "validate_rp_id psl rp")
  case (Inl e)
  then show ?thesis by (simp add: rule_for_rp_def)
next
  case (Inr n)
  then have n: "n = normalize rp" by (simp add: validate_rp_id_ok)
  have "distinct (map (\<lambda>r. normalize (rule_rp_id r)) (effective_rules p))" using profile_rules_ok [OF assms] by blast
  note unique = find_unique [OF this]
  show ?thesis
  proof (cases "find (\<lambda>r. normalize (rule_rp_id r) = n) (effective_rules p)")
    case None
    then have "rule_for_rp psl rp p = find (\<lambda>r. normalize (rule_rp_id r) = ANY_RP_ID) (effective_rules p)"
      by (simp add: rule_for_rp_def Let_def Inr cfg_normalize_rp_id_def)
    moreover from None have "n \<notin> set (map (\<lambda>r. normalize (rule_rp_id r)) (effective_rules p))"
      by (auto simp: find_None_iff)
    ultimately show ?thesis using Inr unique [of ANY_RP_ID r] unfolding n by force
  next
    case (Some r')
    then have "rule_for_rp psl rp p = Some r'" by (simp add: rule_for_rp_def Let_def Inr cfg_normalize_rp_id_def)
    moreover from Some have "n \<in> set (map (\<lambda>r. normalize (rule_rp_id r)) (effective_rules p))"
      unfolding unique by auto
    moreover from Some have "r \<in> set (effective_rules p) \<and> normalize (rule_rp_id r) = n \<longleftrightarrow> r = r'" for r
      unfolding unique [symmetric] by auto
    ultimately show ?thesis using Inr unfolding n by auto
  qed
qed

theorem rule_for_rp_most_specific_witness:
  "rule_for_rp cex_psl ''A.b'' cex_global = Some (cex_rule ''a.b'' policy_deny policy_supervised)"
  by (subst rule_for_rp_most_specific [OF cex_global_valid])
    (simp add: cex_rp cex_global_def cex_profile_def effective_rules_def cex_rule_def)

text \<open>The state directories of a profile: where it keeps its credentials and its PIN, if it has storage of its own.\<close>

definition state_dirs :: "(path \<Rightarrow> path option) \<Rightarrow> agent_profile_config \<Rightarrow> path list" where
  "state_dirs fs p = (case pc_storage p of None \<Rightarrow> [] | Some s \<Rightarrow> [credential_state_path fs s, pin_state_path fs s])"

lemma storage_roots_dirs: "map snd (storage_roots fs (pid, p)) = state_dirs fs p"
  by (simp add: storage_roots_def all_paths_def state_dirs_def split: option.split)

text \<open>The roots that the validation compares, by their directories.\<close>

lemma all_roots_dirs:
  "map snd (all_roots fs c vs) =
     (case ag_audit_path c of None \<Rightarrow> [] | Some audit \<Rightarrow> [canonicalize_path fs audit]) @ concat (map (\<lambda>(_, p). state_dirs fs p) vs)"
  by (induction vs) (auto simp: all_roots_def storage_roots_dirs split: option.split)

lemma check_roots_dirs: "check_roots rs = Ok () \<longleftrightarrow> sorted_wrt (\<lambda>x y. \<not> overlaps x y) (map snd rs)"
  by (simp add: check_roots_ok sorted_wrt_map)

lemma check_human_dirs:
  "check_human fs (Some h) rs = Ok () \<longleftrightarrow> list_all (\<lambda>x. \<not> overlaps x (canonicalize_path fs h)) (map snd rs)"
  by (simp add: check_human_ok list_all_iff)

text \<open>Each piece of a list whose elements are pairwise apart has its elements pairwise apart.\<close>

lemma sorted_wrt_piece: "sorted_wrt P (concat (map f vs)) \<Longrightarrow> v \<in> set vs \<Longrightarrow> sorted_wrt P (f v)"
  by (induction vs) (auto simp: sorted_wrt_append)

lemma validated_devices_differ:
  assumes "check_devices [] vs = Ok ()" and "(i, a) \<in> set vs" and "(j, b) \<in> set vs" and "i \<noteq> j"
    and "pc_mode a = Isolated" and "pc_mode b = Isolated"
  shows "device_key (pc_device a) \<noteq> device_key (pc_device b)"
proof -
  have "inj_on (\<lambda>(_, p). device_key (pc_device p)) (set (filter (\<lambda>(_, p). pc_mode p \<noteq> SameUser) vs))"
    using assms(1) by (simp add: check_devices_ok Let_def distinct_map)
  from inj_onD [OF this, of "(i, a)" "(j, b)"] assms(2-6) show ?thesis by auto
qed

text \<open>C39. A validated configuration keeps the audit log, the profiles and the human authenticator apart. An enabled
  configuration that is accepted names an audit directory. The audit directory, the credential
  directory and the PIN directory of every profile with storage are pairwise disjoint, also within
  one profile: none is equal to or inside another. None of them, the audit directory included,
  overlaps the state of the human authenticator, also when there is a single profile. Two isolated
  profiles have different device identities, compared as the validation compares them: name, physical
  path, unique identifier, vendor and product joined by colons.\<close>

theorem validated_config_isolates:
  assumes "agent_config_validate psl fs (Some human) c = Ok ()" and "ag_enabled c" and "hm_wf (ag_profiles c)"
  shows "\<exists>audit. ag_audit_path c = Some audit \<and>
    \<not> overlaps (canonicalize_path fs audit) (canonicalize_path fs human) \<and>
    (\<forall>(na, a) \<in> set (ag_profiles c).
      (\<forall>x \<in> set (state_dirs fs a). \<not> overlaps (canonicalize_path fs audit) x \<and> \<not> overlaps x (canonicalize_path fs human)) \<and>
      sorted_wrt (\<lambda>x y. \<not> overlaps x y) (state_dirs fs a) \<and>
      (\<forall>(nb, b) \<in> set (ag_profiles c). na \<noteq> nb \<longrightarrow>
        (\<forall>x \<in> set (state_dirs fs a). \<forall>y \<in> set (state_dirs fs b). \<not> overlaps x y) \<and>
        (pc_mode a = Isolated \<and> pc_mode b = Isolated \<longrightarrow> device_key (pc_device a) \<noteq> device_key (pc_device b))))"
proof -
  from assms(1,2) obtain vs audit where vs: "validate_profiles psl fs c (ag_profiles c) = Ok vs"
    and roots: "check_roots (all_roots fs c vs) = Ok ()" and hum: "check_human fs (Some human) (all_roots fs c vs) = Ok ()"
    and dev: "check_devices [] vs = Ok ()" and au: "ag_audit_path c = Some audit" by (elim agent_config_validate_ok) auto
  have vs_eq: "vs = map (\<lambda>(name, p). (ProfileId name, p)) (ag_profiles c)" using validate_profiles_ok [OF vs] by blast
  then have mem: "(ProfileId n, p) \<in> set vs" if "(n, p) \<in> set (ag_profiles c)" for n p using that by force
  have "map fst vs = map ProfileId (map fst (ag_profiles c))" by (simp add: vs_eq comp_def case_prod_beta)
  with assms(3) have dist: "distinct (map fst vs)" by (simp add: hm_wf_def distinct_map inj_on_def)
  have r: "sorted_wrt (\<lambda>x y. \<not> overlaps x y) (canonicalize_path fs audit # concat (map (\<lambda>(_, p). state_dirs fs p) vs))"
    using roots by (simp add: check_roots_dirs all_roots_dirs au)
  have h: "list_all (\<lambda>x. \<not> overlaps x (canonicalize_path fs human))
      (canonicalize_path fs audit # concat (map (\<lambda>(_, p). state_dirs fs p) vs))"
    using hum by (simp add: check_human_dirs all_roots_dirs au)
  have one: "(\<forall>x \<in> set (state_dirs fs a). \<not> overlaps (canonicalize_path fs audit) x \<and> \<not> overlaps x (canonicalize_path fs human)) \<and>
      sorted_wrt (\<lambda>x y. \<not> overlaps x y) (state_dirs fs a)" if "(na, a) \<in> set (ag_profiles c)" for na a
    using r h mem [OF that] sorted_wrt_piece [of _ "\<lambda>(_, p). state_dirs fs p" vs "(ProfileId na, a)"] by (fastforce simp: list_all_iff)
  have two: "(\<forall>x \<in> set (state_dirs fs a). \<forall>y \<in> set (state_dirs fs b). \<not> overlaps x y) \<and>
      (pc_mode a = Isolated \<and> pc_mode b = Isolated \<longrightarrow> device_key (pc_device a) \<noteq> device_key (pc_device b))"
    if "(na, a) \<in> set (ag_profiles c)" "(nb, b) \<in> set (ag_profiles c)" "na \<noteq> nb" for na a nb b
    using sorted_wrt_concat_pieces [of "\<lambda>x y. \<not> overlaps x y" "\<lambda>(_, p). state_dirs fs p" vs fst "(ProfileId na, a)" "(ProfileId nb, b)"]
      validated_devices_differ [OF dev mem [OF that(1)] mem [OF that(2)]] r dist mem that
    by (auto simp: symp_def overlaps_sym)
  show ?thesis
    using au h one two by (intro exI [of _ audit] conjI ballI) auto
qed

theorem validated_config_isolates_witness:
  "\<not> overlaps (credential_state_path cex_fs (cex_storage ''i'')) (pin_state_path cex_fs (cex_storage ''j'')) \<and>
   \<not> overlaps [RootDir, Normal ''audit''] (pin_state_path cex_fs (cex_storage ''i'')) \<and>
   \<not> overlaps [RootDir, Normal ''audit''] [RootDir, Normal ''home'']"
proof -
  have wf: "hm_wf (ag_profiles cex_config)" and mem: "(''i'', cex_isolated ''i'') \<in> set (ag_profiles cex_config)"
    "(''j'', cex_isolated ''j'') \<in> set (ag_profiles cex_config)" and en: "ag_enabled cex_config"
    and au: "ag_audit_path cex_config = Some [RootDir, Normal ''audit'']"
    by (simp_all add: cex_config_def hm_wf_def)
  have d: "set (state_dirs cex_fs (cex_isolated d)) = {credential_state_path cex_fs (cex_storage d), pin_state_path cex_fs (cex_storage d)}" for d
    by (simp add: state_dirs_def cex_isolated_def cex_profile_def)
  from validated_config_isolates [OF cex_config_valid en wf] mem show ?thesis
    by (fastforce simp: au d canonicalize_path_def)
qed

text \<open>Dangerous profiles are acknowledged by name: in a validated configuration a same-user profile that may
  authenticate everywhere, or may register credentials in the human backend, is listed by the
  operator.\<close>

theorem dangerous_profiles_acknowledged:
  assumes "agent_config_validate psl fs human c = Ok ()" and "ag_enabled c" and "(name, p) \<in> set (ag_profiles c)"
  shows "(global_same_user p \<longrightarrow> name \<in> set (ag_acknowledge_global_same_user c)) \<and>
    (pc_mode p = SameUser \<and> allows_registration p \<longrightarrow> name \<in> set (ag_acknowledge_same_user_registration c))"
proof -
  from assms(1,2) obtain vs where "validate_profiles psl fs c (ag_profiles c) = Ok vs" by (rule agent_config_validate_ok)
  from validate_profiles_ok [OF this] assms(3) show ?thesis by (force simp: list_all_iff)
qed

theorem dangerous_profiles_acknowledged_witness:
  "global_same_user cex_global \<and> ''g'' \<in> set (ag_acknowledge_global_same_user cex_config)"
proof -
  have "ag_enabled cex_config" "(''g'', cex_global) \<in> set (ag_profiles cex_config)" by (simp_all add: cex_config_def)
  from dangerous_profiles_acknowledged [OF cex_config_valid this] show ?thesis
    by (simp add: global_same_user_def cex_global_def cex_profile_def cex_rule_def effective_rules_def ANY_RP_ID_def
        policy_autonomous_def policy_supervised_def cex_trim cfg_normalize_rp_id_def)
qed

text \<open>Durations are bounded: \<open>BoundedDuration::new\<close> accepts exactly one second to 365 days, unchanged.\<close>

theorem bounded_duration_bounds:
  "bounded_duration_new secs = Ok d \<longleftrightarrow> d = BoundedDuration secs \<and> 1 \<le> unat secs \<and> unat secs \<le> 31536000"
  by (auto simp: bounded_duration_new_def MIN_DURATION_SECS_def MAX_DURATION_SECS_def word_less_nat_alt not_less)

end
