(* ===== verification/Cbor.thy ===== *)
theory Cbor
  imports Rust_Strings "HOL-Library.Product_Lexorder" "HOL-Library.Multiset"
begin

text \<open>
  The deterministic CBOR encoder of \<open>policy.rs\<close> (module \<open>cbor\<close>): heads with the shortest length
  form, text and byte strings, arrays, and maps sorted by the length of the key first and its bytes
  second.  The locale \<open>prefix_code\<close> is the contract of an encoder: from a buffer that starts with an
  encoded value both the value and the rest of the buffer can be recovered.  Every encoder of the
  module is an instance, and arrays and maps of such encoders are again instances.
\<close>

unbundle bit_operations_syntax

section \<open>The encoder\<close>

definition encode_type_and_length :: "u8 \<Rightarrow> u64 \<Rightarrow> bytes" where
  "encode_type_and_length major_type n =
     (let mt = push_bit 5 major_type in
      if n \<le> 23 then [mt OR ucast n]
      else if n \<le> 0xff then [mt OR 24, ucast n]
      else if n \<le> 0xffff then [mt OR 25, ucast (drop_bit 8 n), ucast n]
      else if n \<le> 0xffffffff then
        [mt OR 26, ucast (drop_bit 24 n), ucast (drop_bit 16 n), ucast (drop_bit 8 n), ucast n]
      else
        [mt OR 27, ucast (drop_bit 56 n), ucast (drop_bit 48 n), ucast (drop_bit 40 n), ucast (drop_bit 32 n),
         ucast (drop_bit 24 n), ucast (drop_bit 16 n), ucast (drop_bit 8 n), ucast n])"

definition encode_uint :: "u64 \<Rightarrow> bytes" where
  "encode_uint value = encode_type_and_length 0 value"

definition encode_bool :: "bool \<Rightarrow> bytes" where
  "encode_bool value = (if value then [0xf5] else [0xf4])"

definition encode_text :: "string \<Rightarrow> bytes" where
  "encode_text t = encode_type_and_length 3 (of_nat (length (as_bytes t))) @ as_bytes t"

definition encode_byte_string :: "bytes \<Rightarrow> bytes" where
  "encode_byte_string data = encode_type_and_length 2 (of_nat (length data)) @ data"

definition encode_array :: "bytes list \<Rightarrow> bytes" where
  "encode_array items = encode_type_and_length 4 (of_nat (length items)) @ concat items"

definition encode_text_array :: "string list \<Rightarrow> bytes" where
  "encode_text_array items = encode_array (map encode_text items)"

definition map_key :: "string \<times> bytes \<Rightarrow> nat \<times> bytes" where
  "map_key e = (length (as_bytes (fst e)), as_bytes (fst e))"

definition encode_map_sorted :: "(string \<times> bytes) list \<Rightarrow> bytes" where
  "encode_map_sorted entries =
     (let sorted = sort_key map_key entries in
      encode_type_and_length 5 (of_nat (length sorted)) @ concat (map (\<lambda>(key, v). encode_text key @ v) sorted))"

section \<open>Heads are read back\<close>

text \<open>The reading of a head that RFC 8949 prescribes: major type, argument and the rest of the buffer.\<close>

definition read_be :: "bytes \<Rightarrow> u64" where
  "read_be bs = foldl (\<lambda>acc b. push_bit 8 acc OR ucast b) 0 bs"

definition read_head :: "bytes \<Rightarrow> (u8 \<times> u64 \<times> bytes) option" where
  "read_head bs = (case bs of
      [] \<Rightarrow> None
    | b # r \<Rightarrow>
        let mt = drop_bit 5 b; ai = take_bit 5 b; k = 2 ^ (unat ai - 24) in
        if ai \<le> 23 then Some (mt, ucast ai, r)
        else if ai \<le> 27 \<and> k \<le> length r then Some (mt, read_be (take k r), drop k r)
        else None)"

lemma head_byte:
  fixes mt k :: u8
  assumes "mt < 8" and "k < 32"
  shows "drop_bit 5 (push_bit 5 mt OR k) = mt \<and> take_bit 5 (push_bit 5 mt OR k) = k"
proof
  have k: "take_bit 5 k = k" using assms(2) by (simp add: word_unat_eq_iff unsigned_take_bit_eq take_bit_eq_mod word_less_nat_alt unat_mod)
  have mt: "take_bit 3 mt = mt" using assms(1) by (simp add: word_unat_eq_iff unsigned_take_bit_eq take_bit_eq_mod word_less_nat_alt unat_mod)
  have bk: "\<not> bit k n" if "5 \<le> n" for n
    using that by (subst k [symmetric]) (simp add: bit_take_bit_iff)
  have bm: "\<not> bit mt n" if "3 \<le> n" for n
    using that by (subst mt [symmetric]) (simp add: bit_take_bit_iff)
  show "drop_bit 5 (push_bit 5 mt OR k) = mt"
    by (rule bit_eqI) (auto simp: bit_simps bk bm intro: ccontr)
  show "take_bit 5 (push_bit 5 mt OR k) = k"
    by (rule bit_eqI) (auto simp: bit_simps bk not_less)
qed

text \<open>One more byte of a big-endian number: shift by eight and fill in the next byte.\<close>

lemma be_step:
  fixes n :: u64
  assumes "m = drop_bit 8 n"
  shows "push_bit 8 m OR ucast (ucast n :: u8) = n"
proof (rule bit_eqI)
  fix i
  show "bit (push_bit 8 m OR ucast (ucast n :: u8)) i = bit n i"
    by (cases "i < 8") (auto simp: assms bit_simps dest: bit_imp_le_length)
qed

lemma drop_bit_small: "unat (n :: 'a::len word) < 2 ^ k \<Longrightarrow> drop_bit k n = 0"
  unfolding word_unat_eq_iff unat_drop_bit_eq by (simp add: drop_bit_eq_div)

lemma read_be_bytes:
  fixes n :: u64
  shows "n \<le> 0xff \<Longrightarrow> read_be [ucast n] = n"
    and "n \<le> 0xffff \<Longrightarrow> read_be [ucast (drop_bit 8 n), ucast n] = n"
    and "n \<le> 0xffffffff \<Longrightarrow>
      read_be [ucast (drop_bit 24 n), ucast (drop_bit 16 n), ucast (drop_bit 8 n), ucast n] = n"
    and "read_be [ucast (drop_bit 56 n), ucast (drop_bit 48 n), ucast (drop_bit 40 n), ucast (drop_bit 32 n),
      ucast (drop_bit 24 n), ucast (drop_bit 16 n), ucast (drop_bit 8 n), ucast n] = n"
proof -
  show "read_be [ucast n] = n" if "n \<le> 0xff"
    using that drop_bit_small [of n 8] be_step [of 0 n] by (simp add: read_be_def word_le_nat_alt)
  have *: "push_bit 8 (drop_bit 8 m) OR ucast (ucast m :: u8) = m" for m :: u64 by (rule be_step) simp
  show "read_be [ucast (drop_bit 8 n), ucast n] = n" if "n \<le> 0xffff"
    using that drop_bit_small [of n 16] be_step [of 0 "drop_bit 8 n"] * [of n]
    by (simp add: read_be_def word_le_nat_alt)
  show "read_be [ucast (drop_bit 24 n), ucast (drop_bit 16 n), ucast (drop_bit 8 n), ucast n] = n" if "n \<le> 0xffffffff"
    using that drop_bit_small [of n 32] be_step [of 0 "drop_bit 24 n"]
      * [of "drop_bit 16 n"] * [of "drop_bit 8 n"] * [of n]
    by (simp add: read_be_def word_le_nat_alt)
  show "read_be [ucast (drop_bit 56 n), ucast (drop_bit 48 n), ucast (drop_bit 40 n), ucast (drop_bit 32 n),
      ucast (drop_bit 24 n), ucast (drop_bit 16 n), ucast (drop_bit 8 n), ucast n] = n"
    using drop_bit_small [of n 64] be_step [of 0 "drop_bit 56 n"] * [of "drop_bit 48 n"] * [of "drop_bit 40 n"]
      * [of "drop_bit 32 n"] * [of "drop_bit 24 n"] * [of "drop_bit 16 n"] * [of "drop_bit 8 n"] * [of n]
      unsigned_less [of n]
    by (simp add: read_be_def)
qed

lemma read_head_Cons:
  assumes "mt < 8" and "k < 32"
  shows "read_head ((push_bit 5 mt OR k) # r) =
    (let j = 2 ^ (unat k - 24) in
     if k \<le> 23 then Some (mt, ucast k, r)
     else if k \<le> 27 \<and> j \<le> length r then Some (mt, read_be (take j r), drop j r) else None)"
  using head_byte [OF assms] by (simp add: read_head_def Let_def)

lemma read_head_encode:
  assumes "mt < 8"
  shows "read_head (encode_type_and_length mt n @ r) = Some (mt, n, r)"
proof -
  note head = read_head_Cons [OF assms] encode_type_and_length_def Let_def
  consider "n \<le> 23" | "23 < n" "n \<le> 0xff" | "0xff < n" "n \<le> 0xffff" | "0xffff < n" "n \<le> 0xffffffff" | "0xffffffff < n"
    by (meson linorder_not_less)
  then show ?thesis
  proof cases
    case 1
    then have "ucast n < (32 :: u8)" "ucast (ucast n :: u8) = n" "(ucast n :: u8) \<le> 23"
      by (simp_all add: word_le_nat_alt word_less_nat_alt unsigned_ucast_eq take_bit_eq_mod unat_mod word_unat_eq_iff)
    with 1 show ?thesis by (simp add: head)
  next
    case 2
    then have "\<not> n \<le> 23" by simp
    with 2 show ?thesis using read_be_bytes(1) [of n] by (simp add: head)
  next
    case 3
    then have "\<not> n \<le> 23" "\<not> n \<le> 0xff" by (simp_all add: word_le_nat_alt word_less_nat_alt)
    with 3 show ?thesis using read_be_bytes(2) [of n] by (simp add: head)
  next
    case 4
    then have "\<not> n \<le> 23" "\<not> n \<le> 0xff" "\<not> n \<le> 0xffff" by (simp_all add: word_le_nat_alt word_less_nat_alt)
    with 4 show ?thesis using read_be_bytes(3) [of n] by (simp add: head)
  next
    case 5
    then have "\<not> n \<le> 23" "\<not> n \<le> 0xff" "\<not> n \<le> 0xffff" "\<not> n \<le> 0xffffffff" by (simp_all add: word_le_nat_alt word_less_nat_alt)
    then show ?thesis using read_be_bytes(4) [of n] by (simp add: head)
  qed
qed

section \<open>Prefix codes\<close>

text \<open>
  \<open>enc\<close> encodes the values that satisfy \<open>ok\<close>; \<open>view\<close> is the part of a value the encoding carries.
\<close>

definition delim :: "bytes \<Rightarrow> bytes \<Rightarrow> bool" where
  "delim v w \<longleftrightarrow> (\<forall>r s. v @ r = w @ s \<longrightarrow> v = w)"

locale prefix_code =
  fixes enc :: "'a \<Rightarrow> bytes" and ok :: "'a \<Rightarrow> bool" and view :: "'a \<Rightarrow> 'b"
  assumes unique: "ok a \<Longrightarrow> ok b \<Longrightarrow> enc a @ r = enc b @ s \<Longrightarrow> view a = view b"
    and carried: "view a = view b \<Longrightarrow> enc a = enc b"
begin

lemma enc_eq_iff: "ok a \<Longrightarrow> ok b \<Longrightarrow> enc a = enc b \<longleftrightarrow> view a = view b"
  using unique [of a b "[]" "[]"] carried by blast

lemma split_iff: "ok a \<Longrightarrow> ok b \<Longrightarrow> enc a @ r = enc b @ s \<longleftrightarrow> view a = view b \<and> r = s"
  by (metis unique carried same_append_eq)

lemma enc_delim: "ok a \<Longrightarrow> ok b \<Longrightarrow> delim (enc a) (enc b)"
  unfolding delim_def using unique carried by blast

lemma concat_split:
  "length xs = length ys \<Longrightarrow> list_all ok xs \<Longrightarrow> list_all ok ys \<Longrightarrow>
   concat (map enc xs) @ r = concat (map enc ys) @ s \<Longrightarrow> map view xs = map view ys"
proof (induction xs ys rule: list_induct2)
  case (Cons x xs y ys)
  from Cons.prems have "enc x @ concat (map enc xs) @ r = enc y @ concat (map enc ys) @ s" "ok x" "ok y" by simp_all
  then have "view x = view y" "concat (map enc xs) @ r = concat (map enc ys) @ s" by (simp_all only: split_iff)
  then show ?case using Cons by simp
qed simp

end

lemma head_split:
  "mt < 8 \<Longrightarrow> encode_type_and_length mt n @ r = encode_type_and_length mt m @ s \<longleftrightarrow> n = m \<and> r = s"
  by (metis read_head_encode option.inject prod.inject)

definition len_ok :: "'a list \<Rightarrow> bool" where
  "len_ok xs \<longleftrightarrow> length xs < 2 ^ 64"

lemma len_ok_eq: "len_ok xs \<Longrightarrow> len_ok ys \<Longrightarrow> (of_nat (length xs) :: u64) = of_nat (length ys) \<longleftrightarrow> length xs = length ys"
  unfolding len_ok_def by (simp add: word_unat_eq_iff unat_of_nat)

lemma len_split:
  assumes "mt < 8" and "len_ok xs" and "len_ok ys"
  shows "encode_type_and_length mt (of_nat (length xs)) @ r = encode_type_and_length mt (of_nat (length ys)) @ s \<longleftrightarrow>
    length xs = length ys \<and> r = s"
  using assms by (simp add: head_split len_ok_eq)

interpretation cuint: prefix_code encode_uint "\<lambda>_. True" "\<lambda>n. n"
  by unfold_locales (simp_all add: encode_uint_def head_split)

interpretation cbool: prefix_code encode_bool "\<lambda>_. True" "\<lambda>b. b"
  by unfold_locales (simp_all add: encode_bool_def split: if_splits)

interpretation ctext: prefix_code encode_text len_ok "\<lambda>t. t"
  by unfold_locales (auto simp: encode_text_def len_split)

interpretation cbytes: prefix_code encode_byte_string len_ok "\<lambda>t. t"
  by unfold_locales (auto simp: encode_byte_string_def len_split)

context prefix_code
begin

lemma array_code: "prefix_code (\<lambda>xs. encode_array (map enc xs)) (\<lambda>xs. len_ok xs \<and> list_all ok xs) (map view)"
proof
  fix xs ys r s
  assume "len_ok xs \<and> list_all ok xs" "len_ok ys \<and> list_all ok ys"
    and "encode_array (map enc xs) @ r = encode_array (map enc ys) @ s"
  then show "map view xs = map view ys"
    by (intro concat_split [of xs ys r s]) (simp_all add: encode_array_def len_split)
next
  fix xs ys assume v: "map view xs = map view ys"
  then have "length xs = length ys" by (metis length_map)
  then have "map enc xs = map enc ys" using v by (induction xs ys rule: list_induct2) (auto intro: carried)
  then show "encode_array (map enc xs) = encode_array (map enc ys)" by simp
qed

end

interpretation ctexts: prefix_code encode_text_array "\<lambda>xs. len_ok xs \<and> list_all len_ok xs" "\<lambda>xs. xs"
  using ctext.array_code by (simp add: encode_text_array_def [abs_def])

section \<open>Maps\<close>

text \<open>The entry lists of two maps that use the same keys, with delimited values.\<close>

definition same_shape :: "(string \<times> bytes) list \<Rightarrow> (string \<times> bytes) list \<Rightarrow> bool" where
  "same_shape es fs \<longleftrightarrow> list_all2 (\<lambda>e f. fst e = fst f \<and> len_ok (fst e) \<and> delim (snd e) (snd f)) es fs"

lemma same_shape_simps [simp]:
  "same_shape [] []"
  "same_shape ((k, v) # es) ((l, w) # fs) \<longleftrightarrow> k = l \<and> length k < 2 ^ 64 \<and> delim v w \<and> same_shape es fs"
  by (auto simp: same_shape_def len_ok_def)

lemma insort_key_all2:
  "list_all2 P xs ys \<Longrightarrow> P x y \<Longrightarrow> (\<And>a b. P a b \<Longrightarrow> f a = f b) \<Longrightarrow> list_all2 P (insort_key f x xs) (insort_key f y ys)"
  by (induction rule: list_all2_induct) auto

lemma sort_key_all2:
  "list_all2 P xs ys \<Longrightarrow> (\<And>a b. P a b \<Longrightarrow> f a = f b) \<Longrightarrow> list_all2 P (sort_key f xs) (sort_key f ys)"
  by (induction rule: list_all2_induct) (simp_all add: insort_key_all2)

lemma entries_split:
  "same_shape es fs \<Longrightarrow>
   concat (map (\<lambda>(k, v). encode_text k @ v) es) @ r = concat (map (\<lambda>(k, v). encode_text k @ v) fs) @ s \<Longrightarrow> es = fs"
  unfolding same_shape_def
proof (induction rule: list_all2_induct)
  case (Cons e es f fs)
  from Cons.prems Cons.hyps(1)
  have e: "snd e @ concat (map (\<lambda>(k, v). encode_text k @ v) es) @ r = snd f @ concat (map (\<lambda>(k, v). encode_text k @ v) fs) @ s"
    by (simp add: case_prod_unfold)
  with Cons.hyps(1) have v: "snd e = snd f" unfolding delim_def by blast
  with e Cons.IH show ?case using Cons.hyps(1) by (simp add: prod_eq_iff)
qed simp

text \<open>Lists with the same distinct keys that have the same elements are equal.\<close>

lemma same_keys_eq:
  assumes "map fst es = map fst fs" and "distinct (map fst es)" and "set es = set fs"
  shows "es = fs"
proof (rule nth_equalityI)
  show len: "length es = length fs" using assms(1) by (metis length_map)
  fix i assume i: "i < length es"
  then have "fs ! i \<in> set es" using assms(3) len by simp
  then obtain j where j: "j < length es" "es ! j = fs ! i" by (auto simp: in_set_conv_nth)
  have "fst (es ! i) = fst (fs ! i)" using assms(1) i len by (metis nth_map)
  then have "map fst es ! i = map fst es ! j" using i j by simp
  then have "i = j" using assms(2) i j by (simp add: nth_eq_iff_index_eq del: nth_map)
  then show "es ! i = fs ! i" using j by simp
qed

lemma map_split:
  assumes "same_shape es fs" and "distinct (map fst es)"
    and eq: "encode_map_sorted es @ r = encode_map_sorted fs @ s"
  shows "es = fs"
proof (rule same_keys_eq)
  have len: "length es = length fs" using assms(1) by (simp add: same_shape_def list_all2_lengthD)
  then have "same_shape (sort_key map_key es) (sort_key map_key fs)"
    using assms(1) unfolding same_shape_def by (intro sort_key_all2) (auto simp: map_key_def)
  moreover have "concat (map (\<lambda>(k, v). encode_text k @ v) (sort_key map_key es)) @ r =
      concat (map (\<lambda>(k, v). encode_text k @ v) (sort_key map_key fs)) @ s"
    using eq len by (simp add: encode_map_sorted_def head_split)
  ultimately have "sort_key map_key es = sort_key map_key fs" by (rule entries_split)
  then show "set es = set fs" by (metis set_sort)
  show "map fst es = map fst fs" using assms(1)
    unfolding same_shape_def by (simp add: list_all2_conv_all_nth list_eq_iff_nth_eq)
qed fact

lemma encode_map_sorted_perm:
  assumes "mset es = mset fs" and "distinct (map fst es)"
  shows "encode_map_sorted es = encode_map_sorted fs"
proof -
  have "inj_on map_key (set es)"
    using assms(2) by (auto simp: map_key_def inj_on_def distinct_map)
  then have "sort_key map_key es = sort_key map_key fs"
    using assms(1) by (intro sort_key_inj_key_eq) simp_all
  then show ?thesis by (simp add: encode_map_sorted_def)
qed

end
