(* ===== verification/Policies.thy ===== *)
theory Policies
  imports Rp_Rules Cbor
begin

text \<open>
  \<open>policy.rs\<close>: the policy of a profile, its validation, its canonical form and its digest.  The
  digest is the hash of the canonical encoding; the theorems say that the encoding determines the
  policy up to the spelling of relying-party identifiers and the credential selection of rules, and
  that the order and repetition of the configured lists do not matter.
\<close>

section \<open>Policies\<close>

datatype policy_error =
    PolicyInvalidVersion u8
  | EmptyActions
  | InvalidTtl u64
  | InvalidMaxConcurrent u64
  | CborEncoding string
  | PolicyInvalidHex string

definition CURRENT_POLICY_VERSION :: u8 where "CURRENT_POLICY_VERSION = 3"
definition POLICY_MAX_TTL :: u64 where "POLICY_MAX_TTL = 86400 * 365"
definition MAX_CONCURRENT_GRANTS_LIMIT :: u64 where "MAX_CONCURRENT_GRANTS_LIMIT = 1000"

record policy_params =
  pp_profile_id :: profile_id
  pp_mode :: string
  pp_normalized_rp_ids :: "string list"
  pp_credential_refs :: "credential_ref list"
  pp_allowed_actions :: "string list"
  pp_registration_allowed :: bool
  pp_require_uv :: bool
  pp_max_concurrent_grants :: u64
  pp_max_grant_ttl :: u64
  pp_max_session_ttl :: u64
  pp_principal_user :: string
  pp_device_name :: string
  pp_device_phys :: string
  pp_device_uniq :: string
  pp_device_vendor_id :: u16
  pp_device_product_id :: u16
  pp_start_url :: "string option"
  pp_browser_argv :: "string list"
  pp_storage_backend :: string
  pp_storage_path :: string
  pp_browser_user :: string
  pp_browser_runtime_root :: string
  pp_rules :: "agent_rp_rule list"

record policy =
  pol_version :: u8
  pol_profile_id :: string
  pol_mode :: string
  pol_normalized_rp_ids :: "string list"
  pol_credential_refs :: "string list"
  pol_allowed_actions :: "string list"
  pol_registration_allowed :: bool
  pol_require_uv :: bool
  pol_max_concurrent_grants :: u64
  pol_max_grant_ttl :: u64
  pol_max_session_ttl :: u64
  pol_principal_user :: string
  pol_device_name :: string
  pol_device_phys :: string
  pol_device_uniq :: string
  pol_device_vendor_id :: u16
  pol_device_product_id :: u16
  pol_start_url :: string
  pol_browser_argv :: "string list"
  pol_storage_backend :: string
  pol_storage_path :: string
  pol_browser_user :: string
  pol_browser_runtime_root :: string
  pol_rules :: "agent_rp_rule list"

definition policy_check :: "policy \<Rightarrow> policy_error + unit" where
  "policy_check p =
     (if pol_version p \<noteq> CURRENT_POLICY_VERSION then Err (PolicyInvalidVersion (pol_version p))
      else if pol_allowed_actions p = [] then Err EmptyActions
      else if pol_max_grant_ttl p = 0 \<or> pol_max_grant_ttl p > POLICY_MAX_TTL then Err (InvalidTtl (pol_max_grant_ttl p))
      else if pol_max_session_ttl p > POLICY_MAX_TTL then Err (InvalidTtl (pol_max_session_ttl p))
      else if pol_max_concurrent_grants p = 0 \<or> pol_max_concurrent_grants p > MAX_CONCURRENT_GRANTS_LIMIT
      then Err (InvalidMaxConcurrent (pol_max_concurrent_grants p))
      else Ok ())"

definition rule_key :: "agent_rp_rule \<Rightarrow> string" where
  "rule_key rule = to_ascii_lowercase (trim (rule_rp_id rule))"

definition policy_of_params :: "(bytes \<Rightarrow> string) \<Rightarrow> policy_params \<Rightarrow> policy" where
  "policy_of_params hex_encode pp =
     \<lparr>pol_version = CURRENT_POLICY_VERSION,
      pol_profile_id = profile_id_str (pp_profile_id pp),
      pol_mode = pp_mode pp,
      pol_normalized_rp_ids = remdups_adj (sort (pp_normalized_rp_ids pp)),
      pol_credential_refs = remdups_adj (sort (map (cred_to_hex hex_encode) (pp_credential_refs pp))),
      pol_allowed_actions = remdups_adj (sort (pp_allowed_actions pp)),
      pol_registration_allowed = pp_registration_allowed pp,
      pol_require_uv = pp_require_uv pp,
      pol_max_concurrent_grants = pp_max_concurrent_grants pp,
      pol_max_grant_ttl = pp_max_grant_ttl pp,
      pol_max_session_ttl = pp_max_session_ttl pp,
      pol_principal_user = pp_principal_user pp,
      pol_device_name = pp_device_name pp,
      pol_device_phys = pp_device_phys pp,
      pol_device_uniq = pp_device_uniq pp,
      pol_device_vendor_id = pp_device_vendor_id pp,
      pol_device_product_id = pp_device_product_id pp,
      pol_start_url = (case pp_start_url pp of Some u \<Rightarrow> u | None \<Rightarrow> []),
      pol_browser_argv = pp_browser_argv pp,
      pol_storage_backend = pp_storage_backend pp,
      pol_storage_path = pp_storage_path pp,
      pol_browser_user = pp_browser_user pp,
      pol_browser_runtime_root = pp_browser_runtime_root pp,
      pol_rules = sort_key rule_key (pp_rules pp)\<rparr>"

definition from_params :: "(bytes \<Rightarrow> string) \<Rightarrow> policy_params \<Rightarrow> policy_error + policy" where
  "from_params hex_encode pp =
     (let policy = policy_of_params hex_encode pp in res_bind (policy_check policy) (\<lambda>_. Ok policy))"

definition policy_new ::
    "(bytes \<Rightarrow> string) \<Rightarrow> profile_id \<Rightarrow> string list \<Rightarrow> u64 \<Rightarrow> bool \<Rightarrow> u64 \<Rightarrow> policy_error + policy" where
  "policy_new hex_encode pid actions max_concurrent uv max_ttl =
     from_params hex_encode
       \<lparr>pp_profile_id = pid, pp_mode = ''isolated'', pp_normalized_rp_ids = [], pp_credential_refs = [],
        pp_allowed_actions = actions, pp_registration_allowed = False, pp_require_uv = uv,
        pp_max_concurrent_grants = max_concurrent, pp_max_grant_ttl = max_ttl, pp_max_session_ttl = 0,
        pp_principal_user = [], pp_device_name = [], pp_device_phys = [], pp_device_uniq = [],
        pp_device_vendor_id = 0, pp_device_product_id = 0, pp_start_url = None, pp_browser_argv = [],
        pp_storage_backend = [], pp_storage_path = [], pp_browser_user = [], pp_browser_runtime_root = [],
        pp_rules = []\<rparr>"

section \<open>Canonical encoding\<close>

definition authorization_display :: "agent_authorization \<Rightarrow> string" where
  "authorization_display a = (case a of Deny \<Rightarrow> ''deny'' | Confirm \<Rightarrow> ''confirm'' | Allow \<Rightarrow> ''allow'')"

definition presence_display :: "user_presence_source \<Rightarrow> string" where
  "presence_display u = (case u of UpHuman \<Rightarrow> ''human'' | UpAgent \<Rightarrow> ''agent'' | UpNone \<Rightarrow> ''none'')"

definition verification_display :: "user_verification_source \<Rightarrow> string" where
  "verification_display u = (case u of UvHuman \<Rightarrow> ''human'' | UvAgent \<Rightarrow> ''agent'' | UvNone \<Rightarrow> ''none'')"

definition encode_ceremony_policy :: "agent_ceremony_policy \<Rightarrow> bytes" where
  "encode_ceremony_policy p = encode_map_sorted
     [(''authorization'', encode_text (authorization_display (authorization p))),
      (''user_presence'', encode_text (presence_display (user_presence p))),
      (''user_verification'', encode_text (verification_display (user_verification p)))]"

definition encode_rule :: "agent_rp_rule \<Rightarrow> bytes" where
  "encode_rule rule = encode_map_sorted
     [(''rp_id'', encode_text (to_ascii_lowercase (trim (rule_rp_id rule)))),
      (''register'', encode_ceremony_policy (register rule)),
      (''authenticate'', encode_ceremony_policy (authenticate rule))]"

definition encode_rules :: "agent_rp_rule list \<Rightarrow> bytes" where
  "encode_rules rules = encode_array (map encode_rule rules)"

definition encode_policy :: "policy \<Rightarrow> bytes" where
  "encode_policy p = encode_map_sorted
     [(''version'', encode_uint (ucast (pol_version p))),
      (''profile_id'', encode_text (pol_profile_id p)),
      (''mode'', encode_text (pol_mode p)),
      (''normalized_rp_ids'', encode_text_array (pol_normalized_rp_ids p)),
      (''credential_refs'', encode_text_array (pol_credential_refs p)),
      (''allowed_actions'', encode_text_array (pol_allowed_actions p)),
      (''registration_allowed'', encode_bool (pol_registration_allowed p)),
      (''require_uv'', encode_bool (pol_require_uv p)),
      (''max_concurrent_grants'', encode_uint (pol_max_concurrent_grants p)),
      (''max_grant_ttl'', encode_uint (pol_max_grant_ttl p)),
      (''max_session_ttl'', encode_uint (pol_max_session_ttl p)),
      (''principal_user'', encode_text (pol_principal_user p)),
      (''device_name'', encode_text (pol_device_name p)),
      (''device_phys'', encode_text (pol_device_phys p)),
      (''device_uniq'', encode_text (pol_device_uniq p)),
      (''device_vendor_id'', encode_uint (ucast (pol_device_vendor_id p))),
      (''device_product_id'', encode_uint (ucast (pol_device_product_id p))),
      (''start_url'', encode_text (pol_start_url p)),
      (''browser_argv'', encode_text_array (pol_browser_argv p)),
      (''storage_backend'', encode_text (pol_storage_backend p)),
      (''storage_path'', encode_text (pol_storage_path p)),
      (''browser_user'', encode_text (pol_browser_user p)),
      (''browser_runtime_root'', encode_text (pol_browser_runtime_root p)),
      (''rules'', encode_rules (pol_rules p))]"

definition encode_generation_digest :: "(string \<times> bytes) list \<Rightarrow> bytes" where
  "encode_generation_digest entries =
     encode_array (map (\<lambda>(pid, digest). encode_array [encode_text pid, encode_byte_string digest]) (sort_key fst entries))"

definition sorted_keys_for_policy :: "string list" where
  "sorted_keys_for_policy = sort_key (\<lambda>k. (length k, k))
     [''version'', ''profile_id'', ''mode'', ''normalized_rp_ids'', ''credential_refs'', ''allowed_actions'',
      ''registration_allowed'', ''require_uv'', ''max_concurrent_grants'', ''max_grant_ttl'', ''max_session_ttl'',
      ''principal_user'', ''device_name'', ''device_phys'', ''device_uniq'', ''device_vendor_id'', ''device_product_id'',
      ''start_url'', ''browser_argv'', ''storage_backend'', ''storage_path'', ''browser_user'', ''browser_runtime_root'',
      ''rules'']"

definition to_deterministic_cbor :: "policy \<Rightarrow> bytes" where
  "to_deterministic_cbor p = encode_policy p"

section \<open>Digests\<close>

definition digest_from_cbor_bytes :: "(bytes \<Rightarrow> bytes) \<Rightarrow> bytes \<Rightarrow> policy_digest" where
  "digest_from_cbor_bytes sha256 cbor_bytes = PolicyDigest (sha256 cbor_bytes)"

definition digest_from_policy :: "(bytes \<Rightarrow> bytes) \<Rightarrow> policy \<Rightarrow> policy_digest" where
  "digest_from_policy sha256 p = PolicyDigest (sha256 (to_deterministic_cbor p))"

definition digest_verify :: "(bytes \<Rightarrow> bytes) \<Rightarrow> policy_digest \<Rightarrow> policy \<Rightarrow> bool" where
  "digest_verify sha256 d p \<longleftrightarrow> d = digest_from_policy sha256 p"

definition digest_to_hex :: "(bytes \<Rightarrow> string) \<Rightarrow> policy_digest \<Rightarrow> string" where
  "digest_to_hex hex_encode d = hex_encode (digest_bytes d)"

definition digest_from_hex :: "(string \<Rightarrow> bytes option) \<Rightarrow> string \<Rightarrow> policy_error + policy_digest" where
  "digest_from_hex hex_decode s =
     (case hex_decode s of
        None \<Rightarrow> Err (PolicyInvalidHex (''invalid hex: '' @ s))
      | Some bs \<Rightarrow>
          if length bs \<noteq> 32 then Err (PolicyInvalidHex (''expected 32 bytes, got '' @ show_nat (length bs)))
          else Ok (PolicyDigest bs))"

lemma digest_hex_roundtrip:
  assumes "hex_decode (hex_encode (digest_bytes d)) = Some (digest_bytes d)" and "length (digest_bytes d) = 32"
  shows "digest_from_hex hex_decode (digest_to_hex hex_encode d) = Ok d"
  using assms by (simp add: digest_from_hex_def digest_to_hex_def)

text \<open>The map of a policy is written in the order \<open>sorted_keys_for_policy\<close> lists.\<close>

lemma policy_keys_sorted:
  "sorted_keys_for_policy = [''mode'', ''rules'', ''version'', ''start_url'', ''profile_id'', ''require_uv'', ''device_name'',
     ''device_phys'', ''device_uniq'', ''browser_argv'', ''browser_user'', ''storage_path'', ''max_grant_ttl'',
     ''principal_user'', ''allowed_actions'', ''credential_refs'', ''max_session_ttl'', ''storage_backend'',
     ''device_vendor_id'', ''device_product_id'', ''normalized_rp_ids'', ''browser_runtime_root'',
     ''registration_allowed'', ''max_concurrent_grants'']"
  by code_simp

section \<open>The encoding determines the policy\<close>

text \<open>What the encoding carries of a rule and of a policy, and the sizes Rust vectors always have.\<close>

definition rule_view :: "agent_rp_rule \<Rightarrow> agent_rp_rule" where
  "rule_view rule = rule\<lparr>rule_rp_id := normalize (rule_rp_id rule), rule_credential_selection := None\<rparr>"

definition policy_view :: "policy \<Rightarrow> policy" where
  "policy_view p = p\<lparr>pol_rules := map rule_view (pol_rules p)\<rparr>"

definition texts_ok :: "string list \<Rightarrow> bool" where
  "texts_ok ts \<longleftrightarrow> len_ok ts \<and> list_all len_ok ts"

definition policy_sized :: "policy \<Rightarrow> bool" where
  "policy_sized p \<longleftrightarrow>
     list_all len_ok [pol_profile_id p, pol_mode p, pol_principal_user p, pol_device_name p, pol_device_phys p,
       pol_device_uniq p, pol_start_url p, pol_storage_backend p, pol_storage_path p, pol_browser_user p,
       pol_browser_runtime_root p] \<and>
     list_all texts_ok [pol_normalized_rp_ids p, pol_credential_refs p, pol_allowed_actions p, pol_browser_argv p] \<and>
     len_ok (pol_rules p) \<and> list_all (\<lambda>r. len_ok (normalize (rule_rp_id r))) (pol_rules p)"

lemma display_inj:
  "authorization_display a = authorization_display b \<longleftrightarrow> a = b"
  "presence_display u = presence_display v \<longleftrightarrow> u = v"
  "verification_display x = verification_display y \<longleftrightarrow> x = y"
  by (cases a; cases b; simp add: authorization_display_def)
    ((cases u; cases v; simp add: presence_display_def), (cases x; cases y; simp add: verification_display_def))

lemma display_len [simp]: "len_ok (authorization_display a)" "len_ok (presence_display u)" "len_ok (verification_display v)"
  by (cases a; cases u; cases v; simp add: authorization_display_def presence_display_def verification_display_def len_ok_def)+

interpretation cceremony: prefix_code encode_ceremony_policy "\<lambda>_. True" "\<lambda>p. p"
proof
  fix p q :: agent_ceremony_policy and r s
  assume "encode_ceremony_policy p @ r = encode_ceremony_policy q @ s"
  from map_split [OF _ _ this [unfolded encode_ceremony_policy_def]]
  show "p = q" by (cases p; cases q) (simp add: ctext.enc_delim ctext.enc_eq_iff display_inj)
qed simp

interpretation crule: prefix_code encode_rule "\<lambda>r. len_ok (normalize (rule_rp_id r))" rule_view
proof
  fix p q :: agent_rp_rule and r s
  assume ok: "len_ok (normalize (rule_rp_id p))" "len_ok (normalize (rule_rp_id q))"
  assume "encode_rule p @ r = encode_rule q @ s"
  from map_split [OF _ _ this [unfolded encode_rule_def]] ok
  show "rule_view p = rule_view q"
    by (cases p; cases q)
      (simp add: ctext.enc_delim ctext.enc_eq_iff cceremony.enc_delim cceremony.enc_eq_iff rule_view_def normalize_def)
next
  fix p q :: agent_rp_rule
  show "rule_view p = rule_view q \<Longrightarrow> encode_rule p = encode_rule q"
    by (cases p; cases q) (simp add: rule_view_def encode_rule_def normalize_def)
qed

interpretation crules: prefix_code encode_rules
    "\<lambda>rs. len_ok rs \<and> list_all (\<lambda>r. len_ok (normalize (rule_rp_id r))) rs" "map rule_view"
  using crule.array_code by (simp add: encode_rules_def [abs_def])

lemmas code_facts =
  ctext.enc_delim ctext.enc_eq_iff ctexts.enc_delim ctexts.enc_eq_iff cuint.enc_delim cuint.enc_eq_iff
  cbool.enc_delim cbool.enc_eq_iff crules.enc_delim crules.enc_eq_iff

lemma ucast_inj_64 [simp]: "(ucast (a :: u8) :: u64) = ucast b \<longleftrightarrow> a = b" "(ucast (x :: u16) :: u64) = ucast y \<longleftrightarrow> x = y"
  by (simp_all add: word_unat_eq_iff unsigned_ucast_eq take_bit_nat_eq_self unsigned_less [THEN order.strict_trans2])

text \<open>C33. The canonical encoding, the byte string that is hashed into a policy digest, determines the policy: two policies
  have the same encoding exactly if they agree in every field, relying-party identifiers of rules compared in normal
  form.  The credential selection of a rule is the one thing the encoding does not carry.\<close>

theorem encoding_determines_policy:
  assumes "policy_sized p" and "policy_sized q"
  shows "to_deterministic_cbor p = to_deterministic_cbor q \<longleftrightarrow> policy_view p = policy_view q"
proof
  assume "to_deterministic_cbor p = to_deterministic_cbor q"
  then have "encode_policy p @ [] = encode_policy q @ []" by (simp add: to_deterministic_cbor_def)
  from map_split [OF _ _ this [unfolded encode_policy_def]] assms
  show "policy_view p = policy_view q"
    by (cases p; cases q) (simp add: policy_sized_def texts_ok_def code_facts policy_view_def)
next
  assume v: "policy_view p = policy_view q"
  then have "map rule_view (pol_rules p) = map rule_view (pol_rules q)" by (cases p; cases q) (simp add: policy_view_def)
  then have "encode_rules (pol_rules p) = encode_rules (pol_rules q)" by (rule crules.carried)
  with v show "to_deterministic_cbor p = to_deterministic_cbor q"
    by (cases p; cases q) (simp add: to_deterministic_cbor_def encode_policy_def policy_view_def)
qed

text \<open>Example data for the witnesses.\<close>

definition pex_params :: policy_params where
  "pex_params =
     \<lparr>pp_profile_id = ProfileId ''p'', pp_mode = ''isolated'', pp_normalized_rp_ids = [''b.c'', ''a.b''],
      pp_credential_refs = [], pp_allowed_actions = [''register'', ''authenticate''], pp_registration_allowed = True,
      pp_require_uv = False, pp_max_concurrent_grants = 5, pp_max_grant_ttl = 300, pp_max_session_ttl = 3600,
      pp_principal_user = ''u'', pp_device_name = ''d'', pp_device_phys = ''x'', pp_device_uniq = ''y'',
      pp_device_vendor_id = 1, pp_device_product_id = 2, pp_start_url = None, pp_browser_argv = [],
      pp_storage_backend = ''local'', pp_storage_path = ''/s'', pp_browser_user = [], pp_browser_runtime_root = [],
      pp_rules = []\<rparr>"

definition pex_policy :: "string \<Rightarrow> policy" where
  "pex_policy user = (policy_of_params (\<lambda>_. []) pex_params)\<lparr>pol_principal_user := user\<rparr>"

lemma pex_sized: "policy_sized (pex_policy ''u'')" "policy_sized (pex_policy ''v'')"
  by (simp_all add: policy_sized_def pex_policy_def policy_of_params_def pex_params_def texts_ok_def len_ok_def)

theorem encoding_determines_policy_witness:
  "to_deterministic_cbor (pex_policy ''u'') \<noteq> to_deterministic_cbor (pex_policy ''v'')"
  using encoding_determines_policy [OF pex_sized] by (simp add: policy_view_def pex_policy_def policy_of_params_def)

section \<open>Canonical form\<close>

text \<open>The policy of a profile does not depend on the order or the repetition of the configured relying parties,
  credential references and actions, nor on the order of the rules.\<close>

theorem from_params_canonical:
  assumes "set rps = set (pp_normalized_rp_ids pp)" and "set refs = set (pp_credential_refs pp)"
    and "set acts = set (pp_allowed_actions pp)" and "mset rules = mset (pp_rules pp)"
    and "distinct (map rule_key rules)"
  shows "from_params hex_encode (pp\<lparr>pp_normalized_rp_ids := rps, pp_credential_refs := refs,
           pp_allowed_actions := acts, pp_rules := rules\<rparr>) = from_params hex_encode pp"
proof -
  have "sort_key rule_key rules = sort_key rule_key (pp_rules pp)"
    using assms(4,5) by (intro sort_key_inj_key_eq) (simp_all add: distinct_map)
  with assms(1,2,3) show ?thesis by (simp add: from_params_def policy_of_params_def remdups_adj_sort)
qed

theorem from_params_canonical_witness:
  "from_params (\<lambda>_. []) (pex_params\<lparr>pp_normalized_rp_ids := [''a.b'', ''b.c'', ''a.b''], pp_credential_refs := [],
     pp_allowed_actions := [''authenticate'', ''register''], pp_rules := []\<rparr>) = from_params (\<lambda>_. []) pex_params"
  by (rule from_params_canonical) (auto simp: pex_params_def)

lemma sort_Nil_iff [simp]: "sort (xs :: 'a::linorder list) = [] \<longleftrightarrow> xs = []"
  by (metis length_0_conv length_sort)

lemma from_params_ok: "from_params hex_encode pp = Ok p \<longleftrightarrow> p = policy_of_params hex_encode pp \<and> policy_check p = Ok ()"
  by (auto simp: from_params_def Let_def res_bind_ok)

text \<open>A policy is accepted exactly if it allows some action, its grants live between one second and 365 days, its
  sessions at most 365 days, and between 1 and 1000 grants may be active.\<close>

theorem from_params_bounds:
  "from_params hex_encode pp = Ok p \<longleftrightarrow> p = policy_of_params hex_encode pp \<and>
     pp_allowed_actions pp \<noteq> [] \<and> 1 \<le> unat (pp_max_grant_ttl pp) \<and> unat (pp_max_grant_ttl pp) \<le> 31536000 \<and>
     unat (pp_max_session_ttl pp) \<le> 31536000 \<and>
     1 \<le> unat (pp_max_concurrent_grants pp) \<and> unat (pp_max_concurrent_grants pp) \<le> 1000"
  by (auto simp: from_params_ok policy_check_def policy_of_params_def if_err_ok POLICY_MAX_TTL_def
      MAX_CONCURRENT_GRANTS_LIMIT_def word_less_nat_alt word_unat_eq_iff not_less)

section \<open>The digest of a generation\<close>

lemma cpair: "prefix_code (\<lambda>(pid, digest). encode_array [encode_text pid, encode_byte_string digest])
    (\<lambda>(pid, digest). len_ok pid \<and> len_ok digest) (\<lambda>e. e)"
  by unfold_locales (auto simp: encode_array_def head_split ctext.split_iff cbytes.split_iff)

text \<open>The encoding hashed into the digest of a policy generation determines the set of pairs of profile and policy
  digest, whatever the order in which the profiles were compiled.\<close>

theorem generation_encoding_determines_profiles:
  assumes "len_ok es" and "len_ok fs" and "list_all (\<lambda>(pid, d). len_ok pid \<and> len_ok d) (es @ fs)"
    and "distinct (map fst es)" and "distinct (map fst fs)"
  shows "encode_generation_digest es = encode_generation_digest fs \<longleftrightarrow> set es = set fs"
proof -
  have "encode_generation_digest es = encode_generation_digest fs \<longleftrightarrow> sort_key fst es = sort_key fst fs"
    using assms(1-3) prefix_code.enc_eq_iff [OF prefix_code.array_code [OF cpair], of "sort_key fst es" "sort_key fst fs"]
    by (simp add: encode_generation_digest_def len_ok_def list_all_iff)
  also have "\<dots> \<longleftrightarrow> mset es = mset fs"
    using assms(4) by (metis distinct_map mset_sort sort_key_inj_key_eq sorted_sort_key)
  also have "\<dots> \<longleftrightarrow> set es = set fs"
    using assms(4,5) by (simp add: distinct_map set_eq_iff_mset_eq_distinct)
  finally show ?thesis .
qed

theorem generation_encoding_determines_profiles_witness:
  "encode_generation_digest [(''b'', [2]), (''a'', [1])] = encode_generation_digest [(''a'', [1]), (''b'', [2])]"
  by (subst generation_encoding_determines_profiles) (auto simp: len_ok_def)

end
