(* ===== verification/Policy_Snapshots.thy ===== *)
theory Policy_Snapshots
  imports Agent_Config Policies
begin

text \<open>
  The first part of \<open>policy_engine.rs\<close>: decisions and their reasons, the snapshot of the policy of a
  profile, the generation that collects the snapshots of a configuration, and their compilation.
  The theorems relate the snapshot the engine works on to the configuration it was compiled from.
\<close>

section \<open>Decisions\<close>

datatype outcome = OutcomeAllow | OutcomeDeny

datatype reason_code =
    RcDefaultDeny | RcInvalidConfig | RcProfileNotFound | RcSessionUnbound | RcModeMismatch | RcActionNotAllowed
  | RcRpIdNotExactMatch | RcCredentialNotExactMatch | RcGrantExpired | RcGrantNotFound | RcIntentConsumed
  | RcIntentExpired | RcIntentNotFound | RcUvRequired | RcAllowed | RcUnknownAction | RcUnknownMode | RcEmptyRpList
  | RcEmptyCredentialList | RcStaleGeneration | RcSuffixNotExact | RcDelegatedRegistrationDenied
  | RcGrantMissingForDelegated | RcIntentMissingForDelegated | RcIntentNotApproved | RcGrantIntentMismatch
  | RcSessionMismatch | RcEndpointMismatch | RcProcessMismatch | RcGenerationStale | RcGrantRevoked
  | RcCeremonyInvalidated | RcPartialClaimFailed

definition reason_as_str :: "reason_code \<Rightarrow> string" where
  "reason_as_str r = (case r of
      RcDefaultDeny \<Rightarrow> ''default_deny''
    | RcInvalidConfig \<Rightarrow> ''invalid_config''
    | RcProfileNotFound \<Rightarrow> ''profile_not_found''
    | RcSessionUnbound \<Rightarrow> ''session_unbound''
    | RcModeMismatch \<Rightarrow> ''mode_mismatch''
    | RcActionNotAllowed \<Rightarrow> ''action_not_allowed''
    | RcRpIdNotExactMatch \<Rightarrow> ''rp_id_not_exact_match''
    | RcCredentialNotExactMatch \<Rightarrow> ''credential_not_exact_match''
    | RcGrantExpired \<Rightarrow> ''grant_expired''
    | RcGrantNotFound \<Rightarrow> ''grant_not_found''
    | RcIntentConsumed \<Rightarrow> ''intent_consumed''
    | RcIntentExpired \<Rightarrow> ''intent_expired''
    | RcIntentNotFound \<Rightarrow> ''intent_not_found''
    | RcUvRequired \<Rightarrow> ''uv_required''
    | RcAllowed \<Rightarrow> ''allowed''
    | RcUnknownAction \<Rightarrow> ''unknown_action''
    | RcUnknownMode \<Rightarrow> ''unknown_mode''
    | RcEmptyRpList \<Rightarrow> ''empty_rp_list''
    | RcEmptyCredentialList \<Rightarrow> ''empty_credential_list''
    | RcStaleGeneration \<Rightarrow> ''stale_generation''
    | RcSuffixNotExact \<Rightarrow> ''suffix_not_exact''
    | RcDelegatedRegistrationDenied \<Rightarrow> ''delegated_registration_denied''
    | RcGrantMissingForDelegated \<Rightarrow> ''grant_missing_for_delegated''
    | RcIntentMissingForDelegated \<Rightarrow> ''intent_missing_for_delegated''
    | RcIntentNotApproved \<Rightarrow> ''intent_not_approved''
    | RcGrantIntentMismatch \<Rightarrow> ''grant_intent_mismatch''
    | RcSessionMismatch \<Rightarrow> ''session_mismatch''
    | RcEndpointMismatch \<Rightarrow> ''endpoint_mismatch''
    | RcProcessMismatch \<Rightarrow> ''process_mismatch''
    | RcGenerationStale \<Rightarrow> ''generation_stale''
    | RcGrantRevoked \<Rightarrow> ''grant_revoked''
    | RcCeremonyInvalidated \<Rightarrow> ''ceremony_invalidated''
    | RcPartialClaimFailed \<Rightarrow> ''partial_claim_failed'')"

datatype operator_action = OaNone | OaRetry | OaRecreateSession | OaContactAdmin | OaReloadPolicy | OaVerifyUser

definition operator_action_as_str :: "operator_action \<Rightarrow> string" where
  "operator_action_as_str a = (case a of
      OaNone \<Rightarrow> ''none''
    | OaRetry \<Rightarrow> ''retry''
    | OaRecreateSession \<Rightarrow> ''recreate_session''
    | OaContactAdmin \<Rightarrow> ''contact_admin''
    | OaReloadPolicy \<Rightarrow> ''reload_policy''
    | OaVerifyUser \<Rightarrow> ''verify_user'')"

record decision =
  d_outcome :: outcome
  d_reason :: reason_code
  d_operator_action :: operator_action

definition decision_allow :: "reason_code \<Rightarrow> decision" where
  "decision_allow r = \<lparr>d_outcome = OutcomeAllow, d_reason = r, d_operator_action = OaNone\<rparr>"

definition decision_deny :: "reason_code \<Rightarrow> operator_action \<Rightarrow> decision" where
  "decision_deny r a = \<lparr>d_outcome = OutcomeDeny, d_reason = r, d_operator_action = a\<rparr>"

definition is_allowed :: "decision \<Rightarrow> bool" where
  "is_allowed d = (d_outcome d = OutcomeAllow)"

lemma is_allowed_simps [simp]: "is_allowed (decision_allow r)" "\<not> is_allowed (decision_deny r a)"
  by (simp_all add: is_allowed_def decision_allow_def decision_deny_def)

section \<open>Snapshots\<close>

record policy_snapshot =
  ps_profile_id :: profile_id
  ps_policy :: policy
  ps_digest :: policy_digest
  ps_mode :: agent_mode
  ps_normalized_rp_ids :: "string list"
  ps_credential_refs :: "credential_ref list"
  ps_max_grant_ttl_secs :: u64
  ps_max_session_ttl_secs :: u64
  ps_max_concurrent_grants :: u64
  ps_require_uv :: bool
  ps_registration_allowed :: bool
  ps_allowed_actions :: "string list"
  ps_rules :: "agent_rp_rule list"

definition is_rp_exact_match :: "(bytes \<Rightarrow> bytes option) \<Rightarrow> policy_snapshot \<Rightarrow> string \<Rightarrow> bool" where
  "is_rp_exact_match psl_domain snap rp_id =
     (case validate_rp_id psl_domain rp_id of
        Inl _ \<Rightarrow> False
      | Inr normalized \<Rightarrow> normalized \<in> set (ps_normalized_rp_ids snap) \<or> ANY_RP_ID \<in> set (ps_normalized_rp_ids snap))"

definition is_suffix_only :: "(bytes \<Rightarrow> bytes option) \<Rightarrow> policy_snapshot \<Rightarrow> string \<Rightarrow> bool" where
  "is_suffix_only psl_domain snap rp_id =
     (case validate_rp_id psl_domain rp_id of
        Inl _ \<Rightarrow> False
      | Inr normalized \<Rightarrow>
          if is_rp_exact_match psl_domain snap normalized then False
          else list_ex (\<lambda>id. ends_with normalized (''.'' @ id))
                 (filter (\<lambda>id. id \<noteq> ANY_RP_ID) (ps_normalized_rp_ids snap)))"

definition action_str :: "intent_action \<Rightarrow> string" where
  "action_str a = (case a of Register \<Rightarrow> ''register'' | Authenticate \<Rightarrow> ''authenticate'')"

definition action_allowed :: "policy_snapshot \<Rightarrow> intent_action \<Rightarrow> bool" where
  "action_allowed snap a = (action_str a \<in> set (ps_allowed_actions snap))"

definition eq_ignore_ascii_case :: "string \<Rightarrow> string \<Rightarrow> bool" where
  "eq_ignore_ascii_case a b = (to_ascii_lowercase a = to_ascii_lowercase b)"

definition rule_policy :: "intent_action \<Rightarrow> agent_rp_rule \<Rightarrow> agent_ceremony_policy" where
  "rule_policy a rule = (case a of Register \<Rightarrow> register rule | Authenticate \<Rightarrow> authenticate rule)"

definition ceremony_policy ::
    "(bytes \<Rightarrow> bytes option) \<Rightarrow> policy_snapshot \<Rightarrow> string \<Rightarrow> intent_action \<Rightarrow> agent_ceremony_policy option" where
  "ceremony_policy psl_domain snap rp_id a =
     (case validate_rp_id psl_domain rp_id of
        Inl _ \<Rightarrow> None
      | Inr normalized \<Rightarrow>
          map_option (rule_policy a)
            (case find (\<lambda>rule. eq_ignore_ascii_case (trim (rule_rp_id rule)) normalized) (ps_rules snap) of
               Some rule \<Rightarrow> Some rule
             | None \<Rightarrow> find (\<lambda>rule. trim (rule_rp_id rule) = ANY_RP_ID) (ps_rules snap)))"

record generation_snapshot =
  gen_id :: policy_generation_id
  gen_snapshots :: "policy_snapshot list"
  gen_digest :: policy_digest
  gen_created_at_mono :: u64

definition find_snapshot :: "generation_snapshot \<Rightarrow> profile_id \<Rightarrow> policy_snapshot option" where
  "find_snapshot g pid = find (\<lambda>s. ps_profile_id s = pid) (gen_snapshots g)"

definition is_stale :: "generation_snapshot \<Rightarrow> u64 \<Rightarrow> u64 \<Rightarrow> bool" where
  "is_stale g max_age now_mono = (saturating_sub now_mono (gen_created_at_mono g) > max_age)"

section \<open>Compilation\<close>

definition storage_display :: "agent_storage_config \<Rightarrow> string" where
  "storage_display s = (case s of Local _ _ \<Rightarrow> ''local'' | Pass _ _ _ _ \<Rightarrow> ''pass'' | Tpm _ _ _ _ \<Rightarrow> ''tpm'')"

text \<open>\<open>PolicyRuntimeError\<close>; the two formatted messages of \<open>Compilation\<close> are kept as the data they show.\<close>

datatype runtime_error =
    CompilationProfileId string id_error
  | CompilationPolicy policy_error
  | Reload string
  | Internal string

definition compiled_actions :: "agent_rp_rule list \<Rightarrow> string list" where
  "compiled_actions rules =
     (if list_ex (\<lambda>rule. authorization (authenticate rule) \<noteq> Deny) rules then [''authenticate''] else []) @
     (if list_ex (\<lambda>rule. authorization (register rule) \<noteq> Deny) rules then [''register''] else [])"

definition duration_or :: "u64 \<Rightarrow> bounded_duration option \<Rightarrow> u64" where
  "duration_or dflt d = (case d of Some b \<Rightarrow> bd_secs b | None \<Rightarrow> dflt)"

definition compile_params ::
    "(path \<Rightarrow> path option) \<Rightarrow> profile_id \<Rightarrow> agent_profile_config \<Rightarrow> policy_params" where
  "compile_params fs pid config =
     (let rules = sort_key rule_key (effective_rules config) in
      \<lparr>pp_profile_id = pid,
       pp_mode = agent_mode_display (pc_mode config),
       pp_normalized_rp_ids = remdups_adj (sort (map rule_key rules)),
       pp_credential_refs = (case pc_credential_refs config of Some refs \<Rightarrow> refs | None \<Rightarrow> []),
       pp_allowed_actions = compiled_actions rules,
       pp_registration_allowed = pc_registration_allowed config \<or> allows_registration config,
       pp_require_uv = pc_require_uv config,
       pp_max_concurrent_grants = 5,
       pp_max_grant_ttl = duration_or 300 (pc_max_grant_ttl config),
       pp_max_session_ttl = duration_or 3600 (pc_max_session_ttl config),
       pp_principal_user = pc_principal_user config,
       pp_device_name = dev_name (pc_device config),
       pp_device_phys = dev_phys (pc_device config),
       pp_device_uniq = dev_uniq (pc_device config),
       pp_device_vendor_id = dev_vendor_id (pc_device config),
       pp_device_product_id = dev_product_id (pc_device config),
       pp_start_url = pc_start_url config,
       pp_browser_argv = (case pc_browser_command config of Some cmd \<Rightarrow> cmd | None \<Rightarrow> []),
       pp_storage_backend = (case pc_storage config of Some s \<Rightarrow> storage_display s | None \<Rightarrow> []),
       pp_storage_path = (case pc_storage config of Some s \<Rightarrow> path_display (credential_state_path fs s) | None \<Rightarrow> []),
       pp_browser_user = (case pc_browser_user config of Some u \<Rightarrow> u | None \<Rightarrow> []),
       pp_browser_runtime_root = (case pc_browser_runtime_root config of Some p \<Rightarrow> path_display p | None \<Rightarrow> []),
       pp_rules = rules\<rparr>)"

definition compile_snapshot ::
    "(path \<Rightarrow> path option) \<Rightarrow> (bytes \<Rightarrow> string) \<Rightarrow> (bytes \<Rightarrow> bytes) \<Rightarrow> profile_id \<Rightarrow> agent_profile_config \<Rightarrow>
     runtime_error + policy_snapshot" where
  "compile_snapshot fs hex_encode sha256 pid config =
     (let params = compile_params fs pid config in
      case from_params hex_encode params of
        Inl e \<Rightarrow> Err (CompilationPolicy e)
      | Inr policy \<Rightarrow>
          Ok \<lparr>ps_profile_id = pid, ps_policy = policy, ps_digest = digest_from_policy sha256 policy,
              ps_mode = pc_mode config, ps_normalized_rp_ids = pp_normalized_rp_ids params,
              ps_credential_refs = pp_credential_refs params,
              ps_max_grant_ttl_secs = pp_max_grant_ttl params, ps_max_session_ttl_secs = pp_max_session_ttl params,
              ps_max_concurrent_grants = pp_max_concurrent_grants params, ps_require_uv = pc_require_uv config,
              ps_registration_allowed = pp_registration_allowed params, ps_allowed_actions = pp_allowed_actions params,
              ps_rules = pp_rules params\<rparr>)"

fun compile_snapshots ::
    "(path \<Rightarrow> path option) \<Rightarrow> (bytes \<Rightarrow> string) \<Rightarrow> (bytes \<Rightarrow> bytes) \<Rightarrow> (string \<times> agent_profile_config) list \<Rightarrow>
     runtime_error + policy_snapshot list" where
  "compile_snapshots fs hex_encode sha256 [] = Ok []"
| "compile_snapshots fs hex_encode sha256 ((name, config) # profiles) =
     (case profile_id_new name of
        Inl e \<Rightarrow> Err (CompilationProfileId name e)
      | Inr pid \<Rightarrow>
          res_bind (compile_snapshot fs hex_encode sha256 pid config) (\<lambda>snap.
          res_bind (compile_snapshots fs hex_encode sha256 profiles) (\<lambda>snaps. Ok (snap # snaps))))"

definition compile_generation ::
    "(path \<Rightarrow> path option) \<Rightarrow> (bytes \<Rightarrow> string) \<Rightarrow> (bytes \<Rightarrow> bytes) \<Rightarrow> policy_generation_id \<Rightarrow> agent_config \<Rightarrow> u64 \<Rightarrow>
     runtime_error + generation_snapshot" where
  "compile_generation fs hex_encode sha256 generation_id config now_mono =
     res_bind (compile_snapshots fs hex_encode sha256 (ag_profiles config)) (\<lambda>compiled.
       let snapshots = sort_key (\<lambda>s. profile_id_str (ps_profile_id s)) compiled;
           cbor_entries = map (\<lambda>s. (profile_id_str (ps_profile_id s), digest_bytes (ps_digest s))) snapshots
       in Ok \<lparr>gen_id = generation_id, gen_snapshots = snapshots,
              gen_digest = digest_from_cbor_bytes sha256 (encode_generation_digest cbor_entries),
              gen_created_at_mono = now_mono\<rparr>)"

section \<open>The snapshot and the configuration\<close>

lemma rule_key_normalize: "rule_key r = normalize (rule_rp_id r)"
  by (simp add: rule_key_def normalize_def)

lemma compile_snapshot_ok:
  assumes "compile_snapshot fs hex_encode sha256 pid config = Ok snap"
  shows "ps_profile_id snap = pid \<and> ps_mode snap = pc_mode config \<and>
    ps_rules snap = sort_key rule_key (effective_rules config) \<and>
    set (ps_normalized_rp_ids snap) = rule_key ` set (effective_rules config) \<and>
    set (ps_allowed_actions snap) =
      {a. a = ''authenticate'' \<and> allows_authentication config \<or> a = ''register'' \<and> allows_registration config} \<and>
    ps_require_uv snap = pc_require_uv config \<and>
    ps_credential_refs snap = (case pc_credential_refs config of Some refs \<Rightarrow> refs | None \<Rightarrow> [])"
  using assms by (auto simp: compile_snapshot_def compile_params_def Let_def compiled_actions_def list_ex_iff
      allows_authentication_def allows_registration_def split: sum.splits if_splits)

lemma find_perm:
  assumes "set xs = set ys" and "distinct (map f xs)" and "distinct (map f ys)"
  shows "find (\<lambda>x. f x = v) xs = find (\<lambda>x. f x = v) ys"
  using find_unique [OF assms(2), of v] find_unique [OF assms(3), of v] assms(1)
  by (metis not_None_eq)

lemma normalize_any: "normalize s = ANY_RP_ID \<longleftrightarrow> trim s = ANY_RP_ID"
proof
  assume "normalize s = ANY_RP_ID"
  then obtain c where "trim s = [c]" "lower_char c = CHR ''*''"
    by (auto simp: normalize_def to_ascii_lowercase_def ANY_RP_ID_def)
  then show "trim s = ANY_RP_ID" by (simp add: ANY_RP_ID_def lower_char_ws_iff no_upper_def)
next
  assume "trim s = ANY_RP_ID"
  then show "normalize s = ANY_RP_ID"
    by (simp add: normalize_def ANY_RP_ID_def to_ascii_lowercase_def lower_char_def)
qed

text \<open>C36. The engine decides by the rules the operator configured: for a validated profile the ceremony policy found in the
  compiled snapshot is the one of the configured rule for the relying party, and a relying party
  passes the scope check exactly if some configured rule governs it.\<close>

theorem snapshot_agrees_with_config:
  assumes "profile_validate psl fs config = Ok ()" and "compile_snapshot fs hex_encode sha256 pid config = Ok snap"
  shows "ceremony_policy psl snap rp a = map_option (rule_policy a) (rule_for_rp psl rp config) \<and>
    (is_rp_exact_match psl snap rp \<longleftrightarrow> rule_for_rp psl rp config \<noteq> None)"
proof (cases "validate_rp_id psl rp")
  case (Inl e)
  then show ?thesis by (simp add: ceremony_policy_def rule_for_rp_def is_rp_exact_match_def)
next
  case (Inr n)
  then have n: "n = normalize rp" by (simp add: validate_rp_id_ok)
  let ?rules = "effective_rules config" and ?sorted = "sort_key rule_key (effective_rules config)"
  note snap = compile_snapshot_ok [OF assms(2)]
  have d: "distinct (map rule_key ?rules)" using profile_rules_ok [OF assms(1)] by (simp add: rule_key_normalize [abs_def])
  then have d': "distinct (map rule_key ?sorted)"
    by (metis distinct_map distinct_sort set_sort)
  have *: "find (\<lambda>r. rule_key r = v) ?sorted = find (\<lambda>r. rule_key r = v) ?rules" for v
    using d d' by (intro find_perm) simp_all
  have keys: "eq_ignore_ascii_case (trim (rule_rp_id r)) n \<longleftrightarrow> rule_key r = n"
    "trim (rule_rp_id r) = ANY_RP_ID \<longleftrightarrow> rule_key r = ANY_RP_ID" for r
    by (simp_all add: eq_ignore_ascii_case_def rule_key_normalize n normalize_any) (simp add: normalize_def)
  have "ceremony_policy psl snap rp a = map_option (rule_policy a) (rule_for_rp psl rp config)"
    by (simp add: ceremony_policy_def rule_for_rp_def Inr snap keys * Let_def cfg_normalize_rp_id_def
        rule_key_normalize [symmetric] split: option.split)
  moreover have "find (\<lambda>r. rule_key r = v) ?rules = None \<longleftrightarrow> v \<notin> rule_key ` set ?rules" for v
    by (auto simp: find_None_iff)
  then have "is_rp_exact_match psl snap rp \<longleftrightarrow>
      find (\<lambda>r. rule_key r = n) ?rules \<noteq> None \<or> find (\<lambda>r. rule_key r = ANY_RP_ID) ?rules \<noteq> None"
    by (simp add: is_rp_exact_match_def Inr snap)
  then have "is_rp_exact_match psl snap rp \<longleftrightarrow> rule_for_rp psl rp config \<noteq> None"
    by (simp add: rule_for_rp_def Inr Let_def cfg_normalize_rp_id_def rule_key_normalize [symmetric] split: option.split)
  ultimately show ?thesis ..
qed

text \<open>Durations as \<open>BoundedDuration::new\<close> makes them; its field is private, so there are no others.\<close>

definition duration_wf :: "bounded_duration option \<Rightarrow> bool" where
  "duration_wf d = (case d of None \<Rightarrow> True | Some b \<Rightarrow> is_ok (bounded_duration_new (bd_secs b)))"

lemma duration_or_bounds:
  assumes "duration_wf d" and "dflt \<in> {300, 3600}"
  shows "duration_or dflt d \<noteq> 0 \<and> \<not> POLICY_MAX_TTL < duration_or dflt d"
  using assms
  by (auto simp: duration_wf_def duration_or_def bounded_duration_new_def MIN_DURATION_SECS_def MAX_DURATION_SECS_def
      POLICY_MAX_TTL_def word_le_nat_alt word_less_nat_alt is_ok_def split: option.splits if_splits)

text \<open>A profile compiles exactly if some of its rules permits some ceremony; a profile whose rules all deny (or that has no
  rule) makes the compilation of the whole generation fail with \<open>EmptyActions\<close>.\<close>

theorem compile_snapshot_iff:
  assumes "duration_wf (pc_max_grant_ttl config)" and "duration_wf (pc_max_session_ttl config)"
  shows "(is_ok (compile_snapshot fs hex_encode sha256 pid config) \<longleftrightarrow>
      allows_registration config \<or> allows_authentication config) \<and>
    (\<not> is_ok (compile_snapshot fs hex_encode sha256 pid config) \<longrightarrow>
      compile_snapshot fs hex_encode sha256 pid config = Err (CompilationPolicy EmptyActions))"
proof -
  have "compiled_actions (sort_key rule_key (effective_rules config)) = [] \<longleftrightarrow>
      \<not> (allows_registration config \<or> allows_authentication config)"
    by (simp add: compiled_actions_def allows_registration_def allows_authentication_def list_ex_iff)
  then have "from_params hex_encode (compile_params fs pid config) =
      (if allows_registration config \<or> allows_authentication config
       then Ok (policy_of_params hex_encode (compile_params fs pid config)) else Err EmptyActions)"
    using duration_or_bounds [OF assms(1), of 300] duration_or_bounds [OF assms(2), of 3600]
    by (simp add: from_params_def Let_def policy_check_def policy_of_params_def compile_params_def
        MAX_CONCURRENT_GRANTS_LIMIT_def)
  then show ?thesis by (auto simp: compile_snapshot_def Let_def)
qed

lemma sx_compile:
  obtains snap where "compile_snapshot cex_fs (\<lambda>_. []) (\<lambda>_. []) pid (cex_isolated d) = Ok snap"
proof -
  have "from_params (\<lambda>_. []) (compile_params cex_fs pid (cex_isolated d)) =
      Ok (policy_of_params (\<lambda>_. []) (compile_params cex_fs pid (cex_isolated d)))"
    by (simp add: from_params_ok policy_check_def policy_of_params_def compile_params_def Let_def compiled_actions_def
        cex_isolated_def cex_profile_def cex_rule_def effective_rules_def policy_supervised_def duration_or_def
        POLICY_MAX_TTL_def MAX_CONCURRENT_GRANTS_LIMIT_def)
  then show thesis using that by (auto simp: compile_snapshot_def Let_def)
qed

theorem snapshot_agrees_with_config_witness:
  "\<exists>snap. compile_snapshot cex_fs (\<lambda>_. []) (\<lambda>_. []) (ProfileId ''i'') (cex_isolated ''i'') = Ok snap \<and>
     ceremony_policy cex_psl snap ''A.b'' Register = Some policy_supervised"
proof -
  obtain snap where snap: "compile_snapshot cex_fs (\<lambda>_. []) (\<lambda>_. []) (ProfileId ''i'') (cex_isolated ''i'') = Ok snap"
    by (rule sx_compile)
  have "rule_for_rp cex_psl ''A.b'' (cex_isolated ''i'') = Some (cex_rule ''a.b'' policy_supervised policy_supervised)"
    by (simp add: rule_for_rp_def cex_rp cex_isolated_def cex_profile_def effective_rules_def cex_rule_def cfg_normalize_rp_id_def)
  with snapshot_agrees_with_config [OF cex_isolated_valid snap, of "''A.b''" Register] snap show ?thesis
    by (simp add: rule_policy_def cex_rule_def)
qed

theorem compile_snapshot_iff_witness:
  "is_ok (compile_snapshot cex_fs (\<lambda>_. []) (\<lambda>_. []) (ProfileId ''i'') (cex_isolated ''i''))"
  using compile_snapshot_iff [of "cex_isolated ''i''" cex_fs "\<lambda>_. []" "\<lambda>_. []" "ProfileId ''i''"]
  by (simp add: cex_isolated_def cex_profile_def duration_wf_def allows_registration_def effective_rules_def cex_rule_def
      policy_supervised_def)

section \<open>The snapshots of a generation\<close>

lemma compile_snapshots_ok:
  "compile_snapshots fs hex_encode sha256 profiles = Ok snaps \<Longrightarrow>
   list_all2 (\<lambda>(name, config) snap.
     profile_id_new name = Ok (ProfileId name) \<and> compile_snapshot fs hex_encode sha256 (ProfileId name) config = Ok snap)
     profiles snaps"
proof (induction profiles arbitrary: snaps)
  case (Cons p profiles)
  obtain name config where [simp]: "p = (name, config)" by (cases p)
  from Cons.prems obtain pid snap rest where pid: "profile_id_new name = Ok pid"
    and "compile_snapshot fs hex_encode sha256 pid config = Ok snap"
    and "compile_snapshots fs hex_encode sha256 profiles = Ok rest" and "snaps = snap # rest"
    by (auto simp: res_bind_ok split: sum.splits)
  moreover from pid have "pid = ProfileId name" by (auto simp: profile_id_new_def split: sum.splits)
  ultimately show ?case using Cons.IH by simp
qed simp

lemma compile_snapshot_profile: "compile_snapshot fs hex_encode sha256 pid config = Ok snap \<Longrightarrow> ps_profile_id snap = pid"
  using compile_snapshot_ok by blast

lemma compiled_profile_ids:
  assumes "compile_snapshots fs hex_encode sha256 profiles = Ok snaps"
  shows "map ps_profile_id snaps = map (\<lambda>p. ProfileId (fst p)) profiles"
  using compile_snapshots_ok [OF assms]
  by (induction rule: list_all2_induct) (auto dest: compile_snapshot_profile)

lemma compile_generation_ok:
  assumes "compile_generation fs hex_encode sha256 gid config now = Ok g"
  obtains compiled where "compile_snapshots fs hex_encode sha256 (ag_profiles config) = Ok compiled"
    and "set (gen_snapshots g) = set compiled" and "mset (gen_snapshots g) = mset compiled" and "gen_id g = gid"
  using assms by (auto simp: compile_generation_def res_bind_ok Let_def)

lemma generation_profiles_distinct:
  assumes "compile_generation fs hex_encode sha256 gid config now = Ok g" and "hm_wf (ag_profiles config)"
  shows "distinct (map ps_profile_id (gen_snapshots g))"
proof -
  from assms(1) obtain compiled where c: "compile_snapshots fs hex_encode sha256 (ag_profiles config) = Ok compiled"
    and m: "mset (gen_snapshots g) = mset compiled" by (rule compile_generation_ok)
  have "distinct (map (\<lambda>p. ProfileId (fst p)) (ag_profiles config))"
    using assms(2) by (auto simp: hm_wf_def distinct_map inj_on_def)
  then have "distinct (map ps_profile_id compiled)" by (simp add: compiled_profile_ids [OF c])
  moreover have "mset (map ps_profile_id (gen_snapshots g)) = mset (map ps_profile_id compiled)" using m by simp
  ultimately show ?thesis by (metis mset_eq_imp_distinct_iff)
qed

lemma find_snapshot_compiled:
  assumes "compile_generation fs hex_encode sha256 gid config now = Ok g" and "hm_wf (ag_profiles config)"
  shows "find_snapshot g (ProfileId name) = Some snap \<longleftrightarrow>
    (\<exists>p. hm_get (ag_profiles config) name = Some p \<and> compile_snapshot fs hex_encode sha256 (ProfileId name) p = Ok snap)"
proof -
  from assms(1) obtain compiled where c: "compile_snapshots fs hex_encode sha256 (ag_profiles config) = Ok compiled"
    and s: "set (gen_snapshots g) = set compiled" by (rule compile_generation_ok)
  note rel = compile_snapshots_ok [OF c]
  have "find_snapshot g (ProfileId name) = Some snap \<longleftrightarrow> snap \<in> set compiled \<and> ps_profile_id snap = ProfileId name"
    unfolding find_snapshot_def find_unique [OF generation_profiles_distinct [OF assms]] s by blast
  also have "\<dots> \<longleftrightarrow> (\<exists>p. (name, p) \<in> set (ag_profiles config) \<and> compile_snapshot fs hex_encode sha256 (ProfileId name) p = Ok snap)"
    using rel
  proof (induction rule: list_all2_induct)
    case (Cons e es snap' snaps)
    obtain a b where [simp]: "e = (a, b)" by (cases e)
    with Cons.hyps have h: "compile_snapshot fs hex_encode sha256 (ProfileId a) b = Ok snap'" by simp
    from compile_snapshot_profile [OF h] h Cons.IH show ?case
      by (auto dest: compile_snapshot_profile)
  qed simp
  finally show ?thesis using assms(2) by (simp add: hm_get_iff)
qed

end
