(* ===== verification/Intents.thy ===== *)
theory Intents
  imports Ids
begin

text \<open>
  The intent store of \<open>cmd/passless/src/agent/intent.rs\<close>: one-shot intents, approved by an
  administrator, claimed by a ceremony and consumed once.  Every public operation of
  \<open>IntentStore\<close> is a function from the store (and the reading of the monotonic clock, the random
  identifier and the random token it uses) to the new store and its result.
\<close>

unbundle bit_operations_syntax

section \<open>Data\<close>

datatype intent_error =
    NotFound
  | StoreFull
  | InvalidTransition string string
  | Expired
  | AlreadyClaimed
  | AlreadyConsumed
  | ClaimTokenMismatch
  | PrincipalCannotApprove
  | ReplayDetected
  | Shutdown

datatype intent_state = Pending | Approved | Denied | Cancelled | Expired | Claimed | Consumed

definition is_terminal :: "intent_state \<Rightarrow> bool" where
  "is_terminal st =
     (case st of Denied \<Rightarrow> True | Cancelled \<Rightarrow> True | intent_state.Expired \<Rightarrow> True | Consumed \<Rightarrow> True
      | _ \<Rightarrow> False)"

definition label :: "intent_state \<Rightarrow> string" where
  "label st =
     (case st of
        Pending \<Rightarrow> ''pending'' | Approved \<Rightarrow> ''approved'' | Denied \<Rightarrow> ''denied''
      | Cancelled \<Rightarrow> ''cancelled'' | intent_state.Expired \<Rightarrow> ''expired''
      | Claimed \<Rightarrow> ''claimed'' | Consumed \<Rightarrow> ''consumed'')"

type_synonym monotonic_time = u64

text \<open>Process identities: digests of the fields that identify the principal's process.\<close>

datatype process_identity_digest = ProcessIdentityDigest bytes

record session_identity_params =
  sip_uid :: u32
  sip_gid :: u32
  sip_pid :: u32
  sip_start_time :: u64
  sip_cgroup_path :: string
  sip_ns_user :: u64
  sip_ns_pid :: u64
  sip_ns_mnt :: u64

definition process_identity_compute :: "(bytes \<Rightarrow> bytes) \<Rightarrow> u32 \<Rightarrow> u32 \<Rightarrow> u32 \<Rightarrow> bytes \<Rightarrow> process_identity_digest" where
  "process_identity_compute sha256 uid gid pid exe_hash =
     ProcessIdentityDigest (sha256
       (as_bytes ''passless/process-identity/v1'' @ to_le_bytes uid @ to_le_bytes gid @ to_le_bytes pid @ exe_hash))"

text \<open>The bytes hashed by \<open>compute_from_session_identity\<close>; \<open>len() as u32\<close> truncates.\<close>

definition session_identity_preimage :: "session_identity_params \<Rightarrow> bytes" where
  "session_identity_preimage p =
     as_bytes (''passless/session-identity/v2'' @ [CHR 0x00]) @ to_le_bytes (sip_uid p) @
     to_le_bytes (sip_gid p) @ to_le_bytes (sip_pid p) @ to_le_bytes (sip_start_time p) @
     to_le_bytes (of_nat (length (sip_cgroup_path p)) :: u32) @ as_bytes (sip_cgroup_path p) @
     to_le_bytes (sip_ns_user p) @ to_le_bytes (sip_ns_pid p) @ to_le_bytes (sip_ns_mnt p)"

definition compute_from_session_identity ::
    "(bytes \<Rightarrow> bytes) \<Rightarrow> session_identity_params \<Rightarrow> process_identity_digest" where
  "compute_from_session_identity sha256 p = ProcessIdentityDigest (sha256 (session_identity_preimage p))"

text \<open>Claim tokens are compared in constant time.\<close>

datatype claim_token = ClaimToken (token_bytes: bytes)

definition claim_token_verify :: "claim_token \<Rightarrow> claim_token \<Rightarrow> bool" where
  "claim_token_verify a b =
     (fold (\<lambda>(x, y) acc. acc OR (x XOR y)) (zip (token_bytes a) (token_bytes b)) 0 = 0)"

record intent =
  i_id :: intent_id
  i_profile_id :: profile_id
  i_session_id :: principal_session_id
  i_endpoint_id :: endpoint_id
  i_process_digest :: process_identity_digest
  i_action :: intent_action
  i_rp_id :: string
  i_credential_ref :: "credential_ref option"
  i_policy_generation :: policy_generation_id
  i_policy_digest :: policy_digest
  i_require_uv :: bool
  i_created_at :: monotonic_time
  i_deadline :: monotonic_time
  i_state :: intent_state
  i_claim_token :: "claim_token option"
  i_boot_nonce :: u64

record create_intent_params =
  cp_profile_id :: profile_id
  cp_session_id :: principal_session_id
  cp_endpoint_id :: endpoint_id
  cp_process_digest :: process_identity_digest
  cp_action :: intent_action
  cp_rp_id :: string
  cp_credential_ref :: "credential_ref option"
  cp_policy_generation :: policy_generation_id
  cp_policy_digest :: policy_digest
  cp_require_uv :: bool
  cp_ttl_ms :: "u64 option"

record intent_query_params =
  q_profile_id :: profile_id
  q_session_id :: principal_session_id
  q_endpoint_id :: endpoint_id
  q_process_digest :: process_identity_digest
  q_policy_generation :: "policy_generation_id option"
  q_policy_digest :: policy_digest
  q_action :: intent_action
  q_rp_id :: string
  q_credential_ref :: "credential_ref option"

record intent_consume_info =
  ci_profile_id :: profile_id
  ci_action :: intent_action
  ci_rp_id :: string
  ci_credential_ref :: "credential_ref option"
  ci_require_uv :: bool

record intent_store =
  intents :: "(string, intent) hashmap"
  max_intents :: nat
  boot_nonce :: u64

definition DEFAULT_MAX_INTENTS :: nat where "DEFAULT_MAX_INTENTS = 256"
definition DEFAULT_INTENT_TTL_MS :: u64 where "DEFAULT_INTENT_TTL_MS = 300000"

section \<open>Operations on one intent\<close>

definition matches_query :: "intent \<Rightarrow> intent_query_params \<Rightarrow> bool \<Rightarrow> bool" where
  "matches_query i q require_approved =
     (let normalized_rp = normalize (q_rp_id q);
          state_ok = (if require_approved then i_state i = Approved else \<not> is_terminal (i_state i))
      in state_ok
         \<and> i_profile_id i = q_profile_id q
         \<and> i_session_id i = q_session_id q
         \<and> i_endpoint_id i = q_endpoint_id q
         \<and> i_process_digest i = q_process_digest q
         \<and> (case q_policy_generation q of None \<Rightarrow> True | Some pg \<Rightarrow> i_policy_generation i = pg)
         \<and> i_policy_digest i = q_policy_digest q
         \<and> i_action i = q_action q
         \<and> i_rp_id i = normalized_rp
         \<and> (case (q_credential_ref q, i_credential_ref i) of
               (Some qr, Some icr) \<Rightarrow> qr = icr
             | (None, None) \<Rightarrow> True
             | _ \<Rightarrow> False))"

definition valid_transition :: "intent_state \<Rightarrow> intent_state \<Rightarrow> bool" where
  "valid_transition from to =
     ((from, to) \<in> {(Pending, Approved), (Pending, Denied), (Pending, Cancelled),
        (Pending, intent_state.Expired), (Approved, Claimed), (Approved, intent_state.Expired),
        (Claimed, Consumed)})"

definition transition_to :: "intent_state \<Rightarrow> intent \<Rightarrow> intent \<times> (intent_error + unit)" where
  "transition_to new_state i =
     (if \<not> valid_transition (i_state i) new_state
      then (i, Err (InvalidTransition (label (i_state i)) (label new_state)))
      else (i\<lparr>i_state := new_state\<rparr>, Ok ()))"

definition consume_info :: "intent \<Rightarrow> intent_consume_info" where
  "consume_info i = \<lparr>ci_profile_id = i_profile_id i, ci_action = i_action i, ci_rp_id = i_rp_id i,
     ci_credential_ref = i_credential_ref i, ci_require_uv = i_require_uv i\<rparr>"

section \<open>Operations of the store\<close>

text \<open>
  \<open>with_intent\<close> is the common beginning of the operations on one intent: look the key up with
  \<open>get_mut\<close>, return \<open>NotFound\<close> if it is absent, otherwise change the entry in place.
\<close>

definition with_intent ::
    "intent_store \<Rightarrow> intent_id \<Rightarrow> (intent \<Rightarrow> intent \<times> (intent_error + 'a)) \<Rightarrow> intent_store \<times> (intent_error + 'a)" where
  "with_intent s iid f =
     (case hm_get (intents s) (intent_id_str iid) of
        None \<Rightarrow> (s, Err NotFound)
      | Some i \<Rightarrow>
          (case f i of (i', r) \<Rightarrow> (s\<lparr>intents := hm_insert (intent_id_str iid) i' (intents s)\<rparr>, r)))"

definition store_new :: "nat \<Rightarrow> u64 \<Rightarrow> intent_store" where
  "store_new max_i nonce = \<lparr>intents = [], max_intents = max_i, boot_nonce = nonce\<rparr>"

definition with_defaults :: "u64 \<Rightarrow> intent_store" where
  "with_defaults nonce = store_new DEFAULT_MAX_INTENTS nonce"

definition invalidate_all :: "u64 \<Rightarrow> intent_store \<Rightarrow> intent_store" where
  "invalidate_all nonce s = s\<lparr>boot_nonce := nonce, intents := []\<rparr>"

definition past_deadline :: "monotonic_time \<Rightarrow> intent \<Rightarrow> bool" where
  "past_deadline now i = ((i_state i = Pending \<or> i_state i = Approved) \<and> i_deadline i \<le> now)"

definition cleanup_expired :: "monotonic_time \<Rightarrow> intent_store \<Rightarrow> intent_store" where
  "cleanup_expired now s =
     s\<lparr>intents := hm_map (\<lambda>i. if past_deadline now i then fst (transition_to intent_state.Expired i) else i) (intents s)\<rparr>"

definition expire_if_needed :: "monotonic_time \<Rightarrow> intent_store \<Rightarrow> intent_id \<Rightarrow> intent_store \<times> (intent_error + unit)" where
  "expire_if_needed now s iid =
     with_intent s iid (\<lambda>i.
       if past_deadline now i then
         (case transition_to intent_state.Expired i of
            (i', Inl e) \<Rightarrow> (i', Err e)
          | (i', Inr _) \<Rightarrow> (i', Err intent_error.Expired))
       else (i, Ok ()))"

definition active_count :: "intent_store \<Rightarrow> nat" where
  "active_count s = hm_count (\<lambda>i. \<not> is_terminal (i_state i)) (intents s)"

definition total_count :: "intent_store \<Rightarrow> nat" where
  "total_count s = length (intents s)"

definition verify_boot_nonce :: "intent_store \<Rightarrow> u64 \<Rightarrow> bool" where
  "verify_boot_nonce s nonce = (boot_nonce s = nonce)"

text \<open>
  \<open>create\<close> reads the clock twice: \<open>now_gc\<close> in \<open>cleanup_expired\<close> and \<open>now\<close> for the deadline; \<open>id\<close> and
  \<open>token\<close> are the random identifier and token.
\<close>

definition intent_create ::
    "monotonic_time \<Rightarrow> monotonic_time \<Rightarrow> intent_id \<Rightarrow> claim_token \<Rightarrow> create_intent_params \<Rightarrow> intent_store
       \<Rightarrow> intent_store \<times> (intent_error + intent_id \<times> claim_token)" where
  "intent_create now_gc now iid token p s0 =
     (let s = cleanup_expired now_gc s0 in
      if active_count s \<ge> max_intents s then (s, Err StoreFull)
      else
        (let ttl_ms = (case cp_ttl_ms p of None \<Rightarrow> DEFAULT_INTENT_TTL_MS | Some t \<Rightarrow> t) in
         case checked_add now ttl_ms of
           None \<Rightarrow> (s, Err StoreFull)
         | Some deadline \<Rightarrow>
             (s\<lparr>intents := hm_insert (intent_id_str iid)
                 \<lparr>i_id = iid, i_profile_id = cp_profile_id p, i_session_id = cp_session_id p,
                  i_endpoint_id = cp_endpoint_id p, i_process_digest = cp_process_digest p,
                  i_action = cp_action p, i_rp_id = cp_rp_id p,
                  i_credential_ref = cp_credential_ref p,
                  i_policy_generation = cp_policy_generation p,
                  i_policy_digest = cp_policy_digest p, i_require_uv = cp_require_uv p,
                  i_created_at = now, i_deadline = deadline, i_state = Pending,
                  i_claim_token = Some token, i_boot_nonce = boot_nonce s\<rparr> (intents s)\<rparr>,
              Ok (iid, token))))"

definition intent_get :: "intent_store \<Rightarrow> intent_id \<Rightarrow> intent option" where
  "intent_get s iid = hm_get (intents s) (intent_id_str iid)"

definition intent_state_of :: "intent_store \<Rightarrow> intent_id \<Rightarrow> intent_state option" where
  "intent_state_of s iid = map_option i_state (intent_get s iid)"

definition intent_approve :: "monotonic_time \<Rightarrow> intent_id \<Rightarrow> intent_store \<Rightarrow> intent_store \<times> (intent_error + unit)" where
  "intent_approve now iid s =
     and_then (expire_if_needed now s iid) (\<lambda>s _. with_intent s iid (transition_to Approved))"

definition intent_deny :: "monotonic_time \<Rightarrow> intent_id \<Rightarrow> intent_store \<Rightarrow> intent_store \<times> (intent_error + unit)" where
  "intent_deny now iid s =
     and_then (expire_if_needed now s iid) (\<lambda>s _. with_intent s iid (transition_to Denied))"

definition cancel_by_principal ::
    "monotonic_time \<Rightarrow> intent_id \<Rightarrow> profile_id \<Rightarrow> principal_session_id \<Rightarrow> intent_store
       \<Rightarrow> intent_store \<times> (intent_error + unit)" where
  "cancel_by_principal now iid pid sid s =
     and_then (expire_if_needed now s iid) (\<lambda>s _.
       with_intent s iid (\<lambda>i.
         if i_profile_id i \<noteq> pid \<or> i_session_id i \<noteq> sid then (i, Err NotFound)
         else transition_to Cancelled i))"

definition claim_body :: "claim_token \<Rightarrow> intent \<Rightarrow> intent \<times> (intent_error + unit)" where
  "claim_body token i =
     (if i_state i \<noteq> Approved then (i, Err (InvalidTransition (label (i_state i)) (label Claimed)))
      else (case i_claim_token i of
              None \<Rightarrow> (i, Err AlreadyClaimed)
            | Some stored \<Rightarrow>
                if \<not> claim_token_verify stored token then (i, Err ClaimTokenMismatch)
                else (case transition_to Claimed i of
                        (i', Inl e) \<Rightarrow> (i', Err e)
                      | (i', Inr _) \<Rightarrow> (i'\<lparr>i_claim_token := None\<rparr>, Ok ()))))"

definition intent_claim :: "monotonic_time \<Rightarrow> intent_id \<Rightarrow> claim_token \<Rightarrow> intent_store \<Rightarrow> intent_store \<times> (intent_error + unit)" where
  "intent_claim now iid token s =
     and_then (expire_if_needed now s iid) (\<lambda>s _. with_intent s iid (claim_body token))"

definition finish_consume :: "intent \<Rightarrow> intent \<times> (intent_error + intent_consume_info)" where
  "finish_consume i =
     (case transition_to Consumed i of
        (i', Inl e) \<Rightarrow> (i', Err e)
      | (i', Inr _) \<Rightarrow> (i', Ok (consume_info i')))"

definition intent_consume :: "intent_id \<Rightarrow> intent_store \<Rightarrow> intent_store \<times> (intent_error + intent_consume_info)" where
  "intent_consume iid s =
     with_intent s iid (\<lambda>i. if i_state i = Consumed then (i, Err AlreadyConsumed) else finish_consume i)"

definition cleanup_terminal :: "intent_store \<Rightarrow> intent_store" where
  "cleanup_terminal s = s\<lparr>intents := hm_retain (\<lambda>i. \<not> is_terminal (i_state i)) (intents s)\<rparr>"

definition find_approved :: "intent_query_params \<Rightarrow> intent_store \<Rightarrow> intent_id option" where
  "find_approved q s = map_option i_id (find (\<lambda>i. matches_query i q True) (hm_values (intents s)))"

definition claim_approved ::
    "monotonic_time \<Rightarrow> intent_query_params \<Rightarrow> intent_store \<Rightarrow> intent_store \<times> (intent_error + intent_id)" where
  "claim_approved now q s0 =
     (let s = cleanup_expired now s0 in
      case find (\<lambda>(k, i). matches_query i q True) (intents s) of
        None \<Rightarrow> (s, Err NotFound)
      | Some (k, i) \<Rightarrow>
          (case transition_to Claimed i of
             (i', Inl e) \<Rightarrow> (s, Err e)
           | (i', Inr _) \<Rightarrow>
               (s\<lparr>intents := hm_insert k (i'\<lparr>i_claim_token := None\<rparr>) (intents s)\<rparr>, Ok (i_id i))))"

definition rollback_claim :: "intent_id \<Rightarrow> intent_store \<Rightarrow> intent_store \<times> (intent_error + unit)" where
  "rollback_claim iid s =
     with_intent s iid (\<lambda>i.
       if i_state i \<noteq> Claimed then (i, Err (InvalidTransition (label (i_state i)) (label Approved)))
       else (i\<lparr>i_state := Approved\<rparr>, Ok ()))"

definition consume_claimed :: "intent_id \<Rightarrow> intent_store \<Rightarrow> intent_store \<times> (intent_error + intent_consume_info)" where
  "consume_claimed iid s =
     with_intent s iid (\<lambda>i.
       if i_state i \<noteq> Claimed then (i, Err (InvalidTransition (label (i_state i)) (label Consumed)))
       else finish_consume i)"

definition cancel_by_session :: "principal_session_id \<Rightarrow> intent_store \<Rightarrow> intent_store" where
  "cancel_by_session sid s =
     s\<lparr>intents := hm_map (\<lambda>i. if i_session_id i = sid \<and> \<not> is_terminal (i_state i)
                               then fst (transition_to Cancelled i) else i) (intents s)\<rparr>"

definition check_replay :: "intent_query_params \<Rightarrow> intent_store \<Rightarrow> bool" where
  "check_replay q s = list_ex (\<lambda>i. matches_query i q False) (hm_values (intents s))"

section \<open>The store as an automaton\<close>

text \<open>Every operation that changes the store, with the inputs it draws from its environment.\<close>

datatype intent_op =
    ICreate monotonic_time monotonic_time intent_id claim_token create_intent_params
  | IApprove monotonic_time intent_id
  | IDeny monotonic_time intent_id
  | ICancelByPrincipal monotonic_time intent_id profile_id principal_session_id
  | IClaim monotonic_time intent_id claim_token
  | IConsume intent_id
  | ICleanupExpired monotonic_time
  | ICleanupTerminal
  | IClaimApproved monotonic_time intent_query_params
  | IRollbackClaim intent_id
  | IConsumeClaimed intent_id
  | ICancelBySession principal_session_id
  | IInvalidateAll u64

datatype intent_out =
    OutUnit "intent_error + unit"
  | OutCreated "intent_error + intent_id \<times> claim_token"
  | OutClaimed "intent_error + intent_id"
  | OutInfo "intent_error + intent_consume_info"

fun intent_step :: "intent_store \<Rightarrow> intent_op \<Rightarrow> intent_store \<times> intent_out" where
  "intent_step s (ICreate now_gc now iid token p) = apsnd OutCreated (intent_create now_gc now iid token p s)"
| "intent_step s (IApprove now iid) = apsnd OutUnit (intent_approve now iid s)"
| "intent_step s (IDeny now iid) = apsnd OutUnit (intent_deny now iid s)"
| "intent_step s (ICancelByPrincipal now iid pid sid) = apsnd OutUnit (cancel_by_principal now iid pid sid s)"
| "intent_step s (IClaim now iid token) = apsnd OutUnit (intent_claim now iid token s)"
| "intent_step s (IConsume iid) = apsnd OutInfo (intent_consume iid s)"
| "intent_step s (ICleanupExpired now) = (cleanup_expired now s, OutUnit (Ok ()))"
| "intent_step s ICleanupTerminal = (cleanup_terminal s, OutUnit (Ok ()))"
| "intent_step s (IClaimApproved now q) = apsnd OutClaimed (claim_approved now q s)"
| "intent_step s (IRollbackClaim iid) = apsnd OutUnit (rollback_claim iid s)"
| "intent_step s (IConsumeClaimed iid) = apsnd OutInfo (consume_claimed iid s)"
| "intent_step s (ICancelBySession sid) = (cancel_by_session sid s, OutUnit (Ok ()))"
| "intent_step s (IInvalidateAll nonce) = (invalidate_all nonce s, OutUnit (Ok ()))"

text \<open>
  The moves of one intent: the transitions of \<open>transition_to\<close> and the rollback of a claim.  An
  intent keeps everything else, except that its token disappears when it is claimed.
\<close>

inductive intent_edge :: "intent_state \<Rightarrow> intent_state \<Rightarrow> bool" where
  stay: "intent_edge st st"
| move: "valid_transition st st' \<Longrightarrow> intent_edge st st'"
| rollback: "intent_edge Claimed Approved"

inductive_simps intent_edge_iff: "intent_edge st st'"

definition intent_frame :: "intent \<Rightarrow> intent" where
  "intent_frame i = i\<lparr>i_state := Pending, i_claim_token := None\<rparr>"

definition intent_moves :: "intent \<Rightarrow> intent \<Rightarrow> bool" where
  "intent_moves i i' =
     (intent_frame i' = intent_frame i \<and> intent_edge (i_state i) (i_state i') \<and>
      (i_claim_token i' = i_claim_token i \<or> i_claim_token i' = None \<and> i_state i' = Claimed) \<and>
      (i_state i' = Claimed \<and> i_state i \<noteq> Claimed \<longrightarrow> i_claim_token i' = None))"

definition intent_ok :: "intent \<Rightarrow> bool" where
  "intent_ok i =
     (i_created_at i \<le> i_deadline i \<and>
      (i_state i = Claimed \<or> i_state i = Consumed \<longrightarrow> i_claim_token i = None) \<and>
      (i_state i = Pending \<longrightarrow> i_claim_token i \<noteq> None))"

definition store_inv :: "intent_store \<Rightarrow> bool" where
  "store_inv s =
     (hm_wf (intents s) \<and>
      (\<forall>(k, i) \<in> set (intents s). k = intent_id_str (i_id i) \<and> intent_ok i) \<and>
      active_count s \<le> max_intents s)"

section \<open>Lemmas on one intent\<close>

lemmas intent_state_simps = valid_transition_def is_terminal_def

lemma is_terminal_iff: "is_terminal st \<longleftrightarrow> st \<in> {Denied, Cancelled, intent_state.Expired, Consumed}"
  by (cases st) (auto simp: is_terminal_def)

lemma intent_frame_eqI:
  "intent_frame i' = intent_frame i \<Longrightarrow> i_state i' = i_state i \<Longrightarrow> i_claim_token i' = i_claim_token i \<Longrightarrow> i' = i"
  by (cases i; cases i') (simp add: intent_frame_def)

lemma intent_frame_fields:
  assumes "intent_frame i' = intent_frame i"
  shows "i_id i' = i_id i" "i_session_id i' = i_session_id i" "i_profile_id i' = i_profile_id i"
    "i_deadline i' = i_deadline i" "i_created_at i' = i_created_at i"
    "consume_info i' = consume_info i"
  using assms by (cases i; cases i'; simp add: intent_frame_def consume_info_def)+

lemma transition_to_cases:
  obtains (valid) "valid_transition (i_state i) st" and "transition_to st i = (i\<lparr>i_state := st\<rparr>, Ok ())"
  | (invalid) "\<not> valid_transition (i_state i) st"
    and "transition_to st i = (i, Err (InvalidTransition (label (i_state i)) (label st)))"
  by (cases "valid_transition (i_state i) st") (auto simp: transition_to_def)

lemma intent_moves_refl [simp]: "intent_moves i i"
  by (simp add: intent_moves_def intent_edge.stay)

lemma intent_moves_transition: "st \<noteq> Claimed \<Longrightarrow> intent_moves i (fst (transition_to st i))"
  by (cases rule: transition_to_cases [of i st])
    (auto simp: intent_moves_def intent_frame_def intent_edge.move)

lemma intent_moves_claim:
  "i_state i = Approved \<Longrightarrow> intent_moves i (i\<lparr>i_state := Claimed, i_claim_token := None\<rparr>)"
  by (auto simp: intent_moves_def intent_frame_def intent_edge_iff valid_transition_def)

lemma intent_moves_rollback: "i_state i = Claimed \<Longrightarrow> intent_moves i (i\<lparr>i_state := Approved\<rparr>)"
  by (auto simp: intent_moves_def intent_frame_def intent_edge.rollback)

text \<open>A move that is not an approval.\<close>

definition quiet_move :: "intent \<Rightarrow> intent \<Rightarrow> bool" where
  "quiet_move i i' = (intent_moves i i' \<and> \<not> (i_state i = Pending \<and> i_state i' = Approved))"

lemma quiet_move_refl [simp]: "quiet_move i i"
  by (simp add: quiet_move_def)

lemma quiet_move_transition: "st \<noteq> Claimed \<Longrightarrow> st \<noteq> Approved \<Longrightarrow> quiet_move i (fst (transition_to st i))"
  by (cases rule: transition_to_cases [of i st])
    (use intent_moves_transition [of st i] in \<open>auto simp: quiet_move_def\<close>)

lemma quiet_move_claim:
  "i_state i = Approved \<Longrightarrow> quiet_move i (i\<lparr>i_state := Claimed, i_claim_token := None\<rparr>)"
  by (simp add: quiet_move_def intent_moves_claim)

lemma quiet_move_rollback: "i_state i = Claimed \<Longrightarrow> quiet_move i (i\<lparr>i_state := Approved\<rparr>)"
  by (simp add: quiet_move_def intent_moves_rollback)

lemma quiet_move_moves: "quiet_move i i' \<Longrightarrow> intent_moves i i'"
  by (simp add: quiet_move_def)

lemma terminal_no_transition: "is_terminal st \<Longrightarrow> \<not> valid_transition st st'"
  by (auto simp: is_terminal_iff valid_transition_def)

lemma terminal_edge: "is_terminal st \<Longrightarrow> intent_edge st st' \<Longrightarrow> st' = st"
  by (auto simp: intent_edge_iff terminal_no_transition is_terminal_iff)

lemma intent_moves_terminal:
  assumes "intent_moves i i'" and "is_terminal (i_state i)"
  shows "i' = i"
proof (rule intent_frame_eqI)
  from assms show st: "i_state i' = i_state i"
    by (auto simp: intent_moves_def dest: terminal_edge)
  from assms(2) have "i_state i \<noteq> Claimed" by (auto simp: is_terminal_iff)
  with assms(1) st show "i_claim_token i' = i_claim_token i"
    by (auto simp: intent_moves_def)
qed (use assms in \<open>simp add: intent_moves_def\<close>)

lemma intent_moves_frame: "intent_moves i i' \<Longrightarrow> intent_frame i' = intent_frame i"
  by (simp add: intent_moves_def)

lemma intent_moves_ok:
  assumes "intent_moves i i'" and "intent_ok i"
  shows "intent_ok i'"
proof -
  have "intent_edge (i_state i) (i_state i')"
    using assms(1) by (simp add: intent_moves_def)
  moreover note intent_frame_fields(4,5) [OF intent_moves_frame [OF assms(1)]]
  ultimately show ?thesis
    using assms by (auto simp: intent_moves_def intent_ok_def intent_edge_iff valid_transition_def)
qed

section \<open>Lemmas on the store\<close>

text \<open>
  \<open>store_rel R s s'\<close>: every intent of \<open>s'\<close> is related by \<open>R\<close> to the intent of \<open>s\<close> with the same key.
  Every operation but \<open>create\<close> relates its states by \<open>intent_moves\<close>, and every one but \<open>create\<close> and
  \<open>approve\<close> by \<open>quiet_move\<close>.
\<close>

definition store_rel :: "(intent \<Rightarrow> intent \<Rightarrow> bool) \<Rightarrow> intent_store \<Rightarrow> intent_store \<Rightarrow> bool" where
  "store_rel R s s' =
     (hm_wf (intents s') \<and> max_intents s' = max_intents s \<and>
      (\<forall>k i'. hm_get (intents s') k = Some i' \<longrightarrow> (\<exists>i. hm_get (intents s) k = Some i \<and> R i i')))"

abbreviation store_moves :: "intent_store \<Rightarrow> intent_store \<Rightarrow> bool" where
  "store_moves \<equiv> store_rel intent_moves"

abbreviation store_quiet :: "intent_store \<Rightarrow> intent_store \<Rightarrow> bool" where
  "store_quiet \<equiv> store_rel quiet_move"

lemma store_quiet_moves: "store_quiet s s' \<Longrightarrow> store_moves s s'"
  unfolding store_rel_def by (blast intro: quiet_move_moves)

lemma store_relE:
  assumes "store_rel R s s'" and "hm_get (intents s') k = Some i'"
  obtains i where "hm_get (intents s) k = Some i" and "R i i'"
  using assms by (auto simp: store_rel_def)

lemma store_inv_iff:
  "store_inv s \<longleftrightarrow> hm_wf (intents s) \<and>
     (\<forall>k i. hm_get (intents s) k = Some i \<longrightarrow> k = intent_id_str (i_id i) \<and> intent_ok i) \<and>
     active_count s \<le> max_intents s"
  by (auto simp: store_inv_def hm_get_iff)

lemma store_inv_wf [simp]: "store_inv s \<Longrightarrow> hm_wf (intents s)"
  by (simp add: store_inv_def)

lemma store_inv_lookup:
  "store_inv s \<Longrightarrow> hm_get (intents s) k = Some i \<Longrightarrow> k = intent_id_str (i_id i) \<and> intent_ok i"
  by (simp add: store_inv_iff)

lemma store_moves_inv:
  assumes inv: "store_inv s" and mv: "store_moves s s'"
  shows "store_inv s'"
proof -
  have wf: "hm_wf (intents s)" "hm_wf (intents s')"
    using inv mv by (simp_all add: store_rel_def)
  have ok: "k = intent_id_str (i_id i') \<and> intent_ok i'" if "hm_get (intents s') k = Some i'" for k i'
  proof -
    from mv that obtain i where i: "hm_get (intents s) k = Some i" "intent_moves i i'"
      by (auto simp: store_rel_def)
    with store_inv_lookup [OF inv i(1)] show ?thesis
      by (auto intro: intent_moves_ok simp: intent_frame_fields(1) [OF intent_moves_frame])
  qed
  have "active_count s' \<le> active_count s"
    unfolding active_count_def
  proof (rule hm_count_le [OF wf])
    fix k i' assume g: "hm_get (intents s') k = Some i'" and nt: "\<not> is_terminal (i_state i')"
    with mv obtain i where "hm_get (intents s) k = Some i" "intent_moves i i'"
      by (auto simp: store_rel_def)
    with nt show "\<exists>i. hm_get (intents s) k = Some i \<and> \<not> is_terminal (i_state i)"
      using intent_moves_terminal by blast
  qed
  with inv mv ok wf show ?thesis
    by (auto simp: store_inv_iff store_rel_def)
qed

lemma store_rel_refl: "store_inv s \<Longrightarrow> (\<And>i. R i i) \<Longrightarrow> store_rel R s s"
  by (auto simp: store_rel_def)

lemma store_rel_insert:
  "store_inv s \<Longrightarrow> hm_get (intents s) k = Some i \<Longrightarrow> R i i' \<Longrightarrow> (\<And>i. R i i) \<Longrightarrow>
     store_rel R s (s\<lparr>intents := hm_insert k i' (intents s)\<rparr>)"
  by (auto simp: store_rel_def)

lemma store_rel_map:
  "store_inv s \<Longrightarrow> (\<And>i. R i (f i)) \<Longrightarrow> store_rel R s (s\<lparr>intents := hm_map f (intents s)\<rparr>)"
  by (auto simp: store_rel_def)

lemma with_intent_rel:
  "store_inv s \<Longrightarrow> (\<And>i. R i i) \<Longrightarrow> (\<And>i. R i (fst (f i))) \<Longrightarrow> store_rel R s (fst (with_intent s iid f))"
  by (auto simp: with_intent_def store_rel_refl split: option.splits prod.splits)
    (metis fst_conv store_rel_insert)

text \<open>The three ways in which the expiry check at the head of the operations ends.\<close>

lemma expire_if_needed_cases:
  obtains (missing) "hm_get (intents s) (intent_id_str iid) = None"
      and "expire_if_needed now s iid = (s, Err NotFound)"
  | (expired) i where "hm_get (intents s) (intent_id_str iid) = Some i" and "past_deadline now i"
      and "expire_if_needed now s iid =
        (s\<lparr>intents := hm_insert (intent_id_str iid) (i\<lparr>i_state := intent_state.Expired\<rparr>) (intents s)\<rparr>,
         Err intent_error.Expired)"
  | (live) i where "hm_get (intents s) (intent_id_str iid) = Some i" and "\<not> past_deadline now i"
      and "expire_if_needed now s iid = (s, Ok ())"
proof (cases "hm_get (intents s) (intent_id_str iid)")
  case None
  then show ?thesis by (intro missing) (auto simp: expire_if_needed_def with_intent_def)
next
  case (Some i)
  show ?thesis
  proof (cases "past_deadline now i")
    case True
    then have "valid_transition (i_state i) intent_state.Expired"
      by (auto simp: past_deadline_def valid_transition_def)
    with Some True show ?thesis
      by (intro expired) (auto simp: expire_if_needed_def with_intent_def transition_to_def)
  next
    case False
    with Some show ?thesis
      by (intro live) (auto simp: expire_if_needed_def with_intent_def)
  qed
qed

lemma past_deadline_quiet: "past_deadline now i \<Longrightarrow> quiet_move i (i\<lparr>i_state := intent_state.Expired\<rparr>)"
  using quiet_move_transition [of intent_state.Expired i]
  by (auto simp: transition_to_def past_deadline_def valid_transition_def)

lemma guarded_rel:
  assumes "store_inv s" and "\<And>i. R i (fst (f i))" and "\<And>i i'. quiet_move i i' \<Longrightarrow> R i i'"
  shows "store_rel R s (fst (and_then (expire_if_needed now s iid) (\<lambda>s _. with_intent s iid f)))"
proof -
  have refl: "R i i" for i using assms(3) by simp
  show ?thesis
  proof (cases rule: expire_if_needed_cases [where s = s and iid = iid and now = now])
    case missing
    with assms refl show ?thesis by (simp add: store_rel_refl)
  next
    case (expired i)
    have "R i (i\<lparr>i_state := intent_state.Expired\<rparr>)"
      using assms(3) [OF past_deadline_quiet] expired by blast
    then have "store_rel R s (s\<lparr>intents := hm_insert (intent_id_str iid) (i\<lparr>i_state := intent_state.Expired\<rparr>) (intents s)\<rparr>)"
      using expired assms(1) refl by (intro store_rel_insert)
    with expired show ?thesis by simp
  next
    case (live i)
    with assms refl show ?thesis by (simp add: with_intent_rel)
  qed
qed

lemma cleanup_expired_quiet: "store_inv s \<Longrightarrow> store_quiet s (cleanup_expired now s)"
  unfolding cleanup_expired_def by (rule store_rel_map) (auto intro: quiet_move_transition)

lemma cleanup_expired_moves: "store_inv s \<Longrightarrow> store_moves s (cleanup_expired now s)"
  by (rule store_quiet_moves) (rule cleanup_expired_quiet)

lemma cleanup_expired_get:
  "hm_get (intents (cleanup_expired now s)) k =
     map_option (\<lambda>i. if past_deadline now i then i\<lparr>i_state := intent_state.Expired\<rparr> else i) (hm_get (intents s) k)"
  by (auto simp: cleanup_expired_def past_deadline_def transition_to_def valid_transition_def
      intro!: option.map_cong)

text \<open>The one successful branch of \<open>claim_approved\<close>: an unexpired approved intent that matches.\<close>

lemma claim_approved_ok:
  assumes "store_inv s" and "claim_approved now q s = (s', Ok iid)"
  obtains i where "hm_get (intents s) (intent_id_str iid) = Some i" and "i_id i = iid"
    and "matches_query i q True" and "now < i_deadline i"
    and "s' = (cleanup_expired now s)\<lparr>intents := hm_insert (intent_id_str iid)
           (i\<lparr>i_state := Claimed, i_claim_token := None\<rparr>) (intents (cleanup_expired now s))\<rparr>"
proof -
  let ?s = "cleanup_expired now s"
  have inv: "store_inv ?s"
    using assms(1) by (rule store_moves_inv) (rule cleanup_expired_moves [OF assms(1)])
  from assms(2) obtain k i where
    f: "find (\<lambda>(k, i). matches_query i q True) (intents ?s) = Some (k, i)" and iid: "iid = i_id i"
    and s': "s' = ?s\<lparr>intents := hm_insert k ((fst (transition_to Claimed i))\<lparr>i_claim_token := None\<rparr>) (intents ?s)\<rparr>"
    by (auto simp: claim_approved_def Let_def split: option.splits prod.splits sum.splits)
  from f have m: "matches_query i q True" and "(k, i) \<in> set (intents ?s)"
    by (auto dest: find_SomeD)
  with inv have g: "hm_get (intents ?s) k = Some i" by (simp add: hm_get_iff)
  with inv have k: "k = intent_id_str iid" by (auto simp: iid dest: store_inv_lookup)
  from m have st: "i_state i = Approved" by (simp add: matches_query_def Let_def)
  from g obtain i0 where i0: "hm_get (intents s) k = Some i0"
    and i: "i = (if past_deadline now i0 then i0\<lparr>i_state := intent_state.Expired\<rparr> else i0)"
    by (auto simp: cleanup_expired_get)
  from i st have "\<not> past_deadline now i0" by (cases "past_deadline now i0") simp_all
  with i i0 have "hm_get (intents s) k = Some i" and "\<not> past_deadline now i" by simp_all
  moreover from st have "fst (transition_to Claimed i) = i\<lparr>i_state := Claimed\<rparr>"
    by (simp add: transition_to_def valid_transition_def)
  ultimately have "s' = ?s\<lparr>intents := hm_insert (intent_id_str iid)
      (i\<lparr>i_state := Claimed, i_claim_token := None\<rparr>) (intents ?s)\<rparr>"
    and "hm_get (intents s) (intent_id_str iid) = Some i" and "now < i_deadline i"
    using st s' by (simp_all add: k past_deadline_def not_le)
  with iid m show thesis by (intro that) simp_all
qed

lemma matches_query_approved: "matches_query i q True \<Longrightarrow> i_state i = Approved"
  by (simp add: matches_query_def Let_def)

lemma claim_approved_err:
  assumes "claim_approved now q s = (s', Err e)"
  shows "s' = cleanup_expired now s" and "e = NotFound"
    and "hm_get (intents s) k = Some i \<Longrightarrow> now < i_deadline i \<Longrightarrow> \<not> matches_query i q True"
proof -
  let ?s = "cleanup_expired now s"
  show s': "s' = ?s"
    using assms by (auto simp: claim_approved_def Let_def split: option.splits prod.splits sum.splits)
  have none: "find (\<lambda>(k, i). matches_query i q True) (intents ?s) = None"
  proof (rule ccontr)
    assume "find (\<lambda>(k, i). matches_query i q True) (intents ?s) \<noteq> None"
    then obtain k i where f: "find (\<lambda>(k, i). matches_query i q True) (intents ?s) = Some (k, i)" by auto
    then have "i_state i = Approved" by (auto dest!: find_SomeD dest: matches_query_approved)
    then have "transition_to Claimed i = (i\<lparr>i_state := Claimed\<rparr>, Ok ())"
      by (simp add: transition_to_def valid_transition_def)
    with f assms show False by (simp add: claim_approved_def Let_def)
  qed
  with assms show "e = NotFound" by (simp add: claim_approved_def Let_def)
  assume i: "hm_get (intents s) k = Some i" "now < i_deadline i"
  then have "hm_get (intents ?s) k = Some i" by (auto simp: cleanup_expired_get past_deadline_def)
  then have "(k, i) \<in> set (intents ?s)" by (rule hm_get_in_set)
  with none show "\<not> matches_query i q True" by (auto simp: find_None_iff)
qed

lemma claim_approved_quiet:
  assumes "store_inv s"
  shows "store_quiet s (fst (claim_approved now q s))"
proof (cases "claim_approved now q s")
  case (Pair s' r)
  show ?thesis
  proof (cases r)
    case (Inl e)
    with Pair have "s' = cleanup_expired now s" by (simp add: claim_approved_err)
    with Pair assms show ?thesis by (simp add: cleanup_expired_quiet)
  next
    case (Inr iid)
    with Pair have "claim_approved now q s = (s', Ok iid)" by simp
    with assms obtain i where i: "hm_get (intents s) (intent_id_str iid) = Some i"
      and "matches_query i q True"
      and s': "s' = (cleanup_expired now s)\<lparr>intents := hm_insert (intent_id_str iid)
           (i\<lparr>i_state := Claimed, i_claim_token := None\<rparr>) (intents (cleanup_expired now s))\<rparr>"
      by (rule claim_approved_ok)
    then have "quiet_move i (i\<lparr>i_state := Claimed, i_claim_token := None\<rparr>)"
      by (intro quiet_move_claim) (simp add: matches_query_def Let_def)
    with cleanup_expired_quiet [OF assms] i show ?thesis
      by (auto simp: Pair s' store_rel_def)
  qed
qed

lemma intent_create_cases:
  assumes "store_inv s"
  obtains (created) i where "intent_ok i" and "i_state i = Pending" and "i_id i = iid"
      and "active_count (cleanup_expired now_gc s) < max_intents s"
      and "intent_create now_gc now iid token p s =
        ((cleanup_expired now_gc s)\<lparr>intents := hm_insert (intent_id_str iid) i (intents (cleanup_expired now_gc s))\<rparr>,
         Ok (iid, token))"
  | (rejected) "intent_create now_gc now iid token p s = (cleanup_expired now_gc s, Err StoreFull)"
proof (cases "active_count (cleanup_expired now_gc s) \<ge> max_intents (cleanup_expired now_gc s)")
  case True
  then show thesis by (intro rejected) (simp add: intent_create_def Let_def)
next
  case False
  let ?ttl = "case cp_ttl_ms p of None \<Rightarrow> DEFAULT_INTENT_TTL_MS | Some t \<Rightarrow> t"
  show thesis
  proof (cases "checked_add now ?ttl")
    case None
    with False show thesis by (intro rejected) (simp add: intent_create_def Let_def)
  next
    case (Some deadline)
    from checked_add_SomeD(2) [OF Some] False Some show thesis
      by (intro created [OF _ _ _ _ ]) (auto simp: intent_create_def Let_def intent_ok_def cleanup_expired_def)
  qed
qed

lemma intent_create_inv:
  assumes inv: "store_inv s"
  shows "store_inv (fst (intent_create now_gc now iid token p s))"
proof -
  let ?s = "cleanup_expired now_gc s"
  have inv': "store_inv ?s"
    using inv by (rule store_moves_inv) (rule cleanup_expired_moves [OF inv])
  from inv show ?thesis
  proof (cases rule: intent_create_cases [where s = s and now_gc = now_gc and now = now and iid = iid and token = token and p = p])
    case (created i)
    have "active_count (?s\<lparr>intents := hm_insert (intent_id_str iid) i (intents ?s)\<rparr>) \<le> Suc (active_count ?s)"
      unfolding active_count_def by (simp add: hm_count_insert_le)
    with created have "active_count (?s\<lparr>intents := hm_insert (intent_id_str iid) i (intents ?s)\<rparr>) \<le> max_intents s"
      by linarith
    moreover have "max_intents ?s = max_intents s" by (simp add: cleanup_expired_def)
    ultimately show ?thesis
      using created inv' by (auto simp: store_inv_iff)
  next
    case rejected
    with inv' show ?thesis by simp
  qed
qed

fun creates :: "intent_op \<Rightarrow> intent_id option" where
  "creates (ICreate _ _ iid _ _) = Some iid"
| "creates _ = None"

lemma finish_consume_quiet: "quiet_move i (fst (finish_consume i))"
  using quiet_move_transition [of Consumed i]
  by (auto simp: finish_consume_def split: prod.splits sum.splits)

lemma claim_body_quiet: "quiet_move i (fst (claim_body token i))"
  using quiet_move_claim [of i]
  by (auto simp: claim_body_def transition_to_def valid_transition_def split: option.splits)

lemma intent_step_quiet:
  assumes inv: "store_inv s" and "creates x = None" and "\<And>now iid. x \<noteq> IApprove now iid"
  shows "store_quiet s (fst (intent_step s x))"
proof (cases x)
  case (IDeny now iid)
  with inv show ?thesis by (simp add: intent_deny_def guarded_rel quiet_move_transition)
next
  case (ICancelByPrincipal now iid pid sid)
  with inv show ?thesis by (simp add: cancel_by_principal_def guarded_rel quiet_move_transition)
next
  case (IClaim now iid token)
  with inv show ?thesis by (simp add: intent_claim_def guarded_rel claim_body_quiet)
next
  case (IConsume iid)
  with inv show ?thesis by (simp add: intent_consume_def with_intent_rel finish_consume_quiet)
next
  case (IConsumeClaimed iid)
  with inv show ?thesis by (simp add: consume_claimed_def with_intent_rel finish_consume_quiet)
next
  case (IRollbackClaim iid)
  with inv show ?thesis by (simp add: rollback_claim_def with_intent_rel quiet_move_rollback)
next
  case ICleanupTerminal
  have "\<exists>i. hm_get (intents s) k = Some i \<and> quiet_move i i'"
    if "hm_get (hm_retain (\<lambda>i. \<not> is_terminal (i_state i)) (intents s)) k = Some i'" for k i'
    using inv hm_get_retain_SomeD [OF _ that] by auto
  with ICleanupTerminal inv show ?thesis
    by (simp add: cleanup_terminal_def store_rel_def)
next
  case (ICancelBySession sid)
  with inv show ?thesis
    by (auto simp: cancel_by_session_def intro!: store_rel_map quiet_move_transition)
next
  case (IInvalidateAll nonce)
  then show ?thesis by (simp add: invalidate_all_def store_rel_def)
qed (use assms in \<open>simp_all add: cleanup_expired_quiet claim_approved_quiet\<close>)

text \<open>Every operation but the creation of an intent moves the intents of the store.\<close>

lemma intent_step_moves:
  assumes "store_inv s" and "creates x = None"
  shows "store_moves s (fst (intent_step s x))"
proof (cases "\<exists>now iid. x = IApprove now iid")
  case True
  with assms(1) show ?thesis
    by (auto simp: intent_approve_def intent_moves_transition quiet_move_moves intro!: guarded_rel)
next
  case False
  with assms show ?thesis by (intro store_quiet_moves intent_step_quiet) auto
qed

lemma intent_step_inv:
  assumes "store_inv s"
  shows "store_inv (fst (intent_step s x))"
proof (cases "creates x")
  case None
  with assms show ?thesis by (blast intro: store_moves_inv intent_step_moves)
next
  case (Some iid)
  with assms show ?thesis by (cases x) (simp_all add: intent_create_inv)
qed

interpretation istore: automaton_inv intent_step store_inv
  by unfold_locales (rule intent_step_inv)

section \<open>Single use\<close>

lemma intent_id_str_inj [simp]: "intent_id_str a = intent_id_str b \<longleftrightarrow> a = b"
  by (cases a; cases b) simp

lemma cleanup_expired_inv: "store_inv s \<Longrightarrow> store_inv (cleanup_expired now s)"
  by (blast intro: store_moves_inv cleanup_expired_moves)

text \<open>An intent that an operation did not create comes from an intent before it by at most one move.\<close>

lemma intent_step_lookup:
  assumes inv: "store_inv s" and x: "creates x \<noteq> Some iid"
    and g: "intent_get (fst (intent_step s x)) iid = Some i'"
  obtains i where "intent_get s iid = Some i" and "intent_moves i i'"
proof (cases "creates x")
  case None
  from intent_step_moves [OF inv None] g [unfolded intent_get_def] show thesis
    by (rule store_relE) (auto simp: intent_get_def intro: that)
next
  case (Some iid')
  then obtain now_gc now token p where [simp]: "x = ICreate now_gc now iid' token p"
    by (cases x) auto
  have "intent_get (cleanup_expired now_gc s) iid = Some i'"
    using inv
  proof (cases rule: intent_create_cases [where s = s and now_gc = now_gc and now = now and iid = iid' and token = token and p = p])
    case (created i)
    with g x show ?thesis by (auto simp: intent_get_def)
  next
    case rejected
    with g show ?thesis by (simp add: intent_get_def)
  qed
  with cleanup_expired_moves [OF inv, of now_gc] show thesis
    unfolding intent_get_def by (rule store_relE) (auto simp: intent_get_def intro: that)
qed

text \<open>The call \<open>x\<close> with result \<open>y\<close> consumed the intent \<open>iid\<close>.\<close>

definition consumes :: "intent_id \<Rightarrow> intent_op \<Rightarrow> intent_out \<Rightarrow> bool" where
  "consumes iid x y =
     ((x = IConsume iid \<or> x = IConsumeClaimed iid) \<and> (case y of OutInfo r \<Rightarrow> is_ok r | _ \<Rightarrow> False))"

definition intent_spent :: "intent_id \<Rightarrow> intent_store \<Rightarrow> bool" where
  "intent_spent iid s = (case intent_get s iid of None \<Rightarrow> True | Some i \<Rightarrow> is_terminal (i_state i))"

lemma finish_consume_ok:
  "finish_consume i = (i', Ok info) \<longleftrightarrow> i_state i = Claimed \<and> i' = i\<lparr>i_state := Consumed\<rparr> \<and> info = consume_info i"
  by (auto simp: finish_consume_def transition_to_def valid_transition_def consume_info_def)

lemma with_intent_ok:
  "with_intent s iid f = (s', Ok a) \<longleftrightarrow>
     (\<exists>i i'. intent_get s iid = Some i \<and> f i = (i', Ok a) \<and>
        s' = s\<lparr>intents := hm_insert (intent_id_str iid) i' (intents s)\<rparr>)"
  by (auto simp: with_intent_def intent_get_def split: option.splits prod.splits)

lemma consume_bodies_ok:
  "(if i_state i = Consumed then (i, Err AlreadyConsumed) else finish_consume i) = (i', Ok info) \<longleftrightarrow>
     i_state i = Claimed \<and> i' = i\<lparr>i_state := Consumed\<rparr> \<and> info = consume_info i"
  "(if i_state i \<noteq> Claimed then (i, Err e) else finish_consume i) = (i', Ok info) \<longleftrightarrow>
     i_state i = Claimed \<and> i' = i\<lparr>i_state := Consumed\<rparr> \<and> info = consume_info i"
  by (auto simp: finish_consume_ok)

text \<open>Both ways to consume succeed exactly on a claimed intent, with the same effect and result.\<close>

lemma consume_ok:
  "intent_consume iid s = (s', Ok info) \<longleftrightarrow>
     (\<exists>i. intent_get s iid = Some i \<and> i_state i = Claimed \<and> info = consume_info i \<and>
        s' = s\<lparr>intents := hm_insert (intent_id_str iid) (i\<lparr>i_state := Consumed\<rparr>) (intents s)\<rparr>)"
  "consume_claimed iid s = (s', Ok info) \<longleftrightarrow>
     (\<exists>i. intent_get s iid = Some i \<and> i_state i = Claimed \<and> info = consume_info i \<and>
        s' = s\<lparr>intents := hm_insert (intent_id_str iid) (i\<lparr>i_state := Consumed\<rparr>) (intents s)\<rparr>)"
  unfolding intent_consume_def consume_claimed_def with_intent_ok consume_bodies_ok by blast+

lemma consumes_result:
  assumes "consumes iid x (snd (intent_step s x))"
  obtains i where "intent_get s iid = Some i" and "i_state i = Claimed"
    and "fst (intent_step s x) = s\<lparr>intents := hm_insert (intent_id_str iid) (i\<lparr>i_state := Consumed\<rparr>) (intents s)\<rparr>"
proof -
  from assms consider "x = IConsume iid" "is_ok (snd (intent_consume iid s))"
    | "x = IConsumeClaimed iid" "is_ok (snd (consume_claimed iid s))"
    by (auto simp: consumes_def)
  then show thesis
  proof cases
    case 1
    then obtain s' info where "intent_consume iid s = (s', Ok info)"
      by (cases "intent_consume iid s") (auto simp: is_ok_iff)
    moreover from this 1 have "fst (intent_step s x) = s'" by simp
    ultimately show thesis using that by (simp add: consume_ok) blast
  next
    case 2
    then obtain s' info where "consume_claimed iid s = (s', Ok info)"
      by (cases "consume_claimed iid s") (auto simp: is_ok_iff)
    moreover from this 2 have "fst (intent_step s x) = s'" by simp
    ultimately show thesis using that by (simp add: consume_ok) blast
  qed
qed

lemma intent_spent_step:
  assumes "store_inv s" and "creates x \<noteq> Some iid" and "intent_spent iid s"
  shows "intent_spent iid (fst (intent_step s x))"
proof (cases "intent_get (fst (intent_step s x)) iid")
  case None
  then show ?thesis by (simp add: intent_spent_def)
next
  case (Some i')
  with assms(1,2) obtain i where "intent_get s iid = Some i" "intent_moves i i'"
    by (rule intent_step_lookup)
  with assms(3) Some show ?thesis
    by (auto simp: intent_spent_def dest: intent_moves_terminal)
qed

interpretation istore: one_shot intent_step store_inv consumes intent_spent "\<lambda>iid x. creates x \<noteq> Some iid"
proof unfold_locales
  fix s iid x
  assume "store_inv s" and w: "consumes iid x (snd (intent_step s x))"
  from w show "intent_spent iid (fst (intent_step s x))"
    by (rule consumes_result) (simp add: intent_spent_def intent_get_def is_terminal_def)
next
  fix s iid x
  assume "intent_spent iid s"
  then show "\<not> consumes iid x (snd (intent_step s x))"
    by (auto simp: intent_spent_def is_terminal_iff elim!: consumes_result)
next
  fix s iid x
  assume "store_inv s" "creates x \<noteq> Some iid" "intent_spent iid s"
  then show "intent_spent iid (fst (intent_step s x))" by (rule intent_spent_step)
qed

section \<open>Approval\<close>

text \<open>The only operation that takes a pending intent to the approved state is a successful approval of it.\<close>

lemma with_intent_get:
  "intent_get (fst (with_intent s iid f)) k =
     (if k = iid then map_option (\<lambda>i. fst (f i)) (intent_get s iid) else intent_get s k)"
  by (auto simp: with_intent_def intent_get_def split: option.splits prod.splits)

lemma guarded_get:
  "intent_get (fst (and_then (expire_if_needed now s iid) (\<lambda>s _. with_intent s iid f))) k =
     (if k = iid then map_option (\<lambda>i. if past_deadline now i then i\<lparr>i_state := intent_state.Expired\<rparr> else fst (f i)) (intent_get s iid)
      else intent_get s k)"
proof (cases rule: expire_if_needed_cases [where s = s and iid = iid and now = now])
  case missing
  then show ?thesis by (auto simp: intent_get_def)
next
  case (expired i)
  then show ?thesis by (auto simp: intent_get_def)
next
  case (live i)
  then show ?thesis by (auto simp: with_intent_get) (auto simp: intent_get_def)
qed

lemma intent_create_not_approved:
  assumes "store_inv s" and "intent_get (fst (intent_create now_gc now iid' token p s)) iid = Some i'"
    and "i_state i' = Approved"
  shows "intent_get (cleanup_expired now_gc s) iid = Some i'"
  using assms(1)
proof (cases rule: intent_create_cases [where s = s and now_gc = now_gc and now = now and iid = iid' and token = token and p = p])
  case (created j)
  with assms(2,3) show ?thesis by (auto simp: intent_get_def split: if_splits)
next
  case rejected
  with assms(2) show ?thesis by simp
qed

lemma quiet_step_not_approved:
  assumes "store_quiet s s'" and "intent_get s iid = Some i" and "i_state i = Pending"
    and "intent_get s' iid = Some i'"
  shows "i_state i' \<noteq> Approved"
  using assms(1,4) assms(2,3)
  unfolding intent_get_def by (elim store_relE) (auto simp: quiet_move_def)

lemma pending_to_approved:
  assumes inv: "store_inv s" and old: "intent_get s iid = Some i" and pend: "i_state i = Pending"
    and new: "intent_get (fst (intent_step s x)) iid = Some i'" and st: "i_state i' = Approved"
  shows "\<exists>now. x = IApprove now iid \<and> snd (intent_step s x) = OutUnit (Ok ())"
proof (cases "\<exists>now iid'. x = IApprove now iid'")
  case True
  then obtain now iid' where x: "x = IApprove now iid'" by blast
  with old pend new st have iid': "iid' = iid" and nd: "\<not> past_deadline now i"
    by (auto simp: intent_approve_def guarded_get split: if_splits)
  then have "expire_if_needed now s iid = (s, Ok ())"
    using old by (cases rule: expire_if_needed_cases [where s = s and iid = iid and now = now]) (auto simp: intent_get_def)
  with old pend x iid' show ?thesis
    by (simp add: intent_approve_def with_intent_def intent_get_def transition_to_def valid_transition_def)
next
  case False
  have "i_state i' \<noteq> Approved"
  proof (cases "creates x")
    case None
    with False inv have "store_quiet s (fst (intent_step s x))" by (intro intent_step_quiet) auto
    then show ?thesis using old pend new by (rule quiet_step_not_approved)
  next
    case (Some iid')
    then obtain now_gc now token p where "x = ICreate now_gc now iid' token p" by (cases x) auto
    with new have "intent_get (fst (intent_create now_gc now iid' token p s)) iid = Some i'" by simp
    from intent_create_not_approved [OF inv this st] quiet_step_not_approved
      [OF cleanup_expired_quiet [OF inv] old pend] show ?thesis by blast
  qed
  with st show ?thesis by simp
qed

text \<open>
  Tracing an approved, claimed or consumed intent back: the run contains a successful approval of
  it, and no successful creation of it after that.
\<close>

definition approved_in :: "(intent_op \<times> intent_out) list \<Rightarrow> intent_id \<Rightarrow> bool" where
  "approved_in tr iid =
     (\<exists>pre now post. tr = pre @ (IApprove now iid, OutUnit (Ok ())) # post \<and>
        (\<forall>(x, y) \<in> set post. creates x = Some iid \<longrightarrow> y = OutCreated (Err StoreFull)))"

lemma approved_in_snoc:
  "approved_in tr iid \<Longrightarrow> (creates x = Some iid \<longrightarrow> y = OutCreated (Err StoreFull)) \<Longrightarrow> approved_in (tr @ [(x, y)]) iid"
proof -
  assume "approved_in tr iid" and c: "creates x = Some iid \<longrightarrow> y = OutCreated (Err StoreFull)"
  then obtain pre now post where "tr = pre @ (IApprove now iid, OutUnit (Ok ())) # post"
    and "\<forall>(x, y) \<in> set post. creates x = Some iid \<longrightarrow> y = OutCreated (Err StoreFull)"
    by (auto simp: approved_in_def)
  with c have "tr @ [(x, y)] = pre @ (IApprove now iid, OutUnit (Ok ())) # (post @ [(x, y)])"
    and "\<forall>(x, y) \<in> set (post @ [(x, y)]). creates x = Some iid \<longrightarrow> y = OutCreated (Err StoreFull)"
    by auto
  then show ?thesis unfolding approved_in_def by blast
qed

lemma approved_in_now: "approved_in (tr @ [(IApprove now iid, OutUnit (Ok ()))]) iid"
  unfolding approved_in_def by (rule exI [of _ tr], rule exI [of _ now], rule exI [of _ "[]"]) simp

lemma intent_create_result:
  assumes "store_inv s" and "intent_get (fst (intent_create now_gc now iid token p s)) iid = Some i"
    and "i_state i \<noteq> Pending"
  shows "snd (intent_create now_gc now iid token p s) = Err StoreFull \<and>
    intent_get (cleanup_expired now_gc s) iid = Some i"
  using assms(1)
  by (cases rule: intent_create_cases [where s = s and now_gc = now_gc and now = now and iid = iid and token = token and p = p])
    (use assms(2,3) in \<open>auto simp: intent_get_def\<close>)

lemma edge_from_unapproved:
  "intent_edge st st' \<Longrightarrow> st' \<in> {Approved, Claimed, Consumed} \<Longrightarrow>
     st \<in> {Approved, Claimed, Consumed} \<or> st = Pending \<and> st' = Approved"
  by (auto simp: intent_edge_iff valid_transition_def)

lemma approved_has_approval:
  "store_inv s \<Longrightarrow> intents s = [] \<Longrightarrow> intent_get (run_state intent_step s xs) iid = Some i \<Longrightarrow>
     i_state i \<in> {Approved, Claimed, Consumed} \<Longrightarrow> approved_in (run_trace intent_step s xs) iid"
proof (induction xs arbitrary: i rule: rev_induct)
  case Nil
  then show ?case by (simp add: intent_get_def)
next
  case (snoc x xs)
  let ?s = "run_state intent_step s xs"
  have inv: "store_inv ?s" using snoc.prems(1) by (rule istore.inv_run)
  have g: "intent_get (fst (intent_step ?s x)) iid = Some i" using snoc.prems(3) by simp
  obtain j where j: "intent_get ?s iid = Some j" "intent_moves j i"
    and c: "creates x = Some iid \<longrightarrow> snd (intent_step ?s x) = OutCreated (Err StoreFull)"
  proof (cases "creates x = Some iid")
    case True
    then obtain now_gc now token p where x: "x = ICreate now_gc now iid token p" by (cases x) auto
    with g snoc.prems(4) intent_create_result [OF inv, of now_gc now iid token p i]
    have r: "snd (intent_create now_gc now iid token p ?s) = Err StoreFull"
      and "intent_get (cleanup_expired now_gc ?s) iid = Some i" by auto
    with cleanup_expired_moves [OF inv, of now_gc] x show thesis
      unfolding intent_get_def by (elim store_relE) (auto intro!: that simp: intent_get_def)
  next
    case False
    with inv g show thesis by (elim intent_step_lookup) (auto intro!: that)
  qed
  from j(2) have "intent_edge (i_state j) (i_state i)" by (simp add: intent_moves_def)
  from edge_from_unapproved [OF this snoc.prems(4)] show ?case
  proof
    assume "i_state j \<in> {Approved, Claimed, Consumed}"
    then have "approved_in (run_trace intent_step s xs) iid"
      using snoc.IH [OF snoc.prems(1,2) j(1)] by blast
    with c show ?thesis by (simp add: approved_in_snoc)
  next
    assume "i_state j = Pending \<and> i_state i = Approved"
    with pending_to_approved [OF inv j(1) _ g] show ?thesis
      by (auto simp: approved_in_now simp del: intent_step.simps)
  qed
qed

section \<open>Tokens and process identities\<close>

lemma xor_zero_iff: "a XOR b = 0 \<longleftrightarrow> a = (b :: 'a::len word)"
  by (auto simp: bit_eq_iff bit_simps)

lemma fold_or_zero:
  "fold (\<lambda>(x, y) acc. acc OR (x XOR y)) ps (a :: u8) = 0 \<longleftrightarrow> a = 0 \<and> (\<forall>(x, y) \<in> set ps. x = y)"
  by (induction ps arbitrary: a) (auto simp: or_eq_0_iff xor_zero_iff)

lemma claim_token_verify_eq:
  "length (token_bytes a) = length (token_bytes b) \<Longrightarrow> claim_token_verify a b \<longleftrightarrow> a = b"
  by (cases a; cases b) (auto simp: claim_token_verify_def fold_or_zero list_eq_iff_zip_eq)

text \<open>The hashed bytes determine the session identity: the fields cannot be confused with each other.\<close>

lemma session_identity_preimage_inj:
  "session_identity_preimage p = session_identity_preimage q \<longleftrightarrow> p = (q :: session_identity_params)"
proof
  assume eq: "session_identity_preimage p = session_identity_preimage q"
  then have "length (session_identity_preimage p) = length (session_identity_preimage q)" by simp
  then have "length (sip_cgroup_path p) = length (sip_cgroup_path q)"
    by (simp add: session_identity_preimage_def)
  with eq show "p = q"
    by (cases p; cases q) (simp add: session_identity_preimage_def to_le_bytes_inj)
qed simp

section \<open>Properties\<close>

text \<open>A concrete intent and a concrete run, at which the properties with hypotheses are applied.\<close>

definition ex_params :: create_intent_params where
  "ex_params = \<lparr>cp_profile_id = ProfileId ''p'', cp_session_id = PrincipalSessionId ''s'',
     cp_endpoint_id = EndpointId ''e'', cp_process_digest = ProcessIdentityDigest [1],
     cp_action = Authenticate, cp_rp_id = ''a.b'', cp_credential_ref = None,
     cp_policy_generation = PolicyGenerationId ''g'', cp_policy_digest = PolicyDigest [2],
     cp_require_uv = False, cp_ttl_ms = Some 1000\<rparr>"

definition ex_query :: intent_query_params where
  "ex_query = \<lparr>q_profile_id = ProfileId ''p'', q_session_id = PrincipalSessionId ''s'',
     q_endpoint_id = EndpointId ''e'', q_process_digest = ProcessIdentityDigest [1],
     q_policy_generation = Some (PolicyGenerationId ''g''), q_policy_digest = PolicyDigest [2],
     q_action = Authenticate, q_rp_id = ''A.b'', q_credential_ref = None\<rparr>"

definition ex_intent :: "intent_state \<Rightarrow> claim_token option \<Rightarrow> intent" where
  "ex_intent st tok = \<lparr>i_id = IntentId ''i'', i_profile_id = ProfileId ''p'',
     i_session_id = PrincipalSessionId ''s'', i_endpoint_id = EndpointId ''e'',
     i_process_digest = ProcessIdentityDigest [1], i_action = Authenticate, i_rp_id = ''a.b'',
     i_credential_ref = None, i_policy_generation = PolicyGenerationId ''g'',
     i_policy_digest = PolicyDigest [2], i_require_uv = False, i_created_at = 5, i_deadline = 1005,
     i_state = st, i_claim_token = tok, i_boot_nonce = 7\<rparr>"

definition ex_store :: "intent_state \<Rightarrow> claim_token option \<Rightarrow> intent_store" where
  "ex_store st tok = \<lparr>intents = [(''i'', ex_intent st tok)], max_intents = 4, boot_nonce = 7\<rparr>"

definition ex_ops :: "intent_op list" where
  "ex_ops = [ICreate 5 5 (IntentId ''i'') (ClaimToken [9]) ex_params, IApprove 6 (IntentId ''i''),
     IClaimApproved 7 ex_query, IConsumeClaimed (IntentId ''i'')]"

lemmas ex_simps = ex_params_def ex_query_def ex_intent_def ex_store_def ex_ops_def store_new_def

lemma ex_store_create:
  "intent_create 5 5 (IntentId ''i'') (ClaimToken [9]) ex_params (store_new 4 7) =
     (ex_store Pending (Some (ClaimToken [9])), Ok (IntentId ''i'', ClaimToken [9]))"
  by (simp add: ex_simps intent_create_def Let_def cleanup_expired_def active_count_def hm_map_def
      checked_add_def hm_insert_def)

lemma ex_store_approve:
  "intent_approve 6 (IntentId ''i'') (ex_store Pending tok) = (ex_store Approved tok, Ok ())"
  by (simp add: ex_simps intent_approve_def expire_if_needed_def with_intent_def hm_get_def hm_insert_def
      past_deadline_def transition_to_def valid_transition_def)

lemma ex_store_claim:
  "claim_approved 7 ex_query (ex_store Approved tok) = (ex_store Claimed None, Ok (IntentId ''i''))"
  by (simp add: claim_approved_def Let_def cleanup_expired_def hm_map_def hm_insert_def ex_simps
      past_deadline_def matches_query_def ex_normalize transition_to_def valid_transition_def)

lemma ex_store_consume:
  "consume_claimed (IntentId ''i'') (ex_store Claimed None) =
     (ex_store Consumed None, Ok (consume_info (ex_intent Claimed None)))"
  by (simp add: ex_simps consume_claimed_def with_intent_def hm_get_def hm_insert_def finish_consume_def
      transition_to_def valid_transition_def consume_info_def)

lemma ex_store_inv: "store_inv (ex_store Approved (Some (ClaimToken [9])))"
  by (simp add: store_inv_def ex_simps hm_wf_def intent_ok_def active_count_def is_terminal_def)

lemma ex_trace:
  "run_trace intent_step (store_new 4 7) ex_ops =
     [(ICreate 5 5 (IntentId ''i'') (ClaimToken [9]) ex_params, OutCreated (Ok (IntentId ''i'', ClaimToken [9]))),
      (IApprove 6 (IntentId ''i''), OutUnit (Ok ())), (IClaimApproved 7 ex_query, OutClaimed (Ok (IntentId ''i''))),
      (IConsumeClaimed (IntentId ''i''), OutInfo (Ok (consume_info (ex_intent Claimed None))))]"
  by (simp add: ex_ops_def ex_store_create ex_store_approve ex_store_claim ex_store_consume)

text \<open>Whatever operations are called on a new store, in whatever order and at whatever clock
  readings, the store stays well formed: its keys are distinct and are the identifiers of their
  intents, at most \<open>max_intents\<close> intents are not terminal, a claimed or consumed intent has no claim
  token left, a pending one has one, and no deadline precedes its creation.\<close>

theorem intent_store_invariant: "store_inv (run_state intent_step (store_new n nonce) xs)"
  by (rule istore.inv_run) (simp add: store_inv_def store_new_def active_count_def)

text \<open>An intent is single-use: in every run from a new store, under any interleaving of the operations,
  an intent identifier is consumed successfully at most as often as it is created.\<close>

theorem intent_consumed_once_per_creation:
  "length (filter (\<lambda>(x, y). consumes iid x y) (run_trace intent_step (store_new n nonce) xs))
     \<le> length (filter (\<lambda>x. creates x = Some iid) xs)"
proof -
  have "store_inv (store_new n nonce)" "intent_spent iid (store_new n nonce)"
    by (simp_all add: store_inv_def store_new_def active_count_def intent_spent_def intent_get_def)
  from istore.spent_wins_bounded [OF this, of xs] show ?thesis by simp
qed

text \<open>No intent is consumed without an administrator: whenever a run from a new store consumes an
  intent, the calls before it contain a successful \<open>approve\<close> of this intent, and no successful creation
  of an intent with the same identifier after that approval.\<close>

theorem consumption_needs_approval:
  assumes "run_trace intent_step (store_new n nonce) xs = pre @ (x, y) # post" and "consumes iid x y"
  shows "approved_in pre iid"
proof -
  let ?s = "store_new n nonce"
  have inv: "store_inv ?s" by (simp add: store_inv_def store_new_def active_count_def)
  note split = run_trace_split [OF assms(1)]
  from assms(2) [unfolded split(2)] obtain i where
    "intent_get (run_state intent_step ?s (map fst pre)) iid = Some i" "i_state i = Claimed"
    by (rule consumes_result)
  with split(1) show ?thesis
    using approved_has_approval [OF inv, of "map fst pre" iid i] by (simp add: store_new_def)
qed

theorem consumption_needs_approval_witness:
  "approved_in (take 3 (run_trace intent_step (store_new 4 7) ex_ops)) (IntentId ''i'')"
proof (rule consumption_needs_approval)
  show "run_trace intent_step (store_new 4 7) ex_ops = take 3 (run_trace intent_step (store_new 4 7) ex_ops) @
      (IConsumeClaimed (IntentId ''i''), OutInfo (Ok (consume_info (ex_intent Claimed None)))) # []"
    by (simp add: ex_trace)
  show "consumes (IntentId ''i'') (IConsumeClaimed (IntentId ''i''))
      (OutInfo (Ok (consume_info (ex_intent Claimed None))))"
    by (simp add: consumes_def)
qed

text \<open>\<open>claim_approved\<close> is sound and complete: it returns an intent that was approved, matches every field of
  the query and has not reached its deadline, and leaves exactly this intent claimed and without token;
  it answers \<open>NotFound\<close> only if there is no such intent.  Every other intent only expires if it is due.\<close>

theorem claim_approved_spec:
  assumes "store_inv s"
  shows "case claim_approved now q s of
      (s', Inr iid) \<Rightarrow>
        (\<exists>i. intent_get s iid = Some i \<and> i_id i = iid \<and> matches_query i q True \<and> now < i_deadline i \<and>
           intent_get s' iid = Some (i\<lparr>i_state := Claimed, i_claim_token := None\<rparr>)) \<and>
        (\<forall>k. k \<noteq> iid \<longrightarrow> intent_get s' k = intent_get (cleanup_expired now s) k)
    | (s', Inl e) \<Rightarrow>
        e = NotFound \<and> s' = cleanup_expired now s \<and>
        (\<forall>k i. intent_get s k = Some i \<and> now < i_deadline i \<longrightarrow> \<not> matches_query i q True)"
proof (cases "claim_approved now q s")
  case (Pair s' r)
  show ?thesis
  proof (cases r)
    case (Inr iid)
    with Pair have "claim_approved now q s = (s', Ok iid)" by simp
    from claim_approved_ok [OF assms this] show ?thesis
      by cases (auto simp: Pair Inr intent_get_def intent_id_str_eq)
  next
    case (Inl e)
    with Pair have "claim_approved now q s = (s', Err e)" by simp
    from claim_approved_err [OF this] show ?thesis by (auto simp: Pair Inl intent_get_def)
  qed
qed

theorem claim_approved_spec_witness:
  "\<exists>i. intent_get (ex_store Approved (Some (ClaimToken [9]))) (IntentId ''i'') = Some i \<and>
     matches_query i ex_query True \<and> 7 < i_deadline i"
  using claim_approved_spec [OF ex_store_inv, of 7 ex_query] by (auto simp: ex_store_claim)

text \<open>A principal claims an intent directly only with its token: \<open>claim\<close> succeeds exactly on an approved
  intent before its deadline whose stored token equals the token given, although the comparison is
  the constant-time one, and it removes the token.\<close>

theorem intent_claim_iff:
  assumes "\<And>i t. intent_get s iid = Some i \<Longrightarrow> i_claim_token i = Some t \<Longrightarrow>
             length (token_bytes t) = length (token_bytes token)"
  shows "intent_claim now iid token s = (s', Ok ()) \<longleftrightarrow>
    (\<exists>i. intent_get s iid = Some i \<and> i_state i = Approved \<and> now < i_deadline i \<and> i_claim_token i = Some token \<and>
       s' = s\<lparr>intents := hm_insert (intent_id_str iid) (i\<lparr>i_state := Claimed, i_claim_token := None\<rparr>) (intents s)\<rparr>)"
proof -
  have body: "claim_body token i = (i', Ok ()) \<longleftrightarrow> i_state i = Approved \<and> i_claim_token i = Some token \<and>
      i' = i\<lparr>i_state := Claimed, i_claim_token := None\<rparr>" if "intent_get s iid = Some i" for i i'
    using assms [OF that]
    by (auto simp: claim_body_def transition_to_def valid_transition_def claim_token_verify_eq split: option.splits)
  show ?thesis
  proof (cases rule: expire_if_needed_cases [where s = s and iid = iid and now = now])
    case missing
    then show ?thesis by (simp add: intent_claim_def intent_get_def)
  next
    case (expired i)
    then show ?thesis by (auto simp: intent_claim_def intent_get_def past_deadline_def)
  next
    case (live i)
    then have "i_state i = Approved \<Longrightarrow> now < i_deadline i" by (auto simp: past_deadline_def)
    with live body [of i] show ?thesis
      by (auto simp: intent_claim_def with_intent_ok intent_get_def)
  qed
qed

theorem intent_claim_iff_witness:
  "intent_claim 7 (IntentId ''i'') (ClaimToken [9]) (ex_store Approved (Some (ClaimToken [9]))) =
     (ex_store Claimed None, Ok ())"
  by (subst intent_claim_iff) (auto simp: intent_get_def hm_get_def hm_insert_def ex_simps)

text \<open>C37. What the exit of a session does to its intents: \<open>cancel_by_session\<close> cancels the pending intents of the
  session and nothing else.  An approved intent of the session stays approved, because
  \<open>transition_to\<close> knows no transition from the approved to the cancelled state and the error is
  discarded, although the guard of the loop selects every intent that is not terminal.\<close>

theorem cancel_by_session_only_pending:
  "intent_get (cancel_by_session sid s) iid =
     map_option (\<lambda>i. if i_session_id i = sid \<and> i_state i = Pending then i\<lparr>i_state := Cancelled\<rparr> else i)
       (intent_get s iid)"
  by (auto simp: cancel_by_session_def intent_get_def transition_to_def valid_transition_def is_terminal_def
      intro!: option.map_cong)

text \<open>The digest that binds intents and grants to a process is computed from an unambiguous encoding: two
  session identities with the same hashed bytes are equal in every field.\<close>

theorem session_identity_unambiguous:
  "session_identity_preimage p = session_identity_preimage q \<longleftrightarrow> p = (q :: session_identity_params)"
  by (rule session_identity_preimage_inj)

end
