(* ===== verification/Grant_Scope.thy ===== *)
theory Grant_Scope
  imports Ids
begin

text \<open>
  The scope of a grant, from \<open>cmd/passless/src/agent/grant.rs\<close>: the errors and identifiers of
  grants, the atomic state cell, the sorted credential set with its binary search, and the
  normalisation and validation of relying-party identifiers.
\<close>

section \<open>Identifiers, errors and states\<close>

datatype grant_request_id = GrantRequestId (grant_request_id_str: string)
datatype ceremony_id = CeremonyId (ceremony_id_str: string)

definition CLAIM_NONCE_BYTES :: nat where "CLAIM_NONCE_BYTES = 32"
definition MAX_RP_ID_LEN :: nat where "MAX_RP_ID_LEN = 253"
definition MAX_CREDENTIALS_PER_GRANT :: nat where "MAX_CREDENTIALS_PER_GRANT = 64"
definition MAX_RP_IDS_PER_GRANT :: nat where "MAX_RP_IDS_PER_GRANT = 32"
definition MIN_TTL_SECS :: u64 where "MIN_TTL_SECS = 1"

datatype grant_error =
    EmptyCredentialSet
  | EmptyRpIdSet
  | WildcardRpId string
  | RpIdTooLong string
  | TooManyRpIds nat
  | TooManyCredentials nat
  | TtlExceedsProfileMax u64 u64
  | TtlZero
  | GrantNotActive grant_id
  | GrantNotFound grant_id
  | ClaimAlreadyConsumed ceremony_id
  | ClaimNotFound
  | RpIdNotInGrant string
  | CredentialNotInGrant string
  | ActionNotInGrant string
  | PolicyMismatch
  | SessionMismatch
  | ProfileMismatch
  | ClockAmbiguity
  | PendingRequestNotFound grant_request_id
  | RequestAlreadyResolved grant_request_id
  | MaxConcurrentGrantsExceeded u64
  | RegistrationGrantNotFound registration_grant_id
  | RegistrationGrantNotActive registration_grant_id
  | RegistrationRpIdMismatch string string

text \<open>\<open>CeremonyId::new\<close>: the hexadecimal form of fresh random bytes.\<close>

definition ceremony_id_new :: "(bytes \<Rightarrow> string) \<Rightarrow> bytes \<Rightarrow> ceremony_id" where
  "ceremony_id_new hex_encode rnd = CeremonyId (hex_encode (take CLAIM_NONCE_BYTES rnd))"

definition GRANT_STATE_ACTIVE :: u8 where "GRANT_STATE_ACTIVE = 0"
definition GRANT_STATE_REVOKED :: u8 where "GRANT_STATE_REVOKED = 1"
definition GRANT_STATE_EXPIRED :: u8 where "GRANT_STATE_EXPIRED = 2"

datatype grant_state = Active | Revoked | Expired

definition from_atomic :: "u8 \<Rightarrow> grant_state option" where
  "from_atomic v =
     (if v = GRANT_STATE_ACTIVE then Some Active
      else if v = GRANT_STATE_REVOKED then Some Revoked
      else if v = GRANT_STATE_EXPIRED then Some Expired
      else None)"

definition to_atomic :: "grant_state \<Rightarrow> u8" where
  "to_atomic s = (case s of Active \<Rightarrow> GRANT_STATE_ACTIVE | Revoked \<Rightarrow> GRANT_STATE_REVOKED | Expired \<Rightarrow> GRANT_STATE_EXPIRED)"

text \<open>
  Both kinds of grants keep their state in an atomic byte.  \<open>cell_state\<close> is the method \<open>state\<close>, which
  reads an unknown byte as revoked; \<open>cell_transition\<close> is \<open>try_transition\<close>, one compare-and-exchange.
\<close>

definition cell_state :: "u8 \<Rightarrow> grant_state" where
  "cell_state v = (case from_atomic v of Some s \<Rightarrow> s | None \<Rightarrow> Revoked)"

definition cell_transition :: "grant_state \<Rightarrow> grant_state \<Rightarrow> u8 \<Rightarrow> u8 \<times> bool" where
  "cell_transition from to v = (if v = to_atomic from then (to_atomic to, True) else (v, False))"

lemmas grant_cells = GRANT_STATE_ACTIVE_def GRANT_STATE_REVOKED_def GRANT_STATE_EXPIRED_def

lemma from_to_atomic [simp]: "from_atomic (to_atomic s) = Some s"
  by (cases s) (simp_all add: from_atomic_def to_atomic_def grant_cells)

lemma cell_state_to_atomic [simp]: "cell_state (to_atomic s) = s"
  by (simp add: cell_state_def)

lemma cell_state_Active_iff: "cell_state v = Active \<longleftrightarrow> v = to_atomic Active"
  by (auto simp: cell_state_def from_atomic_def to_atomic_def split: if_splits)

lemma cell_transition_Active:
  "cell_state v = Active \<Longrightarrow> cell_transition Active to v = (to_atomic to, True)"
  by (simp add: cell_transition_def cell_state_Active_iff)

section \<open>Credential sets\<close>

datatype credential_set = CredentialSet (cs_sorted: "credential_ref list")

definition cs_empty :: credential_set where
  "cs_empty = CredentialSet []"

definition cs_new :: "credential_ref list \<Rightarrow> grant_error + credential_set" where
  "cs_new creds =
     (if creds = [] then Err EmptyCredentialSet
      else if MAX_CREDENTIALS_PER_GRANT < length creds then Err (TooManyCredentials (length creds))
      else Ok (CredentialSet (remdups_adj (sort creds))))"

text \<open>
  The loop of \<open>slice::binary_search_by\<close>: the window \<open>[base, base + sz)\<close> is halved until one element
  is left, which is then compared for equality.
\<close>

function bsearch_loop :: "'a::linorder list \<Rightarrow> 'a \<Rightarrow> nat \<Rightarrow> nat \<Rightarrow> nat" where
  "bsearch_loop xs x base sz =
     (if 1 < sz
      then let half = sz div 2; mid = base + half
           in bsearch_loop xs x (if x < xs ! mid then base else mid) (sz - half)
      else base)"
  by pat_completeness auto
termination
  by (relation "measure (\<lambda>(xs, x, base, sz). sz)") auto

declare bsearch_loop.simps [simp del]

definition binary_search :: "'a::linorder list \<Rightarrow> 'a \<Rightarrow> nat option" where
  "binary_search xs x =
     (if xs = [] then None
      else let base = bsearch_loop xs x 0 (length xs)
           in if xs ! base = x then Some base else None)"

definition cs_contains :: "credential_set \<Rightarrow> credential_ref \<Rightarrow> bool" where
  "cs_contains s cred = (binary_search (cs_sorted s) cred \<noteq> None)"

definition cs_eq :: "credential_set \<Rightarrow> credential_set \<Rightarrow> bool" where
  "cs_eq a b =
     (if length (cs_sorted a) \<noteq> length (cs_sorted b) then False
      else list_all (\<lambda>(x, y). cred_bytes x = cred_bytes y) (zip (cs_sorted a) (cs_sorted b)))"

definition cs_wf :: "credential_set \<Rightarrow> bool" where
  "cs_wf s = (sorted (cs_sorted s) \<and> distinct (cs_sorted s) \<and> length (cs_sorted s) \<le> MAX_CREDENTIALS_PER_GRANT)"

text \<open>The loop stays inside the list, and the element searched for, if present, stays in the window.\<close>

lemma bsearch_loop_range:
  "0 < sz \<Longrightarrow> base + sz \<le> length xs \<Longrightarrow> bsearch_loop xs x base sz < length xs"
proof (induction xs x base sz rule: bsearch_loop.induct)
  case (1 xs x base sz)
  show ?case
  proof (cases "1 < sz")
    case True
    then have "0 < sz - sz div 2" "(if x < xs ! (base + sz div 2) then base else base + sz div 2) + (sz - sz div 2) \<le> length xs"
      using "1.prems" by auto
    with "1.IH" [OF True refl refl] True show ?thesis
      by (simp add: bsearch_loop.simps [of xs x base sz] Let_def)
  next
    case False
    with "1.prems" show ?thesis by (simp add: bsearch_loop.simps [of xs x base sz])
  qed
qed

lemma bsearch_loop_finds:
  assumes "sorted xs" and "base \<le> i" and "i < base + sz" and "base + sz \<le> length xs" and "xs ! i = x"
  shows "xs ! bsearch_loop xs x base sz = x"
  using assms(2-)
proof (induction sz arbitrary: base i rule: less_induct)
  case (less sz)
  show ?case
  proof (cases "1 < sz")
    case False
    with less.prems have "i = base" by simp
    with less.prems False show ?thesis by (simp add: bsearch_loop.simps [of xs x base sz])
  next
    case True
    define half where "half = sz div 2"
    define mid where "mid = base + half"
    have half: "0 < half" "half < sz" "sz - half < sz" "half \<le> sz - half" using True by (auto simp: half_def)
    have step: "bsearch_loop xs x base sz = bsearch_loop xs x (if x < xs ! mid then base else mid) (sz - half)"
      using True by (simp add: bsearch_loop.simps [of xs x base sz] half_def mid_def Let_def)
    show ?thesis
    proof (cases "x < xs ! mid")
      case lt: True
      have "i < mid"
      proof (rule ccontr)
        assume "\<not> i < mid"
        then have "xs ! mid \<le> xs ! i" using assms(1) less.prems by (intro sorted_nth_mono) auto
        with lt less.prems show False by simp
      qed
      with lt step half less.prems show ?thesis
        using less.IH [of "sz - half" base i] by (simp add: mid_def)
    next
      case ge: False
      have mid: "mid < length xs" using half less.prems by (simp add: mid_def)
      have "\<exists>j. mid \<le> j \<and> j < mid + (sz - half) \<and> xs ! j = x"
      proof (cases "mid \<le> i")
        case True
        with half less.prems show ?thesis by (intro exI [of _ i]) (auto simp: mid_def)
      next
        case False
        then have "xs ! i \<le> xs ! mid" using assms(1) mid by (intro sorted_nth_mono) auto
        with ge less.prems have "xs ! mid = x" by simp
        with half show ?thesis by (intro exI [of _ mid]) auto
      qed
      then obtain j where "mid \<le> j" "j < mid + (sz - half)" "xs ! j = x" by blast
      with ge step half less.prems show ?thesis
        using less.IH [of "sz - half" mid j] by (simp add: mid_def)
    qed
  qed
qed

lemma binary_search_iff:
  assumes "sorted xs"
  shows "binary_search xs x \<noteq> None \<longleftrightarrow> x \<in> set xs"
proof (cases "xs = []")
  case True
  then show ?thesis by (simp add: binary_search_def)
next
  case False
  have "xs ! bsearch_loop xs x 0 (length xs) \<in> set xs"
    using False by (intro nth_mem bsearch_loop_range) auto
  moreover have "xs ! bsearch_loop xs x 0 (length xs) = x" if "x \<in> set xs"
    using that assms by (auto simp: in_set_conv_nth intro!: bsearch_loop_finds)
  ultimately show ?thesis
    using False by (auto simp: binary_search_def Let_def)
qed

lemma cs_contains_iff: "cs_wf s \<Longrightarrow> cs_contains s c \<longleftrightarrow> c \<in> set (cs_sorted s)"
  unfolding cs_contains_def cs_wf_def by (elim conjE) (rule binary_search_iff)

lemma cs_wf_empty [simp]: "cs_wf cs_empty"
  by (simp add: cs_wf_def cs_empty_def)

lemma cs_new_ok:
  assumes "cs_new creds = Ok s"
  shows "cs_wf s" and "set (cs_sorted s) = set creds" and "cs_sorted s \<noteq> []"
proof -
  from assms have s: "cs_sorted s = remdups_adj (sort creds)" and "creds \<noteq> []" "length creds \<le> MAX_CREDENTIALS_PER_GRANT"
    by (auto simp: cs_new_def split: if_splits)
  then show "cs_wf s" using remdups_adj_length [of "sort creds"] by (simp add: cs_wf_def distinct_remdups_adj)
  show set: "set (cs_sorted s) = set creds" by (simp add: s)
  with \<open>creds \<noteq> []\<close> show "cs_sorted s \<noteq> []" by auto
qed

text \<open>Validation is idempotent: the list a request keeps is accepted again, unchanged.\<close>

lemma remdups_adj_distinct_id: "distinct xs \<Longrightarrow> remdups_adj xs = xs"
  by (induction xs rule: remdups_adj.induct) auto

lemma cs_new_again: "cs_wf s \<Longrightarrow> cs_sorted s \<noteq> [] \<Longrightarrow> cs_new (cs_sorted s) = Ok s"
  by (cases s) (simp add: cs_new_def cs_wf_def sort_key_id_if_sorted remdups_adj_distinct_id)

section \<open>Relying-party scopes\<close>

definition normalize_rp_id :: "string \<Rightarrow> grant_error + string" where
  "normalize_rp_id raw =
     (let trimmed = normalize raw in
      if trimmed = [] then Err EmptyRpIdSet
      else if MAX_RP_ID_LEN < length trimmed then Err (RpIdTooLong trimmed)
      else if CHR ''*'' \<in> set trimmed \<or> starts_with trimmed ''.'' then Err (WildcardRpId trimmed)
      else Ok trimmed)"

definition normalize_scope_rp_id :: "string \<Rightarrow> grant_error + string" where
  "normalize_scope_rp_id raw =
     (let trimmed = normalize raw in if trimmed = ANY_RP_ID then Ok trimmed else normalize_rp_id trimmed)"

text \<open>A \<open>BTreeSet\<close> of strings is the sorted list of its elements.\<close>

type_synonym btreeset = "string list"

definition rp_scope_contains :: "btreeset \<Rightarrow> string \<Rightarrow> bool" where
  "rp_scope_contains scope rp_id = (rp_id \<in> set scope \<or> ANY_RP_ID \<in> set scope)"

fun insert_scope_rp_ids :: "btreeset \<Rightarrow> string list \<Rightarrow> grant_error + btreeset" where
  "insert_scope_rp_ids normalized [] = Ok normalized"
| "insert_scope_rp_ids normalized (raw # rp_ids) =
     (case normalize_scope_rp_id raw of
        Inl e \<Rightarrow> Err e
      | Inr n \<Rightarrow> insert_scope_rp_ids (insort_insert n normalized) rp_ids)"

definition validate_rp_ids :: "string list \<Rightarrow> grant_error + btreeset" where
  "validate_rp_ids rp_ids =
     (if rp_ids = [] then Err EmptyRpIdSet
      else if MAX_RP_IDS_PER_GRANT < length rp_ids then Err (TooManyRpIds (length rp_ids))
      else insert_scope_rp_ids [] rp_ids)"

lemma normalize_rp_id_ok:
  "normalize_rp_id raw = Ok rp \<longleftrightarrow>
     rp = normalize raw \<and> rp \<noteq> [] \<and> length rp \<le> MAX_RP_ID_LEN \<and> CHR ''*'' \<notin> set rp \<and> \<not> starts_with rp ''.''"
  unfolding normalize_rp_id_def Let_def if_err_ok sum.inject by (metis leI leD)

lemma normalize_rp_id_again: "normalize_rp_id raw = Ok rp \<Longrightarrow> normalize_rp_id rp = Ok rp"
  by (simp add: normalize_rp_id_ok) (metis normalize_idem)

lemma normalize_rp_id_normal: "normalize_rp_id raw = Ok rp \<Longrightarrow> normalize_rp_id (normalize raw) = Ok (normalize raw)"
  using normalize_rp_id_again [of raw rp] normalize_rp_id_ok [of raw rp] by metis

lemma normalize_rp_id_not_any: "normalize_rp_id raw = Ok rp \<Longrightarrow> rp \<noteq> ANY_RP_ID"
  by (auto simp: normalize_rp_id_ok ANY_RP_ID_def)

lemma normalize_scope_rp_id_ok:
  "normalize_scope_rp_id raw = Ok rp \<longleftrightarrow> rp = ANY_RP_ID \<and> normalize raw = ANY_RP_ID \<or> normalize_rp_id raw = Ok rp"
proof (cases "normalize raw = ANY_RP_ID")
  case True
  have "normalize_rp_id raw \<noteq> Ok x" for x
    using normalize_rp_id_not_any [of raw x] True by (auto simp: normalize_rp_id_ok)
  with True show ?thesis by (auto simp: normalize_scope_rp_id_def)
next
  case False
  then show ?thesis by (simp add: normalize_scope_rp_id_def normalize_rp_id_ok)
qed

definition scope_wf :: "btreeset \<Rightarrow> bool" where
  "scope_wf s = (sorted s \<and> distinct s \<and> s \<noteq> [] \<and> length s \<le> MAX_RP_IDS_PER_GRANT \<and>
     (\<forall>rp \<in> set s. rp = ANY_RP_ID \<or> normalize_rp_id rp = Ok rp))"

lemma length_insort_insert: "length (insort_insert x xs) \<le> Suc (length xs)"
  by (simp add: insort_insert_key_def)

lemma insert_scope_rp_ids_all:
  "insert_scope_rp_ids acc raws = Ok s \<Longrightarrow>
     set s = set acc \<union> {rp. \<exists>raw \<in> set raws. normalize_scope_rp_id raw = Ok rp} \<and>
     (\<forall>raw \<in> set raws. is_ok (normalize_scope_rp_id raw)) \<and>
     (sorted acc \<longrightarrow> sorted s) \<and> (distinct acc \<longrightarrow> distinct s) \<and> length s \<le> length acc + length raws"
proof (induction acc raws rule: insert_scope_rp_ids.induct)
  case (1 acc)
  then show ?case by simp
next
  case (2 acc raw raws)
  from "2.prems" obtain n where n: "normalize_scope_rp_id raw = Ok n"
    and rest: "insert_scope_rp_ids (insort_insert n acc) raws = Ok s"
    by (auto split: sum.splits)
  show ?case
    using "2.IH" [OF n rest] n length_insort_insert [of n acc]
    by (auto simp: set_insort_insert sorted_insort_insert distinct_insort_insert)
qed

lemmas insert_scope_rp_ids_ok =
  insert_scope_rp_ids_all [THEN conjunct1]
  insert_scope_rp_ids_all [THEN conjunct2, THEN conjunct1]
  insert_scope_rp_ids_all [THEN conjunct2, THEN conjunct2, THEN conjunct1, rule_format]
  insert_scope_rp_ids_all [THEN conjunct2, THEN conjunct2, THEN conjunct2, THEN conjunct1, rule_format]
  insert_scope_rp_ids_all [THEN conjunct2, THEN conjunct2, THEN conjunct2, THEN conjunct2]

lemma validate_rp_ids_ok:
  assumes "validate_rp_ids raws = Ok s"
  shows "scope_wf s" and "set s = {rp. \<exists>raw \<in> set raws. normalize_scope_rp_id raw = Ok rp}"
proof -
  from assms have ne: "raws \<noteq> []" and len: "length raws \<le> MAX_RP_IDS_PER_GRANT"
    and ins: "insert_scope_rp_ids [] raws = Ok s"
    by (auto simp: validate_rp_ids_def split: if_splits)
  note ok = insert_scope_rp_ids_ok [OF ins]
  show s: "set s = {rp. \<exists>raw \<in> set raws. normalize_scope_rp_id raw = Ok rp}" using ok(1) by simp
  obtain raw raws' where "raws = raw # raws'" using ne by (cases raws) auto
  with ok(2) s have "s \<noteq> []" by (auto simp: is_ok_iff)
  moreover have "rp = ANY_RP_ID \<or> normalize_rp_id rp = Ok rp" if "rp \<in> set s" for rp
    using that s by (auto simp: normalize_scope_rp_id_ok dest: normalize_rp_id_again)
  ultimately show "scope_wf s" using ok(3-5) len by (simp add: scope_wf_def)
qed

text \<open>What a validated scope contains is decided by exact equality of normal forms, or by the wildcard entry.\<close>

lemma scope_contains_validated:
  assumes "validate_rp_ids raws = Ok s" and "normalize_rp_id raw = Ok rp"
  shows "rp_scope_contains s rp \<longleftrightarrow> (\<exists>r \<in> set raws. normalize r = rp \<or> normalize r = ANY_RP_ID)"
proof -
  have "is_ok (normalize_scope_rp_id r)" if "r \<in> set raws" for r
    using assms(1) insert_scope_rp_ids_ok(2) [of "[]" raws s] that by (auto simp: validate_rp_ids_def split: if_splits)
  moreover have "normalize_scope_rp_id r = Ok x \<Longrightarrow> x = normalize r" for r x
    unfolding normalize_scope_rp_id_ok normalize_rp_id_ok by metis
  ultimately have "normalize_scope_rp_id r = Ok x \<longleftrightarrow> x = normalize r" if "r \<in> set raws" for r x
    using that unfolding is_ok_iff by metis
  then have "set s = normalize ` set raws"
    unfolding validate_rp_ids_ok(2) [OF assms(1)] by blast
  then show ?thesis
    unfolding rp_scope_contains_def by (metis imageE imageI)
qed

section \<open>The contract of the grant registries\<close>

definition clamp_ttl :: "u64 \<Rightarrow> u64 \<Rightarrow> u64" where
  "clamp_ttl requested max_ttl =
     (if requested < MIN_TTL_SECS then MIN_TTL_SECS else if max_ttl < requested then max_ttl else requested)"

lemma clamp_ttl_id: "requested \<noteq> 0 \<Longrightarrow> requested \<le> max_ttl \<Longrightarrow> clamp_ttl requested max_ttl = requested"
proof -
  assume "requested \<noteq> 0" and le: "requested \<le> max_ttl"
  then have "unat requested \<noteq> 0" by (simp add: unat_eq_zero)
  then have "\<not> requested < MIN_TTL_SECS" by (simp add: MIN_TTL_SECS_def word_less_nat_alt)
  with le show ?thesis by (auto simp: clamp_ttl_def)
qed

text \<open>
  Authentication and registration grants live in two registries with the same time discipline.
  \<open>tick\<close> is \<open>check_clock\<close>, \<open>expire\<close> is \<open>check_expired\<close>, \<open>close\<close> is \<open>fail_closed_all\<close> and \<open>leave\<close> is
  \<open>on_principal_exit\<close>.  A client of a registry relies on the consequences below and not on how a
  registry stores its grants.
\<close>

locale expiring_registry =
  fixes wf :: "'r \<Rightarrow> bool"
    and grant_of :: "'r \<Rightarrow> 'k \<Rightarrow> 'g option"
    and cell :: "'g \<Rightarrow> u8"
    and set_cell :: "u8 \<Rightarrow> 'g \<Rightarrow> 'g"
    and expiry :: "'g \<Rightarrow> u64"
    and session :: "'g \<Rightarrow> principal_session_id"
    and last_seen :: "'r \<Rightarrow> u64"
    and close :: "'r \<Rightarrow> 'r"
    and tick :: "u64 \<Rightarrow> 'r \<Rightarrow> 'r \<times> (grant_error + unit)"
    and expire :: "u64 \<Rightarrow> 'r \<Rightarrow> 'r \<times> 'k list"
    and leave :: "principal_session_id \<Rightarrow> 'r \<Rightarrow> 'r"
  assumes cell_set [simp]: "cell (set_cell c g) = c"
    and expiry_set [simp]: "expiry (set_cell c g) = expiry g"
    and close_get: "grant_of (close r) k =
      map_option (\<lambda>g. if cell_state (cell g) = Active then set_cell (to_atomic Revoked) g else g) (grant_of r k)"
    and tick_late: "now < last_seen r \<Longrightarrow> tick now r = (close r, Err ClockAmbiguity)"
    and tick_ok: "last_seen r \<le> now \<Longrightarrow> snd (tick now r) = Ok () \<and> last_seen (fst (tick now r)) = now \<and>
      grant_of (fst (tick now r)) = grant_of r"
    and expire_get: "wf r \<Longrightarrow> grant_of (fst (expire now r)) k =
      map_option (\<lambda>g. if cell_state (cell g) = Active \<and> expiry g \<le> now then set_cell (to_atomic Expired) g else g)
        (grant_of r k)"
    and expire_list: "wf r \<Longrightarrow> k \<in> set (snd (expire now r)) \<longleftrightarrow>
      (\<exists>g. grant_of r k = Some g \<and> cell_state (cell g) = Active \<and> expiry g \<le> now)"
    and leave_get: "grant_of (leave sid r) k =
      map_option (\<lambda>g. if session g = sid \<and> cell_state (cell g) = Active then set_cell (to_atomic Revoked) g else g)
        (grant_of r k)"
begin

lemma map_cell_active:
  assumes "map_option (\<lambda>g. if P g then set_cell (to_atomic st) g else g) x = Some g'"
    and "cell_state (cell g') = Active" and "st \<noteq> Active"
  shows "x = Some g'" and "\<not> P g'"
proof -
  from assms(1) obtain g where x: "x = Some g" and g': "g' = (if P g then set_cell (to_atomic st) g else g)" by auto
  have "\<not> P g"
  proof
    assume "P g"
    with g' have "cell_state (cell g') = st" by simp
    with assms(2,3) show False by simp
  qed
  with x g' show "x = Some g'" "\<not> P g'" by simp_all
qed

text \<open>A clock that went backwards leaves no active grant.\<close>

lemma close_inactive:
  assumes "grant_of (close r) k = Some g"
  shows "cell_state (cell g) \<noteq> Active"
  using map_cell_active [OF assms [unfolded close_get]] by auto

lemma clock_backwards:
  assumes "now < last_seen r"
  shows "snd (tick now r) = Err ClockAmbiguity"
    and "grant_of (fst (tick now r)) k = Some g \<Longrightarrow> cell_state (cell g) \<noteq> Active"
  using assms by (simp_all add: tick_late close_inactive)

lemma expire_none_due:
  assumes "wf r" and "grant_of (fst (expire now r)) k = Some g" and "cell_state (cell g) = Active"
  shows "now < expiry g" and "grant_of r k = Some g"
  using map_cell_active [OF assms(2) [unfolded expire_get [OF assms(1)]] assms(3)] assms(3) by auto

lemma leave_none_active:
  assumes "grant_of (leave sid r) k = Some g" and "cell_state (cell g) = Active"
  shows "session g \<noteq> sid" and "grant_of r k = Some g"
  using map_cell_active [OF assms(1) [unfolded leave_get] assms(2)] assms(2) by auto

text \<open>The operations on the state of grants never revive one: what is active afterwards was there, unchanged, before.\<close>

lemma close_active:
  assumes "grant_of (close r) k = Some g" and "cell_state (cell g) = Active"
  shows "grant_of r k = Some g"
  using map_cell_active [OF assms(1) [unfolded close_get] assms(2)] by simp

lemma tick_active:
  "grant_of (fst (tick now r)) k = Some g \<Longrightarrow> cell_state (cell g) = Active \<Longrightarrow> grant_of r k = Some g"
  using tick_ok [of r now] tick_late [of now r] close_active [of r k g]
  by (cases "now < last_seen r") (auto simp: not_less)

end

section \<open>Properties\<close>

text \<open>The sorted, deduplicated and binary-searched credential set is a set: once it is built from a list, a
  credential is found in it exactly if it is in the list.\<close>

theorem credential_set_membership:
  assumes "cs_new creds = Ok s"
  shows "cs_contains s c \<longleftrightarrow> c \<in> set creds"
  using cs_new_ok [OF assms] by (simp add: cs_contains_iff)

theorem credential_set_membership_witness:
  "cs_contains (CredentialSet [CredentialRef [1], CredentialRef [2]]) (CredentialRef [2])"
proof -
  have "cs_new [CredentialRef [2], CredentialRef [1], CredentialRef [2]] = Ok (CredentialSet [CredentialRef [1], CredentialRef [2]])"
    by (simp add: cs_new_def MAX_CREDENTIALS_PER_GRANT_def less_eq_credential_ref_def)
  from credential_set_membership [OF this] show ?thesis by simp
qed

text \<open>A grant covers a relying party by exact equality of normal forms or by the wildcard entry, never by a
  domain suffix.\<close>

theorem rp_scope_is_exact:
  assumes "validate_rp_ids raws = Ok s" and "normalize_rp_id raw = Ok rp"
  shows "rp_scope_contains s rp \<longleftrightarrow> (\<exists>r \<in> set raws. normalize r = rp \<or> normalize r = ANY_RP_ID)"
  by (rule scope_contains_validated [OF assms])

theorem rp_scope_is_exact_witness: "rp_scope_contains [''a.b''] ''a.b''"
proof -
  have "validate_rp_ids [''A.b''] = Ok [''a.b'']" and "normalize_rp_id ''A.b'' = Ok ''a.b''"
    by (simp_all add: validate_rp_ids_def MAX_RP_IDS_PER_GRANT_def normalize_scope_rp_id_def normalize_rp_id_def Let_def
        ANY_RP_ID_def MAX_RP_ID_LEN_def insort_insert_key_def)
  from rp_scope_is_exact [OF this] show ?thesis by simp
qed

end
