(* ===== verification/Grants.thy ===== *)
theory Grants
  imports Grant_Scope
begin

text \<open>
  The registry of authentication grants, \<open>GrantRegistry\<close> in \<open>cmd/passless/src/agent/grant.rs\<close>: requests,
  approval, revocation, expiry, and the single-use claims that authorise one ceremony each.  Every
  reading of the clock and every fresh identifier is an argument.  The audit sink is the list of
  the events handed to it, if there is one.
\<close>

section \<open>State\<close>

record grant_request_params =
  grp_profile_id :: profile_id
  grp_session_id :: principal_session_id
  grp_endpoint_id :: endpoint_id
  grp_principal_digest :: bytes
  grp_rp_ids :: "string list"
  grp_credentials :: "credential_ref list"
  grp_requested_ttl_secs :: u64

record grant_request =
  rq_profile_id :: profile_id
  rq_session_id :: principal_session_id
  rq_endpoint_id :: endpoint_id
  rq_principal_digest :: bytes
  rq_rp_ids :: "string list"
  rq_credentials :: "credential_ref list"
  rq_requested_ttl_secs :: u64
  rq_allow_empty_credentials :: bool
  rq_resolved :: bool
  rq_resolved_grant_id :: "grant_id option"

record grant =
  g_id :: grant_id
  g_profile_id :: profile_id
  g_session_id :: principal_session_id
  g_endpoint_id :: endpoint_id
  g_principal_digest :: bytes
  g_policy_generation :: policy_generation_id
  g_policy_digest :: policy_digest
  g_rp_ids :: btreeset
  g_credentials :: credential_set
  g_issued_at_mono :: u64
  g_expiry_mono :: u64
  g_state :: u8

record claim_intent =
  cl_action :: string
  cl_rp_id :: string
  cl_credential_ref :: credential_ref

record authorization_claim =
  ac_ceremony_id :: ceremony_id
  ac_grant_id :: grant_id
  ac_intent :: claim_intent
  ac_consumed :: bool

record grant_snapshot_for_sign =
  gss_grant_id :: grant_id
  gss_profile_id :: profile_id
  gss_rp_ids :: "string list"
  gss_credential_refs :: "credential_ref list"
  gss_state :: grant_state
  gss_expiry_mono :: u64

record grant_snapshot =
  gs_id :: grant_id
  gs_profile_id :: profile_id
  gs_state :: grant_state
  gs_rp_ids :: btreeset

record grant_details =
  gd_id :: grant_id
  gd_profile_id :: profile_id
  gd_state :: grant_state
  gd_first_rp_id :: string
  gd_first_credential_ref :: "credential_ref option"
  gd_issued_at_mono :: u64
  gd_expiry_mono :: u64

record grant_query_params =
  gq_profile_id :: profile_id
  gq_session_id :: principal_session_id
  gq_endpoint_id :: endpoint_id
  gq_principal_digest :: bytes
  gq_policy_generation :: policy_generation_id
  gq_policy_digest :: policy_digest
  gq_rp_id :: string
  gq_credential_ref :: "credential_ref option"

datatype grant_audit =
    GrantRequested grant_request_id profile_id "string list"
  | GrantApproved grant_id profile_id u64

record grant_registry =
  gr_grants :: "(grant_id, grant) hashmap"
  gr_pending_requests :: "(grant_request_id, grant_request) hashmap"
  gr_claims :: "(ceremony_id, authorization_claim) hashmap"
  gr_policy_generation :: policy_generation_id
  gr_policy_digest :: policy_digest
  gr_max_ttl_secs :: u64
  gr_allowed_actions :: btreeset
  gr_max_concurrent_grants :: u64
  gr_last_seen_mono :: u64
  gr_audit_sink :: "grant_audit list option"

section \<open>Operations\<close>

definition grant_state_of :: "grant \<Rightarrow> grant_state" where
  "grant_state_of g = cell_state (g_state g)"

definition grant_try_transition :: "grant_state \<Rightarrow> grant_state \<Rightarrow> grant \<Rightarrow> grant \<times> bool" where
  "grant_try_transition from to g =
     (case cell_transition from to (g_state g) of (v, ok) \<Rightarrow> (g\<lparr>g_state := v\<rparr>, ok))"

definition claim_new :: "ceremony_id \<Rightarrow> grant_id \<Rightarrow> claim_intent \<Rightarrow> authorization_claim" where
  "claim_new cid gid intent = \<lparr>ac_ceremony_id = cid, ac_grant_id = gid, ac_intent = intent, ac_consumed = False\<rparr>"

definition try_consume :: "authorization_claim \<Rightarrow> authorization_claim \<times> (grant_error + claim_intent)" where
  "try_consume c =
     (if \<not> ac_consumed c then (c\<lparr>ac_consumed := True\<rparr>, Ok (ac_intent c))
      else (c, Err (ClaimAlreadyConsumed (ac_ceremony_id c))))"

definition grant_registry_new ::
    "policy_generation_id \<Rightarrow> policy_digest \<Rightarrow> u64 \<Rightarrow> btreeset \<Rightarrow> u64 \<Rightarrow> grant_audit list option \<Rightarrow> grant_registry" where
  "grant_registry_new gen dig max_ttl actions max_concurrent sink =
     \<lparr>gr_grants = [], gr_pending_requests = [], gr_claims = [], gr_policy_generation = gen,
      gr_policy_digest = dig, gr_max_ttl_secs = max_ttl, gr_allowed_actions = actions,
      gr_max_concurrent_grants = max_concurrent, gr_last_seen_mono = 0, gr_audit_sink = sink\<rparr>"

definition record_audit :: "grant_audit \<Rightarrow> grant_registry \<Rightarrow> grant_registry" where
  "record_audit e r = r\<lparr>gr_audit_sink := map_option (\<lambda>log. log @ [e]) (gr_audit_sink r)\<rparr>"

definition revoke_if_active :: "grant \<Rightarrow> grant" where
  "revoke_if_active g = (if grant_state_of g = Active then fst (grant_try_transition Active Revoked g) else g)"

definition fail_closed_all :: "grant_registry \<Rightarrow> grant_registry" where
  "fail_closed_all r = r\<lparr>gr_grants := hm_map revoke_if_active (gr_grants r)\<rparr>"

definition check_clock :: "u64 \<Rightarrow> grant_registry \<Rightarrow> grant_registry \<times> (grant_error + unit)" where
  "check_clock now r =
     (if now < gr_last_seen_mono r then (fail_closed_all r, Err ClockAmbiguity)
      else (r\<lparr>gr_last_seen_mono := now\<rparr>, Ok ()))"

definition request_credentials :: "bool \<Rightarrow> credential_ref list \<Rightarrow> grant_error + credential_set" where
  "request_credentials allow_empty creds = (if allow_empty \<and> creds = [] then Ok cs_empty else cs_new creds)"

definition request_grant_inner ::
    "u64 \<Rightarrow> grant_request_id \<Rightarrow> grant_request_params \<Rightarrow> bool \<Rightarrow> grant_registry \<Rightarrow>
     grant_registry \<times> (grant_error + grant_request_id)" where
  "request_grant_inner now rid p allow_empty r0 =
     and_then (check_clock now r0) (\<lambda>r _.
       case validate_rp_ids (grp_rp_ids p) of
         Inl e \<Rightarrow> (r, Err e)
       | Inr _ \<Rightarrow>
           (case request_credentials allow_empty (grp_credentials p) of
              Inl e \<Rightarrow> (r, Err e)
            | Inr cred_set \<Rightarrow>
                if grp_requested_ttl_secs p = 0 then (r, Err TtlZero)
                else if gr_max_ttl_secs r < grp_requested_ttl_secs p
                then (r, Err (TtlExceedsProfileMax (grp_requested_ttl_secs p) (gr_max_ttl_secs r)))
                else
                  (let request =
                     \<lparr>rq_profile_id = grp_profile_id p, rq_session_id = grp_session_id p,
                      rq_endpoint_id = grp_endpoint_id p, rq_principal_digest = grp_principal_digest p,
                      rq_rp_ids = grp_rp_ids p, rq_credentials = cs_sorted cred_set,
                      rq_requested_ttl_secs = grp_requested_ttl_secs p,
                      rq_allow_empty_credentials = allow_empty, rq_resolved = False,
                      rq_resolved_grant_id = None\<rparr>
                   in (record_audit (GrantRequested rid (grp_profile_id p) (grp_rp_ids p))
                         (r\<lparr>gr_pending_requests := hm_insert rid request (gr_pending_requests r)\<rparr>),
                       Ok rid))))"

definition request_grant ::
    "u64 \<Rightarrow> grant_request_id \<Rightarrow> grant_request_params \<Rightarrow> grant_registry \<Rightarrow> grant_registry \<times> (grant_error + grant_request_id)" where
  "request_grant now rid p r = request_grant_inner now rid p False r"

definition request_dynamic_grant ::
    "u64 \<Rightarrow> grant_request_id \<Rightarrow> grant_request_params \<Rightarrow> grant_registry \<Rightarrow> grant_registry \<times> (grant_error + grant_request_id)" where
  "request_dynamic_grant now rid p r = request_grant_inner now rid p True r"

definition grants_active_count :: "grant_registry \<Rightarrow> nat" where
  "grants_active_count r = hm_count (\<lambda>g. grant_state_of g = Active) (gr_grants r)"

text \<open>
  \<open>approve_grant\<close> reads the clock twice: \<open>now_check\<close> in \<open>check_clock\<close> and \<open>now\<close> for the dates of the grant.
\<close>

definition approve_grant ::
    "u64 \<Rightarrow> u64 \<Rightarrow> grant_id \<Rightarrow> grant_request_id \<Rightarrow> grant_registry \<Rightarrow> grant_registry \<times> (grant_error + grant_id)" where
  "approve_grant now_check now gid rid r0 =
     and_then (check_clock now_check r0) (\<lambda>r _.
       case hm_get (gr_pending_requests r) rid of
         None \<Rightarrow> (r, Err (PendingRequestNotFound rid))
       | Some request \<Rightarrow>
           if rq_resolved request then (r, Err (RequestAlreadyResolved rid))
           else if unat (gr_max_concurrent_grants r) \<le> grants_active_count r
           then (r, Err (MaxConcurrentGrantsExceeded (gr_max_concurrent_grants r)))
           else
             (case validate_rp_ids (rq_rp_ids request) of
                Inl e \<Rightarrow> (r, Err e)
              | Inr validated_rps \<Rightarrow>
                  (case request_credentials (rq_allow_empty_credentials request) (rq_credentials request) of
                     Inl e \<Rightarrow> (r, Err e)
                   | Inr cred_set \<Rightarrow>
                       (let ttl = clamp_ttl (rq_requested_ttl_secs request) (gr_max_ttl_secs r);
                            grant =
                              \<lparr>g_id = gid, g_profile_id = rq_profile_id request,
                               g_session_id = rq_session_id request, g_endpoint_id = rq_endpoint_id request,
                               g_principal_digest = rq_principal_digest request,
                               g_policy_generation = gr_policy_generation r,
                               g_policy_digest = gr_policy_digest r, g_rp_ids = validated_rps,
                               g_credentials = cred_set, g_issued_at_mono = now,
                               g_expiry_mono = saturating_add now ttl, g_state = GRANT_STATE_ACTIVE\<rparr>
                        in (record_audit (GrantApproved gid (rq_profile_id request) ttl)
                              (r\<lparr>gr_grants := hm_insert gid grant (gr_grants r),
                                 gr_pending_requests :=
                                   hm_insert rid (request\<lparr>rq_resolved := True, rq_resolved_grant_id := Some gid\<rparr>)
                                     (gr_pending_requests r)\<rparr>),
                            Ok gid)))))"

definition resolved_grant_id :: "grant_request_id \<Rightarrow> grant_registry \<Rightarrow> grant_id option" where
  "resolved_grant_id rid r = Option.bind (hm_get (gr_pending_requests r) rid) rq_resolved_grant_id"

definition revoke_grant :: "grant_id \<Rightarrow> grant_registry \<Rightarrow> grant_registry \<times> (grant_error + grant_state)" where
  "revoke_grant gid r =
     (case hm_get (gr_grants r) gid of
        None \<Rightarrow> (r, Err (GrantNotFound gid))
      | Some g \<Rightarrow>
          if grant_state_of g \<noteq> Active then (r, Err (GrantNotActive gid))
          else
            (case grant_try_transition Active Revoked g of
               (g', ok) \<Rightarrow>
                 (r\<lparr>gr_grants := hm_insert gid g' (gr_grants r)\<rparr>,
                  if ok then Ok Revoked else Err (GrantNotActive gid))))"

definition grant_snapshot_of :: "grant \<Rightarrow> grant_snapshot" where
  "grant_snapshot_of g =
     \<lparr>gs_id = g_id g, gs_profile_id = g_profile_id g, gs_state = grant_state_of g, gs_rp_ids = g_rp_ids g\<rparr>"

definition show_grant :: "grant_id \<Rightarrow> grant_registry \<Rightarrow> grant_snapshot option" where
  "show_grant gid r = map_option grant_snapshot_of (hm_get (gr_grants r) gid)"

definition list_all_snapshots :: "grant_registry \<Rightarrow> grant_snapshot list" where
  "list_all_snapshots r = map grant_snapshot_of (hm_values (gr_grants r))"

definition first_of :: "'a list \<Rightarrow> 'a option" where
  "first_of xs = (case xs of [] \<Rightarrow> None | x # _ \<Rightarrow> Some x)"

definition find_grant_with_details :: "grant_id \<Rightarrow> grant_registry \<Rightarrow> grant_details option" where
  "find_grant_with_details gid r =
     map_option (\<lambda>g.
       \<lparr>gd_id = g_id g, gd_profile_id = g_profile_id g, gd_state = grant_state_of g,
        gd_first_rp_id = (case first_of (g_rp_ids g) of None \<Rightarrow> [] | Some rp \<Rightarrow> rp),
        gd_first_credential_ref = first_of (cs_sorted (g_credentials g)),
        gd_issued_at_mono = g_issued_at_mono g, gd_expiry_mono = g_expiry_mono g\<rparr>) (hm_get (gr_grants r) gid)"

definition find_grant_id_by_credential :: "credential_ref \<Rightarrow> grant_registry \<Rightarrow> grant_id list" where
  "find_grant_id_by_credential cred r =
     map g_id (filter (\<lambda>g. grant_state_of g = Active \<and> cs_contains (g_credentials g) cred) (hm_values (gr_grants r)))"

definition cancel_request :: "grant_request_id \<Rightarrow> grant_registry \<Rightarrow> grant_registry \<times> (grant_error + unit)" where
  "cancel_request rid r =
     (case hm_get (gr_pending_requests r) rid of
        None \<Rightarrow> (r, Err (PendingRequestNotFound rid))
      | Some request \<Rightarrow>
          if rq_resolved request then (r, Err (RequestAlreadyResolved rid))
          else (r\<lparr>gr_pending_requests := hm_insert rid (request\<lparr>rq_resolved := True\<rparr>) (gr_pending_requests r)\<rparr>, Ok ()))"

definition on_policy_reload ::
    "policy_generation_id \<Rightarrow> policy_digest \<Rightarrow> u64 \<Rightarrow> btreeset \<Rightarrow> grant_registry \<Rightarrow> grant_registry" where
  "on_policy_reload new_generation new_digest new_max_ttl new_actions r =
     (fail_closed_all r)\<lparr>gr_policy_generation := new_generation, gr_policy_digest := new_digest,
        gr_max_ttl_secs := new_max_ttl, gr_allowed_actions := new_actions,
        gr_pending_requests := [], gr_claims := []\<rparr>"

text \<open>The retained claims are chosen after the loop over the grants has changed their states.\<close>

definition on_principal_exit :: "principal_session_id \<Rightarrow> grant_registry \<Rightarrow> grant_registry" where
  "on_principal_exit sid r =
     (let gs = hm_map (\<lambda>g. if g_session_id g = sid \<and> grant_state_of g = Active
                        then fst (grant_try_transition Active Revoked g) else g) (gr_grants r)
      in r\<lparr>gr_grants := gs,
           gr_pending_requests := hm_retain (\<lambda>req. rq_session_id req \<noteq> sid) (gr_pending_requests r),
           gr_claims := hm_retain (\<lambda>c.
             case hm_get gs (ac_grant_id c) of
               None \<Rightarrow> False
             | Some g \<Rightarrow> g_session_id g \<noteq> sid \<or> grant_state_of g \<noteq> Active) (gr_claims r)\<rparr>)"

definition on_daemon_restart :: "grant_registry \<Rightarrow> grant_registry" where
  "on_daemon_restart r =
     r\<lparr>gr_grants := [], gr_pending_requests := [], gr_claims := [], gr_last_seen_mono := 0\<rparr>"

definition check_expired :: "u64 \<Rightarrow> grant_registry \<Rightarrow> grant_registry \<times> grant_id list" where
  "check_expired now r =
     (let expired = map fst (filter (\<lambda>(k, g). grant_state_of g = Active \<and> g_expiry_mono g \<le> now) (gr_grants r));
          gs = fold (hm_update (\<lambda>g. fst (grant_try_transition Active Expired g))) expired (gr_grants r)
      in (r\<lparr>gr_grants := gs\<rparr>, expired))"

definition grant_count :: "grant_registry \<Rightarrow> nat" where
  "grant_count r = length (gr_grants r)"

definition pending_count :: "grant_registry \<Rightarrow> nat" where
  "pending_count r = hm_count (\<lambda>q. \<not> rq_resolved q) (gr_pending_requests r)"

definition grant_matches :: "u64 \<Rightarrow> grant_query_params \<Rightarrow> grant \<Rightarrow> bool" where
  "grant_matches now q g =
     (let normalized_rp = normalize (gq_rp_id q) in
      grant_state_of g = Active \<and> g_profile_id g = gq_profile_id q \<and> g_session_id g = gq_session_id q \<and>
      g_endpoint_id g = gq_endpoint_id q \<and> g_principal_digest g = gq_principal_digest q \<and>
      g_policy_generation g = gq_policy_generation q \<and> g_policy_digest g = gq_policy_digest q \<and>
      rp_scope_contains (g_rp_ids g) normalized_rp \<and> now < g_expiry_mono g \<and>
      (case gq_credential_ref q of Some cr \<Rightarrow> cs_contains (g_credentials g) cr | None \<Rightarrow> True))"

definition show_grant_by_profile_rp :: "u64 \<Rightarrow> grant_query_params \<Rightarrow> grant_registry \<Rightarrow> grant_id option" where
  "show_grant_by_profile_rp now q r = map_option g_id (find (grant_matches now q) (hm_values (gr_grants r)))"

text \<open>\<open>claim_for_authorize\<close> reads the clock in \<open>check_clock\<close> and again in \<open>check_expired\<close>.\<close>

definition claim_for_authorize ::
    "(bytes \<Rightarrow> string) \<Rightarrow> u64 \<Rightarrow> u64 \<Rightarrow> ceremony_id \<Rightarrow> grant_id \<Rightarrow> principal_session_id \<Rightarrow> claim_intent \<Rightarrow>
     grant_registry \<Rightarrow> grant_registry \<times> (grant_error + ceremony_id)" where
  "claim_for_authorize hex_encode now_check now cid gid sid intent r0 =
     and_then (check_clock now_check r0) (\<lambda>r1 _.
       let r = fst (check_expired now r1) in
       case normalize_rp_id (cl_rp_id intent) of
         Inl e \<Rightarrow> (r, Err e)
       | Inr normalized_rp \<Rightarrow>
           (case hm_get (gr_grants r) gid of
              None \<Rightarrow> (r, Err (GrantNotFound gid))
            | Some g \<Rightarrow>
                if grant_state_of g \<noteq> Active then (r, Err (GrantNotActive gid))
                else if g_session_id g \<noteq> sid then (r, Err SessionMismatch)
                else if g_policy_generation g \<noteq> gr_policy_generation r \<or> g_policy_digest g \<noteq> gr_policy_digest r
                then (r, Err PolicyMismatch)
                else if \<not> rp_scope_contains (g_rp_ids g) normalized_rp then (r, Err (RpIdNotInGrant normalized_rp))
                else if \<not> cs_contains (g_credentials g) (cl_credential_ref intent)
                then (r, Err (CredentialNotInGrant (cred_to_hex hex_encode (cl_credential_ref intent))))
                else if cl_action intent \<notin> set (gr_allowed_actions r)
                then (r, Err (ActionNotInGrant (cl_action intent)))
                else (r\<lparr>gr_claims := hm_insert cid (claim_new cid gid (intent\<lparr>cl_rp_id := normalized_rp\<rparr>)) (gr_claims r)\<rparr>,
                      Ok cid)))"

definition cancel_claim :: "ceremony_id \<Rightarrow> grant_registry \<Rightarrow> grant_registry" where
  "cancel_claim cid r = r\<lparr>gr_claims := hm_remove cid (gr_claims r)\<rparr>"

definition consume_claim_by_ceremony :: "ceremony_id \<Rightarrow> grant_registry \<Rightarrow> grant_registry \<times> (grant_error + claim_intent)" where
  "consume_claim_by_ceremony cid r =
     (case hm_get (gr_claims r) cid of
        None \<Rightarrow> (r, Err ClaimNotFound)
      | Some c \<Rightarrow>
          (case try_consume c of (c', res) \<Rightarrow> (r\<lparr>gr_claims := hm_insert cid c' (gr_claims r)\<rparr>, res)))"

definition is_grant_active :: "grant_id \<Rightarrow> grant_registry \<Rightarrow> bool" where
  "is_grant_active gid r = (case hm_get (gr_grants r) gid of None \<Rightarrow> False | Some g \<Rightarrow> grant_state_of g = Active)"

definition snapshot_for_sign :: "grant_id \<Rightarrow> grant_registry \<Rightarrow> grant_snapshot_for_sign option" where
  "snapshot_for_sign gid r =
     map_option (\<lambda>g.
       \<lparr>gss_grant_id = g_id g, gss_profile_id = g_profile_id g, gss_rp_ids = g_rp_ids g,
        gss_credential_refs = cs_sorted (g_credentials g), gss_state = grant_state_of g,
        gss_expiry_mono = g_expiry_mono g\<rparr>) (hm_get (gr_grants r) gid)"

definition grant_policy_generation :: "grant_id \<Rightarrow> grant_registry \<Rightarrow> policy_generation_id option" where
  "grant_policy_generation gid r = map_option g_policy_generation (hm_get (gr_grants r) gid)"

definition grant_policy_digest :: "grant_id \<Rightarrow> grant_registry \<Rightarrow> policy_digest option" where
  "grant_policy_digest gid r = map_option g_policy_digest (hm_get (gr_grants r) gid)"

definition cancel_claims_for_session :: "principal_session_id \<Rightarrow> grant_registry \<Rightarrow> grant_registry" where
  "cancel_claims_for_session sid r =
     r\<lparr>gr_claims := hm_retain (\<lambda>c. case hm_get (gr_grants r) (ac_grant_id c) of
         None \<Rightarrow> False | Some g \<Rightarrow> g_session_id g \<noteq> sid) (gr_claims r)\<rparr>"

definition cancel_claims_for_grant :: "grant_id \<Rightarrow> grant_registry \<Rightarrow> grant_registry" where
  "cancel_claims_for_grant gid r = r\<lparr>gr_claims := hm_retain (\<lambda>c. ac_grant_id c \<noteq> gid) (gr_claims r)\<rparr>"

section \<open>Grants only decay\<close>

text \<open>
  Except for the approval of a request, no operation changes anything in a grant but its state, and
  that only away from the active state.
\<close>

definition grant_decay :: "grant \<Rightarrow> grant \<Rightarrow> bool" where
  "grant_decay g g' = (g' = g \<or> (\<exists>st. st \<noteq> Active \<and> g' = g\<lparr>g_state := to_atomic st\<rparr>))"

definition grants_decay :: "(grant_id, grant) hashmap \<Rightarrow> (grant_id, grant) hashmap \<Rightarrow> bool" where
  "grants_decay gs gs' = (hm_wf gs' \<and> (\<forall>k. rel_option grant_decay (hm_get gs k) (hm_get gs' k)))"

lemma grant_decay_refl [simp]: "grant_decay g g"
  by (simp add: grant_decay_def)

lemma grant_decay_active: "grant_decay g g' \<Longrightarrow> grant_state_of g' = Active \<Longrightarrow> g' = g"
  by (auto simp: grant_decay_def grant_state_of_def)

lemma grants_decay_refl [simp]: "hm_wf gs \<Longrightarrow> grants_decay gs gs"
  by (simp add: grants_decay_def option.rel_refl)

lemma grants_decay_lookup:
  assumes "grants_decay gs gs'" and "hm_get gs' k = Some g'"
  obtains g where "hm_get gs k = Some g" and "grant_decay g g'"
  using assms by (auto simp: grants_decay_def elim!: allE [of _ k] simp: option_rel_Some2)

lemma grant_decay_trans: "grant_decay g g' \<Longrightarrow> grant_decay g' g'' \<Longrightarrow> grant_decay g g''"
  by (auto simp: grant_decay_def)

lemma grants_decay_trans:
  assumes "grants_decay gs gs'" and "grants_decay gs' gs''"
  shows "grants_decay gs gs''"
  unfolding grants_decay_def
proof (intro conjI allI)
  show "hm_wf gs''" using assms(2) by (simp add: grants_decay_def)
  fix k
  from assms have "rel_option grant_decay (hm_get gs k) (hm_get gs' k)" "rel_option grant_decay (hm_get gs' k) (hm_get gs'' k)"
    by (simp_all add: grants_decay_def)
  then show "rel_option grant_decay (hm_get gs k) (hm_get gs'' k)"
    by (cases "hm_get gs k"; cases "hm_get gs' k"; cases "hm_get gs'' k") (auto intro: grant_decay_trans)
qed

lemma grants_decay_count:
  assumes "hm_wf gs" and "grants_decay gs gs'"
  shows "hm_count (\<lambda>g. grant_state_of g = Active) gs' \<le> hm_count (\<lambda>g. grant_state_of g = Active) gs"
proof (rule hm_count_le)
  fix k g'
  assume "hm_get gs' k = Some g'" and a: "grant_state_of g' = Active"
  with assms(2) show "\<exists>g. hm_get gs k = Some g \<and> grant_state_of g = Active"
    by (auto elim!: grants_decay_lookup dest: grant_decay_active)
qed (use assms in \<open>simp_all add: grants_decay_def\<close>)

lemma active_transition:
  "grant_state_of g = Active \<Longrightarrow> grant_try_transition Active st g = (g\<lparr>g_state := to_atomic st\<rparr>, True)"
  by (simp add: grant_try_transition_def grant_state_of_def cell_transition_Active)

lemma revoke_if_active_eq:
  "revoke_if_active g = (if grant_state_of g = Active then g\<lparr>g_state := to_atomic Revoked\<rparr> else g)"
  by (simp add: revoke_if_active_def active_transition)

lemma map_decay:
  assumes "hm_wf gs" and "\<And>g. grant_decay g (f g)"
  shows "grants_decay gs (hm_map f gs)"
  using assms by (simp add: grants_decay_def) (metis option.rel_map(2) option.rel_refl)

lemma fail_closed_all_decay: "hm_wf (gr_grants r) \<Longrightarrow> grants_decay (gr_grants r) (gr_grants (fail_closed_all r))"
  by (simp add: fail_closed_all_def) (rule map_decay, auto simp: revoke_if_active_eq grant_decay_def)

lemma check_clock_decay: "hm_wf (gr_grants r) \<Longrightarrow> grants_decay (gr_grants r) (gr_grants (fst (check_clock now r)))"
  by (simp add: check_clock_def fail_closed_all_decay)

lemma check_expired_get:
  assumes "hm_wf (gr_grants r)"
  shows "hm_get (gr_grants (fst (check_expired now r))) k =
    map_option (\<lambda>g. if grant_state_of g = Active \<and> g_expiry_mono g \<le> now then g\<lparr>g_state := to_atomic Expired\<rparr> else g)
      (hm_get (gr_grants r) k)"
  by (auto simp: check_expired_def Let_def hm_get_update_where [OF assms] active_transition intro!: option.map_cong)

lemma check_expired_decay:
  "hm_wf (gr_grants r) \<Longrightarrow> grants_decay (gr_grants r) (gr_grants (fst (check_expired now r)))"
  unfolding grants_decay_def
  by (auto simp: check_expired_get option.rel_map grant_decay_def intro!: option.rel_refl_strong)
    (simp add: check_expired_def Let_def)

lemma on_principal_exit_decay:
  "hm_wf (gr_grants r) \<Longrightarrow> grants_decay (gr_grants r) (gr_grants (on_principal_exit sid r))"
  by (simp add: on_principal_exit_def Let_def) (rule map_decay, auto simp: active_transition grant_decay_def)

lemma insert_decay:
  "hm_wf gs \<Longrightarrow> hm_get gs k = Some g \<Longrightarrow> grant_decay g g' \<Longrightarrow> grants_decay gs (hm_insert k g' gs)"
  by (simp add: grants_decay_def option.rel_refl)

lemma revoke_grant_eq:
  "revoke_grant gid r =
     (case hm_get (gr_grants r) gid of
        None \<Rightarrow> (r, Err (GrantNotFound gid))
      | Some g \<Rightarrow>
          if grant_state_of g \<noteq> Active then (r, Err (GrantNotActive gid))
          else (r\<lparr>gr_grants := hm_insert gid (g\<lparr>g_state := to_atomic Revoked\<rparr>) (gr_grants r)\<rparr>, Ok Revoked))"
  by (simp add: revoke_grant_def active_transition split: option.split)

lemma revoke_grant_decay:
  assumes "hm_wf (gr_grants r)"
  shows "grants_decay (gr_grants r) (gr_grants (fst (revoke_grant gid r)))"
proof (cases "hm_get (gr_grants r) gid")
  case None
  with assms show ?thesis by (simp add: revoke_grant_eq)
next
  case (Some g)
  have "grant_decay g (g\<lparr>g_state := to_atomic Revoked\<rparr>)" by (auto simp: grant_decay_def)
  with Some assms show ?thesis by (simp add: revoke_grant_eq insert_decay)
qed

interpretation auth: expiring_registry "\<lambda>r. hm_wf (gr_grants r)" "\<lambda>r. hm_get (gr_grants r)" g_state
  "\<lambda>c g. g\<lparr>g_state := c\<rparr>" g_expiry_mono g_session_id gr_last_seen_mono fail_closed_all check_clock check_expired
  on_principal_exit
proof unfold_locales
  fix r :: grant_registry and k
  show "hm_get (gr_grants (fail_closed_all r)) k =
      map_option (\<lambda>g. if cell_state (g_state g) = Active then g\<lparr>g_state := to_atomic Revoked\<rparr> else g) (hm_get (gr_grants r) k)"
    by (auto simp: fail_closed_all_def revoke_if_active_eq grant_state_of_def intro!: option.map_cong)
next
  fix r :: grant_registry and k now
  assume "hm_wf (gr_grants r)"
  from check_expired_get [OF this] show "hm_get (gr_grants (fst (check_expired now r))) k =
      map_option (\<lambda>g. if cell_state (g_state g) = Active \<and> g_expiry_mono g \<le> now
        then g\<lparr>g_state := to_atomic Expired\<rparr> else g) (hm_get (gr_grants r) k)"
    by (simp add: grant_state_of_def)
next
  fix r :: grant_registry and k now
  assume "hm_wf (gr_grants r)"
  from hm_keys_where(2) [OF this] show "k \<in> set (snd (check_expired now r)) \<longleftrightarrow>
      (\<exists>g. hm_get (gr_grants r) k = Some g \<and> cell_state (g_state g) = Active \<and> g_expiry_mono g \<le> now)"
    by (simp add: check_expired_def Let_def grant_state_of_def)
next
  fix r :: grant_registry and k sid
  show "hm_get (gr_grants (on_principal_exit sid r)) k =
      map_option (\<lambda>g. if g_session_id g = sid \<and> cell_state (g_state g) = Active
        then g\<lparr>g_state := to_atomic Revoked\<rparr> else g) (hm_get (gr_grants r) k)"
    by (auto simp: on_principal_exit_def Let_def active_transition grant_state_of_def [symmetric] intro!: option.map_cong)
qed (simp_all add: check_clock_def)

end
