(* ===== verification/Grant_Safety.thy ===== *)
theory Grant_Safety
  imports Grants
begin

text \<open>
  The registry of authentication grants as an automaton: the alphabet of its operations, the
  invariant every operation keeps, the single use of claims, and the properties of the registry.
\<close>

section \<open>The operations as one alphabet\<close>

datatype grant_op =
    GRequest u64 grant_request_id grant_request_params
  | GRequestDynamic u64 grant_request_id grant_request_params
  | GApprove u64 u64 grant_id grant_request_id
  | GRevoke grant_id
  | GCancelRequest grant_request_id
  | GReload policy_generation_id policy_digest u64 btreeset
  | GExit principal_session_id
  | GRestart
  | GCheckExpired u64
  | GClaim u64 u64 ceremony_id grant_id principal_session_id claim_intent
  | GCancelClaim ceremony_id
  | GConsume ceremony_id
  | GCancelClaimsForSession principal_session_id
  | GCancelClaimsForGrant grant_id

datatype grant_out =
    GoRequest "grant_error + grant_request_id"
  | GoGrant "grant_error + grant_id"
  | GoState "grant_error + grant_state"
  | GoUnit "grant_error + unit"
  | GoNone
  | GoExpired "grant_id list"
  | GoCeremony "grant_error + ceremony_id"
  | GoIntent "grant_error + claim_intent"

fun grant_step :: "(bytes \<Rightarrow> string) \<Rightarrow> grant_registry \<Rightarrow> grant_op \<Rightarrow> grant_registry \<times> grant_out" where
  "grant_step hex r (GRequest now rid p) = apsnd GoRequest (request_grant now rid p r)"
| "grant_step hex r (GRequestDynamic now rid p) = apsnd GoRequest (request_dynamic_grant now rid p r)"
| "grant_step hex r (GApprove now now' gid rid) = apsnd GoGrant (approve_grant now now' gid rid r)"
| "grant_step hex r (GRevoke gid) = apsnd GoState (revoke_grant gid r)"
| "grant_step hex r (GCancelRequest rid) = apsnd GoUnit (cancel_request rid r)"
| "grant_step hex r (GReload gen dig ttl acts) = (on_policy_reload gen dig ttl acts r, GoNone)"
| "grant_step hex r (GExit sid) = (on_principal_exit sid r, GoNone)"
| "grant_step hex r GRestart = (on_daemon_restart r, GoNone)"
| "grant_step hex r (GCheckExpired now) = apsnd GoExpired (check_expired now r)"
| "grant_step hex r (GClaim now now' cid gid sid intent) =
     apsnd GoCeremony (claim_for_authorize hex now now' cid gid sid intent r)"
| "grant_step hex r (GCancelClaim cid) = (cancel_claim cid r, GoNone)"
| "grant_step hex r (GConsume cid) = apsnd GoIntent (consume_claim_by_ceremony cid r)"
| "grant_step hex r (GCancelClaimsForSession sid) = (cancel_claims_for_session sid r, GoNone)"
| "grant_step hex r (GCancelClaimsForGrant gid) = (cancel_claims_for_grant gid r, GoNone)"

section \<open>The invariant\<close>

definition grant_ok :: "policy_generation_id \<Rightarrow> policy_digest \<Rightarrow> u64 \<Rightarrow> grant_id \<Rightarrow> grant \<Rightarrow> bool" where
  "grant_ok gen dig max_ttl k g =
     (g_id g = k \<and> cs_wf (g_credentials g) \<and> scope_wf (g_rp_ids g) \<and> from_atomic (g_state g) \<noteq> None \<and>
      g_issued_at_mono g \<le> g_expiry_mono g \<and>
      (grant_state_of g = Active \<longrightarrow>
         g_policy_generation g = gen \<and> g_policy_digest g = dig \<and>
         unat (g_expiry_mono g) \<le> unat (g_issued_at_mono g) + unat max_ttl))"

definition request_ok :: "u64 \<Rightarrow> grant_request \<Rightarrow> bool" where
  "request_ok max_ttl q =
     (is_ok (validate_rp_ids (rq_rp_ids q)) \<and>
      request_credentials (rq_allow_empty_credentials q) (rq_credentials q) = Ok (CredentialSet (rq_credentials q)) \<and>
      rq_requested_ttl_secs q \<noteq> 0 \<and> rq_requested_ttl_secs q \<le> max_ttl)"

definition claim_ok :: "btreeset \<Rightarrow> ceremony_id \<Rightarrow> authorization_claim \<Rightarrow> bool" where
  "claim_ok actions cid c =
     (ac_ceremony_id c = cid \<and> cl_action (ac_intent c) \<in> set actions \<and>
      normalize_rp_id (cl_rp_id (ac_intent c)) = Ok (cl_rp_id (ac_intent c)))"

definition reg_inv :: "grant_registry \<Rightarrow> bool" where
  "reg_inv r =
     (hm_all (grant_ok (gr_policy_generation r) (gr_policy_digest r) (gr_max_ttl_secs r)) (gr_grants r) \<and>
      grants_active_count r \<le> unat (gr_max_concurrent_grants r) \<and>
      hm_all (\<lambda>_. request_ok (gr_max_ttl_secs r)) (gr_pending_requests r) \<and>
      hm_all (claim_ok (gr_allowed_actions r)) (gr_claims r))"

lemmas reg_invD = reg_inv_def [THEN iffD1, THEN conjunct1]
  reg_inv_def [THEN iffD1, THEN conjunct2, THEN conjunct1]
  reg_inv_def [THEN iffD1, THEN conjunct2, THEN conjunct2, THEN conjunct1]
  reg_inv_def [THEN iffD1, THEN conjunct2, THEN conjunct2, THEN conjunct2]

lemma reg_inv_wf: "reg_inv r \<Longrightarrow> hm_wf (gr_grants r)"
  by (rule hm_all_wf [OF reg_invD(1)])

lemma grant_ok_decay:
  assumes "grant_ok gen dig ttl k g" and "grant_decay g g'"
  shows "grant_ok gen dig ttl k g'"
  using assms by (auto simp: grant_decay_def grant_ok_def grant_state_of_def)

lemma decay_all:
  assumes "hm_all (grant_ok gen dig ttl) gs" and "grants_decay gs gs'"
  shows "hm_all (grant_ok gen dig ttl) gs'"
  unfolding hm_all_iff
proof (intro conjI allI impI)
  show "hm_wf gs'" using assms(2) by (simp add: grants_decay_def)
  fix k g'
  assume "hm_get gs' k = Some g'"
  with assms(2) obtain g where "hm_get gs k = Some g" "grant_decay g g'" by (rule grants_decay_lookup)
  with assms(1) show "grant_ok gen dig ttl k g'" by (auto dest: hm_all_get intro: grant_ok_decay)
qed

text \<open>Operations that let grants decay and leave requests and claims alone keep the invariant.\<close>

definition policy_of :: "grant_registry \<Rightarrow> policy_generation_id \<times> policy_digest \<times> u64 \<times> btreeset \<times> u64" where
  "policy_of r = (gr_policy_generation r, gr_policy_digest r, gr_max_ttl_secs r, gr_allowed_actions r, gr_max_concurrent_grants r)"

lemma decay_inv:
  assumes "reg_inv r" and "grants_decay (gr_grants r) (gr_grants r')" and "policy_of r' = policy_of r"
    and "hm_all (\<lambda>_. request_ok (gr_max_ttl_secs r)) (gr_pending_requests r')"
    and "hm_all (claim_ok (gr_allowed_actions r)) (gr_claims r')"
  shows "reg_inv r'"
proof -
  from assms(3) have eq: "gr_policy_generation r' = gr_policy_generation r" "gr_policy_digest r' = gr_policy_digest r"
    "gr_max_ttl_secs r' = gr_max_ttl_secs r" "gr_allowed_actions r' = gr_allowed_actions r"
    "gr_max_concurrent_grants r' = gr_max_concurrent_grants r"
    by (simp_all add: policy_of_def)
  have "grants_active_count r' \<le> grants_active_count r"
    unfolding grants_active_count_def by (rule grants_decay_count [OF reg_inv_wf [OF assms(1)] assms(2)])
  also have "\<dots> \<le> unat (gr_max_concurrent_grants r)" by (rule reg_invD(2) [OF assms(1)])
  finally show ?thesis
    using decay_all [OF reg_invD(1) [OF assms(1)] assms(2)] assms(4,5) by (simp add: reg_inv_def eq)
qed

lemma check_clock_frame [simp]:
  "policy_of (fst (check_clock now r)) = policy_of r"
  "gr_pending_requests (fst (check_clock now r)) = gr_pending_requests r"
  "gr_claims (fst (check_clock now r)) = gr_claims r"
  by (simp_all add: check_clock_def fail_closed_all_def policy_of_def)

lemma check_expired_frame [simp]:
  "policy_of (fst (check_expired now r)) = policy_of r"
  "gr_pending_requests (fst (check_expired now r)) = gr_pending_requests r"
  "gr_claims (fst (check_expired now r)) = gr_claims r"
  by (simp_all add: check_expired_def Let_def policy_of_def)

lemma revoke_grant_frame [simp]:
  "policy_of (fst (revoke_grant gid r)) = policy_of r"
  "gr_pending_requests (fst (revoke_grant gid r)) = gr_pending_requests r"
  "gr_claims (fst (revoke_grant gid r)) = gr_claims r"
  by (auto simp: revoke_grant_def policy_of_def split: option.splits prod.splits)

lemma record_audit_inv [simp]: "reg_inv (record_audit e r) = reg_inv r"
  by (simp add: record_audit_def reg_inv_def grants_active_count_def)

lemma check_clock_inv: "reg_inv r \<Longrightarrow> reg_inv (fst (check_clock now r))"
  by (rule decay_inv [of r]) (simp_all add: check_clock_decay reg_inv_wf reg_invD)

lemma check_expired_inv: "reg_inv r \<Longrightarrow> reg_inv (fst (check_expired now r))"
  by (rule decay_inv [of r]) (simp_all add: check_expired_decay reg_inv_wf reg_invD)

lemma revoke_grant_inv: "reg_inv r \<Longrightarrow> reg_inv (fst (revoke_grant gid r))"
  by (rule decay_inv [of r]) (simp_all add: revoke_grant_decay reg_inv_wf reg_invD)

lemma on_principal_exit_frame:
  "policy_of (on_principal_exit sid r) = policy_of r"
  "reg_inv r \<Longrightarrow> hm_all (\<lambda>_. request_ok (gr_max_ttl_secs r)) (gr_pending_requests (on_principal_exit sid r))"
  "reg_inv r \<Longrightarrow> hm_all (claim_ok (gr_allowed_actions r)) (gr_claims (on_principal_exit sid r))"
  by (simp_all add: policy_of_def on_principal_exit_def Let_def hm_all_retain reg_invD)

lemma on_principal_exit_inv: "reg_inv r \<Longrightarrow> reg_inv (on_principal_exit sid r)"
  by (rule decay_inv [of r]) (simp_all add: on_principal_exit_decay reg_inv_wf on_principal_exit_frame)

text \<open>An operation that begins with the clock check keeps the invariant if the rest does.\<close>

lemma clocked_inv:
  assumes "reg_inv r" and "\<And>r. reg_inv r \<Longrightarrow> reg_inv (fst (k r))"
  shows "reg_inv (fst (and_then (check_clock now r) (\<lambda>r _. k r)))"
  using check_clock_inv [OF assms(1), of now] assms(2)
  by (cases "check_clock now r") (auto simp: and_then_def split: sum.splits)

lemma request_credentials_ok:
  assumes "request_credentials allow creds = Ok s"
  shows "cs_wf s" and "request_credentials allow (cs_sorted s) = Ok s" and "set (cs_sorted s) = set creds"
proof -
  have "cs_wf s \<and> request_credentials allow (cs_sorted s) = Ok s \<and> set (cs_sorted s) = set creds"
  proof (cases "allow \<and> creds = []")
    case True
    with assms have "s = cs_empty" by (simp add: request_credentials_def)
    with True show ?thesis by (simp add: request_credentials_def cs_empty_def cs_wf_def)
  next
    case False
    with assms have "cs_new creds = Ok s" by (simp only: request_credentials_def if_False)
    note ok = cs_new_ok [OF this]
    with cs_new_again [OF ok(1,3)] show ?thesis by (simp add: request_credentials_def)
  qed
  then show "cs_wf s" "request_credentials allow (cs_sorted s) = Ok s" "set (cs_sorted s) = set creds" by simp_all
qed

lemma insert_request_inv:
  assumes "reg_inv r" and "request_ok (gr_max_ttl_secs r) q"
  shows "reg_inv (r\<lparr>gr_pending_requests := hm_insert rid q (gr_pending_requests r)\<rparr>)"
  using assms by (simp add: reg_inv_def grants_active_count_def hm_all_insert)

lemma request_grant_inner_inv:
  assumes "reg_inv r"
  shows "reg_inv (fst (request_grant_inner now rid p allow_empty r))"
  unfolding request_grant_inner_def
proof (rule clocked_inv [OF assms], goal_cases)
  case (1 r)
  show ?case
    using 1 by (auto simp: Let_def request_ok_def request_credentials_ok is_ok_iff not_less
        intro!: insert_request_inv split: sum.splits)
qed

lemma insert_grant_inv:
  assumes "reg_inv r" and "grant_ok (gr_policy_generation r) (gr_policy_digest r) (gr_max_ttl_secs r) gid g"
    and "grants_active_count r < unat (gr_max_concurrent_grants r)"
  shows "reg_inv (r\<lparr>gr_grants := hm_insert gid g (gr_grants r)\<rparr>)"
  using assms hm_count_insert_le [of "\<lambda>g. grant_state_of g = Active" gid g "gr_grants r"]
  by (simp add: reg_inv_def grants_active_count_def hm_all_insert)

text \<open>
  The grant that an approval issues, and the fact that a stored request passes its validation a
  second time: an approval fails only for the reasons of its first four checks.
\<close>

definition granted :: "grant_registry \<Rightarrow> u64 \<Rightarrow> grant_id \<Rightarrow> grant_request \<Rightarrow> btreeset \<Rightarrow> grant" where
  "granted r now gid q rps =
     \<lparr>g_id = gid, g_profile_id = rq_profile_id q, g_session_id = rq_session_id q,
      g_endpoint_id = rq_endpoint_id q, g_principal_digest = rq_principal_digest q,
      g_policy_generation = gr_policy_generation r, g_policy_digest = gr_policy_digest r, g_rp_ids = rps,
      g_credentials = CredentialSet (rq_credentials q), g_issued_at_mono = now,
      g_expiry_mono = saturating_add now (rq_requested_ttl_secs q), g_state = GRANT_STATE_ACTIVE\<rparr>"

lemma granted_state [simp]: "grant_state_of (granted r now gid q rps) = Active"
  by (simp add: granted_def grant_state_of_def cell_state_def from_atomic_def)

lemma granted_ok:
  assumes "request_ok (gr_max_ttl_secs r) q" and "validate_rp_ids (rq_rp_ids q) = Ok rps"
  shows "grant_ok (gr_policy_generation r) (gr_policy_digest r) (gr_max_ttl_secs r) gid (granted r now gid q rps)"
proof -
  from assms(1) have "cs_wf (CredentialSet (rq_credentials q))"
    by (auto simp: request_ok_def dest: request_credentials_ok)
  moreover have "scope_wf rps" by (rule validate_rp_ids_ok [OF assms(2)])
  moreover have "unat (saturating_add now (rq_requested_ttl_secs q)) \<le> unat now + unat (gr_max_ttl_secs r)"
    using saturating_add_le_sum [of now "rq_requested_ttl_secs q"] assms(1)
    by (simp add: request_ok_def word_le_nat_alt)
  ultimately show ?thesis
    by (simp add: grant_ok_def granted_def saturating_add_ge from_atomic_def)
qed

definition approve_refusal :: "u64 \<Rightarrow> grant_request_id \<Rightarrow> grant_registry \<Rightarrow> grant_error option" where
  "approve_refusal now rid r =
     (if now < gr_last_seen_mono r then Some ClockAmbiguity
      else case hm_get (gr_pending_requests r) rid of
        None \<Rightarrow> Some (PendingRequestNotFound rid)
      | Some q \<Rightarrow>
          if rq_resolved q then Some (RequestAlreadyResolved rid)
          else if unat (gr_max_concurrent_grants r) \<le> grants_active_count r
          then Some (MaxConcurrentGrantsExceeded (gr_max_concurrent_grants r))
          else None)"

lemma approve_refused:
  "approve_refusal now_check rid r = Some e \<Longrightarrow>
     approve_grant now_check now gid rid r = (fst (check_clock now_check r), Err e)"
  by (auto simp: approve_refusal_def approve_grant_def check_clock_def grants_active_count_def
      split: option.splits if_splits)

lemma approve_granted:
  assumes "reg_inv r" and "approve_refusal now_check rid r = None"
  obtains q rps where "hm_get (gr_pending_requests r) rid = Some q" and "\<not> rq_resolved q"
    and "request_ok (gr_max_ttl_secs r) q" and "validate_rp_ids (rq_rp_ids q) = Ok rps"
    and "approve_grant now_check now gid rid r =
      (record_audit (GrantApproved gid (rq_profile_id q) (rq_requested_ttl_secs q))
        (r\<lparr>gr_last_seen_mono := now_check, gr_grants := hm_insert gid (granted r now gid q rps) (gr_grants r),
           gr_pending_requests := hm_insert rid (q\<lparr>rq_resolved := True, rq_resolved_grant_id := Some gid\<rparr>)
             (gr_pending_requests r)\<rparr>), Ok gid)"
proof -
  from assms(2) obtain q where clk: "\<not> now_check < gr_last_seen_mono r"
    and q: "hm_get (gr_pending_requests r) rid = Some q" "\<not> rq_resolved q"
    and n: "\<not> unat (gr_max_concurrent_grants r) \<le> grants_active_count r"
    by (auto simp: approve_refusal_def split: option.splits if_splits)
  from assms(1) q(1) have ok: "request_ok (gr_max_ttl_secs r) q" by (rule hm_all_get [OF reg_invD(3)])
  then obtain rps where rps: "validate_rp_ids (rq_rp_ids q) = Ok rps" by (auto simp: request_ok_def is_ok_iff)
  moreover from ok have "clamp_ttl (rq_requested_ttl_secs q) (gr_max_ttl_secs r) = rq_requested_ttl_secs q"
    by (simp add: request_ok_def clamp_ttl_id)
  ultimately show thesis
    using ok clk q n by (intro that [OF q ok rps])
      (simp add: approve_grant_def check_clock_def request_ok_def granted_def grants_active_count_def Let_def)
qed

lemma approve_grant_inv:
  assumes "reg_inv r"
  shows "reg_inv (fst (approve_grant now_check now gid rid r))"
proof (cases "approve_refusal now_check rid r")
  case (Some e)
  with assms show ?thesis by (simp add: approve_refused check_clock_inv)
next
  case None
  with assms obtain q rps where ok: "request_ok (gr_max_ttl_secs r) q" and rps: "validate_rp_ids (rq_rp_ids q) = Ok rps"
    and eq: "approve_grant now_check now gid rid r =
      (record_audit (GrantApproved gid (rq_profile_id q) (rq_requested_ttl_secs q))
        (r\<lparr>gr_last_seen_mono := now_check, gr_grants := hm_insert gid (granted r now gid q rps) (gr_grants r),
           gr_pending_requests := hm_insert rid (q\<lparr>rq_resolved := True, rq_resolved_grant_id := Some gid\<rparr>)
             (gr_pending_requests r)\<rparr>), Ok gid)"
    by (rule approve_granted)
  from None have "grants_active_count r < unat (gr_max_concurrent_grants r)"
    by (auto simp: approve_refusal_def split: option.splits if_splits)
  note inv = insert_grant_inv [OF assms granted_ok [OF ok rps, of gid now] this]
  have "request_ok (gr_max_ttl_secs r) (q\<lparr>rq_resolved := True, rq_resolved_grant_id := Some gid\<rparr>)"
    using ok by (simp add: request_ok_def)
  with inv show ?thesis
    unfolding eq fst_conv record_audit_inv by (simp add: reg_inv_def grants_active_count_def hm_all_insert)
qed

section \<open>Claims\<close>

text \<open>
  The conditions of a claim.  There is none on the policy: an active grant of a registry in its
  invariant was issued under the current policy, and the check for it in the code is redundant.
\<close>

definition claim_allowed :: "u64 \<Rightarrow> u64 \<Rightarrow> grant_id \<Rightarrow> principal_session_id \<Rightarrow> claim_intent \<Rightarrow> grant_registry \<Rightarrow> bool" where
  "claim_allowed now_check now gid sid intent r =
     (gr_last_seen_mono r \<le> now_check \<and> is_ok (normalize_rp_id (cl_rp_id intent)) \<and>
      cl_action intent \<in> set (gr_allowed_actions r) \<and>
      (case hm_get (gr_grants r) gid of
         None \<Rightarrow> False
       | Some g \<Rightarrow>
           grant_state_of g = Active \<and> now < g_expiry_mono g \<and> g_session_id g = sid \<and>
           rp_scope_contains (g_rp_ids g) (normalize (cl_rp_id intent)) \<and>
           cl_credential_ref intent \<in> set (cs_sorted (g_credentials g))))"

definition add_claim :: "u64 \<Rightarrow> u64 \<Rightarrow> ceremony_id \<Rightarrow> grant_id \<Rightarrow> claim_intent \<Rightarrow> grant_registry \<Rightarrow> grant_registry" where
  "add_claim now_check now cid gid intent r =
     (let r1 = fst (check_expired now (r\<lparr>gr_last_seen_mono := now_check\<rparr>))
      in r1\<lparr>gr_claims := hm_insert cid (claim_new cid gid (intent\<lparr>cl_rp_id := normalize (cl_rp_id intent)\<rparr>)) (gr_claims r)\<rparr>)"

lemma check_expired_policy [simp]:
  "gr_policy_generation (fst (check_expired now r)) = gr_policy_generation r"
  "gr_policy_digest (fst (check_expired now r)) = gr_policy_digest r"
  "gr_allowed_actions (fst (check_expired now r)) = gr_allowed_actions r"
  "gr_max_ttl_secs (fst (check_expired now r)) = gr_max_ttl_secs r"
  by (simp_all add: check_expired_def Let_def)

lemma claim_for_authorize_late:
  "now_check < gr_last_seen_mono r \<Longrightarrow>
     claim_for_authorize hex now_check now cid gid sid intent r = (fail_closed_all r, Err ClockAmbiguity)"
  by (simp add: claim_for_authorize_def check_clock_def)

lemma claim_for_authorize_ok:
  assumes "reg_inv r"
  shows "claim_for_authorize hex now_check now cid gid sid intent r = (r', Ok c) \<longleftrightarrow>
    claim_allowed now_check now gid sid intent r \<and> c = cid \<and> r' = add_claim now_check now cid gid intent r"
proof (cases "now_check < gr_last_seen_mono r")
  case True
  then show ?thesis by (auto simp: claim_for_authorize_late claim_allowed_def)
next
  case False
  let ?ra = "r\<lparr>gr_last_seen_mono := now_check\<rparr>"
  let ?r = "fst (check_expired now ?ra)"
  have get: "hm_get (gr_grants ?r) gid = map_option (\<lambda>g.
      if grant_state_of g = Active \<and> g_expiry_mono g \<le> now then g\<lparr>g_state := to_atomic Expired\<rparr> else g) (hm_get (gr_grants r) gid)"
    using check_expired_get [of ?ra now gid] reg_inv_wf [OF assms] by simp
  show ?thesis
  proof (cases "normalize_rp_id (cl_rp_id intent)")
    case (Inl e)
    with False show ?thesis by (simp add: claim_for_authorize_def check_clock_def claim_allowed_def)
  next
    case (Inr rp)
    then have rp: "rp = normalize (cl_rp_id intent)" by (simp add: normalize_rp_id_ok)
    show ?thesis
    proof (cases "hm_get (gr_grants r) gid")
      case None
      with False Inr get show ?thesis by (simp add: claim_for_authorize_def check_clock_def claim_allowed_def)
    next
      case (Some g)
      show ?thesis
      proof (cases "grant_state_of g = Active \<and> now < g_expiry_mono g")
        case dead: False
        then have "grant_state_of (if grant_state_of g = Active \<and> g_expiry_mono g \<le> now
            then g\<lparr>g_state := to_atomic Expired\<rparr> else g) \<noteq> Active"
          by (auto simp: grant_state_of_def)
        with False Inr Some dead get show ?thesis
          by (auto simp: claim_for_authorize_def check_clock_def claim_allowed_def)
      next
        case live: True
        with get Some have get': "hm_get (gr_grants ?r) gid = Some g" by auto
        from assms Some have ok: "grant_ok (gr_policy_generation r) (gr_policy_digest r) (gr_max_ttl_secs r) gid g"
          by (rule hm_all_get [OF reg_invD(1)])
        with live have "g_policy_generation g = gr_policy_generation r" "g_policy_digest g = gr_policy_digest r"
          and cs: "cs_contains (g_credentials g) c' \<longleftrightarrow> c' \<in> set (cs_sorted (g_credentials g))" for c'
          by (simp_all add: grant_ok_def cs_contains_iff)
        with False Inr Some live get' show ?thesis
          by (auto simp: claim_for_authorize_def check_clock_def claim_allowed_def add_claim_def Let_def rp)
      qed
    qed
  qed
qed

lemma claim_for_authorize_err:
  "claim_for_authorize hex now_check now cid gid sid intent r = (r', Err e) \<Longrightarrow>
     r' = fst (check_clock now_check r) \<or> r' = fst (check_expired now (fst (check_clock now_check r)))"
  by (cases "now_check < gr_last_seen_mono r")
    (auto simp: claim_for_authorize_def check_clock_def Let_def split: sum.splits option.splits if_splits)

lemma insert_claim_inv:
  assumes "reg_inv r" and "claim_ok (gr_allowed_actions r) cid c"
  shows "reg_inv (r\<lparr>gr_claims := hm_insert cid c (gr_claims r)\<rparr>)"
  using assms by (simp add: reg_inv_def grants_active_count_def hm_all_insert)

lemma claim_for_authorize_inv:
  assumes "reg_inv r"
  shows "reg_inv (fst (claim_for_authorize hex now_check now cid gid sid intent r))"
proof (cases "claim_for_authorize hex now_check now cid gid sid intent r")
  case (Pair r' res)
  show ?thesis
  proof (cases res)
    case (Inl e)
    with Pair assms show ?thesis
      using claim_for_authorize_err [of hex now_check now cid gid sid intent r r' e]
      by (auto simp: check_clock_inv check_expired_inv)
  next
    case (Inr c)
    with Pair assms have allowed: "claim_allowed now_check now gid sid intent r"
      and r': "r' = add_claim now_check now cid gid intent r"
      by (simp_all add: claim_for_authorize_ok)
    from allowed obtain rp where "normalize_rp_id (cl_rp_id intent) = Ok rp" and act: "cl_action intent \<in> set (gr_allowed_actions r)"
      by (auto simp: claim_allowed_def is_ok_iff)
    from this(1) have "normalize_rp_id (normalize (cl_rp_id intent)) = Ok (normalize (cl_rp_id intent))"
      by (rule normalize_rp_id_normal)
    with act have "claim_ok (gr_allowed_actions r) cid (claim_new cid gid (intent\<lparr>cl_rp_id := normalize (cl_rp_id intent)\<rparr>))"
      by (simp add: claim_ok_def claim_new_def)
    moreover have "reg_inv (r\<lparr>gr_last_seen_mono := now_check\<rparr>)"
      using assms by (simp add: reg_inv_def grants_active_count_def)
    ultimately show ?thesis
      using insert_claim_inv [OF check_expired_inv, of "r\<lparr>gr_last_seen_mono := now_check\<rparr>" now cid]
      by (simp add: Pair r' add_claim_def Let_def)
  qed
qed

lemma consume_claim_eq:
  "consume_claim_by_ceremony cid r =
     (case hm_get (gr_claims r) cid of
        None \<Rightarrow> (r, Err ClaimNotFound)
      | Some c \<Rightarrow>
          if ac_consumed c then (r\<lparr>gr_claims := hm_insert cid c (gr_claims r)\<rparr>, Err (ClaimAlreadyConsumed (ac_ceremony_id c)))
          else (r\<lparr>gr_claims := hm_insert cid (c\<lparr>ac_consumed := True\<rparr>) (gr_claims r)\<rparr>, Ok (ac_intent c)))"
  by (simp add: consume_claim_by_ceremony_def try_consume_def split: option.split)

lemma consume_claim_inv:
  assumes "reg_inv r"
  shows "reg_inv (fst (consume_claim_by_ceremony cid r))"
proof (cases "hm_get (gr_claims r) cid")
  case None
  with assms show ?thesis by (simp add: consume_claim_eq)
next
  case (Some c)
  with assms have "claim_ok (gr_allowed_actions r) cid c" by (rule hm_all_get [OF reg_invD(4)])
  then have "claim_ok (gr_allowed_actions r) cid (c\<lparr>ac_consumed := True\<rparr>)" by (simp add: claim_ok_def)
  with Some assms show ?thesis by (auto simp: consume_claim_eq insert_claim_inv dest: hm_all_get [OF reg_invD(4)])
qed

lemma drop_claims_inv:
  assumes "reg_inv r" and "hm_all (claim_ok (gr_allowed_actions r)) cs"
  shows "reg_inv (r\<lparr>gr_claims := cs\<rparr>)"
  using assms by (simp add: reg_inv_def grants_active_count_def)

lemma cancel_request_inv:
  assumes "reg_inv r"
  shows "reg_inv (fst (cancel_request rid r))"
proof (cases "hm_get (gr_pending_requests r) rid")
  case None
  with assms show ?thesis by (simp add: cancel_request_def)
next
  case (Some q)
  with assms have "request_ok (gr_max_ttl_secs r) q" by (rule hm_all_get [OF reg_invD(3)])
  then have "request_ok (gr_max_ttl_secs r) (q\<lparr>rq_resolved := True\<rparr>)" by (simp add: request_ok_def)
  with Some assms show ?thesis by (simp add: cancel_request_def insert_request_inv)
qed

text \<open>After a reload every grant is inactive, so no grant is bound to the policy that was replaced.\<close>

lemma fail_closed_all_inactive: "hm_get (gr_grants (fail_closed_all r)) k = Some g \<Longrightarrow> grant_state_of g \<noteq> Active"
  unfolding grant_state_of_def by (rule auth.close_inactive)

lemma on_policy_reload_inv:
  assumes "reg_inv r"
  shows "reg_inv (on_policy_reload gen dig ttl acts r)"
proof -
  let ?gs = "gr_grants (fail_closed_all r)"
  have old: "hm_all (grant_ok (gr_policy_generation r) (gr_policy_digest r) (gr_max_ttl_secs r)) ?gs"
    using fail_closed_all_decay [OF reg_inv_wf [OF assms]] by (rule decay_all [OF reg_invD(1) [OF assms]])
  have "hm_all (grant_ok gen dig ttl) ?gs"
    unfolding hm_all_iff
  proof (intro conjI allI impI)
    show "hm_wf ?gs" by (rule hm_all_wf [OF old])
    fix k g
    assume g: "hm_get ?gs k = Some g"
    from hm_all_get [OF old g] fail_closed_all_inactive [OF g] show "grant_ok gen dig ttl k g" by (simp add: grant_ok_def)
  qed
  moreover have "hm_count (\<lambda>g. grant_state_of g = Active) ?gs = 0"
    using fail_closed_all_inactive by (auto simp: hm_count_zero_iff hm_values_iff hm_all_wf [OF old])
  ultimately show ?thesis
    by (simp add: reg_inv_def on_policy_reload_def grants_active_count_def)
qed

lemma grant_step_inv: "reg_inv r \<Longrightarrow> reg_inv (fst (grant_step hex r x))"
proof (cases x)
  case (GRequest now rid p)
  then show "reg_inv r \<Longrightarrow> ?thesis" by (simp add: request_grant_def request_grant_inner_inv)
next
  case (GRequestDynamic now rid p)
  then show "reg_inv r \<Longrightarrow> ?thesis" by (simp add: request_dynamic_grant_def request_grant_inner_inv)
next
  case GRestart
  then show "reg_inv r \<Longrightarrow> ?thesis" by (simp add: on_daemon_restart_def reg_inv_def grants_active_count_def)
qed (simp_all add: approve_grant_inv revoke_grant_inv cancel_request_inv on_policy_reload_inv on_principal_exit_inv
    check_expired_inv claim_for_authorize_inv consume_claim_inv cancel_claim_def cancel_claims_for_session_def
    cancel_claims_for_grant_def drop_claims_inv hm_all_remove hm_all_retain reg_invD)

lemma grant_registry_new_inv [simp]: "reg_inv (grant_registry_new gen dig ttl acts n sink)"
  by (simp add: reg_inv_def grant_registry_new_def grants_active_count_def)

section \<open>Single use\<close>

definition uses_claim :: "ceremony_id \<Rightarrow> grant_op \<Rightarrow> grant_out \<Rightarrow> bool" where
  "uses_claim cid x y = (x = GConsume cid \<and> (case y of GoIntent res \<Rightarrow> is_ok res | _ \<Rightarrow> False))"

definition claim_spent :: "ceremony_id \<Rightarrow> grant_registry \<Rightarrow> bool" where
  "claim_spent cid r = (case hm_get (gr_claims r) cid of None \<Rightarrow> True | Some c \<Rightarrow> ac_consumed c)"

fun claims_as :: "ceremony_id \<Rightarrow> grant_op \<Rightarrow> bool" where
  "claims_as cid (GClaim now now' c gid sid intent) = (c = cid)"
| "claims_as cid _ = False"

lemma and_then_claims:
  assumes "\<And>r'. gr_claims (fst (k r')) = gr_claims r'"
  shows "gr_claims (fst (and_then (check_clock now r) (\<lambda>r _. k r))) = gr_claims r"
  using check_clock_frame(3) [of now r] assms
  by (cases "check_clock now r") (auto simp: and_then_def split: sum.splits)

lemma request_grant_inner_claims: "gr_claims (fst (request_grant_inner now rid p e r)) = gr_claims r"
  unfolding request_grant_inner_def
  by (rule and_then_claims) (auto simp: Let_def record_audit_def split: sum.splits)

lemma approve_grant_claims: "gr_claims (fst (approve_grant now now' gid rid r)) = gr_claims r"
  unfolding approve_grant_def
  by (rule and_then_claims) (auto simp: Let_def record_audit_def split: sum.splits option.splits)

lemma claim_for_authorize_claims:
  assumes "reg_inv r" and "cid' \<noteq> cid"
  shows "hm_get (gr_claims (fst (claim_for_authorize hex now now' cid gid sid intent r))) cid' = hm_get (gr_claims r) cid'"
proof (cases "claim_for_authorize hex now now' cid gid sid intent r")
  case (Pair r' res)
  show ?thesis
  proof (cases res)
    case (Inl e)
    with Pair claim_for_authorize_err [of hex now now' cid gid sid intent r r' e] show ?thesis by auto
  next
    case (Inr c)
    with Pair assms(1) have "r' = add_claim now now' cid gid intent r" by (simp add: claim_for_authorize_ok)
    with Pair assms(2) show ?thesis by (simp add: add_claim_def Let_def)
  qed
qed

lemma claim_spent_step:
  assumes "reg_inv r" and "\<not> claims_as cid x" and "claim_spent cid r"
  shows "claim_spent cid (fst (grant_step hex r x))"
proof -
  note wf = hm_all_wf [OF reg_invD(4) [OF assms(1)]]
  have retain: "claim_spent cid (r\<lparr>gr_claims := hm_retain P (gr_claims r)\<rparr>)" for P
    using assms(3) by (auto simp: claim_spent_def hm_get_retain [OF wf] split: option.splits)
  have frame: "claim_spent cid r'" if "gr_claims r' = gr_claims r" for r'
    using that assms(3) by (simp add: claim_spent_def)
  show ?thesis
  proof (cases x)
    case (GClaim now now' c gid sid intent)
    with assms show ?thesis by (simp add: claim_spent_def claim_for_authorize_claims)
  next
    case (GConsume c)
    with assms(3) show ?thesis by (auto simp: claim_spent_def consume_claim_eq split: option.splits)
  next
    case (GExit sid)
    with retain show ?thesis by (simp add: on_principal_exit_def Let_def claim_spent_def)
  next
    case (GCancelClaimsForSession sid)
    with retain show ?thesis by (simp add: cancel_claims_for_session_def)
  next
    case (GCancelClaimsForGrant gid)
    with retain show ?thesis by (simp add: cancel_claims_for_grant_def)
  next
    case (GCancelClaim c)
    with assms(3) show ?thesis by (simp add: cancel_claim_def claim_spent_def)
  next
    case (GCancelRequest rid)
    then show ?thesis by (auto simp: cancel_request_def intro!: frame split: option.splits)
  next
    case GRestart
    then show ?thesis by (simp add: on_daemon_restart_def claim_spent_def)
  next
    case (GReload gen dig ttl acts)
    then show ?thesis by (simp add: on_policy_reload_def claim_spent_def)
  qed (simp_all add: frame request_grant_def request_dynamic_grant_def request_grant_inner_claims approve_grant_claims)
qed

interpretation greg: one_shot "grant_step hex" reg_inv uses_claim claim_spent "\<lambda>cid x. \<not> claims_as cid x" for hex
proof unfold_locales
  fix r x
  show "reg_inv r \<Longrightarrow> reg_inv (fst (grant_step hex r x))" by (rule grant_step_inv)
next
  fix r cid x
  assume "uses_claim cid x (snd (grant_step hex r x))"
  then show "claim_spent cid (fst (grant_step hex r x))"
    by (auto simp: uses_claim_def claim_spent_def consume_claim_eq split: option.splits)
next
  fix r cid x
  assume "claim_spent cid r"
  then show "\<not> uses_claim cid x (snd (grant_step hex r x))"
    by (auto simp: uses_claim_def claim_spent_def consume_claim_eq split: option.splits)
next
  fix r cid x
  assume "reg_inv r" "\<not> claims_as cid x" "claim_spent cid r"
  then show "claim_spent cid (fst (grant_step hex r x))" by (rule claim_spent_step)
qed

section \<open>Provenance of claims\<close>

text \<open>One call: a claim that is there afterwards was there before, up to its consumption, or the call made it.\<close>

lemma claims_step:
  assumes "reg_inv r" and "hm_get (gr_claims (fst (grant_step hex r x))) cid = Some c'"
  shows "(\<exists>c. hm_get (gr_claims r) cid = Some c \<and> ac_intent c = ac_intent c') \<or>
    (\<exists>now now' gid sid intent. x = GClaim now now' cid gid sid intent \<and>
       claim_allowed now now' gid sid intent r \<and> ac_intent c' = intent\<lparr>cl_rp_id := normalize (cl_rp_id intent)\<rparr>)"
proof -
  note wf = hm_all_wf [OF reg_invD(4) [OF assms(1)]]
  show ?thesis
  proof (cases x)
    case (GClaim now now' c gid sid intent)
    show ?thesis
    proof (cases "c = cid \<and> is_ok (snd (claim_for_authorize hex now now' c gid sid intent r))")
      case True
      then obtain r' a where "claim_for_authorize hex now now' c gid sid intent r = (r', Ok a)"
        by (cases "claim_for_authorize hex now now' c gid sid intent r") (auto simp: is_ok_iff)
      moreover from this assms(1) have "claim_allowed now now' gid sid intent r" "r' = add_claim now now' c gid intent r"
        by (simp_all add: claim_for_authorize_ok)
      ultimately show ?thesis
        using assms(2) GClaim True by (auto simp: add_claim_def Let_def claim_new_def)
    next
      case False
      then have "gr_claims (fst (claim_for_authorize hex now now' c gid sid intent r)) = gr_claims r \<or> c \<noteq> cid"
        by (cases "claim_for_authorize hex now now' c gid sid intent r"; cases "snd (claim_for_authorize hex now now' c gid sid intent r)")
          (auto dest: claim_for_authorize_err)
      with assms GClaim show ?thesis by (auto simp: claim_for_authorize_claims)
    qed
  next
    case (GConsume c)
    with assms(2) show ?thesis by (auto simp: consume_claim_eq split: option.splits if_splits)
  next
    case (GCancelRequest rid)
    with assms(2) show ?thesis by (auto simp: cancel_request_def split: option.splits if_splits)
  qed (use assms(2) in \<open>auto simp: request_grant_def request_dynamic_grant_def request_grant_inner_claims
      approve_grant_claims on_daemon_restart_def on_policy_reload_def on_principal_exit_def Let_def
      cancel_claims_for_session_def cancel_claims_for_grant_def cancel_claim_def
      split: if_splits dest!: hm_get_retain_SomeD [OF wf]\<close>)
qed

lemma claim_provenance:
  assumes "reg_inv r" and "gr_claims r = []" and "hm_get (gr_claims (run_state (grant_step hex) r xs)) cid = Some c"
  shows "\<exists>ys zs now now' gid sid intent. xs = ys @ GClaim now now' cid gid sid intent # zs \<and>
    claim_allowed now now' gid sid intent (run_state (grant_step hex) r ys) \<and>
    ac_intent c = intent\<lparr>cl_rp_id := normalize (cl_rp_id intent)\<rparr>"
  using assms(3)
proof (induction xs arbitrary: c rule: rev_induct)
  case Nil
  with assms(2) show ?case by simp
next
  case (snoc x xs)
  let ?r = "run_state (grant_step hex) r xs"
  have inv: "reg_inv ?r" by (rule greg.inv_run [OF assms(1)])
  from snoc.prems have "hm_get (gr_claims (fst (grant_step hex ?r x))) cid = Some c" by simp
  from claims_step [OF inv this] show ?case
  proof (elim disjE exE conjE)
    fix d
    assume "hm_get (gr_claims ?r) cid = Some d" and "ac_intent d = ac_intent c"
    with snoc.IH [of d] obtain ys zs now now' gid sid intent
      where "xs = ys @ GClaim now now' cid gid sid intent # zs"
        and "claim_allowed now now' gid sid intent (run_state (grant_step hex) r ys)"
        and "ac_intent c = intent\<lparr>cl_rp_id := normalize (cl_rp_id intent)\<rparr>" by auto
    then show ?thesis by (metis append.assoc append_Cons)
  next
    fix now now' gid sid intent
    assume "x = GClaim now now' cid gid sid intent" and "claim_allowed now now' gid sid intent ?r"
      and "ac_intent c = intent\<lparr>cl_rp_id := normalize (cl_rp_id intent)\<rparr>"
    then show ?thesis by blast
  qed
qed

text \<open>Nothing but an approval makes a grant active.\<close>

fun approves_as :: "grant_id \<Rightarrow> grant_op \<Rightarrow> bool" where
  "approves_as gid (GApprove now now' g rid) = (g = gid)"
| "approves_as gid _ = False"

lemma decay_active:
  assumes "grants_decay (gr_grants r) (gr_grants r')" and "is_grant_active gid r'"
  shows "is_grant_active gid r"
proof -
  from assms(2) obtain g' where g': "hm_get (gr_grants r') gid = Some g'" "grant_state_of g' = Active"
    by (auto simp: is_grant_active_def split: option.splits)
  from assms(1) g'(1) obtain g where "hm_get (gr_grants r) gid = Some g" "grant_decay g g'" by (rule grants_decay_lookup)
  with g' show ?thesis by (auto simp: is_grant_active_def dest: grant_decay_active)
qed

lemma and_then_active:
  assumes "reg_inv r" and "\<And>r'. is_grant_active gid (fst (k r')) = is_grant_active gid r'"
    and "is_grant_active gid (fst (and_then (check_clock now r) (\<lambda>r _. k r)))"
  shows "is_grant_active gid r"
proof -
  have "is_grant_active gid (fst (check_clock now r))"
    using assms(2,3) by (cases "check_clock now r") (auto simp: and_then_def split: sum.splits)
  with check_clock_decay [OF reg_inv_wf [OF assms(1)]] show ?thesis by (rule decay_active)
qed

lemma approve_grant_other:
  assumes "reg_inv r" and "gid' \<noteq> gid" and "is_grant_active gid' (fst (approve_grant now now' gid rid r))"
  shows "is_grant_active gid' r"
proof (cases "approve_refusal now rid r")
  case (Some e)
  with assms(3) have "is_grant_active gid' (fst (check_clock now r))" by (simp add: approve_refused)
  with check_clock_decay [OF reg_inv_wf [OF assms(1)]] show ?thesis by (rule decay_active)
next
  case None
  with assms(1) show ?thesis
    using assms(2,3) by (elim approve_granted [of r now rid now' gid])
      (auto simp: is_grant_active_def record_audit_def)
qed

lemma claim_for_authorize_decay:
  assumes "reg_inv r"
  shows "grants_decay (gr_grants r) (gr_grants (fst (claim_for_authorize hex now now' cid gid sid intent r)))"
proof (cases "claim_for_authorize hex now now' cid gid sid intent r")
  case (Pair r' res)
  note clk = check_clock_decay [OF reg_inv_wf [OF assms], of now]
  have exp: "grants_decay (gr_grants r) (gr_grants (fst (check_expired now' (fst (check_clock now r)))))"
    using clk check_expired_decay [OF reg_inv_wf [OF check_clock_inv [OF assms]]] by (rule grants_decay_trans)
  show ?thesis
  proof (cases res)
    case (Inl e)
    with Pair clk exp claim_for_authorize_err [of hex now now' cid gid sid intent r r' e] show ?thesis by auto
  next
    case (Inr c)
    with Pair assms have "claim_allowed now now' gid sid intent r" "r' = add_claim now now' cid gid intent r"
      by (simp_all add: claim_for_authorize_ok)
    with exp Pair show ?thesis by (simp add: add_claim_def Let_def claim_allowed_def check_clock_def not_less [symmetric])
  qed
qed

lemma grant_step_active:
  assumes "reg_inv r" and "\<not> approves_as gid x" and "is_grant_active gid (fst (grant_step hex r x))"
  shows "is_grant_active gid r"
proof -
  note wf = reg_inv_wf [OF assms(1)]
  have inner: "is_grant_active gid r" if "is_grant_active gid (fst (request_grant_inner now rid p e r))" for now rid p e
    using that unfolding request_grant_inner_def
    by (rule and_then_active [OF assms(1), rotated]) (auto simp: Let_def record_audit_def is_grant_active_def split: sum.splits)
  have reload: "grants_decay (gr_grants r) (gr_grants (on_policy_reload gen dig ttl acts r))" for gen dig ttl acts
    using fail_closed_all_decay [OF wf] by (simp add: on_policy_reload_def)
  have rest: "is_grant_active gid r" if "grants_decay (gr_grants r) (gr_grants (fst (grant_step hex r x)))"
    using that assms(3) by (rule decay_active)
  show ?thesis
  proof (cases x)
    case (GApprove now now' g rid)
    with assms show ?thesis by (auto intro: approve_grant_other)
  next
    case (GRequest now rid p)
    with assms(3) show ?thesis by (auto simp: request_grant_def intro: inner)
  next
    case (GRequestDynamic now rid p)
    with assms(3) show ?thesis by (auto simp: request_dynamic_grant_def intro: inner)
  next
    case GRestart
    with assms(3) show ?thesis by (simp add: on_daemon_restart_def is_grant_active_def)
  next
    case (GCancelRequest rid)
    with wf show ?thesis by (intro rest) (simp add: cancel_request_def split: option.split)
  next
    case (GConsume cid)
    with wf show ?thesis by (intro rest) (simp add: consume_claim_eq split: option.split)
  qed (auto intro!: rest simp: wf reload revoke_grant_decay on_principal_exit_decay check_expired_decay
      claim_for_authorize_decay [OF assms(1)] cancel_claim_def cancel_claims_for_session_def cancel_claims_for_grant_def)
qed

section \<open>Properties\<close>

text \<open>Example data for the witnesses.\<close>

definition gex_params :: grant_request_params where
  "gex_params = \<lparr>grp_profile_id = ProfileId ''p'', grp_session_id = PrincipalSessionId ''s'',
     grp_endpoint_id = EndpointId ''e'', grp_principal_digest = [1], grp_rp_ids = [''A.b''],
     grp_credentials = [CredentialRef [3]], grp_requested_ttl_secs = 60\<rparr>"

definition gex_intent :: claim_intent where
  "gex_intent = \<lparr>cl_action = ''authenticate'', cl_rp_id = ''A.b'', cl_credential_ref = CredentialRef [3]\<rparr>"

definition gex_new :: grant_registry where
  "gex_new = grant_registry_new (PolicyGenerationId ''g'') (PolicyDigest [2]) 100 [''authenticate''] 2 None"

definition gex_ops :: "grant_op list" where
  "gex_ops =
     [GRequest 5 (GrantRequestId ''q'') gex_params, GApprove 5 5 (GrantId ''G'') (GrantRequestId ''q''),
      GClaim 6 6 (CeremonyId ''c'') (GrantId ''G'') (PrincipalSessionId ''s'') gex_intent, GConsume (CeremonyId ''c'')]"

abbreviation gex_hex :: "bytes \<Rightarrow> string" where "gex_hex \<equiv> \<lambda>bs. map byte_char bs"

text \<open>The states of the registry after the first calls of the example.\<close>

definition gex_request :: "bool \<Rightarrow> grant_id option \<Rightarrow> grant_request" where
  "gex_request res gid = \<lparr>rq_profile_id = ProfileId ''p'', rq_session_id = PrincipalSessionId ''s'',
     rq_endpoint_id = EndpointId ''e'', rq_principal_digest = [1], rq_rp_ids = [''A.b''],
     rq_credentials = [CredentialRef [3]], rq_requested_ttl_secs = 60, rq_allow_empty_credentials = False,
     rq_resolved = res, rq_resolved_grant_id = gid\<rparr>"

definition gex_grant :: "grant_state \<Rightarrow> grant" where
  "gex_grant st = \<lparr>g_id = GrantId ''G'', g_profile_id = ProfileId ''p'', g_session_id = PrincipalSessionId ''s'',
     g_endpoint_id = EndpointId ''e'', g_principal_digest = [1], g_policy_generation = PolicyGenerationId ''g'',
     g_policy_digest = PolicyDigest [2], g_rp_ids = [''a.b''], g_credentials = CredentialSet [CredentialRef [3]],
     g_issued_at_mono = 5, g_expiry_mono = 65, g_state = to_atomic st\<rparr>"

definition gex_requested :: grant_registry where
  "gex_requested = gex_new\<lparr>gr_last_seen_mono := 5, gr_pending_requests := [(GrantRequestId ''q'', gex_request False None)]\<rparr>"

definition gex_approved :: grant_registry where
  "gex_approved = gex_new\<lparr>gr_last_seen_mono := 5, gr_grants := [(GrantId ''G'', gex_grant Active)],
     gr_pending_requests := [(GrantRequestId ''q'', gex_request True (Some (GrantId ''G'')))]\<rparr>"

definition gex_claimed :: grant_registry where
  "gex_claimed = gex_approved\<lparr>gr_last_seen_mono := 6,
     gr_claims := [(CeremonyId ''c'', claim_new (CeremonyId ''c'') (GrantId ''G'') (gex_intent\<lparr>cl_rp_id := ''a.b''\<rparr>))]\<rparr>"

lemma gex_scope: "validate_rp_ids [''A.b''] = Ok [''a.b'']" "normalize_rp_id ''A.b'' = Ok ''a.b''"
  by (simp_all add: validate_rp_ids_def MAX_RP_IDS_PER_GRANT_def normalize_scope_rp_id_def normalize_rp_id_def Let_def
      ANY_RP_ID_def MAX_RP_ID_LEN_def insort_insert_key_def)

lemma gex_credentials: "request_credentials e [CredentialRef [3]] = Ok (CredentialSet [CredentialRef [3]])"
  by (simp add: request_credentials_def cs_new_def MAX_CREDENTIALS_PER_GRANT_def)

lemma gex_contains: "cs_contains (CredentialSet [CredentialRef [3]]) (CredentialRef [3])"
  by (simp add: cs_contains_def binary_search_def bsearch_loop.simps)

lemma gex_grant_state: "grant_state_of (gex_grant st) = st"
  by (simp add: gex_grant_def grant_state_of_def)

lemma gex_request_step: "request_grant 5 (GrantRequestId ''q'') gex_params gex_new = (gex_requested, Ok (GrantRequestId ''q''))"
  by (simp add: request_grant_def request_grant_inner_def gex_params_def gex_new_def check_clock_def gex_scope
      gex_credentials grant_registry_new_def record_audit_def gex_requested_def gex_request_def hm_insert_def)

lemma gex_refusal: "approve_refusal 5 (GrantRequestId ''q'') gex_requested = None"
  by (simp add: approve_refusal_def gex_requested_def gex_new_def grant_registry_new_def hm_get_def gex_request_def
      grants_active_count_def)

lemma gex_approve_step:
  "approve_grant 5 5 (GrantId ''G'') (GrantRequestId ''q'') gex_requested = (gex_approved, Ok (GrantId ''G''))"
  by (simp add: approve_grant_def gex_requested_def gex_approved_def gex_new_def check_clock_def hm_get_def gex_scope
      gex_credentials gex_request_def gex_grant_def grants_active_count_def clamp_ttl_def MIN_TTL_SECS_def
      grant_registry_new_def record_audit_def hm_insert_def saturating_add_def to_atomic_def)

lemma gex_claim_allowed: "claim_allowed 6 6 (GrantId ''G'') (PrincipalSessionId ''s'') gex_intent gex_approved"
  by (simp add: claim_allowed_def gex_approved_def gex_intent_def gex_new_def grant_registry_new_def hm_get_def
      gex_grant_state gex_scope) (simp add: gex_grant_def rp_scope_contains_def)

lemma gex_reg_inv: "reg_inv gex_new" "reg_inv gex_requested" "reg_inv gex_approved"
proof -
  show new: "reg_inv gex_new" by (simp add: gex_new_def)
  from request_grant_inner_inv [OF new, of 5 "GrantRequestId ''q''" gex_params False] show req: "reg_inv gex_requested"
    using gex_request_step by (simp add: request_grant_def)
  from approve_grant_inv [OF req, of 5 5 "GrantId ''G''" "GrantRequestId ''q''"] show "reg_inv gex_approved"
    by (simp add: gex_approve_step)
qed

lemma gex_claim_step:
  "claim_for_authorize hex 6 6 (CeremonyId ''c'') (GrantId ''G'') (PrincipalSessionId ''s'') gex_intent gex_approved =
     (gex_claimed, Ok (CeremonyId ''c''))"
proof -
  have "add_claim 6 6 (CeremonyId ''c'') (GrantId ''G'') gex_intent gex_approved = gex_claimed"
    by (simp add: add_claim_def gex_claimed_def gex_approved_def check_expired_def gex_grant_state gex_intent_def
        gex_new_def grant_registry_new_def hm_insert_def) (simp add: gex_grant_def)
  with gex_claim_allowed show ?thesis by (simp add: claim_for_authorize_ok [OF gex_reg_inv(3)])
qed

lemma gex_consume_step:
  "snd (consume_claim_by_ceremony (CeremonyId ''c'') gex_claimed) = Ok (gex_intent\<lparr>cl_rp_id := ''a.b''\<rparr>)"
  by (simp add: consume_claim_eq gex_claimed_def hm_get_def claim_new_def)

lemma gex_trace:
  "run_trace (grant_step gex_hex) gex_new gex_ops =
     [(GRequest 5 (GrantRequestId ''q'') gex_params, GoRequest (Ok (GrantRequestId ''q''))),
      (GApprove 5 5 (GrantId ''G'') (GrantRequestId ''q''), GoGrant (Ok (GrantId ''G''))),
      (GClaim 6 6 (CeremonyId ''c'') (GrantId ''G'') (PrincipalSessionId ''s'') gex_intent, GoCeremony (Ok (CeremonyId ''c'')))] @
     (GConsume (CeremonyId ''c''), GoIntent (Ok (gex_intent\<lparr>cl_rp_id := ''a.b''\<rparr>))) # []"
  by (simp add: gex_ops_def gex_request_step gex_approve_step gex_claim_step gex_consume_step)

text \<open>Whatever operations are called on a new grant registry, at whatever clock readings and with whatever
  identifiers, it stays well formed.  In particular the number of active grants never exceeds
  \<open>max_concurrent_grants\<close>; an active grant was issued under the policy generation and digest now in
  force and lives at most \<open>max_ttl_secs\<close>; its credentials are sorted and distinct; its scope is
  normalised; and every claim carries a permitted action and a normalised relying party.\<close>

theorem grant_registry_invariant:
  "reg_inv (run_state (grant_step hex) (grant_registry_new gen dig ttl acts n sink) xs)"
  by (rule greg.inv_run) simp

text \<open>A claim authorises one ceremony: in every run, the claim of a ceremony is consumed successfully at most
  as often as a claim is requested under its identifier.\<close>

theorem claim_consumed_once:
  "length (filter (\<lambda>(x, y). uses_claim cid x y)
       (run_trace (grant_step hex) (grant_registry_new gen dig ttl acts n sink) xs))
     \<le> length (filter (claims_as cid) xs)"
proof -
  have "claim_spent cid (grant_registry_new gen dig ttl acts n sink)"
    by (simp add: claim_spent_def grant_registry_new_def)
  from greg.spent_wins_bounded [OF grant_registry_new_inv this, of hex xs] show ?thesis by simp
qed

text \<open>C21. Every consumed claim was authorised: if a run consumes the claim of a ceremony and obtains an intent,
  then an earlier call claimed exactly this intent, and in the state of that call the grant was
  active, not expired, of the calling session, and its scope covered the relying party, the
  credential and the action.\<close>

theorem consumed_claim_was_authorized:
  assumes "run_trace (grant_step hex) (grant_registry_new gen dig ttl acts n sink) xs =
      pre @ (GConsume cid, GoIntent (Ok it)) # post"
  shows "\<exists>ys zs now now' gid sid intent. map fst pre = ys @ GClaim now now' cid gid sid intent # zs \<and>
    claim_allowed now now' gid sid intent (run_state (grant_step hex) (grant_registry_new gen dig ttl acts n sink) ys) \<and>
    it = intent\<lparr>cl_rp_id := normalize (cl_rp_id intent)\<rparr>"
proof -
  let ?new = "grant_registry_new gen dig ttl acts n sink"
  let ?r = "run_state (grant_step hex) ?new (map fst pre)"
  have "GoIntent (Ok it) = snd (grant_step hex ?r (GConsume cid))" by (rule run_trace_split [OF assms])
  then obtain c where "hm_get (gr_claims ?r) cid = Some c" and "ac_intent c = it"
    by (auto simp: consume_claim_eq split: option.splits if_splits)
  moreover have "gr_claims ?new = []" by (simp add: grant_registry_new_def)
  ultimately show ?thesis
    using claim_provenance [OF grant_registry_new_inv, of gen dig ttl acts n sink hex "map fst pre" cid c] by auto
qed

theorem consumed_claim_was_authorized_witness:
  "\<exists>ys zs now now' gid sid intent.
    take 3 gex_ops = ys @ GClaim now now' (CeremonyId ''c'') gid sid intent # zs \<and>
    claim_allowed now now' gid sid intent (run_state (grant_step gex_hex) gex_new ys) \<and>
    gex_intent\<lparr>cl_rp_id := ''a.b''\<rparr> = intent\<lparr>cl_rp_id := normalize (cl_rp_id intent)\<rparr>"
  using consumed_claim_was_authorized [OF gex_trace [unfolded gex_new_def]] by (simp add: gex_new_def gex_ops_def)

text \<open>\<open>claim_for_authorize\<close> decides exactly the documented conditions: it succeeds if and only if the clock has
  not gone backwards and the grant is active, unexpired, of this session and covers the
  relying party, the credential (found by binary search) and the action; it then stores one
  unconsumed claim with the normalised relying party.\<close>

theorem claim_for_authorize_iff:
  assumes "reg_inv r"
  shows "claim_for_authorize hex now_check now cid gid sid intent r = (r', Ok c) \<longleftrightarrow>
    claim_allowed now_check now gid sid intent r \<and> c = cid \<and> r' = add_claim now_check now cid gid intent r"
  by (rule claim_for_authorize_ok [OF assms])

theorem claim_for_authorize_iff_witness:
  "claim_for_authorize gex_hex 6 6 (CeremonyId ''c'') (GrantId ''G'') (PrincipalSessionId ''s'') gex_intent gex_approved =
     (add_claim 6 6 (CeremonyId ''c'') (GrantId ''G'') gex_intent gex_approved, Ok (CeremonyId ''c''))"
  using gex_claim_allowed by (subst claim_for_authorize_iff [OF gex_reg_inv(3)]) blast

text \<open>An administrator's approval either is refused, for one of four reasons and with no other effect than the
  clock check, or issues an active grant that copies the request and expires after the requested
  time to live.  The second validation of the stored request never fails.\<close>

theorem approve_grant_spec:
  assumes "reg_inv r"
  shows "case approve_refusal now_check rid r of
      Some e \<Rightarrow> approve_grant now_check now gid rid r = (fst (check_clock now_check r), Err e)
    | None \<Rightarrow> (\<exists>q rps. hm_get (gr_pending_requests r) rid = Some q \<and> validate_rp_ids (rq_rp_ids q) = Ok rps \<and>
        approve_grant now_check now gid rid r =
          (record_audit (GrantApproved gid (rq_profile_id q) (rq_requested_ttl_secs q))
            (r\<lparr>gr_last_seen_mono := now_check, gr_grants := hm_insert gid (granted r now gid q rps) (gr_grants r),
               gr_pending_requests := hm_insert rid (q\<lparr>rq_resolved := True, rq_resolved_grant_id := Some gid\<rparr>)
                 (gr_pending_requests r)\<rparr>), Ok gid))"
proof (cases "approve_refusal now_check rid r")
  case None
  with assms show ?thesis by (elim approve_granted [of r now_check rid now gid]) auto
next
  case (Some e)
  then show ?thesis by (simp add: approve_refused)
qed

theorem approve_grant_spec_witness:
  "\<exists>q rps. hm_get (gr_pending_requests gex_requested) (GrantRequestId ''q'') = Some q \<and>
     snd (approve_grant 5 5 (GrantId ''G'') (GrantRequestId ''q'') gex_requested) = Ok (GrantId ''G'')"
  using approve_grant_spec [where now_check = 5 and now = 5 and rid = "GrantRequestId ''q''" and gid = "GrantId ''G''", OF gex_reg_inv(2)]
  by (auto simp: gex_refusal)

text \<open>No grant is revived: as long as no request is approved under its identifier, a grant that is not active
  stays inactive, whatever else is called.\<close>

theorem inactive_grant_stays_inactive:
  assumes "reg_inv r" and "list_all (\<lambda>x. \<not> approves_as gid x) xs" and "\<not> is_grant_active gid r"
  shows "\<not> is_grant_active gid (run_state (grant_step hex) r xs)"
  using assms
proof (induction xs arbitrary: r)
  case Nil
  then show ?case by simp
next
  case (Cons x xs)
  with grant_step_active [of r gid x hex] grant_step_inv [of r hex x] show ?case by auto
qed

theorem inactive_grant_stays_inactive_witness:
  "\<not> is_grant_active (GrantId ''G'')
     (run_state (grant_step gex_hex) (fst (revoke_grant (GrantId ''G'') gex_approved)) (drop 2 gex_ops))"
proof (rule inactive_grant_stays_inactive)
  show "reg_inv (fst (revoke_grant (GrantId ''G'') gex_approved))" by (intro revoke_grant_inv gex_reg_inv)
  show "list_all (\<lambda>x. \<not> approves_as (GrantId ''G'') x) (drop 2 gex_ops)" by (simp add: gex_ops_def)
  show "\<not> is_grant_active (GrantId ''G'') (fst (revoke_grant (GrantId ''G'') gex_approved))"
    by (simp add: revoke_grant_eq is_grant_active_def gex_approved_def hm_get_def gex_grant_state hm_insert_def)
      (simp add: grant_state_of_def)
qed

lemma on_principal_exit_get:
  "hm_get (gr_grants (on_principal_exit sid r)) k =
     map_option (\<lambda>g. if g_session_id g = sid \<and> grant_state_of g = Active then g\<lparr>g_state := to_atomic Revoked\<rparr> else g)
       (hm_get (gr_grants r) k)"
  using auth.leave_get [of sid r k] by (simp add: grant_state_of_def)

lemma on_principal_exit_claim:
  assumes "reg_inv r" and "hm_get (gr_claims r) cid = Some c" and "hm_get (gr_grants r) (ac_grant_id c) = Some g"
  shows "hm_get (gr_claims (on_principal_exit sid r)) cid = Some c"
proof -
  let ?keep = "\<lambda>c. case hm_get (gr_grants (on_principal_exit sid r)) (ac_grant_id c) of
      None \<Rightarrow> False | Some g \<Rightarrow> g_session_id g \<noteq> sid \<or> grant_state_of g \<noteq> Active"
  have "gr_claims (on_principal_exit sid r) = hm_retain ?keep (gr_claims r)"
    by (simp add: on_principal_exit_def Let_def)
  moreover have "?keep c"
    using assms(3) by (simp add: on_principal_exit_get) (simp add: grant_state_of_def)
  ultimately show ?thesis
    using assms(2) hm_all_wf [OF reg_invD(4) [OF assms(1)]] by (simp add: hm_get_retain)
qed

text \<open>What the exit of a session does to the registry: the active grants left are exactly the active grants of
  other sessions; but every claim whose grant is in the registry is kept, the claims of the
  exiting session included, because the grants are revoked before the claims are filtered for
  active grants.  Such a claim can still be consumed.\<close>

theorem principal_exit_keeps_claims:
  assumes "reg_inv r"
  shows "(hm_get (gr_grants (on_principal_exit sid r)) gid = Some g \<and> grant_state_of g = Active \<longleftrightarrow>
      hm_get (gr_grants r) gid = Some g \<and> grant_state_of g = Active \<and> g_session_id g \<noteq> sid) \<and>
    (hm_get (gr_claims r) cid = Some c \<and> hm_get (gr_grants r) (ac_grant_id c) = Some g \<longrightarrow>
      hm_get (gr_claims (on_principal_exit sid r)) cid = Some c \<and>
      snd (consume_claim_by_ceremony cid (on_principal_exit sid r)) = snd (consume_claim_by_ceremony cid r))"
proof (intro conjI impI)
  show "hm_get (gr_grants (on_principal_exit sid r)) gid = Some g \<and> grant_state_of g = Active \<longleftrightarrow>
      hm_get (gr_grants r) gid = Some g \<and> grant_state_of g = Active \<and> g_session_id g \<noteq> sid"
    (is "?after \<longleftrightarrow> ?before")
  proof
    show "?after \<Longrightarrow> ?before" using auth.leave_none_active [of sid r gid g] by (simp add: grant_state_of_def)
    show "?before \<Longrightarrow> ?after" by (simp add: on_principal_exit_get)
  qed
  assume c: "hm_get (gr_claims r) cid = Some c \<and> hm_get (gr_grants r) (ac_grant_id c) = Some g"
  with assms show kept: "hm_get (gr_claims (on_principal_exit sid r)) cid = Some c"
    by (auto intro: on_principal_exit_claim)
  from c kept show "snd (consume_claim_by_ceremony cid (on_principal_exit sid r)) = snd (consume_claim_by_ceremony cid r)"
    by (simp add: consume_claim_eq)
qed

lemma gex_claimed_inv: "reg_inv gex_claimed"
  using claim_for_authorize_inv [OF gex_reg_inv(3), of gex_hex 6 6 "CeremonyId ''c''" "GrantId ''G''" "PrincipalSessionId ''s''" gex_intent]
  by (simp add: gex_claim_step)

theorem principal_exit_keeps_claims_witness:
  "snd (consume_claim_by_ceremony (CeremonyId ''c'') (on_principal_exit (PrincipalSessionId ''s'') gex_claimed)) =
     Ok (gex_intent\<lparr>cl_rp_id := ''a.b''\<rparr>)"
proof -
  have "hm_get (gr_claims gex_claimed) (CeremonyId ''c'') =
      Some (claim_new (CeremonyId ''c'') (GrantId ''G'') (gex_intent\<lparr>cl_rp_id := ''a.b''\<rparr>))"
    and "hm_get (gr_grants gex_claimed) (GrantId ''G'') = Some (gex_grant Active)"
    by (simp_all add: gex_claimed_def gex_approved_def hm_get_def)
  then show ?thesis
    using principal_exit_keeps_claims [where sid = "PrincipalSessionId ''s''" and cid = "CeremonyId ''c''" and gid = "GrantId ''G''" and
        c = "claim_new (CeremonyId ''c'') (GrantId ''G'') (gex_intent\<lparr>cl_rp_id := ''a.b''\<rparr>)", OF gex_claimed_inv]
    by (simp add: gex_consume_step claim_new_def)
qed

end
