(* ===== verification/Registration_Grants.thy ===== *)
theory Registration_Grants
  imports Grant_Safety
begin

text \<open>
  The registry of registration grants, \<open>RegistrationGrantRegistry\<close> in
  \<open>cmd/passless/src/agent/grant.rs\<close>: a grant allows the creation of credentials for one relying party
  during a bounded time.  It obeys the same time discipline as the registry of authentication
  grants, of which it is the second instance.
\<close>

section \<open>State and operations\<close>

record registration_grant =
  rg_id :: registration_grant_id
  rg_profile_id :: profile_id
  rg_session_id :: principal_session_id
  rg_endpoint_id :: endpoint_id
  rg_principal_digest :: bytes
  rg_rp_id :: string
  rg_issued_at_mono :: u64
  rg_expiry_mono :: u64
  rg_state :: u8

record registration_grant_snapshot =
  rgs_grant_id :: registration_grant_id
  rgs_profile_id :: profile_id
  rgs_rp_id :: string
  rgs_state :: grant_state
  rgs_issued_at_mono :: u64
  rgs_expiry_mono :: u64

record registration_grant_registry =
  rr_grants :: "(registration_grant_id, registration_grant) hashmap"
  rr_max_ttl_secs :: u64
  rr_last_seen_mono :: u64

definition rg_state_of :: "registration_grant \<Rightarrow> grant_state" where
  "rg_state_of g = cell_state (rg_state g)"

definition rg_try_transition :: "grant_state \<Rightarrow> grant_state \<Rightarrow> registration_grant \<Rightarrow> registration_grant \<times> bool" where
  "rg_try_transition from to g =
     (case cell_transition from to (rg_state g) of (v, ok) \<Rightarrow> (g\<lparr>rg_state := v\<rparr>, ok))"

definition rr_new :: "u64 \<Rightarrow> registration_grant_registry" where
  "rr_new max_ttl = \<lparr>rr_grants = [], rr_max_ttl_secs = max_ttl, rr_last_seen_mono = 0\<rparr>"

definition rr_fail_closed_all :: "registration_grant_registry \<Rightarrow> registration_grant_registry" where
  "rr_fail_closed_all r =
     r\<lparr>rr_grants := hm_map (\<lambda>g. if rg_state_of g = Active then fst (rg_try_transition Active Revoked g) else g) (rr_grants r)\<rparr>"

definition rr_check_clock ::
    "u64 \<Rightarrow> registration_grant_registry \<Rightarrow> registration_grant_registry \<times> (grant_error + unit)" where
  "rr_check_clock now r =
     (if now < rr_last_seen_mono r then (rr_fail_closed_all r, Err ClockAmbiguity)
      else (r\<lparr>rr_last_seen_mono := now\<rparr>, Ok ()))"

definition request_registration ::
    "u64 \<Rightarrow> u64 \<Rightarrow> registration_grant_id \<Rightarrow> profile_id \<Rightarrow> principal_session_id \<Rightarrow> endpoint_id \<Rightarrow> bytes \<Rightarrow> string \<Rightarrow> u64 \<Rightarrow>
     registration_grant_registry \<Rightarrow> registration_grant_registry \<times> (grant_error + registration_grant_id)" where
  "request_registration now_check now gid pid sid eid digest rp_id ttl_secs r0 =
     and_then (rr_check_clock now_check r0) (\<lambda>r _.
       case normalize_rp_id rp_id of
         Inl e \<Rightarrow> (r, Err e)
       | Inr normalized_rp \<Rightarrow>
           if ttl_secs = 0 then (r, Err TtlZero)
           else if rr_max_ttl_secs r < ttl_secs then (r, Err (TtlExceedsProfileMax ttl_secs (rr_max_ttl_secs r)))
           else
             (let ttl = clamp_ttl ttl_secs (rr_max_ttl_secs r);
                  grant =
                    \<lparr>rg_id = gid, rg_profile_id = pid, rg_session_id = sid, rg_endpoint_id = eid,
                     rg_principal_digest = digest, rg_rp_id = normalized_rp, rg_issued_at_mono = now,
                     rg_expiry_mono = saturating_add now ttl, rg_state = GRANT_STATE_ACTIVE\<rparr>
              in (r\<lparr>rr_grants := hm_insert gid grant (rr_grants r)\<rparr>, Ok gid)))"

definition rg_snapshot_of :: "registration_grant \<Rightarrow> registration_grant_snapshot" where
  "rg_snapshot_of g =
     \<lparr>rgs_grant_id = rg_id g, rgs_profile_id = rg_profile_id g, rgs_rp_id = rg_rp_id g,
      rgs_state = rg_state_of g, rgs_issued_at_mono = rg_issued_at_mono g, rgs_expiry_mono = rg_expiry_mono g\<rparr>"

definition resolve_registration_grant ::
    "u64 \<Rightarrow> registration_grant_id \<Rightarrow> string \<Rightarrow> registration_grant_registry \<Rightarrow> registration_grant_snapshot option" where
  "resolve_registration_grant now gid rp_id r =
     (case hm_get (rr_grants r) gid of
        None \<Rightarrow> None
      | Some g \<Rightarrow>
          (case normalize_rp_id rp_id of
             Inl _ \<Rightarrow> None
           | Inr normalized_rp \<Rightarrow>
               if rg_state_of g \<noteq> Active then None
               else if rg_expiry_mono g \<le> now then None
               else if rg_rp_id g \<noteq> normalized_rp then None
               else Some (rg_snapshot_of g)))"

definition revoke_registration ::
    "registration_grant_id \<Rightarrow> registration_grant_registry \<Rightarrow> registration_grant_registry \<times> (grant_error + unit)" where
  "revoke_registration gid r =
     (case hm_get (rr_grants r) gid of
        None \<Rightarrow> (r, Err (RegistrationGrantNotFound gid))
      | Some g \<Rightarrow>
          if rg_state_of g \<noteq> Active then (r, Err (RegistrationGrantNotActive gid))
          else
            (case rg_try_transition Active Revoked g of
               (g', ok) \<Rightarrow>
                 (r\<lparr>rr_grants := hm_insert gid g' (rr_grants r)\<rparr>,
                  if ok then Ok () else Err (RegistrationGrantNotActive gid))))"

definition rr_check_expired ::
    "u64 \<Rightarrow> registration_grant_registry \<Rightarrow> registration_grant_registry \<times> registration_grant_id list" where
  "rr_check_expired now r =
     (let expired = map fst (filter (\<lambda>(k, g). rg_state_of g = Active \<and> rg_expiry_mono g \<le> now) (rr_grants r));
          gs = fold (hm_update (\<lambda>g. fst (rg_try_transition Active Expired g))) expired (rr_grants r)
      in (r\<lparr>rr_grants := gs\<rparr>, expired))"

definition rr_on_principal_exit ::
    "principal_session_id \<Rightarrow> registration_grant_registry \<Rightarrow> registration_grant_registry" where
  "rr_on_principal_exit sid r =
     r\<lparr>rr_grants := hm_map (\<lambda>g. if rg_session_id g = sid \<and> rg_state_of g = Active
        then fst (rg_try_transition Active Revoked g) else g) (rr_grants r)\<rparr>"

definition rr_on_daemon_restart :: "registration_grant_registry \<Rightarrow> registration_grant_registry" where
  "rr_on_daemon_restart r = r\<lparr>rr_grants := [], rr_last_seen_mono := 0\<rparr>"

definition rr_grant_count :: "registration_grant_registry \<Rightarrow> nat" where
  "rr_grant_count r = length (rr_grants r)"

definition rr_active_count :: "registration_grant_registry \<Rightarrow> nat" where
  "rr_active_count r = hm_count (\<lambda>g. rg_state_of g = Active) (rr_grants r)"

definition rr_list_all_snapshots :: "registration_grant_registry \<Rightarrow> registration_grant_snapshot list" where
  "rr_list_all_snapshots r = map rg_snapshot_of (hm_values (rr_grants r))"

section \<open>The operations as one alphabet\<close>

datatype registration_op =
    RRequest u64 u64 registration_grant_id profile_id principal_session_id endpoint_id bytes string u64
  | RRevoke registration_grant_id
  | RCheckExpired u64
  | RExit principal_session_id
  | RRestart

datatype registration_out =
    RoGrant "grant_error + registration_grant_id"
  | RoUnit "grant_error + unit"
  | RoExpired "registration_grant_id list"
  | RoNone

fun registration_step ::
    "registration_grant_registry \<Rightarrow> registration_op \<Rightarrow> registration_grant_registry \<times> registration_out" where
  "registration_step r (RRequest now_check now gid pid sid eid digest rp ttl) =
     apsnd RoGrant (request_registration now_check now gid pid sid eid digest rp ttl r)"
| "registration_step r (RRevoke gid) = apsnd RoUnit (revoke_registration gid r)"
| "registration_step r (RCheckExpired now) = apsnd RoExpired (rr_check_expired now r)"
| "registration_step r (RExit sid) = (rr_on_principal_exit sid r, RoNone)"
| "registration_step r RRestart = (rr_on_daemon_restart r, RoNone)"

section \<open>The contract\<close>

lemma rg_active_transition:
  "rg_state_of g = Active \<Longrightarrow> rg_try_transition Active st g = (g\<lparr>rg_state := to_atomic st\<rparr>, True)"
  by (simp add: rg_try_transition_def rg_state_of_def cell_transition_Active)

interpretation reg: expiring_registry "\<lambda>r. hm_wf (rr_grants r)" "\<lambda>r. hm_get (rr_grants r)" rg_state
  "\<lambda>c g. g\<lparr>rg_state := c\<rparr>" rg_expiry_mono rg_session_id rr_last_seen_mono rr_fail_closed_all rr_check_clock
  rr_check_expired rr_on_principal_exit
proof unfold_locales
  fix r :: registration_grant_registry and k
  show "hm_get (rr_grants (rr_fail_closed_all r)) k =
      map_option (\<lambda>g. if cell_state (rg_state g) = Active then g\<lparr>rg_state := to_atomic Revoked\<rparr> else g) (hm_get (rr_grants r) k)"
    by (auto simp: rr_fail_closed_all_def rg_active_transition rg_state_of_def [symmetric] intro!: option.map_cong)
next
  fix r :: registration_grant_registry and k now
  assume "hm_wf (rr_grants r)"
  then show "hm_get (rr_grants (fst (rr_check_expired now r))) k =
      map_option (\<lambda>g. if cell_state (rg_state g) = Active \<and> rg_expiry_mono g \<le> now
        then g\<lparr>rg_state := to_atomic Expired\<rparr> else g) (hm_get (rr_grants r) k)"
    by (auto simp: rr_check_expired_def Let_def hm_get_update_where rg_active_transition rg_state_of_def [symmetric]
        intro!: option.map_cong)
next
  fix r :: registration_grant_registry and k now
  assume "hm_wf (rr_grants r)"
  from hm_keys_where(2) [OF this] show "k \<in> set (snd (rr_check_expired now r)) \<longleftrightarrow>
      (\<exists>g. hm_get (rr_grants r) k = Some g \<and> cell_state (rg_state g) = Active \<and> rg_expiry_mono g \<le> now)"
    by (simp add: rr_check_expired_def Let_def rg_state_of_def)
next
  fix r :: registration_grant_registry and k sid
  show "hm_get (rr_grants (rr_on_principal_exit sid r)) k =
      map_option (\<lambda>g. if rg_session_id g = sid \<and> cell_state (rg_state g) = Active
        then g\<lparr>rg_state := to_atomic Revoked\<rparr> else g) (hm_get (rr_grants r) k)"
    by (auto simp: rr_on_principal_exit_def rg_active_transition rg_state_of_def [symmetric] intro!: option.map_cong)
qed (simp_all add: rr_check_clock_def)

lemma request_registration_ok:
  "request_registration now_check now gid pid sid eid digest rp_id ttl r = (r', Ok a) \<longleftrightarrow>
     rr_last_seen_mono r \<le> now_check \<and> is_ok (normalize_rp_id rp_id) \<and> ttl \<noteq> 0 \<and> ttl \<le> rr_max_ttl_secs r \<and> a = gid \<and>
     r' = r\<lparr>rr_last_seen_mono := now_check, rr_grants := hm_insert gid
       \<lparr>rg_id = gid, rg_profile_id = pid, rg_session_id = sid, rg_endpoint_id = eid, rg_principal_digest = digest,
        rg_rp_id = normalize rp_id, rg_issued_at_mono = now, rg_expiry_mono = saturating_add now ttl,
        rg_state = to_atomic Active\<rparr> (rr_grants r)\<rparr>"
  (is "?lhs \<longleftrightarrow> ?rhs")
proof (cases "normalize_rp_id rp_id")
  case (Inl e)
  then show ?thesis by (auto simp: request_registration_def rr_check_clock_def)
next
  case (Inr rp)
  then have rp: "rp = normalize rp_id" by (simp add: normalize_rp_id_ok)
  have "clamp_ttl ttl (rr_max_ttl_secs r) = ttl" if "ttl \<noteq> 0" "ttl \<le> rr_max_ttl_secs r"
    using that by (rule clamp_ttl_id)
  with Inr show ?thesis
    by (auto simp: request_registration_def rr_check_clock_def Let_def rp to_atomic_def not_less)
qed

lemma request_registration_err:
  "request_registration now_check now gid pid sid eid digest rp_id ttl r = (r', Err e) \<Longrightarrow>
     r' = fst (rr_check_clock now_check r)"
  by (auto simp: request_registration_def rr_check_clock_def Let_def split: sum.splits if_splits)

lemma revoke_registration_eq:
  "revoke_registration gid r =
     (case hm_get (rr_grants r) gid of
        None \<Rightarrow> (r, Err (RegistrationGrantNotFound gid))
      | Some g \<Rightarrow>
          if rg_state_of g \<noteq> Active then (r, Err (RegistrationGrantNotActive gid))
          else (r\<lparr>rr_grants := hm_insert gid (g\<lparr>rg_state := to_atomic Revoked\<rparr>) (rr_grants r)\<rparr>, Ok ()))"
  by (simp add: revoke_registration_def rg_active_transition split: option.split)

section \<open>Runs\<close>

definition registration_inv :: "u64 \<Rightarrow> registration_grant_registry \<Rightarrow> bool" where
  "registration_inv max_ttl r = (hm_wf (rr_grants r) \<and> rr_max_ttl_secs r = max_ttl)"

lemma rr_check_clock_frame:
  "hm_wf (rr_grants (fst (rr_check_clock now r))) = hm_wf (rr_grants r)"
  "rr_max_ttl_secs (fst (rr_check_clock now r)) = rr_max_ttl_secs r"
  by (simp_all add: rr_check_clock_def rr_fail_closed_all_def)

lemma registration_step_inv:
  assumes "registration_inv m r"
  shows "registration_inv m (fst (registration_step r x))"
proof (cases x)
  case (RRequest now_check now gid pid sid eid digest rp ttl)
  show ?thesis
  proof (cases "request_registration now_check now gid pid sid eid digest rp ttl r")
    case (Pair r' res)
    show ?thesis
    proof (cases res)
      case (Inl e)
      with Pair have "r' = fst (rr_check_clock now_check r)" by (auto dest: request_registration_err)
      with Pair RRequest assms show ?thesis by (simp add: registration_inv_def rr_check_clock_frame)
    next
      case (Inr a)
      with Pair have "hm_wf (rr_grants r) \<Longrightarrow> hm_wf (rr_grants r')" "rr_max_ttl_secs r' = rr_max_ttl_secs r"
        by (simp_all add: request_registration_ok)
      with Pair RRequest assms show ?thesis by (simp add: registration_inv_def)
    qed
  qed
qed (use assms in \<open>auto simp: registration_inv_def revoke_registration_eq rr_check_expired_def Let_def rr_on_principal_exit_def
      rr_on_daemon_restart_def split: option.split\<close>)

interpretation regrun: automaton_inv registration_step "registration_inv m" for m
  by unfold_locales (rule registration_step_inv)

text \<open>One call: a grant that is active afterwards was active before and the call was neither its revocation nor the
  exit of its session, or the call issued it.\<close>

definition issued_by :: "registration_op \<Rightarrow> registration_grant \<Rightarrow> bool" where
  "issued_by x g =
     (case x of
        RRequest now_check now gid pid sid eid digest rp ttl \<Rightarrow>
          is_ok (normalize_rp_id rp) \<and> rg_id g = gid \<and> rg_session_id g = sid \<and> rg_profile_id g = pid \<and>
          rg_endpoint_id g = eid \<and> rg_rp_id g = normalize rp \<and> rg_expiry_mono g = saturating_add now ttl
      | _ \<Rightarrow> False)"

definition ends_grant :: "registration_grant \<Rightarrow> registration_op \<Rightarrow> bool" where
  "ends_grant g x = (x = RRevoke (rg_id g) \<or> x = RExit (rg_session_id g) \<or> x = RRestart)"

lemma registration_active_step:
  assumes "hm_wf (rr_grants r)" and "hm_get (rr_grants r) gid = Some g \<Longrightarrow> rg_id g = gid"
    and get: "hm_get (rr_grants (fst (registration_step r x))) gid = Some g" and act: "rg_state_of g = Active"
  shows "(issued_by x g \<and> rg_id g = gid) \<or> (hm_get (rr_grants r) gid = Some g \<and> \<not> ends_grant g x)"
proof (cases x)
  case (RRequest now_check now k pid sid eid digest rp ttl)
  show ?thesis
  proof (cases "request_registration now_check now k pid sid eid digest rp ttl r")
    case (Pair r' res)
    show ?thesis
    proof (cases res)
      case (Inl e)
      with Pair have "r' = fst (rr_check_clock now_check r)" by (auto dest: request_registration_err)
      with Pair RRequest get act have "hm_get (rr_grants r) gid = Some g"
        using reg.tick_active [of now_check r gid g] by (simp add: rg_state_of_def)
      then show ?thesis by (simp add: RRequest ends_grant_def)
    next
      case (Inr a)
      with Pair have "is_ok (normalize_rp_id rp)" and "r' = r\<lparr>rr_last_seen_mono := now_check, rr_grants := hm_insert k
       \<lparr>rg_id = k, rg_profile_id = pid, rg_session_id = sid, rg_endpoint_id = eid, rg_principal_digest = digest,
        rg_rp_id = normalize rp, rg_issued_at_mono = now, rg_expiry_mono = saturating_add now ttl,
        rg_state = to_atomic Active\<rparr> (rr_grants r)\<rparr>"
        by (simp_all add: request_registration_ok)
      with Pair RRequest get show ?thesis by (auto simp: issued_by_def ends_grant_def split: if_splits)
    qed
  qed
next
  case (RRevoke k)
  with get act have "hm_get (rr_grants r) gid = Some g \<and> k \<noteq> gid"
    by (auto simp: revoke_registration_eq rg_state_of_def split: option.splits if_splits)
  with RRevoke assms(2) show ?thesis by (auto simp: ends_grant_def)
next
  case (RCheckExpired now)
  with get act have "hm_get (rr_grants r) gid = Some g"
    using reg.expire_none_due [OF assms(1), of now gid g] by (simp add: rg_state_of_def)
  with RCheckExpired show ?thesis by (simp add: ends_grant_def)
next
  case (RExit sid)
  with get act have "hm_get (rr_grants r) gid = Some g \<and> rg_session_id g \<noteq> sid"
    using reg.leave_none_active [of sid r gid g] by (simp add: rg_state_of_def)
  with RExit show ?thesis by (auto simp: ends_grant_def)
next
  case RRestart
  with get show ?thesis by (simp add: rr_on_daemon_restart_def)
qed

lemma registration_provenance:
  assumes "hm_get (rr_grants (run_state registration_step (rr_new m) xs)) gid = Some g" and "rg_state_of g = Active"
  shows "rg_id g = gid \<and> (\<exists>ys x zs. xs = ys @ x # zs \<and> issued_by x g \<and> (\<forall>z \<in> set zs. \<not> ends_grant g z))"
  using assms(1)
proof (induction xs rule: rev_induct)
  case Nil
  then show ?case by (simp add: rr_new_def)
next
  case (snoc x xs)
  let ?r = "run_state registration_step (rr_new m) xs"
  have "registration_inv m ?r" by (rule regrun.inv_run) (simp add: registration_inv_def rr_new_def)
  then have wf: "hm_wf (rr_grants ?r)" by (simp add: registration_inv_def)
  from snoc.prems have "hm_get (rr_grants (fst (registration_step ?r x))) gid = Some g" by simp
  with registration_active_step [OF wf _ this assms(2)] snoc.IH
  consider "issued_by x g" "rg_id g = gid" | "hm_get (rr_grants ?r) gid = Some g" "\<not> ends_grant g x" by blast
  then show ?case
  proof cases
    case 1
    then show ?thesis by (intro conjI exI [of _ xs] exI [of _ x] exI [of _ "[]"]) auto
  next
    case 2
    with snoc.IH obtain ys y zs where "rg_id g = gid" "xs = ys @ y # zs" "issued_by y g" "\<forall>z \<in> set zs. \<not> ends_grant g z"
      by blast
    with 2 show ?thesis by (intro conjI exI [of _ ys] exI [of _ y] exI [of _ "zs @ [x]"]) auto
  qed
qed

section \<open>Properties\<close>

text \<open>C38. A registration grant resolves only inside its window: if, after any run of the registry, a grant resolves
  for a relying party, then an earlier request issued it for the same relying party, the time is
  before the expiry of that request, and neither its revocation, nor the exit of its session,
  nor a restart came in between.\<close>

theorem registration_grant_resolves_only_if_issued:
  assumes "resolve_registration_grant t gid rp (run_state registration_step (rr_new m) xs) = Some snap"
  shows "\<exists>ys nc now pid sid eid digest rp' ttl zs.
    xs = ys @ RRequest nc now gid pid sid eid digest rp' ttl # zs \<and> normalize rp' = normalize rp \<and>
    t < saturating_add now ttl \<and> rgs_profile_id snap = pid \<and>
    RRevoke gid \<notin> set zs \<and> RExit sid \<notin> set zs \<and> RRestart \<notin> set zs"
proof -
  let ?r = "run_state registration_step (rr_new m) xs"
  from assms obtain g where g: "hm_get (rr_grants ?r) gid = Some g" and act: "rg_state_of g = Active"
    and t: "t < rg_expiry_mono g" and rp: "normalize_rp_id rp = Ok (rg_rp_id g)" and snap: "snap = rg_snapshot_of g"
    by (auto simp: resolve_registration_grant_def split: option.splits sum.splits if_splits)
  from registration_provenance [OF g act] obtain ys x zs
    where x: "rg_id g = gid" "xs = ys @ x # zs" "issued_by x g" "\<forall>z \<in> set zs. \<not> ends_grant g z" by blast
  then obtain nc now pid sid eid digest rp' ttl where "x = RRequest nc now gid pid sid eid digest rp' ttl"
    by (cases x) (auto simp: issued_by_def)
  moreover from rp have "rg_rp_id g = normalize rp" by (simp add: normalize_rp_id_ok)
  ultimately show ?thesis
    using x t snap by (fastforce simp: issued_by_def ends_grant_def rg_snapshot_of_def)
qed

definition rex_ops :: "registration_op list" where
  "rex_ops = [RRequest 5 5 (RegistrationGrantId ''R'') (ProfileId ''p'') (PrincipalSessionId ''s'') (EndpointId ''e'') [1] ''A.b'' 60]"

lemma rex_resolve:
  "resolve_registration_grant 64 (RegistrationGrantId ''R'') ''a.b'' (run_state registration_step (rr_new 100) rex_ops) =
     Some \<lparr>rgs_grant_id = RegistrationGrantId ''R'', rgs_profile_id = ProfileId ''p'', rgs_rp_id = ''a.b'',
       rgs_state = Active, rgs_issued_at_mono = 5, rgs_expiry_mono = 65\<rparr>"
  by (simp add: rex_ops_def request_registration_def rr_check_clock_def rr_new_def normalize_rp_id_def Let_def MAX_RP_ID_LEN_def
      clamp_ttl_def MIN_TTL_SECS_def hm_insert_def resolve_registration_grant_def hm_get_def rg_state_of_def cell_state_def
      from_atomic_def saturating_add_def rg_snapshot_of_def)

theorem registration_grant_resolves_only_if_issued_witness:
  "\<exists>ys nc now pid sid eid digest rp' ttl zs.
    rex_ops = ys @ RRequest nc now (RegistrationGrantId ''R'') pid sid eid digest rp' ttl # zs \<and>
    normalize rp' = normalize ''a.b'' \<and> 64 < saturating_add now ttl \<and> pid = ProfileId ''p''"
  using registration_grant_resolves_only_if_issued [OF rex_resolve] by simp blast

text \<open>Both registries fail closed when the clock goes backwards: every operation that reads the clock first
  answers \<open>ClockAmbiguity\<close>, and afterwards no grant of the registry is active.\<close>

theorem clock_backwards_fails_closed:
  assumes "now < gr_last_seen_mono r" and "now < rr_last_seen_mono rr"
  shows "request_grant_inner now rid p e r = (fail_closed_all r, Err ClockAmbiguity) \<and>
    approve_grant now now' gid rid r = (fail_closed_all r, Err ClockAmbiguity) \<and>
    claim_for_authorize hex now now' cid gid sid intent r = (fail_closed_all r, Err ClockAmbiguity) \<and>
    \<not> is_grant_active gid (fail_closed_all r) \<and>
    request_registration now now' rgid pid sid eid digest rp ttl rr = (rr_fail_closed_all rr, Err ClockAmbiguity) \<and>
    resolve_registration_grant t rgid rp (rr_fail_closed_all rr) = None"
proof -
  have "check_clock now r = (fail_closed_all r, Err ClockAmbiguity)"
    "rr_check_clock now rr = (rr_fail_closed_all rr, Err ClockAmbiguity)"
    using assms by (simp_all add: check_clock_def rr_check_clock_def)
  moreover have "\<not> is_grant_active gid (fail_closed_all r)"
    using fail_closed_all_inactive [of r gid] by (auto simp: is_grant_active_def split: option.splits)
  moreover have "resolve_registration_grant t rgid rp (rr_fail_closed_all rr) = None"
    using reg.close_inactive [of rr rgid]
    by (auto simp: resolve_registration_grant_def rg_state_of_def split: option.splits sum.splits)
  ultimately show ?thesis
    by (simp add: request_grant_inner_def approve_grant_def claim_for_authorize_def request_registration_def)
qed

theorem clock_backwards_fails_closed_witness:
  "\<not> is_grant_active (GrantId ''G'') (fail_closed_all gex_approved)"
proof -
  have "4 < gr_last_seen_mono gex_approved" "4 < rr_last_seen_mono ((rr_new 100)\<lparr>rr_last_seen_mono := 5\<rparr>)"
    by (simp_all add: gex_approved_def gex_new_def grant_registry_new_def rr_new_def)
  from clock_backwards_fails_closed [OF this] show ?thesis by blast
qed

end
