(* ===== verification/Policy_Runtime.thy ===== *)
theory Policy_Runtime
  imports Policy_Snapshots Intents Registration_Grants
begin

text \<open>
  \<open>PolicyRuntime\<close> of \<open>policy_engine.rs\<close>: the component that joins the policy generation, the intent
  store, the grant registries of the profiles, the authorisations in flight and the requests that
  wait for a human.  A method is one transition of the state.  Readings of the clocks, fresh
  identifiers and the third-party functions (public suffix list, file system, hexadecimal, SHA-256)
  are arguments.
\<close>

section \<open>State\<close>

text \<open>The functions of other crates that the engine calls.\<close>

record crates =
  cr_psl :: "bytes \<Rightarrow> bytes option"
  cr_fs :: "path \<Rightarrow> path option"
  cr_hex :: "bytes \<Rightarrow> string"
  cr_sha :: "bytes \<Rightarrow> bytes"

record authorization_handle =
  ah_ceremony_id :: ceremony_id
  ah_grant_id :: "grant_id option"
  ah_intent_id :: "intent_id option"
  ah_profile_id :: profile_id
  ah_session_id :: principal_session_id
  ah_endpoint_id :: endpoint_id
  ah_process_digest :: process_identity_digest
  ah_policy_generation :: policy_generation_id
  ah_policy_digest :: policy_digest
  ah_action :: intent_action
  ah_rp_id :: string
  ah_credential_ref :: "credential_ref option"

text \<open>\<open>PendingAuthorization\<close> has the fields of the handle and a flag.\<close>

record pending_authorization = authorization_handle +
  pa_invalidated :: bool

record authorization_request =
  ar_profile_id :: profile_id
  ar_session_id :: principal_session_id
  ar_endpoint_id :: endpoint_id
  ar_process_digest :: process_identity_digest
  ar_policy_generation_id :: policy_generation_id
  ar_policy_digest :: policy_digest
  ar_action :: intent_action
  ar_rp_id :: string
  ar_credential_ref :: "credential_ref option"
  ar_uv_enforced :: bool

datatype pending_request_kind = IsolatedIntent | DelegatedAuth

datatype pending_state = PsWaiting | PsApproved | PsDenied | PsTimedOut | PsCancelled

definition pending_is_terminal :: "pending_state \<Rightarrow> bool" where
  "pending_is_terminal st = (st \<in> {PsDenied, PsTimedOut, PsCancelled})"

definition pending_label :: "pending_state \<Rightarrow> string" where
  "pending_label st = (case st of
      PsWaiting \<Rightarrow> ''waiting'' | PsApproved \<Rightarrow> ''approved'' | PsDenied \<Rightarrow> ''denied''
    | PsTimedOut \<Rightarrow> ''timed_out'' | PsCancelled \<Rightarrow> ''cancelled'')"

record pending_request =
  pq_id :: pending_request_id
  pq_kind :: pending_request_kind
  pq_profile_id :: profile_id
  pq_session_id :: principal_session_id
  pq_endpoint_id :: endpoint_id
  pq_process_digest :: process_identity_digest
  pq_policy_generation :: policy_generation_id
  pq_policy_digest :: policy_digest
  pq_action :: intent_action
  pq_rp_id :: string
  pq_credential_ref :: "credential_ref option"
  pq_intent_id :: intent_id
  pq_grant_request_id :: "grant_request_id option"
  pq_state :: pending_state
  pq_created_at_mono :: u64
  pq_deadline_mono :: u64

record ceremony_tuple =
  ct_profile_id :: profile_id
  ct_session_id :: principal_session_id
  ct_endpoint_id :: endpoint_id
  ct_process_digest :: process_identity_digest
  ct_policy_generation :: policy_generation_id
  ct_policy_digest :: policy_digest
  ct_action :: intent_action
  ct_rp_id :: string
  ct_credential_ref :: "credential_ref option"

record bound_approval =
  ba_intent_id :: intent_id
  ba_grant_id :: "grant_id option"
  ba_profile_id :: profile_id
  ba_session_id :: principal_session_id
  ba_endpoint_id :: endpoint_id
  ba_process_digest :: process_identity_digest
  ba_policy_generation :: policy_generation_id
  ba_policy_digest :: policy_digest
  ba_action :: intent_action
  ba_rp_id :: string
  ba_credential_ref :: "credential_ref option"

definition matches_tuple :: "pending_request \<Rightarrow> ceremony_tuple \<Rightarrow> bool" where
  "matches_tuple pq t =
     (pq_profile_id pq = ct_profile_id t \<and> pq_session_id pq = ct_session_id t \<and>
      pq_endpoint_id pq = ct_endpoint_id t \<and> pq_process_digest pq = ct_process_digest t \<and>
      pq_policy_generation pq = ct_policy_generation t \<and> pq_policy_digest pq = ct_policy_digest t \<and>
      pq_action pq = ct_action t \<and> pq_rp_id pq = to_ascii_lowercase (trim (ct_rp_id t)) \<and>
      (case (ct_credential_ref t, pq_credential_ref pq) of
         (Some a, Some b) \<Rightarrow> a = b
       | (None, None) \<Rightarrow> True
       | _ \<Rightarrow> False))"

datatype pending_create_error =
    IntentCreationFailed intent_error
  | GrantRequestFailed grant_error
  | DuplicatePending
  | PcInternal string

text \<open>The two message strings of \<open>GrantFailed\<close> and the printed errors are kept as the data they show.\<close>

datatype grant_failure = MissingGrantRequestId | ProfileWithoutRegistry | ApprovalFailed grant_error

datatype ceremony_resolve_error =
    CrPendingNotFound
  | CrAmbiguousPending nat
  | CrAlreadyResolved
  | CrTimedOut
  | CrCancelled
  | CrPolicyDenied reason_code
  | CrIntentApprovalFailed intent_error
  | CrGrantFailed grant_failure
  | CrTupleMismatch
  | CrPanic

datatype pending_cancel_error = PcNotFound | PcAlreadyResolved | PcSessionMismatch
datatype pending_status_error = PsNotFound | PsSessionMismatch

record policy_runtime =
  rt_current :: generation_snapshot
  rt_intents :: intent_store
  rt_grants :: "(string, grant_registry) hashmap"
  rt_registration_grants :: "(string, registration_grant_registry) hashmap"
  rt_pending :: "(string, pending_authorization) hashmap"
  rt_pending_requests :: "(string, pending_request) hashmap"
  rt_audit_gate :: bool

text \<open>\<open>self.intents.lock()\<close> and \<open>grants_map.get_mut(key)\<close>: run an operation of the store or of one registry.\<close>

definition on_intents :: "(intent_store \<Rightarrow> intent_store \<times> 'a) \<Rightarrow> policy_runtime \<Rightarrow> policy_runtime \<times> 'a" where
  "on_intents f s = (case f (rt_intents s) of (i, a) \<Rightarrow> (s\<lparr>rt_intents := i\<rparr>, a))"

definition on_grants :: "string \<Rightarrow> (grant_registry \<Rightarrow> grant_registry \<times> 'a) \<Rightarrow> policy_runtime \<Rightarrow> policy_runtime \<times> 'a option" where
  "on_grants key f s =
     (case hm_get (rt_grants s) key of
        None \<Rightarrow> (s, None)
      | Some r \<Rightarrow> (case f r of (r', a) \<Rightarrow> (s\<lparr>rt_grants := hm_insert key r' (rt_grants s)\<rparr>, Some a)))"

definition set_pending_state :: "string \<Rightarrow> pending_state \<Rightarrow> policy_runtime \<Rightarrow> policy_runtime" where
  "set_pending_state key st s =
     s\<lparr>rt_pending_requests := hm_update (\<lambda>pq. pq\<lparr>pq_state := st\<rparr>) key (rt_pending_requests s)\<rparr>"

section \<open>Construction and reload\<close>

definition new_registries :: "bool \<Rightarrow> generation_snapshot \<Rightarrow> (string, grant_registry) hashmap" where
  "new_registries audit g =
     fold (\<lambda>snap m. hm_insert (profile_id_str (ps_profile_id snap))
       (grant_registry_new (gen_id g) (ps_digest snap) (ps_max_grant_ttl_secs snap) (ps_allowed_actions snap)
          (ps_max_concurrent_grants snap) (if audit then Some [] else None)) m) (gen_snapshots g) []"

definition runtime_new ::
    "crates \<Rightarrow> policy_generation_id \<Rightarrow> u64 \<Rightarrow> u64 \<Rightarrow> agent_config \<Rightarrow> bool \<Rightarrow> runtime_error + policy_runtime" where
  "runtime_new c gid now nonce config audit =
     res_bind (compile_generation (cr_fs c) (cr_hex c) (cr_sha c) gid config now) (\<lambda>g.
       Ok \<lparr>rt_current = g, rt_intents = with_defaults nonce, rt_grants = new_registries audit g,
           rt_registration_grants = [], rt_pending = [], rt_pending_requests = [], rt_audit_gate = audit\<rparr>)"

definition reload ::
    "crates \<Rightarrow> policy_generation_id \<Rightarrow> u64 \<Rightarrow> u64 \<Rightarrow> agent_config \<Rightarrow> policy_runtime \<Rightarrow>
     policy_runtime \<times> (runtime_error + policy_digest)" where
  "reload c gid now nonce config s =
     (case compile_generation (cr_fs c) (cr_hex c) (cr_sha c) gid config now of
        Inl e \<Rightarrow> (s, Err e)
      | Inr g \<Rightarrow>
          (s\<lparr>rt_intents := invalidate_all nonce (rt_intents s),
             rt_pending := hm_map (\<lambda>pa. pa\<lparr>pa_invalidated := True\<rparr>) (rt_pending s),
             rt_pending_requests :=
               hm_map (\<lambda>pq. if pq_state pq = PsWaiting then pq\<lparr>pq_state := PsCancelled\<rparr> else pq) (rt_pending_requests s),
             rt_grants := new_registries (rt_audit_gate s) g,
             rt_current := g\<rparr>, Ok (gen_digest g)))"

definition runtime_ceremony_policy ::
    "crates \<Rightarrow> profile_id \<Rightarrow> policy_generation_id \<Rightarrow> policy_digest \<Rightarrow> string \<Rightarrow> intent_action \<Rightarrow> policy_runtime \<Rightarrow>
     agent_ceremony_policy option" where
  "runtime_ceremony_policy c pid gid dig rp_id a s =
     (if gen_id (rt_current s) \<noteq> gid \<or> gen_digest (rt_current s) \<noteq> dig then None
      else Option.bind (find_snapshot (rt_current s) pid) (\<lambda>snap. ceremony_policy (cr_psl c) snap rp_id a))"

definition authorize_registration :: "profile_id \<Rightarrow> string \<Rightarrow> policy_runtime \<Rightarrow> outcome \<times> reason_code" where
  "authorize_registration pid rp_id s =
     (case find_snapshot (rt_current s) pid of
        None \<Rightarrow> (OutcomeDeny, RcProfileNotFound)
      | Some snap \<Rightarrow>
          if \<not> ps_registration_allowed snap then (OutcomeDeny, RcDelegatedRegistrationDenied)
          else
            (let normalized = to_ascii_lowercase (trim rp_id) in
             case find (\<lambda>rule. to_ascii_lowercase (trim (rule_rp_id rule)) = normalized) (ps_rules snap) of
               Some rule \<Rightarrow>
                 if authorization (register rule) = Deny then (OutcomeDeny, RcActionNotAllowed)
                 else (OutcomeAllow, RcAllowed)
             | None \<Rightarrow> (OutcomeDeny, RcRpIdNotExactMatch)))"

section \<open>Registration grants\<close>

definition request_registration_grant ::
    "u64 \<Rightarrow> u64 \<Rightarrow> registration_grant_id \<Rightarrow> principal_session_id \<Rightarrow> endpoint_id \<Rightarrow> profile_id \<Rightarrow> string \<Rightarrow> u64 \<Rightarrow>
     policy_runtime \<Rightarrow> policy_runtime \<times> (grant_error + registration_grant_id)" where
  "request_registration_grant now_check now gid sid eid pid rp_id ttl_secs s =
     (let key = profile_id_str pid;
          registry = (case hm_get (rt_registration_grants s) key of Some r \<Rightarrow> r | None \<Rightarrow> rr_new 300)
      in case request_registration now_check now gid pid sid eid (replicate 32 0) rp_id ttl_secs registry of
           (r', res) \<Rightarrow> (s\<lparr>rt_registration_grants := hm_insert key r' (rt_registration_grants s)\<rparr>, res))"

text \<open>\<open>Iterator::max_by_key\<close>: the last of the elements with the greatest key.\<close>

definition max_by_key :: "('a \<Rightarrow> 'b::linorder) \<Rightarrow> 'a list \<Rightarrow> 'a option" where
  "max_by_key f xs =
     fold (\<lambda>x best. case best of None \<Rightarrow> Some x | Some y \<Rightarrow> if f y \<le> f x then Some x else Some y) xs None"

definition active_registration_grant ::
    "u64 \<Rightarrow> profile_id \<Rightarrow> string \<Rightarrow> policy_runtime \<Rightarrow> registration_grant_snapshot option" where
  "active_registration_grant now pid rp_id s =
     (case normalize_rp_id rp_id of
        Inl _ \<Rightarrow> None
      | Inr normalized \<Rightarrow>
          (case hm_get (rt_registration_grants s) (profile_id_str pid) of
             None \<Rightarrow> None
           | Some r \<Rightarrow>
               max_by_key rgs_issued_at_mono
                 (filter (\<lambda>g. rgs_state g = Active \<and> rgs_rp_id g = normalized \<and> rgs_expiry_mono g > now)
                   (rr_list_all_snapshots r))))"

definition consume_registration_grant ::
    "profile_id \<Rightarrow> registration_grant_id \<Rightarrow> policy_runtime \<Rightarrow> policy_runtime \<times> (grant_error + unit)" where
  "consume_registration_grant pid gid s =
     (case hm_get (rt_registration_grants s) (profile_id_str pid) of
        None \<Rightarrow> (s, Err (RegistrationGrantNotFound gid))
      | Some r \<Rightarrow>
          (case revoke_registration gid r of
             (r', res) \<Rightarrow> (s\<lparr>rt_registration_grants := hm_insert (profile_id_str pid) r' (rt_registration_grants s)\<rparr>, res)))"

definition runtime_resolve_registration_grant ::
    "u64 \<Rightarrow> profile_id \<Rightarrow> registration_grant_id \<Rightarrow> string \<Rightarrow> policy_runtime \<Rightarrow> registration_grant_snapshot option" where
  "runtime_resolve_registration_grant now pid gid rp_id s =
     Option.bind (hm_get (rt_registration_grants s) (profile_id_str pid)) (resolve_registration_grant now gid rp_id)"

section \<open>Queries on grants\<close>

definition list_grants :: "profile_id option \<Rightarrow> policy_runtime \<Rightarrow> grant_snapshot list" where
  "list_grants profile_filter s =
     concat (map (\<lambda>(key, r).
       case profile_filter of
         Some pid \<Rightarrow> if key \<noteq> profile_id_str pid then [] else list_all_snapshots r
       | None \<Rightarrow> list_all_snapshots r) (rt_grants s))"

definition show_grant_details :: "grant_id \<Rightarrow> policy_runtime \<Rightarrow> grant_details option" where
  "show_grant_details gid s =
     Option.bind (find (\<lambda>r. find_grant_with_details gid r \<noteq> None) (hm_values (rt_grants s))) (find_grant_with_details gid)"

definition revoke_grant_by_id :: "grant_id \<Rightarrow> policy_runtime \<Rightarrow> policy_runtime \<times> (grant_error + grant_state)" where
  "revoke_grant_by_id gid s =
     (case find (\<lambda>(key, r). show_grant gid r \<noteq> None) (rt_grants s) of
        None \<Rightarrow> (s, Err (GrantNotFound gid))
      | Some (key, r) \<Rightarrow>
          (case revoke_grant gid r of (r', res) \<Rightarrow> (s\<lparr>rt_grants := hm_insert key r' (rt_grants s)\<rparr>, res)))"

definition find_grants_by_credential :: "credential_ref \<Rightarrow> policy_runtime \<Rightarrow> grant_id list" where
  "find_grants_by_credential cred s = concat (map (find_grant_id_by_credential cred) (hm_values (rt_grants s)))"

definition find_grants_by_credential_for_profile :: "profile_id \<Rightarrow> credential_ref list \<Rightarrow> policy_runtime \<Rightarrow> grant_id list" where
  "find_grants_by_credential_for_profile pid creds s =
     (case hm_get (rt_grants s) (profile_id_str pid) of
        None \<Rightarrow> []
      | Some r \<Rightarrow> concat (map (\<lambda>cred. find_grant_id_by_credential cred r) creds))"

record grant_sign_snapshot =
  sg_grant_id :: grant_id
  sg_profile_id :: profile_id
  sg_rp_ids :: "string list"
  sg_credential_refs :: "credential_ref list"
  sg_state :: grant_state
  sg_expiry_mono :: u64
  sg_is_revoked :: bool

definition registry_sign_snapshot :: "u64 \<Rightarrow> grant_id \<Rightarrow> grant_registry \<Rightarrow> grant_registry \<times> grant_sign_snapshot option" where
  "registry_sign_snapshot now gid r =
     (let r' = fst (check_expired now r) in
      (r', map_option (\<lambda>snap.
         \<lparr>sg_grant_id = gss_grant_id snap, sg_profile_id = gss_profile_id snap, sg_rp_ids = gss_rp_ids snap,
          sg_credential_refs = gss_credential_refs snap, sg_state = gss_state snap,
          sg_expiry_mono = gss_expiry_mono snap, sg_is_revoked = (gss_state snap = Revoked)\<rparr>)
         (snapshot_for_sign gid r')))"

definition resolve_grant_for_sign ::
    "u64 \<Rightarrow> profile_id \<Rightarrow> grant_id \<Rightarrow> policy_runtime \<Rightarrow> policy_runtime \<times> grant_sign_snapshot option" where
  "resolve_grant_for_sign now pid gid s =
     apsnd (\<lambda>res. Option.bind res id) (on_grants (profile_id_str pid) (registry_sign_snapshot now gid) s)"

definition active_grant_count_for_profile :: "profile_id \<Rightarrow> policy_runtime \<Rightarrow> u32" where
  "active_grant_count_for_profile pid s =
     (case hm_get (rt_grants s) (profile_id_str pid) of None \<Rightarrow> 0 | Some r \<Rightarrow> of_nat (grants_active_count r))"

definition pending_intent_count_for_profile :: "profile_id \<Rightarrow> policy_runtime \<Rightarrow> u32" where
  "pending_intent_count_for_profile pid s =
     of_nat (hm_count (\<lambda>pa. ah_profile_id pa = pid \<and> \<not> pa_invalidated pa) (rt_pending s))"

section \<open>Authorisation\<close>

definition mk_handle ::
    "ceremony_id \<Rightarrow> grant_id option \<Rightarrow> intent_id \<Rightarrow> authorization_request \<Rightarrow> string \<Rightarrow> authorization_handle" where
  "mk_handle cid gid iid req rp_id =
     \<lparr>ah_ceremony_id = cid, ah_grant_id = gid, ah_intent_id = Some iid, ah_profile_id = ar_profile_id req,
      ah_session_id = ar_session_id req, ah_endpoint_id = ar_endpoint_id req,
      ah_process_digest = ar_process_digest req, ah_policy_generation = ar_policy_generation_id req,
      ah_policy_digest = ar_policy_digest req, ah_action = ar_action req, ah_rp_id = rp_id,
      ah_credential_ref = ar_credential_ref req\<rparr>"

definition insert_pending :: "authorization_handle \<Rightarrow> policy_runtime \<Rightarrow> policy_runtime" where
  "insert_pending h s =
     s\<lparr>rt_pending := hm_insert (ceremony_id_str (ah_ceremony_id h))
         (authorization_handle.extend h \<lparr>pa_invalidated = False\<rparr>) (rt_pending s)\<rparr>"

definition request_query :: "authorization_request \<Rightarrow> profile_id \<Rightarrow> string \<Rightarrow> intent_query_params" where
  "request_query req pid rp_id =
     \<lparr>q_profile_id = pid, q_session_id = ar_session_id req, q_endpoint_id = ar_endpoint_id req,
      q_process_digest = ar_process_digest req, q_policy_generation = Some (ar_policy_generation_id req),
      q_policy_digest = ar_policy_digest req, q_action = ar_action req, q_rp_id = rp_id,
      q_credential_ref = ar_credential_ref req\<rparr>"

definition authorize_isolated ::
    "monotonic_time \<Rightarrow> ceremony_id \<Rightarrow> policy_snapshot \<Rightarrow> authorization_request \<Rightarrow> policy_runtime \<Rightarrow>
     policy_runtime \<times> decision \<times> authorization_handle option" where
  "authorize_isolated now cid snap req s =
     (case on_intents (claim_approved now (request_query req (ps_profile_id snap) (ar_rp_id req))) s of
        (s1, Inl NotFound) \<Rightarrow> (s1, decision_deny RcIntentNotFound OaRetry, None)
      | (s1, Inl _) \<Rightarrow> (s1, decision_deny RcIntentNotApproved OaRetry, None)
      | (s1, Inr iid) \<Rightarrow>
          if ps_require_uv snap \<and> \<not> ar_uv_enforced req
          then (fst (on_intents (rollback_claim iid) s1), decision_deny RcUvRequired OaVerifyUser, None)
          else
            (let h = mk_handle cid None iid (req\<lparr>ar_profile_id := ps_profile_id snap\<rparr>) (ar_rp_id req)
             in (insert_pending h s1, decision_allow RcAllowed, Some h)))"

definition authorize ::
    "crates \<Rightarrow> monotonic_time \<Rightarrow> ceremony_id \<Rightarrow> authorization_request \<Rightarrow> policy_runtime \<Rightarrow>
     policy_runtime \<times> decision \<times> authorization_handle option" where
  "authorize c now cid req s =
     (let g = rt_current s in
      if ar_policy_generation_id req \<noteq> gen_id g \<or> ar_policy_digest req \<noteq> gen_digest g
      then (s, decision_deny RcGenerationStale OaReloadPolicy, None)
      else case find_snapshot g (ar_profile_id req) of
        None \<Rightarrow> (s, decision_deny RcProfileNotFound OaContactAdmin, None)
      | Some snap \<Rightarrow>
          if ps_normalized_rp_ids snap = [] then (s, decision_deny RcEmptyRpList OaContactAdmin, None)
          else if \<not> is_rp_exact_match (cr_psl c) snap (ar_rp_id req) then
            (if is_suffix_only (cr_psl c) snap (ar_rp_id req) then (s, decision_deny RcSuffixNotExact OaRetry, None)
             else (s, decision_deny RcRpIdNotExactMatch OaRetry, None))
          else
            (case ceremony_policy (cr_psl c) snap (ar_rp_id req) (ar_action req) of
               None \<Rightarrow> (s, decision_deny RcActionNotAllowed OaNone, None)
             | Some pol \<Rightarrow>
                 if authorization pol = Deny then (s, decision_deny RcActionNotAllowed OaNone, None)
                 else if (case ar_credential_ref req of
                            Some cred \<Rightarrow> ps_credential_refs snap \<noteq> [] \<and> cred \<notin> set (ps_credential_refs snap)
                          | None \<Rightarrow> False)
                 then (s, decision_deny RcCredentialNotExactMatch OaRetry, None)
                 else if \<not> action_allowed snap (ar_action req) then (s, decision_deny RcActionNotAllowed OaNone, None)
                 else authorize_isolated now cid snap req s))"

definition invalidate_ceremony :: "string \<Rightarrow> policy_runtime \<Rightarrow> policy_runtime" where
  "invalidate_ceremony key s =
     (case hm_get (rt_pending s) key of
        None \<Rightarrow> s
      | Some pa \<Rightarrow>
          (let s1 = s\<lparr>rt_pending := hm_insert key (pa\<lparr>pa_invalidated := True\<rparr>) (rt_pending s)\<rparr>;
               s2 = (case ah_intent_id pa of Some iid \<Rightarrow> fst (on_intents (rollback_claim iid) s1) | None \<Rightarrow> s1)
           in case ah_grant_id pa of
                Some _ \<Rightarrow> fst (on_grants (profile_id_str (ah_profile_id pa)) (\<lambda>r. (cancel_claim (ah_ceremony_id pa) r, ())) s2)
              | None \<Rightarrow> s2))"

definition handle_matches :: "pending_authorization \<Rightarrow> authorization_handle \<Rightarrow> bool" where
  "handle_matches pa h =
     (\<not> pa_invalidated pa \<and> ah_grant_id pa = ah_grant_id h \<and> ah_intent_id pa = ah_intent_id h \<and>
      ah_profile_id pa = ah_profile_id h \<and> ah_session_id pa = ah_session_id h \<and>
      ah_endpoint_id pa = ah_endpoint_id h \<and> ah_process_digest pa = ah_process_digest h \<and>
      ah_policy_generation pa = ah_policy_generation h \<and> ah_policy_digest pa = ah_policy_digest h \<and>
      ah_action pa = ah_action h \<and> ah_rp_id pa = ah_rp_id h \<and> ah_credential_ref pa = ah_credential_ref h)"

text \<open>The checks on the grant of a delegated handle, before anything is consumed.\<close>

definition grant_refusal :: "authorization_handle \<Rightarrow> policy_runtime \<Rightarrow> reason_code option" where
  "grant_refusal h s =
     (case ah_grant_id h of
        None \<Rightarrow> None
      | Some gid \<Rightarrow>
          (case hm_get (rt_grants s) (profile_id_str (ah_profile_id h)) of
             None \<Rightarrow> Some RcProfileNotFound
           | Some r \<Rightarrow>
               if \<not> is_grant_active gid r then Some RcGrantRevoked
               else if gr_policy_generation r \<noteq> ah_policy_generation h then Some RcGenerationStale
               else None))"

definition consume_authorization ::
    "authorization_handle \<Rightarrow> policy_runtime \<Rightarrow> policy_runtime \<times> (reason_code + intent_consume_info)" where
  "consume_authorization h s =
     (let key = ceremony_id_str (ah_ceremony_id h) in
      if \<not> (case hm_get (rt_pending s) key of Some pa \<Rightarrow> handle_matches pa h | None \<Rightarrow> False)
      then (s, Err RcCeremonyInvalidated)
      else if ah_policy_generation h \<noteq> gen_id (rt_current s) \<or> ah_policy_digest h \<noteq> gen_digest (rt_current s)
      then (invalidate_ceremony key s, Err RcGenerationStale)
      else case grant_refusal h s of
        Some reason \<Rightarrow> (invalidate_ceremony key s, Err reason)
      | None \<Rightarrow>
          (case ah_intent_id h of
             None \<Rightarrow> (s, Err RcIntentNotFound)
           | Some iid \<Rightarrow>
               (case on_intents (consume_claimed iid) s of
                  (s1, Inl (InvalidTransition _ _)) \<Rightarrow> (s1, Err RcIntentConsumed)
                | (s1, Inl NotFound) \<Rightarrow> (s1, Err RcIntentNotFound)
                | (s1, Inl _) \<Rightarrow> (s1, Err RcIntentConsumed)
                | (s1, Inr info) \<Rightarrow>
                    (case ah_grant_id h of
                       None \<Rightarrow> (invalidate_ceremony key s1, Ok info)
                     | Some _ \<Rightarrow>
                         (case on_grants (profile_id_str (ah_profile_id h)) (consume_claim_by_ceremony (ah_ceremony_id h)) s1 of
                            (s2, Some (Inr _)) \<Rightarrow> (invalidate_ceremony key s2, Ok info)
                          | (s2, _) \<Rightarrow>
                              (invalidate_ceremony key (fst (on_intents (rollback_claim iid) s2)), Err RcPartialClaimFailed))))))"

section \<open>Administration\<close>

definition admin_approve_intent ::
    "monotonic_time \<Rightarrow> intent_id \<Rightarrow> policy_runtime \<Rightarrow> policy_runtime \<times> (intent_error + unit)" where
  "admin_approve_intent now iid s = on_intents (intent_approve now iid) s"

definition admin_deny_intent ::
    "monotonic_time \<Rightarrow> intent_id \<Rightarrow> policy_runtime \<Rightarrow> policy_runtime \<times> (intent_error + unit)" where
  "admin_deny_intent now iid s = on_intents (intent_deny now iid) s"

definition admin_create_intent ::
    "monotonic_time \<Rightarrow> monotonic_time \<Rightarrow> intent_id \<Rightarrow> claim_token \<Rightarrow> create_intent_params \<Rightarrow> policy_runtime \<Rightarrow>
     policy_runtime \<times> (intent_error + intent_id \<times> claim_token)" where
  "admin_create_intent now_gc now iid token p s = on_intents (intent_create now_gc now iid token p) s"

definition or_error :: "'e \<Rightarrow> 's \<times> ('e + 'a) option \<Rightarrow> 's \<times> ('e + 'a)" where
  "or_error e r = (case r of (s, None) \<Rightarrow> (s, Err e) | (s, Some res) \<Rightarrow> (s, res))"

definition admin_request_grant ::
    "u64 \<Rightarrow> grant_request_id \<Rightarrow> grant_request_params \<Rightarrow> policy_runtime \<Rightarrow> policy_runtime \<times> (grant_error + grant_request_id)" where
  "admin_request_grant now rid p s =
     or_error ProfileMismatch (on_grants (profile_id_str (grp_profile_id p)) (request_grant now rid p) s)"

definition admin_request_dynamic_grant ::
    "u64 \<Rightarrow> grant_request_id \<Rightarrow> grant_request_params \<Rightarrow> policy_runtime \<Rightarrow> policy_runtime \<times> (grant_error + grant_request_id)" where
  "admin_request_dynamic_grant now rid p s =
     or_error ProfileMismatch (on_grants (profile_id_str (grp_profile_id p)) (request_dynamic_grant now rid p) s)"

text \<open>
  The request is offered to the registries one after the other until one approves it; \<open>clk\<close> gives
  the two clock readings of each attempt.
\<close>

fun approve_first ::
    "(string \<Rightarrow> u64 \<times> u64) \<Rightarrow> grant_id \<Rightarrow> grant_request_id \<Rightarrow> (string \<times> grant_registry) list \<Rightarrow>
     (string \<times> grant_registry) list \<times> grant_id option" where
  "approve_first clk gid rid [] = ([], None)"
| "approve_first clk gid rid ((key, r) # rest) =
     (case approve_grant (fst (clk key)) (snd (clk key)) gid rid r of
        (r', Inr g) \<Rightarrow> ((key, r') # rest, Some g)
      | (r', Inl _) \<Rightarrow> (case approve_first clk gid rid rest of (rest', res) \<Rightarrow> ((key, r') # rest', res)))"

definition admin_approve_grant ::
    "(string \<Rightarrow> u64 \<times> u64) \<Rightarrow> grant_id \<Rightarrow> grant_request_id \<Rightarrow> policy_runtime \<Rightarrow> policy_runtime \<times> (grant_error + grant_id)" where
  "admin_approve_grant clk gid rid s =
     (case approve_first clk gid rid (rt_grants s) of
        (gs, Some g) \<Rightarrow> (s\<lparr>rt_grants := gs\<rparr>, Ok g)
      | (gs, None) \<Rightarrow> (s\<lparr>rt_grants := gs\<rparr>, Err (PendingRequestNotFound rid)))"

definition admin_revoke_grant :: "grant_id \<Rightarrow> policy_runtime \<Rightarrow> policy_runtime \<times> (grant_error + grant_state)" where
  "admin_revoke_grant gid s =
     (case find (\<lambda>(key, r). is_grant_active gid r) (rt_grants s) of
        None \<Rightarrow> (s, Err (GrantNotFound gid))
      | Some (key, r) \<Rightarrow>
          (case revoke_grant gid r of
             (r', Inl e) \<Rightarrow> (s\<lparr>rt_grants := hm_insert key r' (rt_grants s)\<rparr>, Err e)
           | (r', Inr st) \<Rightarrow>
               (s\<lparr>rt_grants := hm_insert key (cancel_claims_for_grant gid r') (rt_grants s),
                  rt_pending := hm_map (\<lambda>pa. if ah_grant_id pa = Some gid then pa\<lparr>pa_invalidated := True\<rparr> else pa) (rt_pending s)\<rparr>,
                Ok st)))"

definition rollback_grant :: "grant_id \<Rightarrow> policy_runtime \<Rightarrow> policy_runtime" where
  "rollback_grant gid s = fst (admin_revoke_grant gid s)"

definition resolved_grant_id_for_request :: "profile_id \<Rightarrow> grant_request_id \<Rightarrow> policy_runtime \<Rightarrow> grant_id option" where
  "resolved_grant_id_for_request pid rid s =
     Option.bind (hm_get (rt_grants s) (profile_id_str pid)) (resolved_grant_id rid)"

definition principal_cancel_intent ::
    "monotonic_time \<Rightarrow> intent_id \<Rightarrow> profile_id \<Rightarrow> principal_session_id \<Rightarrow> policy_runtime \<Rightarrow> policy_runtime \<times> (intent_error + unit)" where
  "principal_cancel_intent now iid pid sid s = on_intents (cancel_by_principal now iid pid sid) s"

definition principal_exit :: "principal_session_id \<Rightarrow> policy_runtime \<Rightarrow> policy_runtime" where
  "principal_exit sid s =
     s\<lparr>rt_intents := cancel_by_session sid (rt_intents s),
       rt_grants := hm_map (\<lambda>r. cancel_claims_for_session sid (on_principal_exit sid r)) (rt_grants s),
       rt_pending := hm_map (\<lambda>pa. if ah_session_id pa = sid then pa\<lparr>pa_invalidated := True\<rparr> else pa) (rt_pending s),
       rt_pending_requests :=
         hm_map (\<lambda>pq. if pq_session_id pq = sid \<and> pq_state pq = PsWaiting then pq\<lparr>pq_state := PsCancelled\<rparr> else pq)
           (rt_pending_requests s)\<rparr>"

section \<open>Requests that wait for a human\<close>

definition mk_pending_request ::
    "u64 \<Rightarrow> pending_request_id \<Rightarrow> pending_request_kind \<Rightarrow> create_intent_params \<Rightarrow> intent_id \<Rightarrow> grant_request_id option \<Rightarrow> pending_request" where
  "mk_pending_request now_mono pid kind p iid grid =
     (let ttl_ms = (case cp_ttl_ms p of Some t \<Rightarrow> t | None \<Rightarrow> 300000); ttl_secs = div_ceil ttl_ms 1000 in
      \<lparr>pq_id = pid, pq_kind = kind, pq_profile_id = cp_profile_id p, pq_session_id = cp_session_id p,
       pq_endpoint_id = cp_endpoint_id p, pq_process_digest = cp_process_digest p,
       pq_policy_generation = cp_policy_generation p, pq_policy_digest = cp_policy_digest p,
       pq_action = cp_action p, pq_rp_id = to_ascii_lowercase (trim (cp_rp_id p)),
       pq_credential_ref = cp_credential_ref p, pq_intent_id = iid, pq_grant_request_id = grid,
       pq_state = PsWaiting, pq_created_at_mono = now_mono, pq_deadline_mono = saturating_add now_mono ttl_secs\<rparr>)"

definition insert_request :: "pending_request \<Rightarrow> policy_runtime \<Rightarrow> policy_runtime" where
  "insert_request pq s =
     s\<lparr>rt_pending_requests := hm_insert (pending_request_id_str (pq_id pq)) pq (rt_pending_requests s)\<rparr>"

definition principal_create_pending_intent ::
    "u64 \<Rightarrow> monotonic_time \<Rightarrow> monotonic_time \<Rightarrow> intent_id \<Rightarrow> claim_token \<Rightarrow> pending_request_id \<Rightarrow> create_intent_params \<Rightarrow>
     policy_runtime \<Rightarrow> policy_runtime \<times> (pending_create_error + pending_request_id)" where
  "principal_create_pending_intent now_mono now_gc now iid token pid p s =
     (case on_intents (intent_create now_gc now iid token p) s of
        (s1, Inl e) \<Rightarrow> (s1, Err (IntentCreationFailed e))
      | (s1, Inr (iid', _)) \<Rightarrow> (insert_request (mk_pending_request now_mono pid IsolatedIntent p iid' None) s1, Ok pid))"

definition principal_create_pending_delegated ::
    "u64 \<Rightarrow> monotonic_time \<Rightarrow> monotonic_time \<Rightarrow> intent_id \<Rightarrow> claim_token \<Rightarrow> u64 \<Rightarrow> grant_request_id \<Rightarrow> pending_request_id \<Rightarrow>
     create_intent_params \<Rightarrow> grant_request_params \<Rightarrow> policy_runtime \<Rightarrow>
     policy_runtime \<times> (pending_create_error + pending_request_id \<times> grant_request_id)" where
  "principal_create_pending_delegated now_mono now_gc now iid token now_grant rid pid p gp s =
     (case on_intents (intent_create now_gc now iid token p) s of
        (s1, Inl e) \<Rightarrow> (s1, Err (IntentCreationFailed e))
      | (s1, Inr (iid', _)) \<Rightarrow>
          (case on_grants (profile_id_str (cp_profile_id p)) (request_grant now_grant rid gp) s1 of
             (s2, None) \<Rightarrow> (s2, Err (GrantRequestFailed ProfileMismatch))
           | (s2, Some (Inl e)) \<Rightarrow> (s2, Err (GrantRequestFailed e))
           | (s2, Some (Inr rid')) \<Rightarrow>
               (insert_request (mk_pending_request now_mono pid DelegatedAuth p iid' (Some rid')) s2, Ok (pid, rid'))))"

text \<open>What every way of giving a waiting request up does: deny its intent, revoke its grant, cancel its grant request.\<close>

definition withdraw :: "monotonic_time \<Rightarrow> pending_request \<Rightarrow> policy_runtime \<Rightarrow> policy_runtime" where
  "withdraw now pq s =
     (let s1 = fst (on_intents (intent_deny now (pq_intent_id pq)) s) in
      case pq_grant_request_id pq of
        None \<Rightarrow> s1
      | Some rid \<Rightarrow>
          fst (on_grants (profile_id_str (pq_profile_id pq)) (\<lambda>r.
            let r1 = (case resolved_grant_id rid r of Some gid \<Rightarrow> fst (revoke_grant gid r) | None \<Rightarrow> r)
            in (fst (cancel_request rid r1), ())) s1))"

definition principal_cancel_pending ::
    "monotonic_time \<Rightarrow> pending_request_id \<Rightarrow> principal_session_id \<Rightarrow> policy_runtime \<Rightarrow> policy_runtime \<times> (pending_cancel_error + unit)" where
  "principal_cancel_pending now pid sid s =
     (let key = pending_request_id_str pid in
      case hm_get (rt_pending_requests s) key of
        None \<Rightarrow> (s, Err PcNotFound)
      | Some pq \<Rightarrow>
          if pq_state pq \<noteq> PsWaiting then (s, Err PcAlreadyResolved)
          else if pq_session_id pq \<noteq> sid then (s, Err PcSessionMismatch)
          else (withdraw now pq (set_pending_state key PsCancelled s), Ok ()))"

text \<open>The lookup both ceremony operations begin with: exactly one waiting request matches the tuple.\<close>

definition find_waiting :: "ceremony_tuple \<Rightarrow> policy_runtime \<Rightarrow> ceremony_resolve_error + string \<times> pending_request" where
  "find_waiting t s =
     (case map (\<lambda>pq. pending_request_id_str (pq_id pq))
             (filter (\<lambda>pq. pq_state pq = PsWaiting \<and> matches_tuple pq t) (hm_values (rt_pending_requests s))) of
        [] \<Rightarrow> Err CrPendingNotFound
      | [key] \<Rightarrow>
          (case hm_get (rt_pending_requests s) key of
             None \<Rightarrow> Err CrPanic
           | Some pq \<Rightarrow>
               (case pq_state pq of
                  PsWaiting \<Rightarrow> Ok (key, pq)
                | PsCancelled \<Rightarrow> Err CrCancelled
                | _ \<Rightarrow> Err CrAlreadyResolved))
      | keys \<Rightarrow> Err (CrAmbiguousPending (length keys)))"

text \<open>The re-evaluation of the policy; the first two refusals also cancel the request.\<close>

definition policy_refusal :: "crates \<Rightarrow> ceremony_tuple \<Rightarrow> policy_runtime \<Rightarrow> (bool \<times> reason_code) option" where
  "policy_refusal c t s =
     (let g = rt_current s in
      if ct_policy_generation t \<noteq> gen_id g \<or> ct_policy_digest t \<noteq> gen_digest g then Some (True, RcGenerationStale)
      else case find_snapshot g (ct_profile_id t) of
        None \<Rightarrow> Some (True, RcProfileNotFound)
      | Some snap \<Rightarrow>
          if \<not> is_rp_exact_match (cr_psl c) snap (ct_rp_id t) then Some (False, RcRpIdNotExactMatch)
          else if (case ct_credential_ref t of
                     Some cred \<Rightarrow> ps_credential_refs snap \<noteq> [] \<and> cred \<notin> set (ps_credential_refs snap)
                   | None \<Rightarrow> False)
          then Some (False, RcCredentialNotExactMatch)
          else if \<not> action_allowed snap (ct_action t) then Some (False, RcActionNotAllowed)
          else None)"

definition bound_of :: "pending_request \<Rightarrow> grant_id option \<Rightarrow> bound_approval" where
  "bound_of pq gid =
     \<lparr>ba_intent_id = pq_intent_id pq, ba_grant_id = gid, ba_profile_id = pq_profile_id pq,
      ba_session_id = pq_session_id pq, ba_endpoint_id = pq_endpoint_id pq,
      ba_process_digest = pq_process_digest pq, ba_policy_generation = pq_policy_generation pq,
      ba_policy_digest = pq_policy_digest pq, ba_action = pq_action pq, ba_rp_id = pq_rp_id pq,
      ba_credential_ref = pq_credential_ref pq\<rparr>"

definition resolve_grant ::
    "u64 \<Rightarrow> u64 \<Rightarrow> grant_id \<Rightarrow> grant_request_id \<Rightarrow> grant_registry \<Rightarrow> grant_registry \<times> (grant_failure + grant_id)" where
  "resolve_grant now_check now gid rid r =
     (case resolved_grant_id rid r of
        Some existing \<Rightarrow> (r, Ok existing)
      | None \<Rightarrow>
          (case approve_grant now_check now gid rid r of
             (r', Inl e) \<Rightarrow> (r', Err (ApprovalFailed e))
           | (r', Inr g) \<Rightarrow> (r', Ok g)))"

definition ceremony_resolve_pending ::
    "crates \<Rightarrow> u64 \<Rightarrow> monotonic_time \<Rightarrow> u64 \<Rightarrow> u64 \<Rightarrow> grant_id \<Rightarrow> ceremony_tuple \<Rightarrow> policy_runtime \<Rightarrow>
     policy_runtime \<times> (ceremony_resolve_error + bound_approval)" where
  "ceremony_resolve_pending c now_mono now_intent now_check now_grant gid t s =
     (case find_waiting t s of
        Inl e \<Rightarrow> (s, Err e)
      | Inr (key, pq) \<Rightarrow>
          (if pq_deadline_mono pq \<le> now_mono then (set_pending_state key PsTimedOut s, Err CrTimedOut)
           else case policy_refusal c t s of
             Some (cancel, reason) \<Rightarrow>
               ((if cancel then set_pending_state key PsCancelled s else s), Err (CrPolicyDenied reason))
           | None \<Rightarrow>
               (case on_intents (intent_approve now_intent (pq_intent_id pq)) s of
                  (s1, Inl e) \<Rightarrow> (s1, Err (CrIntentApprovalFailed e))
                | (s1, Inr _) \<Rightarrow>
                    if pq_kind pq = DelegatedAuth then
                      (case pq_grant_request_id pq of
                         None \<Rightarrow> (s1, Err (CrGrantFailed MissingGrantRequestId))
                       | Some rid \<Rightarrow>
                           (case on_grants (profile_id_str (pq_profile_id pq)) (resolve_grant now_check now_grant gid rid) s1 of
                              (s2, None) \<Rightarrow> (s2, Err (CrGrantFailed ProfileWithoutRegistry))
                            | (s2, Some (Inl e)) \<Rightarrow> (s2, Err (CrGrantFailed e))
                            | (s2, Some (Inr g)) \<Rightarrow> (set_pending_state key PsApproved s2, Ok (bound_of pq (Some g)))))
                    else (set_pending_state key PsApproved s1, Ok (bound_of pq None)))))"

definition ceremony_deny_pending ::
    "monotonic_time \<Rightarrow> ceremony_tuple \<Rightarrow> policy_runtime \<Rightarrow> policy_runtime \<times> (ceremony_resolve_error + unit)" where
  "ceremony_deny_pending now t s =
     (case find_waiting t s of
        Inl e \<Rightarrow> (s, Err e)
      | Inr (key, pq) \<Rightarrow> (set_pending_state key PsDenied (withdraw now pq s), Ok ()))"

definition bound_mismatch :: "bound_approval \<Rightarrow> authorization_request \<Rightarrow> reason_code option" where
  "bound_mismatch b req =
     (if ba_profile_id b \<noteq> ar_profile_id req \<or> ba_session_id b \<noteq> ar_session_id req \<or>
         ba_endpoint_id b \<noteq> ar_endpoint_id req \<or> ba_process_digest b \<noteq> ar_process_digest req \<or>
         ba_policy_generation b \<noteq> ar_policy_generation_id req \<or> ba_policy_digest b \<noteq> ar_policy_digest req \<or>
         ba_action b \<noteq> ar_action req
      then Some RcSessionMismatch
      else if to_ascii_lowercase (trim (ba_rp_id b)) \<noteq> to_ascii_lowercase (trim (ar_rp_id req)) then Some RcRpIdNotExactMatch
      else (case (ba_credential_ref b, ar_credential_ref req) of
              (Some x, Some y) \<Rightarrow> if x \<noteq> y then Some RcCredentialNotExactMatch else None
            | (None, None) \<Rightarrow> None
            | _ \<Rightarrow> Some RcCredentialNotExactMatch))"

definition bound_query :: "bound_approval \<Rightarrow> intent_query_params" where
  "bound_query b =
     \<lparr>q_profile_id = ba_profile_id b, q_session_id = ba_session_id b, q_endpoint_id = ba_endpoint_id b,
      q_process_digest = ba_process_digest b, q_policy_generation = Some (ba_policy_generation b),
      q_policy_digest = ba_policy_digest b, q_action = ba_action b, q_rp_id = ba_rp_id b,
      q_credential_ref = ba_credential_ref b\<rparr>"

definition bound_claim :: "crates \<Rightarrow> bound_approval \<Rightarrow> claim_intent" where
  "bound_claim c b =
     \<lparr>cl_action = action_str (ba_action b), cl_rp_id = to_ascii_lowercase (trim (ba_rp_id b)),
      cl_credential_ref = (case ba_credential_ref b of Some cred \<Rightarrow> cred | None \<Rightarrow> with_default_domain (cr_sha c) [])\<rparr>"

definition bound_handle :: "ceremony_id \<Rightarrow> intent_id \<Rightarrow> bound_approval \<Rightarrow> authorization_handle" where
  "bound_handle cid iid b =
     \<lparr>ah_ceremony_id = cid, ah_grant_id = ba_grant_id b, ah_intent_id = Some iid, ah_profile_id = ba_profile_id b,
      ah_session_id = ba_session_id b, ah_endpoint_id = ba_endpoint_id b,
      ah_process_digest = ba_process_digest b, ah_policy_generation = ba_policy_generation b,
      ah_policy_digest = ba_policy_digest b, ah_action = ba_action b, ah_rp_id = ba_rp_id b,
      ah_credential_ref = ba_credential_ref b\<rparr>"

definition authorize_bound ::
    "crates \<Rightarrow> monotonic_time \<Rightarrow> u64 \<Rightarrow> u64 \<Rightarrow> ceremony_id \<Rightarrow> bound_approval \<Rightarrow> authorization_request \<Rightarrow> policy_runtime \<Rightarrow>
     policy_runtime \<times> decision \<times> authorization_handle option" where
  "authorize_bound c now now_check now_grant cid b req s =
     (case bound_mismatch b req of
        Some reason \<Rightarrow> (s, decision_deny reason OaRetry, None)
      | None \<Rightarrow>
          if ba_policy_generation b \<noteq> gen_id (rt_current s) \<or> ba_policy_digest b \<noteq> gen_digest (rt_current s)
          then (s, decision_deny RcGenerationStale OaReloadPolicy, None)
          else case find_snapshot (rt_current s) (ba_profile_id b) of
            None \<Rightarrow> (s, decision_deny RcProfileNotFound OaContactAdmin, None)
          | Some snap \<Rightarrow>
              if ps_require_uv snap \<and> \<not> ar_uv_enforced req then (s, decision_deny RcUvRequired OaVerifyUser, None)
              else
                (case on_intents (claim_approved now (bound_query b)) s of
                   (s1, Inl NotFound) \<Rightarrow> (s1, decision_deny RcIntentNotFound OaRetry, None)
                 | (s1, Inl _) \<Rightarrow> (s1, decision_deny RcIntentNotApproved OaRetry, None)
                 | (s1, Inr iid) \<Rightarrow>
                     (case ba_grant_id b of
                        None \<Rightarrow>
                          (let h = bound_handle cid iid b in (insert_pending h s1, decision_allow RcAllowed, Some h))
                      | Some gid \<Rightarrow>
                          (case on_grants (profile_id_str (ba_profile_id b))
                                  (claim_for_authorize (cr_hex c) now_check now_grant cid gid (ba_session_id b) (bound_claim c b)) s1 of
                             (s2, None) \<Rightarrow>
                               (fst (on_intents (rollback_claim iid) s2), decision_deny RcProfileNotFound OaContactAdmin, None)
                           | (s2, Some (Inl _)) \<Rightarrow>
                               (fst (on_intents (rollback_claim iid) s2), decision_deny RcPartialClaimFailed OaRetry, None)
                           | (s2, Some (Inr cid')) \<Rightarrow>
                               (let h = bound_handle cid' iid b in (insert_pending h s2, decision_allow RcAllowed, Some h))))))"

text \<open>\<open>PendingStatusSnapshot\<close> has the fields of the request.\<close>

definition principal_pending_status ::
    "u64 \<Rightarrow> pending_request_id \<Rightarrow> principal_session_id \<Rightarrow> policy_runtime \<Rightarrow> pending_status_error + pending_request" where
  "principal_pending_status now_mono pid sid s =
     (case hm_get (rt_pending_requests s) (pending_request_id_str pid) of
        None \<Rightarrow> Err PsNotFound
      | Some pq \<Rightarrow>
          if pq_session_id pq \<noteq> sid then Err PsSessionMismatch
          else Ok (pq\<lparr>pq_state := if pq_state pq = PsWaiting \<and> pq_deadline_mono pq \<le> now_mono then PsTimedOut else pq_state pq\<rparr>))"

text \<open>The states shown to clients, \<open>protocol::IntentState\<close> and \<open>protocol::DelegationState\<close>.\<close>

datatype wire_intent_state = WiPending | WiApproved | WiDenied | WiCancelled | WiExpired
datatype wire_delegation_state = WdPending | WdApproved | WdDenied | WdCancelled | WdExpired | WdRevoked

definition to_intent_state :: "pending_state \<Rightarrow> wire_intent_state" where
  "to_intent_state st = (case st of
      PsWaiting \<Rightarrow> WiPending | PsApproved \<Rightarrow> WiApproved | PsDenied \<Rightarrow> WiDenied
    | PsTimedOut \<Rightarrow> WiExpired | PsCancelled \<Rightarrow> WiCancelled)"

definition to_delegation_state :: "pending_state \<Rightarrow> wire_delegation_state" where
  "to_delegation_state st = (case st of
      PsWaiting \<Rightarrow> WdPending | PsApproved \<Rightarrow> WdApproved | PsDenied \<Rightarrow> WdDenied
    | PsTimedOut \<Rightarrow> WdExpired | PsCancelled \<Rightarrow> WdCancelled)"

text \<open>The loop over the waiting requests that two operations share; \<open>nows\<close> gives the clock reading of each denial.\<close>

fun withdraw_all ::
    "(pending_request \<Rightarrow> bool) \<Rightarrow> pending_state \<Rightarrow> (string \<Rightarrow> monotonic_time) \<Rightarrow> (string \<times> pending_request) list \<Rightarrow>
     policy_runtime \<Rightarrow> policy_runtime" where
  "withdraw_all p st nows [] s = s"
| "withdraw_all p st nows ((key, pq) # rest) s =
     withdraw_all p st nows rest
       (if pq_state pq = PsWaiting \<and> p pq then withdraw (nows key) pq (set_pending_state key st s) else s)"

definition cleanup_expired_pending ::
    "u64 \<Rightarrow> (string \<Rightarrow> monotonic_time) \<Rightarrow> policy_runtime \<Rightarrow> policy_runtime \<times> pending_request_id list" where
  "cleanup_expired_pending now_mono nows s =
     (let p = (\<lambda>pq. pq_deadline_mono pq \<le> now_mono) in
      (withdraw_all p PsTimedOut nows (rt_pending_requests s) s,
       map pq_id (filter (\<lambda>pq. pq_state pq = PsWaiting \<and> p pq) (hm_values (rt_pending_requests s)))))"

definition cancel_pending_for_session ::
    "(string \<Rightarrow> monotonic_time) \<Rightarrow> principal_session_id \<Rightarrow> policy_runtime \<Rightarrow> policy_runtime" where
  "cancel_pending_for_session nows sid s =
     withdraw_all (\<lambda>pq. pq_session_id pq = sid) PsCancelled nows (rt_pending_requests s) s"

end
