(* ===== verification/Runtime_Steps.thy ===== *)
theory Runtime_Steps
  imports Policy_Runtime
begin

text \<open>
  The policy runtime as an automaton.  Every operation moves the intent store by operations of the
  store, and each grant registry by operations of the registry (\<open>evolves\<close>); only a reload replaces
  the registries.  From this the runtime inherits the invariants of its parts.
\<close>

section \<open>The operations as one alphabet\<close>

datatype rt_op =
    PReload policy_generation_id u64 u64 agent_config
  | PRequestRegistration u64 u64 registration_grant_id principal_session_id endpoint_id profile_id string u64
  | PConsumeRegistration profile_id registration_grant_id
  | PRevokeById grant_id
  | PResolveForSign u64 profile_id grant_id
  | PAuthorize monotonic_time ceremony_id authorization_request
  | PAuthorizeBound monotonic_time u64 u64 ceremony_id bound_approval authorization_request
  | PConsume authorization_handle
  | PApproveIntent monotonic_time intent_id
  | PDenyIntent monotonic_time intent_id
  | PCreateIntent monotonic_time monotonic_time intent_id claim_token create_intent_params
  | PRequestGrant u64 grant_request_id grant_request_params
  | PRequestDynamic u64 grant_request_id grant_request_params
  | PApproveGrant "string \<Rightarrow> u64 \<times> u64" grant_id grant_request_id
  | PRevokeGrant grant_id
  | PCancelIntent monotonic_time intent_id profile_id principal_session_id
  | PExit principal_session_id
  | PCreatePending u64 monotonic_time monotonic_time intent_id claim_token pending_request_id create_intent_params
  | PCreateDelegated u64 monotonic_time monotonic_time intent_id claim_token u64 grant_request_id pending_request_id
      create_intent_params grant_request_params
  | PCancelPending monotonic_time pending_request_id principal_session_id
  | PResolve u64 monotonic_time u64 u64 grant_id ceremony_tuple
  | PDenyPending monotonic_time ceremony_tuple
  | PCleanup u64 "string \<Rightarrow> monotonic_time"
  | PCancelForSession "string \<Rightarrow> monotonic_time" principal_session_id

datatype rt_out =
    PoDigest "runtime_error + policy_digest"
  | PoRegistration "grant_error + registration_grant_id"
  | PoGrantUnit "grant_error + unit"
  | PoGrantState "grant_error + grant_state"
  | PoSign "grant_sign_snapshot option"
  | PoDecision decision "authorization_handle option"
  | PoInfo "reason_code + intent_consume_info"
  | PoIntentUnit "intent_error + unit"
  | PoIntent "intent_error + intent_id \<times> claim_token"
  | PoRequest "grant_error + grant_request_id"
  | PoGrant "grant_error + grant_id"
  | PoPending "pending_create_error + pending_request_id"
  | PoDelegated "pending_create_error + pending_request_id \<times> grant_request_id"
  | PoCancel "pending_cancel_error + unit"
  | PoBound "ceremony_resolve_error + bound_approval"
  | PoDenied "ceremony_resolve_error + unit"
  | PoExpired "pending_request_id list"
  | PoNone

fun rt_step :: "crates \<Rightarrow> policy_runtime \<Rightarrow> rt_op \<Rightarrow> policy_runtime \<times> rt_out" where
  "rt_step c s (PReload gid now nonce config) = apsnd PoDigest (reload c gid now nonce config s)"
| "rt_step c s (PRequestRegistration now now' gid sid eid pid rp ttl) =
     apsnd PoRegistration (request_registration_grant now now' gid sid eid pid rp ttl s)"
| "rt_step c s (PConsumeRegistration pid gid) = apsnd PoGrantUnit (consume_registration_grant pid gid s)"
| "rt_step c s (PRevokeById gid) = apsnd PoGrantState (revoke_grant_by_id gid s)"
| "rt_step c s (PResolveForSign now pid gid) = apsnd PoSign (resolve_grant_for_sign now pid gid s)"
| "rt_step c s (PAuthorize now cid req) = apsnd (case_prod PoDecision) (authorize c now cid req s)"
| "rt_step c s (PAuthorizeBound now now' now'' cid b req) =
     apsnd (case_prod PoDecision) (authorize_bound c now now' now'' cid b req s)"
| "rt_step c s (PConsume h) = apsnd PoInfo (consume_authorization h s)"
| "rt_step c s (PApproveIntent now iid) = apsnd PoIntentUnit (admin_approve_intent now iid s)"
| "rt_step c s (PDenyIntent now iid) = apsnd PoIntentUnit (admin_deny_intent now iid s)"
| "rt_step c s (PCreateIntent now_gc now iid token p) = apsnd PoIntent (admin_create_intent now_gc now iid token p s)"
| "rt_step c s (PRequestGrant now rid p) = apsnd PoRequest (admin_request_grant now rid p s)"
| "rt_step c s (PRequestDynamic now rid p) = apsnd PoRequest (admin_request_dynamic_grant now rid p s)"
| "rt_step c s (PApproveGrant clk gid rid) = apsnd PoGrant (admin_approve_grant clk gid rid s)"
| "rt_step c s (PRevokeGrant gid) = apsnd PoGrantState (admin_revoke_grant gid s)"
| "rt_step c s (PCancelIntent now iid pid sid) = apsnd PoIntentUnit (principal_cancel_intent now iid pid sid s)"
| "rt_step c s (PExit sid) = (principal_exit sid s, PoNone)"
| "rt_step c s (PCreatePending now_mono now_gc now iid token pid p) =
     apsnd PoPending (principal_create_pending_intent now_mono now_gc now iid token pid p s)"
| "rt_step c s (PCreateDelegated now_mono now_gc now iid token now_grant rid pid p gp) =
     apsnd PoDelegated (principal_create_pending_delegated now_mono now_gc now iid token now_grant rid pid p gp s)"
| "rt_step c s (PCancelPending now pid sid) = apsnd PoCancel (principal_cancel_pending now pid sid s)"
| "rt_step c s (PResolve now_mono now now' now'' gid t) = apsnd PoBound (ceremony_resolve_pending c now_mono now now' now'' gid t s)"
| "rt_step c s (PDenyPending now t) = apsnd PoDenied (ceremony_deny_pending now t s)"
| "rt_step c s (PCleanup now_mono nows) = apsnd PoExpired (cleanup_expired_pending now_mono nows s)"
| "rt_step c s (PCancelForSession nows sid) = (cancel_pending_for_session nows sid s, PoNone)"

text \<open>The intent an operation may create, and whether it may approve one or is a reload.\<close>

fun rt_creates :: "rt_op \<Rightarrow> intent_id option" where
  "rt_creates (PCreateIntent now_gc now iid token p) = Some iid"
| "rt_creates (PCreatePending now_mono now_gc now iid token pid p) = Some iid"
| "rt_creates (PCreateDelegated now_mono now_gc now iid token now_grant rid pid p gp) = Some iid"
| "rt_creates _ = None"

fun is_reload :: "rt_op \<Rightarrow> bool" where
  "is_reload (PReload gid now nonce config) = True"
| "is_reload _ = False"

fun rt_approves :: "rt_op \<Rightarrow> bool" where
  "rt_approves (PApproveIntent now iid) = True"
| "rt_approves (PResolve now_mono now now' now'' gid t) = True"
| "rt_approves _ = False"

definition intent_allowed :: "rt_op \<Rightarrow> intent_op \<Rightarrow> bool" where
  "intent_allowed x y \<longleftrightarrow>
     (creates y = None \<or> creates y = rt_creates x) \<and>
     ((\<exists>now iid. y = IApprove now iid) \<longrightarrow> rt_approves x) \<and>
     ((\<exists>nonce. y = IInvalidateAll nonce) \<longrightarrow> is_reload x)"

section \<open>Evolution of the parts\<close>

fun grant_local :: "grant_op \<Rightarrow> bool" where
  "grant_local (GReload gen dig ttl acts) = False"
| "grant_local GRestart = False"
| "grant_local _ = True"

abbreviation registry_moves :: "(bytes \<Rightarrow> string) \<Rightarrow> grant_registry \<Rightarrow> grant_registry \<Rightarrow> bool" where
  "registry_moves hex \<equiv> steps_by grant_local (grant_step hex)"

definition registries_move ::
    "(bytes \<Rightarrow> string) \<Rightarrow> (string, grant_registry) hashmap \<Rightarrow> (string, grant_registry) hashmap \<Rightarrow> bool" where
  "registries_move hex gs gs' \<longleftrightarrow>
     (hm_wf gs \<longrightarrow> hm_wf gs') \<and> (\<forall>k. rel_option (registry_moves hex) (hm_get gs k) (hm_get gs' k))"

definition evolves :: "(bytes \<Rightarrow> string) \<Rightarrow> rt_op \<Rightarrow> policy_runtime \<Rightarrow> policy_runtime \<Rightarrow> bool" where
  "evolves hex x s s' \<longleftrightarrow>
     steps_by (intent_allowed x) intent_step (rt_intents s) (rt_intents s') \<and>
     registries_move hex (rt_grants s) (rt_grants s') \<and> rt_current s' = rt_current s"

lemma registries_move_refl [simp]: "registries_move hex gs gs"
  by (simp add: registries_move_def option.rel_refl)

lemma registries_move_trans: "registries_move hex a b \<Longrightarrow> registries_move hex b c \<Longrightarrow> registries_move hex a c"
  unfolding registries_move_def
proof (intro conjI allI)
  fix k
  assume ab: "(hm_wf a \<longrightarrow> hm_wf b) \<and> (\<forall>k. rel_option (registry_moves hex) (hm_get a k) (hm_get b k))"
    and bc: "(hm_wf b \<longrightarrow> hm_wf c) \<and> (\<forall>k. rel_option (registry_moves hex) (hm_get b k) (hm_get c k))"
  then have "rel_option (registry_moves hex) (hm_get a k) (hm_get b k)" "rel_option (registry_moves hex) (hm_get b k) (hm_get c k)"
    by simp_all
  then show "rel_option (registry_moves hex) (hm_get a k) (hm_get c k)"
    by (cases "hm_get a k"; cases "hm_get b k"; cases "hm_get c k") (auto intro: steps_by_trans)
qed blast

lemma registries_move_insert:
  "hm_get gs k = Some r \<Longrightarrow> registry_moves hex r r' \<Longrightarrow> registries_move hex gs (hm_insert k r' gs)"
  by (auto simp: registries_move_def option.rel_refl)

lemma registries_move_map: "(\<And>r. registry_moves hex r (f r)) \<Longrightarrow> registries_move hex gs (hm_map f gs)"
  by (auto simp: registries_move_def option.rel_map intro!: option.rel_refl)

lemma evolves_refl [simp]: "evolves hex x s s"
  by (simp add: evolves_def)

lemma evolves_trans: "evolves hex x s s' \<Longrightarrow> evolves hex x s' s'' \<Longrightarrow> evolves hex x s s''"
  unfolding evolves_def by (metis registries_move_trans steps_by_trans)

text \<open>\<open>evolves\<close> looks only at the policy generation, the intents and the registries.\<close>

lemma evolves_frame:
  "rt_intents t = rt_intents s' \<Longrightarrow> rt_grants t = rt_grants s' \<Longrightarrow> rt_current t = rt_current s' \<Longrightarrow>
   evolves hex x s t \<longleftrightarrow> evolves hex x s s'"
  by (simp add: evolves_def)

lemma on_intents_evolves:
  assumes "fst (f (rt_intents s)) = fst (intent_step (rt_intents s) y)" and "intent_allowed x y"
  shows "evolves hex x s (fst (on_intents f s))"
  using assms by (auto simp: evolves_def on_intents_def intro: steps_by_one split: prod.splits)

lemma on_grants_evolves:
  assumes "\<And>r. registry_moves hex r (fst (f r))"
  shows "evolves hex x s (fst (on_grants k f s))"
proof (cases "hm_get (rt_grants s) k")
  case (Some r)
  with assms [of r] show ?thesis
    by (cases "f r") (simp add: evolves_def on_grants_def registries_move_insert)
qed (simp add: on_grants_def)

text \<open>The operations of a registry that the runtime runs, as moves.\<close>

lemma registry_op_moves:
  "registry_moves hex r (fst (request_grant now rid p r))"
  "registry_moves hex r (fst (request_dynamic_grant now rid p r))"
  "registry_moves hex r (fst (approve_grant now now' gid rid r))"
  "registry_moves hex r (fst (revoke_grant gid r))"
  "registry_moves hex r (fst (cancel_request rid r))"
  "registry_moves hex r (fst (check_expired now r))"
  "registry_moves hex r (fst (claim_for_authorize hex now now' cid gid sid ci r))"
  "registry_moves hex r (fst (consume_claim_by_ceremony cid r))"
  "registry_moves hex r (cancel_claim cid r)"
  "registry_moves hex r (cancel_claims_for_grant gid r)"
  "registry_moves hex r (on_principal_exit sid r)"
  "registry_moves hex r (cancel_claims_for_session sid r)"
  by (rule steps_by_one [of _ "GRequest now rid p"]; simp)
    (rule steps_by_one [of _ "GRequestDynamic now rid p"] steps_by_one [of _ "GApprove now now' gid rid"]
        steps_by_one [of _ "GRevoke gid"] steps_by_one [of _ "GCancelRequest rid"] steps_by_one [of _ "GCheckExpired now"]
        steps_by_one [of _ "GClaim now now' cid gid sid ci"] steps_by_one [of _ "GConsume cid"]
        steps_by_one [of _ "GCancelClaim cid"] steps_by_one [of _ "GCancelClaimsForGrant gid"]
        steps_by_one [of _ "GExit sid"] steps_by_one [of _ "GCancelClaimsForSession sid"]; simp; fail)+

text \<open>The operations of the store that any operation of the runtime may run, and the restricted ones.\<close>

lemma quiet_intent_allowed [simp]:
  "intent_allowed x (IRollbackClaim iid)" "intent_allowed x (IConsumeClaimed iid)" "intent_allowed x (IDeny now iid)"
  "intent_allowed x (IClaimApproved now q)" "intent_allowed x (ICancelBySession sid)"
  "intent_allowed x (ICancelByPrincipal now iid pid sid)"
  "rt_creates x = Some iid \<Longrightarrow> intent_allowed x (ICreate now_gc now iid token p)"
  "rt_approves x \<Longrightarrow> intent_allowed x (IApprove now iid)"
  by (simp_all add: intent_allowed_def)

lemma store_op_evolves:
  "evolves hex x s (fst (on_intents (rollback_claim iid) s))"
  "evolves hex x s (fst (on_intents (consume_claimed iid) s))"
  "evolves hex x s (fst (on_intents (intent_deny now iid) s))"
  "evolves hex x s (fst (on_intents (claim_approved now q) s))"
  "evolves hex x s (fst (on_intents (cancel_by_principal now iid pid sid) s))"
  "rt_creates x = Some iid \<Longrightarrow> evolves hex x s (fst (on_intents (intent_create now_gc now iid token p) s))"
  "rt_approves x \<Longrightarrow> evolves hex x s (fst (on_intents (intent_approve now iid) s))"
  by (rule on_intents_evolves [where y = "IRollbackClaim iid"] on_intents_evolves [where y = "IConsumeClaimed iid"]
      on_intents_evolves [where y = "IDeny now iid"] on_intents_evolves [where y = "IClaimApproved now q"]
      on_intents_evolves [where y = "ICancelByPrincipal now iid pid sid"]
      on_intents_evolves [where y = "ICreate now_gc now iid token p"] on_intents_evolves [where y = "IApprove now iid"];
      simp; fail)+

lemma evolves_other_fields [simp]:
  "evolves hex x s (t\<lparr>rt_pending := m\<rparr>) \<longleftrightarrow> evolves hex x s t"
  "evolves hex x s (t\<lparr>rt_pending_requests := q\<rparr>) \<longleftrightarrow> evolves hex x s t"
  "evolves hex x s (t\<lparr>rt_registration_grants := rg\<rparr>) \<longleftrightarrow> evolves hex x s t"
  "evolves hex x s (insert_pending h t) \<longleftrightarrow> evolves hex x s t"
  "evolves hex x s (insert_request pq t) \<longleftrightarrow> evolves hex x s t"
  "evolves hex x s (set_pending_state k st t) \<longleftrightarrow> evolves hex x s t"
  by (simp_all add: evolves_def insert_pending_def insert_request_def set_pending_state_def)

section \<open>Every operation but reload\<close>

lemma evolves_then:
  assumes "f s = (t, r)" and "evolves hex x s (fst (f s))" and "evolves hex x t u"
  shows "evolves hex x s u"
  using assms by (auto intro: evolves_trans)

lemma invalidate_ceremony_evolves: "evolves hex x s (invalidate_ceremony key s)"
proof -
  have g: "evolves hex x t (fst (on_grants k (\<lambda>r. (cancel_claim cid r, ())) t))" for t k cid
    by (rule on_grants_evolves) (simp add: registry_op_moves)
  have i: "evolves hex x s (fst (on_intents (rollback_claim iid) (s\<lparr>rt_pending := m\<rparr>)))" for iid m
    using store_op_evolves(1) [of hex x "s\<lparr>rt_pending := m\<rparr>" iid] by (simp add: evolves_def)
  show ?thesis
    unfolding invalidate_ceremony_def Let_def
    by (auto split: option.split intro: evolves_trans [OF _ g] evolves_trans [OF i g] i)
qed

lemma withdraw_evolves: "evolves hex x s (withdraw now pq s)"
proof -
  have "registry_moves hex r (fst (cancel_request rid (case resolved_grant_id rid r of Some gid \<Rightarrow> fst (revoke_grant gid r) | None \<Rightarrow> r)))"
    for r rid
    by (auto split: option.split intro: steps_by_trans [OF registry_op_moves(4) registry_op_moves(5)] registry_op_moves(5))
  then have "evolves hex x t (fst (on_grants k (\<lambda>r.
      let r1 = (case resolved_grant_id rid r of Some gid \<Rightarrow> fst (revoke_grant gid r) | None \<Rightarrow> r)
      in (fst (cancel_request rid r1), ())) t))" for t k rid
    by (intro on_grants_evolves) (simp add: Let_def)
  then show ?thesis
    unfolding withdraw_def Let_def [of "fst (on_intents _ _)"]
    by (auto split: option.split intro: store_op_evolves(3) evolves_trans [OF store_op_evolves(3)])
qed

lemma withdraw_all_evolves: "evolves hex x s (withdraw_all p st nows xs s)"
proof (induction p st nows xs s rule: withdraw_all.induct)
  case (2 p st nows key pq rest s)
  have "evolves hex x s (withdraw now pq (set_pending_state key st s))" for now
    using withdraw_evolves [of hex x "set_pending_state key st s" now pq]
    by (rule evolves_trans [rotated]) simp
  then have "evolves hex x s (if pq_state pq = PsWaiting \<and> p pq then withdraw (nows key) pq (set_pending_state key st s) else s)"
    by simp
  from evolves_trans [OF this 2] show ?case by simp
qed simp

lemma authorize_isolated_evolves: "evolves hex x s (fst (authorize_isolated now cid snap req s))"
proof (cases "on_intents (claim_approved now (request_query req (ps_profile_id snap) (ar_rp_id req))) s")
  case (Pair s1 r)
  then have e: "evolves hex x s s1"
    using store_op_evolves(4) [of hex x s now "request_query req (ps_profile_id snap) (ar_rp_id req)"] by simp
  then show ?thesis
    by (auto simp: authorize_isolated_def Pair Let_def evolves_trans [OF _ store_op_evolves(1)]
        split: sum.splits intent_error.splits)
qed

lemma authorize_evolves: "evolves hex x s (fst (authorize c now cid req s))"
  unfolding authorize_def Let_def
  by (auto simp: authorize_isolated_evolves split: option.split)

lemma consume_authorization_evolves: "evolves hex x s (fst (consume_authorization h s))"
proof -
  have i: "evolves hex x s s1" if "on_intents (consume_claimed iid) s = (s1, r)" for iid s1 r
    using store_op_evolves(2) [of hex x s iid] that by simp
  have g: "evolves hex x s1 s2" if "on_grants k (consume_claim_by_ceremony cid) s1 = (s2, r)" for k cid s1 s2 r
    using on_grants_evolves [of hex "consume_claim_by_ceremony cid" x s1 k] that by (simp add: registry_op_moves)
  note inv = invalidate_ceremony_evolves [of hex x]
  have roll: "evolves hex x s (invalidate_ceremony key (fst (on_intents (rollback_claim iid) t)))"
    if "evolves hex x s t" for key iid t
    by (rule evolves_trans [OF evolves_trans [OF that store_op_evolves(1)] inv])
  show ?thesis
    unfolding consume_authorization_def Let_def
    by (auto split: option.split prod.split sum.split intent_error.split
        intro: inv i evolves_trans [OF i inv] evolves_trans [OF evolves_trans [OF i g] inv] roll [OF evolves_trans [OF i g]])
qed

lemma authorize_bound_evolves: "evolves (cr_hex c) x s (fst (authorize_bound c now now' now'' cid b req s))"
proof -
  let ?h = "cr_hex c"
  have i: "evolves ?h x s s1" if "on_intents (claim_approved now (bound_query b)) s = (s1, r)" for s1 r
    using store_op_evolves(4) [of ?h x s now "bound_query b"] that by simp
  have g: "evolves ?h x s1 s2"
    if "on_grants k (claim_for_authorize ?h now' now'' cid gid sid ci) s1 = (s2, r)" for k gid sid ci s1 s2 r
    using on_grants_evolves [of ?h "claim_for_authorize ?h now' now'' cid gid sid ci" x s1 k] that
    by (simp add: registry_op_moves)
  show ?thesis
    unfolding authorize_bound_def Let_def
    by (auto split: option.split prod.split sum.split intent_error.split
        intro: i evolves_trans [OF i g] evolves_trans [OF evolves_trans [OF i g] store_op_evolves(1)])
qed

lemma resolve_pending_evolves:
  assumes "rt_approves x"
  shows "evolves hex x s (fst (ceremony_resolve_pending c now_mono now now' now'' gid t s))"
proof -
  have i: "evolves hex x s s1" if "on_intents (intent_approve now iid) s = (s1, r)" for iid s1 r
    using store_op_evolves(7) [of x hex s now iid] assms that by simp
  have "registry_moves hex r (fst (resolve_grant now' now'' gid rid r))" for rid r
    using registry_op_moves(3) [of hex r now' now'' gid rid]
    by (auto simp: resolve_grant_def split: option.split prod.split sum.split)
  then have g: "evolves hex x s1 s2" if "on_grants k (resolve_grant now' now'' gid rid) s1 = (s2, r)" for k rid s1 s2 r
    using on_grants_evolves [of hex "resolve_grant now' now'' gid rid" x s1 k] that by simp
  show ?thesis
    unfolding ceremony_resolve_pending_def Let_def
    by (auto split: option.split prod.split sum.split intro: i evolves_trans [OF i g])
qed

lemma approve_first_moves:
  "list_all2 (\<lambda>e e'. fst e = fst e' \<and> registry_moves hex (snd e) (snd e')) gs (fst (approve_first clk gid rid gs))"
proof (induction clk gid rid gs rule: approve_first.induct)
  case (2 clk gid rid key r rest)
  have "list_all2 (\<lambda>e e'. fst e = fst e' \<and> registry_moves hex (snd e) (snd e')) rest rest" by (auto intro: list_all2_refl)
  with 2 registry_op_moves(3) [of hex r "fst (clk key)" "snd (clk key)" gid rid] show ?case
    by (auto split: prod.split sum.split)
qed simp

lemma registries_move_all2:
  "list_all2 (\<lambda>e e'. fst e = fst e' \<and> registry_moves hex (snd e) (snd e')) gs gs' \<Longrightarrow> registries_move hex gs gs'"
proof -
  assume a: "list_all2 (\<lambda>e e'. fst e = fst e' \<and> registry_moves hex (snd e) (snd e')) gs gs'"
  then have "map fst gs = map fst gs'" by (induction rule: list_all2_induct) auto
  moreover from a have "rel_option (registry_moves hex) (hm_get gs k) (hm_get gs' k)" for k
    by (induction rule: list_all2_induct) (auto simp: hm_get_def)
  ultimately show ?thesis by (simp add: registries_move_def hm_wf_def)
qed

lemma admin_approve_grant_evolves: "evolves hex x s (fst (admin_approve_grant clk gid rid s))"
  using registries_move_all2 [OF approve_first_moves [of hex "rt_grants s" clk gid rid]]
  by (auto simp: admin_approve_grant_def evolves_def split: prod.split option.split)

lemma find_entry: "hm_wf m \<Longrightarrow> find (\<lambda>(k, v). P v) m = Some (k, v) \<Longrightarrow> hm_get m k = Some v \<and> P v"
  by (auto simp: hm_get_iff dest: find_SomeD)

lemma admin_revoke_grant_evolves: "hm_wf (rt_grants s) \<Longrightarrow> evolves hex x s (fst (admin_revoke_grant gid s))"
  using registry_op_moves(4) [of hex _ gid] registry_op_moves(10) [of hex _ gid]
  by (auto simp: admin_revoke_grant_def evolves_def split: option.split prod.split sum.split
      intro!: registries_move_insert dest!: find_entry) (metis fst_conv steps_by_trans)+

lemma revoke_grant_by_id_evolves: "hm_wf (rt_grants s) \<Longrightarrow> evolves hex x s (fst (revoke_grant_by_id gid s))"
  using registry_op_moves(4) [of hex _ gid]
  by (auto simp: revoke_grant_by_id_def evolves_def split: option.split prod.split
      intro!: registries_move_insert dest!: find_entry) (metis fst_conv)

lemma principal_exit_evolves: "evolves hex x s (principal_exit sid s)"
proof -
  have "registries_move hex (rt_grants s) (hm_map (\<lambda>r. cancel_claims_for_session sid (on_principal_exit sid r)) (rt_grants s))"
    by (rule registries_move_map) (rule steps_by_trans [OF registry_op_moves(11) registry_op_moves(12)])
  moreover have "steps_by (intent_allowed x) intent_step (rt_intents s) (cancel_by_session sid (rt_intents s))"
    by (rule steps_by_one [of _ "ICancelBySession sid"]) simp_all
  ultimately show ?thesis by (simp add: principal_exit_def evolves_def)
qed

lemma or_error_fst [simp]: "fst (or_error e r) = fst r"
  by (auto simp: or_error_def split: prod.split option.split)

lemma create_pending_evolves:
  assumes "rt_creates x = Some iid"
  shows "evolves hex x s (fst (principal_create_pending_intent now_mono now_gc now iid token pid p s))"
    and "evolves hex x s (fst (principal_create_pending_delegated now_mono now_gc now iid token now_grant rid pid p gp s))"
proof -
  have i: "evolves hex x s s1" if "on_intents (intent_create now_gc now iid token p) s = (s1, r)" for s1 r
    using store_op_evolves(6) [OF assms, of hex s now_gc now token p] that by simp
  have g: "evolves hex x s1 s2" if "on_grants k (request_grant now_grant rid gp) s1 = (s2, r)" for k s1 s2 r
    using on_grants_evolves [of hex "request_grant now_grant rid gp" x s1 k] that by (simp add: registry_op_moves)
  show "evolves hex x s (fst (principal_create_pending_intent now_mono now_gc now iid token pid p s))"
    by (auto simp: principal_create_pending_intent_def split: prod.split sum.split intro: i)
  show "evolves hex x s (fst (principal_create_pending_delegated now_mono now_gc now iid token now_grant rid pid p gp s))"
    by (auto simp: principal_create_pending_delegated_def split: prod.split sum.split option.split
        intro: i evolves_trans [OF i g])
qed

lemma registration_evolves:
  "evolves hex x s (fst (request_registration_grant now now' gid sid eid pid rp ttl s))"
  "evolves hex x s (fst (consume_registration_grant pid gid s))"
  by (auto simp: request_registration_grant_def consume_registration_grant_def Let_def split: prod.split option.split)

lemma resolve_for_sign_evolves: "evolves hex x s (fst (resolve_grant_for_sign now pid gid s))"
  by (simp add: resolve_grant_for_sign_def on_grants_evolves registry_sign_snapshot_def Let_def registry_op_moves)

lemma rt_step_evolves:
  assumes "\<not> is_reload x" and "hm_wf (rt_grants s)"
  shows "evolves (cr_hex c) x s (fst (rt_step c s x))"
proof (cases x)
  case (PApproveIntent now iid)
  then show ?thesis by (simp add: admin_approve_intent_def store_op_evolves)
next
  case (PDenyIntent now iid)
  then show ?thesis by (simp add: admin_deny_intent_def store_op_evolves)
next
  case (PCreateIntent now_gc now iid token p)
  then show ?thesis by (simp add: admin_create_intent_def store_op_evolves)
next
  case (PRequestGrant now rid p)
  then show ?thesis by (simp add: admin_request_grant_def on_grants_evolves registry_op_moves)
next
  case (PRequestDynamic now rid p)
  then show ?thesis by (simp add: admin_request_dynamic_grant_def on_grants_evolves registry_op_moves)
next
  case (PCancelIntent now iid pid sid)
  then show ?thesis by (simp add: principal_cancel_intent_def store_op_evolves)
next
  case (PCancelPending now pid sid)
  have "evolves (cr_hex c) x s (withdraw now pq (set_pending_state key st s))" for pq key st
    using withdraw_evolves [of "cr_hex c" x "set_pending_state key st s" now pq] by (rule evolves_trans [rotated]) simp
  then show ?thesis
    by (auto simp: PCancelPending principal_cancel_pending_def Let_def split: option.split)
next
  case (PDenyPending now t)
  then show ?thesis by (auto simp: ceremony_deny_pending_def withdraw_evolves split: sum.split)
qed (use assms in \<open>simp_all add: registration_evolves revoke_grant_by_id_evolves resolve_for_sign_evolves authorize_evolves
    authorize_bound_evolves consume_authorization_evolves admin_approve_grant_evolves admin_revoke_grant_evolves
    principal_exit_evolves create_pending_evolves resolve_pending_evolves withdraw_all_evolves
    cleanup_expired_pending_def cancel_pending_for_session_def Let_def\<close>)

end
