(* ===== verification/Runtime_Invariant.thy ===== *)
theory Runtime_Invariant
  imports Runtime_Steps
begin

text \<open>
  The invariant of the policy runtime: the invariants of its parts, and that every registry
  enforces the policy of the current generation.  The authorisations in flight and the waiting
  requests only ever move forward.
\<close>

section \<open>Authorisations in flight\<close>

definition pa_le :: "pending_authorization \<Rightarrow> pending_authorization \<Rightarrow> bool" where
  "pa_le pa pa' \<longleftrightarrow> pa' = pa \<or> pa' = pa\<lparr>pa_invalidated := True\<rparr>"

definition pending_moves :: "(string, pending_authorization) hashmap \<Rightarrow> (string, pending_authorization) hashmap \<Rightarrow> bool" where
  "pending_moves m m' \<longleftrightarrow> (hm_wf m \<longrightarrow> hm_wf m') \<and> (\<forall>k. rel_option pa_le (hm_get m k) (hm_get m' k))"

lemma pa_le_refl [simp]: "pa_le pa pa"
  by (simp add: pa_le_def)

lemma pending_moves_refl [simp]: "pending_moves m m"
  by (simp add: pending_moves_def option.rel_refl)

lemma pending_moves_map: "(\<And>pa. pa_le pa (f pa)) \<Longrightarrow> pending_moves m (hm_map f m)"
  by (auto simp: pending_moves_def option.rel_map intro!: option.rel_refl)

lemma on_intents_fields [simp]:
  "rt_pending (fst (on_intents f s)) = rt_pending s"
  "rt_pending_requests (fst (on_intents f s)) = rt_pending_requests s"
  "rt_grants (fst (on_intents f s)) = rt_grants s"
  "rt_current (fst (on_intents f s)) = rt_current s"
  by (simp_all add: on_intents_def split: prod.split)

lemma on_grants_fields [simp]:
  "rt_pending (fst (on_grants k f s)) = rt_pending s"
  "rt_pending_requests (fst (on_grants k f s)) = rt_pending_requests s"
  "rt_intents (fst (on_grants k f s)) = rt_intents s"
  "rt_current (fst (on_grants k f s)) = rt_current s"
  by (auto simp: on_grants_def split: option.split prod.split)

lemma on_intents_fieldsD:
  assumes "on_intents f s = (t, r)"
  shows "rt_pending t = rt_pending s" "rt_pending_requests t = rt_pending_requests s" "rt_grants t = rt_grants s"
    "rt_current t = rt_current s" "rt_intents t = fst (f (rt_intents s))" "r = snd (f (rt_intents s))"
  using assms by (auto simp: on_intents_def split: prod.splits)

lemma on_grants_fieldsD:
  assumes "on_grants k f s = (t, r)"
  shows "rt_pending t = rt_pending s" "rt_pending_requests t = rt_pending_requests s" "rt_intents t = rt_intents s"
    "rt_current t = rt_current s"
  using on_grants_fields [of k f s] assms by simp_all

lemma withdraw_fields [simp]:
  "rt_pending (withdraw now pq s) = rt_pending s"
  "rt_pending_requests (withdraw now pq s) = rt_pending_requests s"
  by (auto simp: withdraw_def Let_def split: option.split)

lemma set_pending_state_fields [simp]:
  "rt_pending (set_pending_state k st s) = rt_pending s"
  "rt_pending_requests (set_pending_state k st s) = hm_update (\<lambda>pq. pq\<lparr>pq_state := st\<rparr>) k (rt_pending_requests s)"
  by (simp_all add: set_pending_state_def)

lemma withdraw_all_pending [simp]: "rt_pending (withdraw_all p st nows xs s) = rt_pending s"
  by (induction p st nows xs s rule: withdraw_all.induct) auto

lemma invalidate_ceremony_pending:
  "rt_pending (invalidate_ceremony key s) =
     (case hm_get (rt_pending s) key of None \<Rightarrow> rt_pending s | Some pa \<Rightarrow> hm_insert key (pa\<lparr>pa_invalidated := True\<rparr>) (rt_pending s))"
  "rt_pending_requests (invalidate_ceremony key s) = rt_pending_requests s"
  by (auto simp: invalidate_ceremony_def Let_def split: option.split)

lemma invalidate_ceremony_moves: "pending_moves (rt_pending s) (rt_pending (invalidate_ceremony key s))"
  by (auto simp: invalidate_ceremony_pending pending_moves_def pa_le_def intro: option.rel_refl split: option.split)

lemma consume_authorization_pending:
  "pending_moves (rt_pending s) (rt_pending (fst (consume_authorization h s)))"
  "rt_pending_requests (fst (consume_authorization h s)) = rt_pending_requests s"
proof -
  have inv: "pending_moves (rt_pending s) (rt_pending (invalidate_ceremony key t))" if "rt_pending t = rt_pending s" for key t
    using invalidate_ceremony_moves [of t key] that by simp
  show "pending_moves (rt_pending s) (rt_pending (fst (consume_authorization h s)))"
    by (auto simp: consume_authorization_def Let_def on_intents_fieldsD on_grants_fieldsD
        split: option.split prod.split sum.split intent_error.split intro!: inv)
  show "rt_pending_requests (fst (consume_authorization h s)) = rt_pending_requests s"
    by (auto simp: consume_authorization_def Let_def on_intents_fieldsD on_grants_fieldsD invalidate_ceremony_pending
        split: option.split prod.split sum.split intent_error.split)
qed

text \<open>An authorisation that is granted adds its handle, one that is refused leaves the map alone.\<close>

definition issues :: "policy_runtime \<Rightarrow> policy_runtime \<Rightarrow> decision \<Rightarrow> authorization_handle option \<Rightarrow> bool" where
  "issues s s' d ho \<longleftrightarrow> rt_pending_requests s' = rt_pending_requests s \<and>
     (case ho of
        None \<Rightarrow> \<not> is_allowed d \<and> rt_pending s' = rt_pending s
      | Some h \<Rightarrow> is_allowed d \<and> rt_pending s' = rt_pending (insert_pending h s))"

lemma authorize_isolated_issues:
  assumes "authorize_isolated now cid snap req s = (s', d, ho)"
  shows "issues s s' d ho"
proof (cases "on_intents (claim_approved now (request_query req (ps_profile_id snap) (ar_rp_id req))) s")
  case (Pair s1 r)
  from assms on_intents_fieldsD(1,2) [OF Pair] show ?thesis
    by (auto simp: authorize_isolated_def Pair Let_def issues_def insert_pending_def
        split: sum.splits intent_error.splits if_splits)
qed

lemma refused_issues [simp]: "issues s s (decision_deny reason act) None"
  by (simp add: issues_def)

lemma authorize_issues: "authorize c now cid req s = (s', d, ho) \<Longrightarrow> issues s s' d ho"
  unfolding authorize_def Let_def
  by (auto split: option.splits if_splits dest: authorize_isolated_issues)

lemma authorize_bound_issues:
  assumes "authorize_bound c now now' now'' cid b req s = (s', d, ho)"
  shows "issues s s' d ho"
proof (cases "on_intents (claim_approved now (bound_query b)) s")
  case (Pair s1 r)
  note f = on_intents_fieldsD(1,2) [OF Pair]
  have g: "rt_pending s2 = rt_pending s" "rt_pending_requests s2 = rt_pending_requests s"
    if "on_grants k f s1 = (s2, res)" for k f s2 and res :: "(grant_error + ceremony_id) option"
    using on_grants_fieldsD(1,2) [OF that] f by simp_all
  have ok: "issues s (insert_pending h t) (decision_allow RcAllowed) (Some h)"
    if "rt_pending t = rt_pending s" "rt_pending_requests t = rt_pending_requests s" for h t
    using that by (simp add: issues_def insert_pending_def)
  have no: "issues s t (decision_deny reason act) None"
    if "rt_pending t = rt_pending s" "rt_pending_requests t = rt_pending_requests s" for t reason act
    using that by (simp add: issues_def)
  from assms f show ?thesis
    unfolding authorize_bound_def Pair Let_def prod.case
    by (auto split: option.splits prod.splits sum.splits intent_error.splits if_splits intro!: ok no dest: g)
qed

fun new_handle :: "rt_out \<Rightarrow> authorization_handle option" where
  "new_handle (PoDecision d ho) = ho"
| "new_handle _ = None"

lemma other_ops_pending [simp]:
  "rt_pending (fst (request_registration_grant now now' gid sid eid prof rp ttl s)) = rt_pending s"
  "rt_pending (fst (consume_registration_grant prof gid s)) = rt_pending s"
  "rt_pending (fst (revoke_grant_by_id gr s)) = rt_pending s"
  "rt_pending (fst (resolve_grant_for_sign now prof gr s)) = rt_pending s"
  "rt_pending (fst (admin_approve_grant clk gr rid s)) = rt_pending s"
  "rt_pending (fst (principal_create_pending_intent now_mono now_gc nowi iid token pid p s)) = rt_pending s"
  "rt_pending (fst (principal_create_pending_delegated now_mono now_gc nowi iid token now_grant rid pid p gp s)) = rt_pending s"
  "rt_pending (fst (principal_cancel_pending nowi pid sid s)) = rt_pending s"
  "rt_pending (fst (ceremony_resolve_pending c now_mono nowi now now' gr t s)) = rt_pending s"
  "rt_pending (fst (ceremony_deny_pending nowi t s)) = rt_pending s"
  by (auto simp: request_registration_grant_def consume_registration_grant_def revoke_grant_by_id_def
      resolve_grant_for_sign_def admin_approve_grant_def principal_create_pending_intent_def insert_request_def
      principal_create_pending_delegated_def principal_cancel_pending_def ceremony_resolve_pending_def
      ceremony_deny_pending_def Let_def on_intents_fieldsD on_grants_fieldsD split: prod.split sum.split option.split)

lemma rt_step_pending:
  "case new_handle (snd (rt_step c s x)) of
     Some h \<Rightarrow> rt_pending (fst (rt_step c s x)) = rt_pending (insert_pending h s)
   | None \<Rightarrow> pending_moves (rt_pending s) (rt_pending (fst (rt_step c s x)))"
proof (cases x)
  case (PReload gid now nonce config)
  then show ?thesis by (auto simp: reload_def pa_le_def intro!: pending_moves_map split: sum.split)
next
  case (PAuthorize now cid req)
  obtain s' d ho where r: "authorize c now cid req s = (s', d, ho)" by (rule prod_cases3)
  from authorize_issues [OF r] show ?thesis by (simp add: PAuthorize r issues_def split: option.splits)
next
  case (PAuthorizeBound now now' now'' cid b req)
  obtain s' d ho where r: "authorize_bound c now now' now'' cid b req s = (s', d, ho)" by (rule prod_cases3)
  from authorize_bound_issues [OF r] show ?thesis by (simp add: PAuthorizeBound r issues_def split: option.splits)
next
  case (PRevokeGrant gid)
  then show ?thesis
    by (auto simp: admin_revoke_grant_def pa_le_def intro!: pending_moves_map split: option.split prod.split sum.split)
next
  case (PExit sid)
  then show ?thesis by (simp add: principal_exit_def pa_le_def pending_moves_map)
qed (simp_all add: consume_authorization_pending(1) admin_approve_intent_def admin_deny_intent_def admin_create_intent_def
    admin_request_grant_def admin_request_dynamic_grant_def principal_cancel_intent_def cleanup_expired_pending_def
    cancel_pending_for_session_def Let_def)

section \<open>Waiting requests\<close>

definition pq_le :: "pending_request \<Rightarrow> pending_request \<Rightarrow> bool" where
  "pq_le pq pq' \<longleftrightarrow> pq' = pq \<or> pq_state pq = PsWaiting \<and> (\<exists>st. st \<noteq> PsWaiting \<and> pq' = pq\<lparr>pq_state := st\<rparr>)"

definition requests_move :: "(string, pending_request) hashmap \<Rightarrow> (string, pending_request) hashmap \<Rightarrow> bool" where
  "requests_move m m' \<longleftrightarrow> (hm_wf m \<longrightarrow> hm_wf m') \<and> (\<forall>k. rel_option pq_le (hm_get m k) (hm_get m' k))"

lemma pq_le_refl [simp]: "pq_le pq pq"
  by (simp add: pq_le_def)

lemma requests_move_refl [simp]: "requests_move m m"
  by (simp add: requests_move_def option.rel_refl)

lemma requests_move_map: "(\<And>pq. pq_le pq (f pq)) \<Longrightarrow> requests_move m (hm_map f m)"
  by (auto simp: requests_move_def option.rel_map intro!: option.rel_refl)

lemma requests_move_update:
  "hm_get m k = Some pq \<Longrightarrow> pq_state pq = PsWaiting \<Longrightarrow> st \<noteq> PsWaiting \<Longrightarrow>
   requests_move m (hm_update (\<lambda>pq. pq\<lparr>pq_state := st\<rparr>) k m)"
  by (auto simp: requests_move_def hm_get_update pq_le_def intro: option.rel_refl)

lemma find_waiting_ok:
  assumes "find_waiting t s = Ok (key, pq)"
  shows "hm_get (rt_pending_requests s) key = Some pq" and "pq_state pq = PsWaiting"
  using assms by (auto simp: find_waiting_def split: list.splits option.splits pending_state.splits)

lemma withdraw_all_requests:
  assumes "distinct (map fst xs)" and "\<forall>(k, pq) \<in> set xs. hm_get (rt_pending_requests s) k = Some pq"
  shows "hm_get (rt_pending_requests (withdraw_all p st nows xs s)) k =
    (case map_of xs k of
       Some pq \<Rightarrow> Some (if pq_state pq = PsWaiting \<and> p pq then pq\<lparr>pq_state := st\<rparr> else pq)
     | None \<Rightarrow> hm_get (rt_pending_requests s) k)"
  using assms
proof (induction p st nows xs s rule: withdraw_all.induct)
  case (2 p st nows key pq rest s)
  let ?s = "if pq_state pq = PsWaiting \<and> p pq then withdraw (nows key) pq (set_pending_state key st s) else s"
  have "\<forall>(k, pq) \<in> set rest. hm_get (rt_pending_requests ?s) k = Some pq"
  proof clarify
    fix k' pq'
    assume m: "(k', pq') \<in> set rest"
    with "2.prems"(2) have "hm_get (rt_pending_requests s) k' = Some pq'" by auto
    moreover from m "2.prems"(1) have "k' \<noteq> key" by force
    ultimately show "hm_get (rt_pending_requests ?s) k' = Some pq'" by (simp add: hm_get_update)
  qed
  with 2 have IH: "hm_get (rt_pending_requests (withdraw_all p st nows rest ?s)) k =
    (case map_of rest k of
       Some pq \<Rightarrow> Some (if pq_state pq = PsWaiting \<and> p pq then pq\<lparr>pq_state := st\<rparr> else pq)
     | None \<Rightarrow> hm_get (rt_pending_requests ?s) k)" by simp
  from "2.prems" have "map_of rest key = None" by (simp add: map_of_eq_None_iff)
  with IH "2.prems" show ?case by (cases "k = key"; cases "map_of rest k") (auto simp: hm_get_update)
qed simp

lemma withdraw_all_wf: "hm_wf (rt_pending_requests s) \<Longrightarrow> hm_wf (rt_pending_requests (withdraw_all p st nows xs s))"
  by (induction p st nows xs s rule: withdraw_all.induct) auto

lemma withdraw_all_get:
  assumes "hm_wf (rt_pending_requests s)"
  shows "hm_get (rt_pending_requests (withdraw_all p st nows (rt_pending_requests s) s)) k =
    map_option (\<lambda>pq. if pq_state pq = PsWaiting \<and> p pq then pq\<lparr>pq_state := st\<rparr> else pq) (hm_get (rt_pending_requests s) k)"
proof -
  have "\<forall>(k, pq) \<in> set (rt_pending_requests s). hm_get (rt_pending_requests s) k = Some pq"
    using assms by (auto simp: hm_get_iff)
  from withdraw_all_requests [OF _ this, of p st nows k] assms show ?thesis
    by (auto simp: hm_wf_def hm_get_def split: option.split)
qed

lemma withdraw_all_moves:
  assumes "hm_wf (rt_pending_requests s)" and "st \<noteq> PsWaiting"
  shows "requests_move (rt_pending_requests s) (rt_pending_requests (withdraw_all p st nows (rt_pending_requests s) s))"
  using assms by (auto simp: requests_move_def withdraw_all_wf withdraw_all_get option.rel_map pq_le_def intro!: option.rel_refl)

fun new_request :: "rt_out \<Rightarrow> pending_request_id option" where
  "new_request (PoPending (Inr pid)) = Some pid"
| "new_request (PoDelegated (Inr (pid, rid))) = Some pid"
| "new_request _ = None"

lemma other_ops_requests [simp]:
  "rt_pending_requests (fst (request_registration_grant now now' gid sid eid prof rp ttl s)) = rt_pending_requests s"
  "rt_pending_requests (fst (consume_registration_grant prof gid s)) = rt_pending_requests s"
  "rt_pending_requests (fst (revoke_grant_by_id gr s)) = rt_pending_requests s"
  "rt_pending_requests (fst (resolve_grant_for_sign now prof gr s)) = rt_pending_requests s"
  "rt_pending_requests (fst (admin_approve_grant clk gr rid s)) = rt_pending_requests s"
  "rt_pending_requests (fst (admin_revoke_grant gr s)) = rt_pending_requests s"
  by (auto simp: request_registration_grant_def consume_registration_grant_def revoke_grant_by_id_def
      resolve_grant_for_sign_def admin_approve_grant_def admin_revoke_grant_def Let_def
      split: prod.split sum.split option.split)

lemma resolve_pending_requests:
  "requests_move (rt_pending_requests s) (rt_pending_requests (fst (ceremony_resolve_pending c now_mono nowi now now' gr t s)))"
  by (auto simp: ceremony_resolve_pending_def Let_def on_intents_fieldsD on_grants_fieldsD
      split: prod.split sum.split option.split
      intro!: requests_move_update [OF find_waiting_ok(1) find_waiting_ok(2)])

lemma create_pending_requests:
  assumes "principal_create_pending_intent now_mono now_gc nowi iid token pid p s = (s', r)"
  shows "rt_pending_requests s' = (case r of
      Inl _ \<Rightarrow> rt_pending_requests s
    | Inr _ \<Rightarrow> hm_insert (pending_request_id_str pid) (mk_pending_request now_mono pid IsolatedIntent p iid None) (rt_pending_requests s))
    \<and> (\<forall>pid'. r = Ok pid' \<longrightarrow> pid' = pid)"
proof (cases "on_intents (intent_create now_gc nowi iid token p) s")
  case (Pair s1 r1)
  have id: "i = iid" if "r1 = Ok (i, tok)" for i tok
    using on_intents_fieldsD(6) [OF Pair] that
    by (auto simp: intent_create_def Let_def split: if_splits option.splits)
  show ?thesis
    using assms on_intents_fieldsD(2) [OF Pair] id
    by (auto simp: principal_create_pending_intent_def Pair insert_request_def mk_pending_request_def Let_def
        split: sum.splits)
qed

lemma create_delegated_requests:
  assumes "principal_create_pending_delegated now_mono now_gc nowi iid token now_grant rid pid p gp s = (s', r)"
  shows "(case r of
      Inl _ \<Rightarrow> rt_pending_requests s' = rt_pending_requests s
    | Inr (pid', rid') \<Rightarrow> pid' = pid \<and> rt_pending_requests s' = hm_insert (pending_request_id_str pid)
        (mk_pending_request now_mono pid DelegatedAuth p iid (Some rid')) (rt_pending_requests s))"
proof (cases "on_intents (intent_create now_gc nowi iid token p) s")
  case (Pair s1 r1)
  have id: "i = iid" if "r1 = Ok (i, tok)" for i tok
    using on_intents_fieldsD(6) [OF Pair] that
    by (auto simp: intent_create_def Let_def split: if_splits option.splits)
  show ?thesis
    using assms on_intents_fieldsD(2) [OF Pair] id
    by (auto simp: principal_create_pending_delegated_def Pair insert_request_def mk_pending_request_def Let_def
        dest!: on_grants_fieldsD(2) split: sum.splits prod.splits option.splits)
qed

lemma mk_pending_request_fields [simp]:
  "pq_id (mk_pending_request now pid kind p iid rid) = pid"
  "pq_state (mk_pending_request now pid kind p iid rid) = PsWaiting"
  "pq_intent_id (mk_pending_request now pid kind p iid rid) = iid"
  by (simp_all add: mk_pending_request_def Let_def)

lemma rt_step_requests:
  assumes "hm_wf (rt_pending_requests s)"
  shows "case new_request (snd (rt_step c s x)) of
     Some pid \<Rightarrow> \<exists>pq. pq_id pq = pid \<and> pq_state pq = PsWaiting \<and>
       rt_pending_requests (fst (rt_step c s x)) = hm_insert (pending_request_id_str pid) pq (rt_pending_requests s)
   | None \<Rightarrow> requests_move (rt_pending_requests s) (rt_pending_requests (fst (rt_step c s x)))"
proof (cases x)
  case (PReload gid now nonce config)
  then show ?thesis by (auto simp: reload_def pq_le_def intro!: requests_move_map split: sum.split)
next
  case (PAuthorize now cid req)
  obtain s' d ho where r: "authorize c now cid req s = (s', d, ho)" by (rule prod_cases3)
  from authorize_issues [OF r] show ?thesis by (simp add: PAuthorize r issues_def)
next
  case (PAuthorizeBound now now' now'' cid b req)
  obtain s' d ho where r: "authorize_bound c now now' now'' cid b req s = (s', d, ho)" by (rule prod_cases3)
  from authorize_bound_issues [OF r] show ?thesis by (simp add: PAuthorizeBound r issues_def)
next
  case (PExit sid)
  then show ?thesis by (auto simp: principal_exit_def pq_le_def intro!: requests_move_map)
next
  case (PCreatePending now_mono now_gc now iid token pid p)
  obtain s' r where r: "principal_create_pending_intent now_mono now_gc now iid token pid p s = (s', r)" by (rule prod.exhaust)
  from create_pending_requests [OF r] show ?thesis
    by (auto simp: PCreatePending r split: sum.splits
        intro!: exI [of _ "mk_pending_request now_mono pid IsolatedIntent p iid None"])
next
  case (PCreateDelegated now_mono now_gc now iid token now_grant rid pid p gp)
  obtain s' r where r: "principal_create_pending_delegated now_mono now_gc now iid token now_grant rid pid p gp s = (s', r)"
    by (rule prod.exhaust)
  from create_delegated_requests [OF r] show ?thesis
    by (auto simp: PCreateDelegated r split: sum.splits prod.splits
        intro!: exI [of _ "mk_pending_request now_mono pid DelegatedAuth p iid (Some rid')" for rid'])
next
  case (PCancelPending now pid sid)
  then show ?thesis
    by (auto simp: principal_cancel_pending_def Let_def split: option.split intro: requests_move_update)
next
  case (PResolve now_mono now now' now'' gid t)
  then show ?thesis by (simp add: resolve_pending_requests)
next
  case (PDenyPending now t)
  then show ?thesis
    by (auto simp: ceremony_deny_pending_def split: sum.split
        intro!: requests_move_update [OF find_waiting_ok(1) find_waiting_ok(2)])
qed (simp_all add: consume_authorization_pending(2) admin_approve_intent_def admin_deny_intent_def admin_create_intent_def
    admin_request_grant_def admin_request_dynamic_grant_def principal_cancel_intent_def cleanup_expired_pending_def
    cancel_pending_for_session_def Let_def withdraw_all_moves assms)

section \<open>The invariant\<close>

definition snapshot_policy ::
    "generation_snapshot \<Rightarrow> policy_snapshot \<Rightarrow> policy_generation_id \<times> policy_digest \<times> u64 \<times> btreeset \<times> u64" where
  "snapshot_policy g snap =
     (gen_id g, ps_digest snap, ps_max_grant_ttl_secs snap, ps_allowed_actions snap, ps_max_concurrent_grants snap)"

definition registry_ok :: "generation_snapshot \<Rightarrow> string \<Rightarrow> grant_registry \<Rightarrow> bool" where
  "registry_ok g k r \<longleftrightarrow>
     reg_inv r \<and> (\<exists>snap \<in> set (gen_snapshots g). profile_id_str (ps_profile_id snap) = k \<and> policy_of r = snapshot_policy g snap)"

definition rt_inv :: "policy_runtime \<Rightarrow> bool" where
  "rt_inv s \<longleftrightarrow>
     store_inv (rt_intents s) \<and> hm_all (registry_ok (rt_current s)) (rt_grants s) \<and>
     hm_all (\<lambda>k pa. k = ceremony_id_str (ah_ceremony_id pa)) (rt_pending s) \<and>
     hm_all (\<lambda>k pq. k = pending_request_id_str (pq_id pq)) (rt_pending_requests s)"

lemma rt_invD:
  assumes "rt_inv s"
  shows "store_inv (rt_intents s)" "hm_all (registry_ok (rt_current s)) (rt_grants s)" "hm_wf (rt_grants s)"
    "hm_wf (rt_pending s)" "hm_wf (rt_pending_requests s)"
    "hm_all (\<lambda>k pa. k = ceremony_id_str (ah_ceremony_id pa)) (rt_pending s)"
    "hm_all (\<lambda>k pq. k = pending_request_id_str (pq_id pq)) (rt_pending_requests s)"
  using assms by (auto simp: rt_inv_def dest: hm_all_wf)

lemma grant_step_policy: "grant_local x \<Longrightarrow> policy_of (fst (grant_step hex r x)) = policy_of r"
proof (cases x)
  case (GRequest now rid p)
  then show ?thesis using check_clock_frame(1) [of now r]
    by (cases "check_clock now r") (auto simp: request_grant_def request_grant_inner_def Let_def policy_of_def record_audit_def
        and_then_def split: sum.splits)
next
  case (GRequestDynamic now rid p)
  then show ?thesis using check_clock_frame(1) [of now r]
    by (cases "check_clock now r") (auto simp: request_dynamic_grant_def request_grant_inner_def Let_def policy_of_def
        record_audit_def and_then_def split: sum.splits)
next
  case (GApprove now now' gid rid)
  then show ?thesis using check_clock_frame(1) [of now r]
    by (cases "check_clock now r") (auto simp: approve_grant_def Let_def policy_of_def record_audit_def and_then_def
        split: sum.splits option.splits)
next
  case (GClaim now now' cid gid sid ci)
  then show ?thesis using check_clock_frame(1) [of now r] check_expired_frame(1) [of now' "fst (check_clock now r)"]
    by (cases "check_clock now r") (auto simp: claim_for_authorize_def Let_def policy_of_def and_then_def
        split: sum.splits option.splits)
qed (auto simp: cancel_request_def policy_of_def on_principal_exit_def cancel_claim_def consume_claim_by_ceremony_def
    cancel_claims_for_session_def cancel_claims_for_grant_def Let_def revoke_grant_def check_expired_def split: option.split prod.split)

lemma registry_moves_ok: "registry_moves hex r r' \<Longrightarrow> registry_ok g k r \<Longrightarrow> registry_ok g k r'"
  by (induction rule: steps_by_induct) (auto simp: registry_ok_def grant_step_policy intro: grant_step_inv)

lemma registries_move_ok:
  assumes "registries_move hex gs gs'" and "hm_all (registry_ok g) gs"
  shows "hm_all (registry_ok g) gs'"
  unfolding hm_all_iff
proof (intro conjI allI impI)
  show "hm_wf gs'" using assms by (auto simp: registries_move_def dest: hm_all_wf)
  fix k r' assume r': "hm_get gs' k = Some r'"
  from assms(1) have "rel_option (registry_moves hex) (hm_get gs k) (hm_get gs' k)" by (simp add: registries_move_def)
  with r' obtain r where "hm_get gs k = Some r" "registry_moves hex r r'" by (auto simp: option_rel_Some2)
  with assms(2) show "registry_ok g k r'" by (auto intro: registry_moves_ok dest: hm_all_get)
qed

lemma hm_all_fold_insert:
  "hm_all P m \<Longrightarrow> (\<And>x. x \<in> set xs \<Longrightarrow> P (key x) (v x)) \<Longrightarrow> hm_all P (fold (\<lambda>x. hm_insert (key x) (v x)) xs m)"
  by (induction xs arbitrary: m) (simp_all add: hm_all_insert)

lemma new_registries_ok: "hm_all (registry_ok g) (new_registries audit g)"
proof -
  have "policy_of (grant_registry_new (gen_id g) (ps_digest snap) (ps_max_grant_ttl_secs snap) (ps_allowed_actions snap)
      (ps_max_concurrent_grants snap) sink) = snapshot_policy g snap" for snap sink
    by (simp add: policy_of_def snapshot_policy_def grant_registry_new_def)
  then show ?thesis
    unfolding new_registries_def by (intro hm_all_fold_insert) (auto simp: registry_ok_def)
qed

lemma hm_all_move:
  assumes "\<forall>k. rel_option R (hm_get m k) (hm_get m' k)" and "hm_wf m'" and "hm_all P m"
    and "\<And>k a b. P k a \<Longrightarrow> R a b \<Longrightarrow> P k b"
  shows "hm_all P m'"
  unfolding hm_all_iff
proof (intro conjI allI impI)
  fix k b assume "hm_get m' k = Some b"
  moreover from assms(1) have "rel_option R (hm_get m k) (hm_get m' k)" by blast
  ultimately obtain a where "hm_get m k = Some a" "R a b" by (auto simp: option_rel_Some2)
  with assms(3,4) show "P k b" by (blast dest: hm_all_get)
qed fact

lemma pending_moves_keys:
  assumes "pending_moves m m'" and "hm_all (\<lambda>k pa. k = ceremony_id_str (ah_ceremony_id pa)) m"
  shows "hm_all (\<lambda>k pa. k = ceremony_id_str (ah_ceremony_id pa)) m'"
  using assms by (intro hm_all_move [of pa_le m m']) (auto simp: pending_moves_def pa_le_def dest: hm_all_wf)

lemma requests_move_keys:
  assumes "requests_move m m'" and "hm_all (\<lambda>k pq. k = pending_request_id_str (pq_id pq)) m"
  shows "hm_all (\<lambda>k pq. k = pending_request_id_str (pq_id pq)) m'"
  using assms by (intro hm_all_move [of pq_le m m']) (auto simp: requests_move_def pq_le_def dest: hm_all_wf)

lemma rt_step_inv:
  assumes "rt_inv s"
  shows "rt_inv (fst (rt_step c s x))"
proof -
  let ?s = "fst (rt_step c s x)"
  note inv = rt_invD [OF assms]
  have parts: "store_inv (rt_intents ?s) \<and> hm_all (registry_ok (rt_current ?s)) (rt_grants ?s)"
  proof (cases "is_reload x")
    case True
    then obtain gid now nonce config where x: "x = PReload gid now nonce config" by (cases x) auto
    have "store_inv (invalidate_all nonce (rt_intents s))"
      using intent_step_inv [OF inv(1), of "IInvalidateAll nonce"] by simp
    with inv show ?thesis by (auto simp: x reload_def new_registries_ok split: sum.split)
  next
    case False
    from rt_step_evolves [OF this inv(3), where c = c] inv(1,2) show ?thesis
      by (auto simp: evolves_def intro: istore.inv_steps_by registries_move_ok)
  qed
  have "hm_all (\<lambda>k pa. k = ceremony_id_str (ah_ceremony_id pa)) (rt_pending ?s)"
    using rt_step_pending [where c = c and s = s and x = x] inv(4,6)
    by (auto simp: insert_pending_def authorization_handle.defs
        intro!: hm_all_insert intro: pending_moves_keys split: option.splits)
  moreover have "hm_all (\<lambda>k pq. k = pending_request_id_str (pq_id pq)) (rt_pending_requests ?s)"
    using rt_step_requests [OF inv(5), where c = c and x = x] inv(5,7)
    by (auto intro!: hm_all_insert intro: requests_move_keys split: option.splits)
  ultimately show ?thesis using parts by (simp add: rt_inv_def)
qed

interpretation runtime: automaton_inv "rt_step c" rt_inv for c
  by unfold_locales (rule rt_step_inv)

lemma runtime_new_inv: "runtime_new c gid now nonce config audit = Ok s \<Longrightarrow> rt_inv s"
  by (auto simp: runtime_new_def res_bind_ok rt_inv_def new_registries_ok with_defaults_def store_new_def store_inv_def active_count_def)

end
