(* ===== verification/Runtime_Safety.thy ===== *)
theory Runtime_Safety
  imports Runtime_Invariant
begin

text \<open>
  The properties of the policy runtime: what an authorisation needs, that what it authorises happens
  at most once and only after a trusted approval, that a reload and the end of a session withdraw
  everything they should, how a waiting request is resolved, and that an approved ceremony completes.
\<close>

section \<open>Reachable states\<close>

text \<open>C22. Every state the policy runtime reaches from its construction is consistent: the intent store and every grant registry
  satisfy their own invariants, every registry belongs to a profile of the current policy generation
  and enforces exactly its digest, actions, time-to-live and number of grants, and the maps of
  authorisations and requests are indexed by their identifiers.\<close>

theorem runtime_reachable_consistent:
  assumes "runtime_new c gid now nonce config audit = Ok s"
  shows "rt_inv (run_state (rt_step c) s xs)"
  using runtime_new_inv [OF assms] by (rule runtime.inv_run)

section \<open>Consumption\<close>

lemma on_intents_results [simp]:
  "snd (on_intents f s) = snd (f (rt_intents s))" "rt_intents (fst (on_intents f s)) = fst (f (rt_intents s))"
  by (simp_all add: on_intents_def case_prod_beta)

definition grant_usable :: "authorization_handle \<Rightarrow> policy_runtime \<Rightarrow> bool" where
  "grant_usable h s \<longleftrightarrow>
     (case ah_grant_id h of
        None \<Rightarrow> True
      | Some gid \<Rightarrow>
          (case hm_get (rt_grants s) (profile_id_str (ah_profile_id h)) of
             None \<Rightarrow> False
           | Some r \<Rightarrow> is_grant_active gid r \<and>
               (case hm_get (gr_claims r) (ah_ceremony_id h) of None \<Rightarrow> False | Some cl \<Rightarrow> \<not> ac_consumed cl)))"

text \<open>The ceremony is in flight with exactly the data of the handle; the ceremony id is the key it is found under.\<close>

definition in_flight :: "pending_authorization \<Rightarrow> authorization_handle \<Rightarrow> bool" where
  "in_flight pa h \<longleftrightarrow> \<not> pa_invalidated pa \<and>
     authorization_handle.truncate pa = h\<lparr>ah_ceremony_id := ah_ceremony_id pa\<rparr>"

lemma in_flight_eq [simp]: "in_flight pa h \<longleftrightarrow> handle_matches pa h"
  by (cases pa, cases h) (auto simp: in_flight_def handle_matches_def authorization_handle.truncate_def)

definition consumable :: "authorization_handle \<Rightarrow> policy_runtime \<Rightarrow> intent_id \<Rightarrow> intent \<Rightarrow> bool" where
  "consumable h s iid i \<longleftrightarrow>
     (\<exists>pa. hm_get (rt_pending s) (ceremony_id_str (ah_ceremony_id h)) = Some pa \<and> in_flight pa h) \<and>
     ah_policy_generation h = gen_id (rt_current s) \<and> ah_policy_digest h = gen_digest (rt_current s) \<and>
     ah_intent_id h = Some iid \<and> intent_get (rt_intents s) iid = Some i \<and> i_state i = Claimed \<and> grant_usable h s"

lemma registry_generation:
  assumes "rt_inv s" and "hm_get (rt_grants s) k = Some r"
  shows "gr_policy_generation r = gen_id (rt_current s)" and "reg_inv r"
  using hm_all_get [OF rt_invD(2) [OF assms(1)] assms(2)]
  by (auto simp: registry_ok_def policy_of_def snapshot_policy_def)

lemma consume_claimed_cases:
  obtains (ok) i where "intent_get st iid = Some i" and "i_state i = Claimed"
    and "consume_claimed iid st =
      (st\<lparr>intents := hm_insert (intent_id_str iid) (i\<lparr>i_state := Consumed\<rparr>) (intents st)\<rparr>, Ok (consume_info i))"
  | (err) e where "snd (consume_claimed iid st) = Err e" and "\<nexists>i. intent_get st iid = Some i \<and> i_state i = Claimed"
proof (cases "\<exists>i. intent_get st iid = Some i \<and> i_state i = Claimed")
  case True
  then show thesis using ok by (metis consume_ok(2))
next
  case False
  then have "\<not> is_ok (snd (consume_claimed iid st))"
    using consume_ok(2) [of iid st] by (metis is_ok_iff prod.collapse)
  then show thesis using False err by (cases "snd (consume_claimed iid st)") auto
qed

lemma consume_authorization_ok:
  assumes "rt_inv s" and "consume_authorization h s = (s', Ok info)"
  obtains iid i where "consumable h s iid i" and "info = consume_info i"
proof -
  let ?key = "ceremony_id_str (ah_ceremony_id h)"
  from assms(2) obtain pa where pa: "hm_get (rt_pending s) ?key = Some pa" "handle_matches pa h"
    by (auto simp: consume_authorization_def Let_def split: if_splits option.splits)
  with assms(2) have gen: "ah_policy_generation h = gen_id (rt_current s)" "ah_policy_digest h = gen_digest (rt_current s)"
    and ref: "grant_refusal h s = None"
    by (auto simp: consume_authorization_def Let_def split: if_splits option.splits)
  from assms(2) pa gen ref obtain iid where iid: "ah_intent_id h = Some iid"
    by (auto simp: consume_authorization_def Let_def split: if_splits option.splits)
  show thesis
  proof (cases rule: consume_claimed_cases [of "rt_intents s" iid])
    case (ok i)
    let ?s1 = "s\<lparr>rt_intents := (rt_intents s)\<lparr>intents := hm_insert (intent_id_str iid) (i\<lparr>i_state := Consumed\<rparr>) (intents (rt_intents s))\<rparr>\<rparr>"
    have s1: "on_intents (consume_claimed iid) s = (?s1, Ok (consume_info i))" by (simp add: on_intents_def ok)
    have "grant_usable h s \<and> info = consume_info i"
    proof (cases "ah_grant_id h")
      case None
      with assms(2) pa gen ref iid s1 show ?thesis
        by (simp add: consume_authorization_def Let_def grant_usable_def)
    next
      case (Some gid)
      from ref Some obtain r where r: "hm_get (rt_grants s) (profile_id_str (ah_profile_id h)) = Some r" "is_grant_active gid r"
        by (auto simp: grant_refusal_def split: option.splits if_splits)
      have g: "on_grants (profile_id_str (ah_profile_id h)) (consume_claim_by_ceremony (ah_ceremony_id h)) ?s1 =
          (?s1\<lparr>rt_grants := hm_insert (profile_id_str (ah_profile_id h)) (fst (consume_claim_by_ceremony (ah_ceremony_id h) r)) (rt_grants s)\<rparr>,
           Some (snd (consume_claim_by_ceremony (ah_ceremony_id h) r)))"
        using r by (simp add: on_grants_def split: prod.split)
      from assms(2) pa gen ref iid s1 Some g
      have "is_ok (snd (consume_claim_by_ceremony (ah_ceremony_id h) r)) \<and> info = consume_info i"
        by (auto simp: consume_authorization_def Let_def split: sum.splits)
      with r Some show ?thesis by (auto simp: grant_usable_def consume_claim_eq split: option.splits if_splits)
    qed
    with that pa gen iid ok(1,2) show thesis by (auto simp: consumable_def)
  next
    case (err e)
    then have "snd (on_intents (consume_claimed iid) s) = Err e" by simp
    with assms(2) pa gen ref iid show thesis
      by (cases "on_intents (consume_claimed iid) s") (auto simp: consume_authorization_def Let_def split: intent_error.splits)
  qed
qed

lemma consumable_consume:
  assumes "rt_inv s" and "consumable h s iid i"
  shows "snd (consume_authorization h s) = Ok (consume_info i)"
proof -
  let ?cid = "ah_ceremony_id h" and ?k = "profile_id_str (ah_profile_id h)"
  from assms(2) obtain pa where pa: "hm_get (rt_pending s) (ceremony_id_str ?cid) = Some pa" "handle_matches pa h"
    and gen: "ah_policy_generation h = gen_id (rt_current s)" "ah_policy_digest h = gen_digest (rt_current s)"
    and iid: "ah_intent_id h = Some iid" and i: "intent_get (rt_intents s) iid = Some i" "i_state i = Claimed"
    and usable: "grant_usable h s" by (auto simp: consumable_def)
  have ref: "grant_refusal h s = None"
    using usable registry_generation(1) [OF assms(1), of ?k] gen(1)
    by (auto simp: grant_usable_def grant_refusal_def split: option.splits)
  have "snd (consume_claimed iid (rt_intents s)) = Ok (consume_info i)" using i consume_ok(2) by (metis snd_conv)
  then obtain s1 where s1: "on_intents (consume_claimed iid) s = (s1, Ok (consume_info i))"
    using on_intents_results(1) [of "consume_claimed iid" s] by (metis prod.collapse)
  show ?thesis
  proof (cases "ah_grant_id h")
    case None
    with pa gen iid ref s1 show ?thesis by (simp add: consume_authorization_def Let_def)
  next
    case (Some gid)
    with usable obtain r cl where r: "hm_get (rt_grants s) ?k = Some r"
      and cl: "hm_get (gr_claims r) ?cid = Some cl" "\<not> ac_consumed cl"
      by (auto simp: grant_usable_def split: option.splits)
    from r have "hm_get (rt_grants s1) ?k = Some r" by (simp add: on_intents_fieldsD(3) [OF s1])
    then obtain s2 where s2: "on_grants ?k (consume_claim_by_ceremony ?cid) s1 = (s2, Some (Ok (ac_intent cl)))"
      using cl by (auto simp: on_grants_def consume_claim_eq)
    from Some pa gen iid ref s1 s2 show ?thesis by (simp add: consume_authorization_def Let_def)
  qed
qed

text \<open>C3. A handle is consumed exactly if its ceremony is in flight with the same data and not invalidated, it was issued under the
  current policy generation, its intent is claimed, and for a delegated ceremony its grant is active
  and its claim unused; the answer is the content of the intent.\<close>

theorem consume_authorization_iff:
  assumes "rt_inv s"
  shows "snd (consume_authorization h s) = Ok info \<longleftrightarrow> (\<exists>iid i. consumable h s iid i \<and> info = consume_info i)"
  using consume_authorization_ok [OF assms, of h] consumable_consume [OF assms, of h]
  by (metis Inr_inject prod.collapse)

text \<open>A consumption leaves the intent consumed, or, if it fails, at most rolled back.\<close>

definition rt_consumes :: "intent_id \<Rightarrow> rt_op \<Rightarrow> rt_out \<Rightarrow> bool" where
  "rt_consumes iid x y \<longleftrightarrow> (\<exists>h info. x = PConsume h \<and> ah_intent_id h = Some iid \<and> y = PoInfo (Ok info))"

lemma invalidate_ceremony_intents:
  "steps_by (intent_allowed x) intent_step (rt_intents s) (rt_intents (invalidate_ceremony key s))"
  using invalidate_ceremony_evolves [of hex x s key] by (simp add: evolves_def)

lemma consumed_spent:
  assumes "rt_inv s" and "consume_authorization h s = (s', Ok info)" and "ah_intent_id h = Some iid"
  shows "intent_spent iid (rt_intents s')"
proof -
  from assms(1,2) obtain iid' i where c: "consumable h s iid' i" by (rule consume_authorization_ok)
  with assms(3) have "consumable h s iid i" by (simp add: consumable_def)
  then have i: "intent_get (rt_intents s) iid = Some i" "i_state i = Claimed" by (simp_all add: consumable_def)
  let ?st = "fst (consume_claimed iid (rt_intents s))"
  have inv: "store_inv ?st" using intent_step_inv [OF rt_invD(1) [OF assms(1)], of "IConsumeClaimed iid"] by simp
  have "consumes iid (IConsumeClaimed iid) (snd (intent_step (rt_intents s) (IConsumeClaimed iid)))"
    using i consume_ok(2) [of iid "rt_intents s"] by (auto simp: consumes_def is_ok_iff) (metis snd_conv)
  from istore.win_spends [OF rt_invD(1) [OF assms(1)] this] have spent: "intent_spent iid ?st" by simp
  have after: "intent_spent iid (rt_intents (invalidate_ceremony key t))" if "rt_intents t = ?st" for key t
    using invalidate_ceremony_intents [of "PConsume h" t key]
    by (rule istore.spent_steps_by) (use that inv spent in \<open>auto simp: intent_allowed_def\<close>)
  obtain s1 where s1: "on_intents (consume_claimed iid) s = (s1, Ok (consume_info i))"
    using on_intents_results(1) [of "consume_claimed iid" s] i consume_ok(2) by (metis prod.collapse snd_conv)
  note st1 = on_intents_fieldsD(5) [OF s1]
  from assms(2,3) s1 show ?thesis
    by (auto simp: consume_authorization_def Let_def st1 dest!: on_grants_fieldsD(3) intro!: after
        split: if_splits option.splits prod.splits sum.splits)
qed

lemma spent_not_consumable: "intent_spent iid (rt_intents s) \<Longrightarrow> \<not> consumable h s iid i"
  by (auto simp: intent_spent_def consumable_def is_terminal_iff)

lemma rt_spent_step:
  assumes "rt_inv s" and "rt_creates x \<noteq> Some iid" and "intent_spent iid (rt_intents s)"
  shows "intent_spent iid (rt_intents (fst (rt_step c s x)))"
proof (cases "is_reload x")
  case True
  then obtain gid now nonce config where "x = PReload gid now nonce config" by (cases x) auto
  with assms(3) show ?thesis
    by (auto simp: reload_def invalidate_all_def intent_spent_def intent_get_def split: sum.split)
next
  case False
  from rt_step_evolves [OF this rt_invD(3) [OF assms(1)], where c = c]
  have "steps_by (intent_allowed x) intent_step (rt_intents s) (rt_intents (fst (rt_step c s x)))" by (simp add: evolves_def)
  then show ?thesis
    by (rule istore.spent_steps_by) (use assms rt_invD(1) in \<open>auto simp: intent_allowed_def\<close>)
qed

interpretation rtonce: one_shot "rt_step c" rt_inv rt_consumes "\<lambda>iid s. intent_spent iid (rt_intents s)"
  "\<lambda>iid x. rt_creates x \<noteq> Some iid" for c
proof unfold_locales
  fix s iid x
  assume "rt_inv s" and "rt_consumes iid x (snd (rt_step c s x))"
  then obtain h info where "x = PConsume h" "ah_intent_id h = Some iid" "snd (consume_authorization h s) = Ok info"
    by (auto simp: rt_consumes_def)
  with \<open>rt_inv s\<close> show "intent_spent iid (rt_intents (fst (rt_step c s x)))"
    using consumed_spent [of s h _ info iid] by (auto simp: prod_eq_iff)
next
  fix s iid x
  assume "rt_inv s" and sp: "intent_spent iid (rt_intents s)"
  show "\<not> rt_consumes iid x (snd (rt_step c s x))"
  proof
    assume "rt_consumes iid x (snd (rt_step c s x))"
    then obtain h info where h: "ah_intent_id h = Some iid" and "snd (consume_authorization h s) = Ok info"
      by (auto simp: rt_consumes_def)
    then have "consume_authorization h s = (fst (consume_authorization h s), Ok info)" by (simp add: prod_eq_iff)
    with \<open>rt_inv s\<close> obtain iid' i where "consumable h s iid' i" by (rule consume_authorization_ok)
    moreover from this h have "iid' = iid" by (simp add: consumable_def)
    ultimately show False using spent_not_consumable [OF sp] by blast
  qed
qed (rule rt_spent_step)

text \<open>C1. An authorisation is single-use, end to end: in every run of the policy runtime, whatever operations are interleaved,
  the number of successful consumptions of handles for one intent is at most the number of times
  that intent was created.\<close>

theorem runtime_consumes_once:
  assumes "runtime_new c gid now nonce config audit = Ok s"
  shows "length (filter (\<lambda>(x, y). rt_consumes iid x y) (run_trace (rt_step c) s xs))
    \<le> length (filter (\<lambda>x. rt_creates x = Some iid) xs)"
proof -
  have "intent_spent iid (rt_intents s)"
    using assms by (auto simp: runtime_new_def res_bind_ok with_defaults_def store_new_def intent_spent_def intent_get_def)
  from rtonce.spent_wins_bounded [OF runtime_new_inv [OF assms] this, of c xs] show ?thesis by simp
qed

section \<open>Approval\<close>

definition unapproved :: "intent_id \<Rightarrow> intent_store \<Rightarrow> bool" where
  "unapproved iid st \<longleftrightarrow> (\<forall>i. intent_get st iid = Some i \<longrightarrow> i_state i \<notin> {Approved, Claimed, Consumed})"

lemma unapproved_step:
  assumes inv: "store_inv st" and un: "unapproved iid st" and na: "\<nexists>now. y = IApprove now iid"
  shows "unapproved iid (fst (intent_step st y))"
  unfolding unapproved_def
proof (intro allI impI)
  fix i'
  assume g: "intent_get (fst (intent_step st y)) iid = Some i'"
  show "i_state i' \<notin> {Approved, Claimed, Consumed}"
  proof (cases "creates y = Some iid")
    case True
    then obtain now_gc now token p where y: "y = ICreate now_gc now iid token p" by (cases y) auto
    show ?thesis
    proof (rule ccontr)
      assume st: "\<not> ?thesis"
      then have "i_state i' \<noteq> Pending" by auto
      with g y intent_create_result [OF inv, of now_gc now iid token p i']
      have "intent_get (cleanup_expired now_gc st) iid = Some i'" by auto
      with cleanup_expired_quiet [OF inv, of now_gc] obtain i where "intent_get st iid = Some i" "quiet_move i i'"
        unfolding intent_get_def by (elim store_relE)
      with un st show False
        using edge_from_unapproved [of "i_state i" "i_state i'"] by (auto simp: unapproved_def quiet_move_def intent_moves_def)
    qed
  next
    case False
    from inv False g obtain i where i: "intent_get st iid = Some i" "intent_moves i i'" by (rule intent_step_lookup)
    show ?thesis
    proof (rule ccontr)
      assume "\<not> ?thesis"
      with un i edge_from_unapproved [of "i_state i" "i_state i'"] have "i_state i = Pending" "i_state i' = Approved"
        by (auto simp: unapproved_def intent_moves_def)
      from pending_to_approved [OF inv i(1) this(1) g this(2)] na show False by blast
    qed
  qed
qed

lemma unapproved_steps_by:
  assumes "steps_by A intent_step st st'" and "store_inv st" and "unapproved iid st"
    and "\<And>y. A y \<Longrightarrow> \<nexists>now. y = IApprove now iid"
  shows "unapproved iid st'"
proof -
  from assms(1) have "store_inv st' \<and> unapproved iid st'"
    by (induction rule: steps_by_induct) (use assms in \<open>auto intro: intent_step_inv unapproved_step\<close>)
  then show ?thesis ..
qed

text \<open>The operations that can approve the intent \<open>iid\<close> in the state \<open>s\<close>.\<close>

definition approves_intent :: "intent_id \<Rightarrow> policy_runtime \<Rightarrow> rt_op \<Rightarrow> bool" where
  "approves_intent iid s x \<longleftrightarrow>
     (\<exists>now. x = PApproveIntent now iid) \<or>
     (\<exists>now_mono now now' now'' gid t key pq. x = PResolve now_mono now now' now'' gid t \<and>
        find_waiting t s = Ok (key, pq) \<and> pq_intent_id pq = iid)"

lemma resolve_intents:
  "rt_intents (fst (ceremony_resolve_pending c now_mono now now' now'' gid t s)) = rt_intents s \<or>
   (\<exists>key pq. find_waiting t s = Ok (key, pq) \<and>
      rt_intents (fst (ceremony_resolve_pending c now_mono now now' now'' gid t s)) = fst (intent_approve now (pq_intent_id pq) (rt_intents s)))"
proof (cases "find_waiting t s")
  case (Inr kp)
  obtain key pq where [simp]: "kp = (key, pq)" by (cases kp)
  obtain s1 r where s1: "on_intents (intent_approve now (pq_intent_id pq)) s = (s1, r)" by (rule prod.exhaust)
  from Inr on_intents_fieldsD(5) [OF s1] show ?thesis
    by (auto simp: ceremony_resolve_pending_def s1 set_pending_state_def dest!: on_grants_fieldsD(3)
        split: option.split sum.split prod.split)
qed (simp add: ceremony_resolve_pending_def)

lemma unapproved_rt_step:
  assumes "rt_inv s" and "unapproved iid (rt_intents s)" and "\<not> approves_intent iid s x"
  shows "unapproved iid (rt_intents (fst (rt_step c s x)))"
proof -
  note inv = rt_invD(1) [OF assms(1)]
  have approve: "unapproved iid (fst (intent_approve now iid' (rt_intents s)))" if "iid' \<noteq> iid" for now iid'
    using unapproved_step [OF inv assms(2), of "IApprove now iid'"] that by simp
  consider now iid' where "x = PApproveIntent now iid'" | now_mono now now' now'' gid t where "x = PResolve now_mono now now' now'' gid t"
    | "is_reload x" | "\<not> is_reload x" "\<not> rt_approves x" by (cases x) auto
  then show ?thesis
  proof cases
    case 1
    with assms(3) approve show ?thesis by (auto simp: approves_intent_def admin_approve_intent_def)
  next
    case 2
    from resolve_intents [of c now_mono now now' now'' gid t s] show ?thesis
    proof (elim disjE exE conjE)
      fix key pq
      assume "find_waiting t s = Ok (key, pq)"
        "rt_intents (fst (ceremony_resolve_pending c now_mono now now' now'' gid t s)) = fst (intent_approve now (pq_intent_id pq) (rt_intents s))"
      with 2 assms(3) approve show ?thesis by (auto simp: approves_intent_def)
    qed (use 2 assms(2) in simp)
  next
    case 3
    then show ?thesis using assms(2)
      by (cases x) (auto simp: reload_def invalidate_all_def unapproved_def intent_get_def split: sum.split)
  next
    case 4
    from rt_step_evolves [OF 4(1) rt_invD(3) [OF assms(1)], where c = c]
    have "steps_by (intent_allowed x) intent_step (rt_intents s) (rt_intents (fst (rt_step c s x)))" by (simp add: evolves_def)
    then show ?thesis
      by (rule unapproved_steps_by) (use assms(2) inv 4(2) in \<open>auto simp: intent_allowed_def\<close>)
  qed
qed

text \<open>C2. Nothing is authorised without a trusted decision: whenever a handle is consumed successfully at the end of a run of the
  runtime, some earlier operation of the run approved its intent, and that operation is an
  administrator's approval of that very intent or the resolution of a waiting request that refers to it.\<close>

theorem consumption_requires_approval:
  assumes "runtime_new c gid now nonce config audit = Ok s"
    and "snd (consume_authorization h (run_state (rt_step c) s xs)) = Ok info"
  shows "\<exists>iid pre x post. ah_intent_id h = Some iid \<and> xs = pre @ x # post \<and>
    approves_intent iid (run_state (rt_step c) s pre) x"
proof -
  let ?s = "run_state (rt_step c) s"
  note inv = runtime_new_inv [OF assms(1)]
  from assms(2) have "consume_authorization h (?s xs) = (fst (consume_authorization h (?s xs)), Ok info)" by (simp add: prod_eq_iff)
  with runtime.inv_run [OF inv] obtain iid i where c: "consumable h (?s xs) iid i" by (rule consume_authorization_ok)
  have "(\<exists>pre x post. xs = pre @ x # post \<and> approves_intent iid (?s pre) x) \<or> unapproved iid (rt_intents (?s xs))"
  proof (induction xs rule: rev_induct)
    case Nil
    show ?case using assms(1)
      by (auto simp: runtime_new_def res_bind_ok with_defaults_def store_new_def unapproved_def intent_get_def)
  next
    case (snoc x xs)
    show ?case
    proof (cases "approves_intent iid (?s xs) x")
      case True
      then show ?thesis by blast
    next
      case False
      with snoc unapproved_rt_step [OF runtime.inv_run [OF inv], of iid c xs x c] show ?thesis
        by (auto simp: append_assoc) (metis append_Cons append_assoc)
    qed
  qed
  with c show ?thesis by (auto simp: consumable_def unapproved_def)
qed

section \<open>Withdrawn authorisations\<close>

lemma hm_get_mapD: "hm_get (hm_map f m) k = Some v \<Longrightarrow> \<exists>a. hm_get m k = Some a \<and> v = f a"
  by auto

definition dead :: "authorization_handle \<Rightarrow> policy_runtime \<Rightarrow> bool" where
  "dead h s \<longleftrightarrow> (\<forall>pa. hm_get (rt_pending s) (ceremony_id_str (ah_ceremony_id h)) = Some pa \<longrightarrow> pa_invalidated pa)"

text \<open>The run issues a new handle under the ceremony identifier of \<open>h\<close>.\<close>

definition reissued :: "authorization_handle \<Rightarrow> (rt_op \<times> rt_out) list \<Rightarrow> bool" where
  "reissued h tr \<longleftrightarrow> (\<exists>(x, y) \<in> set tr. \<exists>h'. new_handle y = Some h' \<and> ah_ceremony_id h' = ah_ceremony_id h)"

lemma ceremony_id_str_eq: "ceremony_id_str a = ceremony_id_str b \<longleftrightarrow> a = b"
  by (cases a; cases b) simp

lemma dead_step:
  assumes "dead h s" and "\<And>h'. new_handle (snd (rt_step c s x)) = Some h' \<Longrightarrow> ah_ceremony_id h' \<noteq> ah_ceremony_id h"
  shows "dead h (fst (rt_step c s x))"
proof (cases "new_handle (snd (rt_step c s x))")
  case None
  with rt_step_pending [where c = c and s = s and x = x]
  have "rel_option pa_le (hm_get (rt_pending s) k) (hm_get (rt_pending (fst (rt_step c s x))) k)" for k
    by (simp add: pending_moves_def)
  from this [of "ceremony_id_str (ah_ceremony_id h)"] assms(1) show ?thesis
    by (auto simp: dead_def option_rel_Some2 pa_le_def)
next
  case (Some h')
  with rt_step_pending [where c = c and s = s and x = x] assms show ?thesis
    by (auto simp: dead_def insert_pending_def ceremony_id_str_eq)
qed

lemma dead_run:
  "dead h s \<Longrightarrow> \<not> reissued h (run_trace (rt_step c) s xs) \<Longrightarrow> dead h (run_state (rt_step c) s xs)"
proof (induction xs arbitrary: s)
  case (Cons x xs)
  from Cons.prems(2) have "\<not> reissued h (run_trace (rt_step c) (fst (rt_step c s x)) xs)"
    and "\<And>h'. new_handle (snd (rt_step c s x)) = Some h' \<Longrightarrow> ah_ceremony_id h' \<noteq> ah_ceremony_id h"
    by (auto simp: reissued_def)
  with Cons.IH [OF dead_step [OF Cons.prems(1)]] show ?case by simp
qed simp

lemma dead_consume: "dead h s \<Longrightarrow> consume_authorization h s = (s, Err RcCeremonyInvalidated)"
  by (auto simp: dead_def consume_authorization_def handle_matches_def Let_def split: option.splits)

lemma new_registries_empty:
  "hm_get (new_registries audit g) k = Some r \<Longrightarrow> gr_grants r = [] \<and> gr_claims r = []"
proof -
  have "hm_all (\<lambda>_ r. gr_grants r = [] \<and> gr_claims r = []) (new_registries audit g)"
    unfolding new_registries_def by (rule hm_all_fold_insert) (simp_all add: grant_registry_new_def)
  then show "hm_get (new_registries audit g) k = Some r \<Longrightarrow> gr_grants r = [] \<and> gr_claims r = []" by (rule hm_all_get)
qed

text \<open>C6. A policy reload withdraws the authorisations of the old policy, but not the registration grants. After a
  successful reload no intent, no grant of a profile and no claim is left, no request waits any
  more, and no handle can be consumed in any later run, unless that run issues a new authorisation
  under the same ceremony identifier. The registration grants are left as they were: each one that
  was in force before the reload is still in force after it.\<close>

theorem reload_withdraws_authorisations:
  assumes "reload c gid now nonce config s = (s', Ok digest)"
  shows "intents (rt_intents s') = [] \<and>
    (\<forall>k r. hm_get (rt_grants s') k = Some r \<longrightarrow> gr_grants r = [] \<and> gr_claims r = []) \<and>
    (\<forall>k pq. hm_get (rt_pending_requests s') k = Some pq \<longrightarrow> pq_state pq \<noteq> PsWaiting) \<and>
    (\<not> reissued h (run_trace (rt_step c) s' xs) \<longrightarrow>
      snd (consume_authorization h (run_state (rt_step c) s' xs)) = Err RcCeremonyInvalidated) \<and>
    rt_registration_grants s' = rt_registration_grants s \<and>
    active_registration_grant t pid rp s' = active_registration_grant t pid rp s"
proof -
  from assms obtain g where s': "s' = s\<lparr>rt_intents := invalidate_all nonce (rt_intents s),
      rt_pending := hm_map (\<lambda>pa. pa\<lparr>pa_invalidated := True\<rparr>) (rt_pending s),
      rt_pending_requests := hm_map (\<lambda>pq. if pq_state pq = PsWaiting then pq\<lparr>pq_state := PsCancelled\<rparr> else pq) (rt_pending_requests s),
      rt_grants := new_registries (rt_audit_gate s) g, rt_current := g\<rparr>"
    by (auto simp: reload_def split: sum.splits)
  have fields: "rt_intents s' = invalidate_all nonce (rt_intents s)" "rt_grants s' = new_registries (rt_audit_gate s) g"
    "rt_pending s' = hm_map (\<lambda>pa. pa\<lparr>pa_invalidated := True\<rparr>) (rt_pending s)"
    "rt_pending_requests s' = hm_map (\<lambda>pq. if pq_state pq = PsWaiting then pq\<lparr>pq_state := PsCancelled\<rparr> else pq) (rt_pending_requests s)"
    "rt_registration_grants s' = rt_registration_grants s"
    by (simp_all add: s')
  have "dead h s'" by (auto simp: dead_def fields)
  note dead = dead_consume [OF dead_run [OF this]]
  show ?thesis
  proof (intro conjI allI impI)
    fix k r assume "hm_get (rt_grants s') k = Some r"
    then show "gr_grants r = []" "gr_claims r = []" unfolding fields by (simp_all add: new_registries_empty)
  next
    fix k pq assume "hm_get (rt_pending_requests s') k = Some pq"
    then show "pq_state pq \<noteq> PsWaiting" unfolding fields hm_get_map
      by (cases "hm_get (rt_pending_requests s) k") (simp_all split: if_split_asm, force)
  next
    assume "\<not> reissued h (run_trace (rt_step c) s' xs)"
    then show "snd (consume_authorization h (run_state (rt_step c) s' xs)) = Err RcCeremonyInvalidated" by (simp add: dead)
  next
    show "active_registration_grant t pid rp s' = active_registration_grant t pid rp s"
      by (simp only: active_registration_grant_def fields)
  qed (simp_all add: fields invalidate_all_def)
qed

text \<open>C7. When a principal exits, its session is over in every part of the runtime: its grants are revoked, its claims are gone,
  its requests no longer wait, and none of its ceremonies can be consumed in any later run, unless a
  new authorisation is issued under the same ceremony identifier.\<close>

theorem principal_exit_ends_session:
  assumes "rt_inv s" and "s' = principal_exit sid s"
  shows "(\<forall>k r gid g. hm_get (rt_grants s') k = Some r \<and> hm_get (gr_grants r) gid = Some g \<and> g_session_id g = sid
        \<longrightarrow> grant_state_of g \<noteq> Active) \<and>
    (\<forall>k r cid cl g. hm_get (rt_grants s') k = Some r \<and> hm_get (gr_claims r) cid = Some cl \<and>
        hm_get (gr_grants r) (ac_grant_id cl) = Some g \<longrightarrow> g_session_id g \<noteq> sid) \<and>
    (\<forall>k pq. hm_get (rt_pending_requests s') k = Some pq \<and> pq_session_id pq = sid \<longrightarrow> pq_state pq \<noteq> PsWaiting) \<and>
    (\<forall>h. (\<exists>pa. hm_get (rt_pending s) (ceremony_id_str (ah_ceremony_id h)) = Some pa \<and> ah_session_id pa = sid) \<and>
        \<not> reissued h (run_trace (rt_step c) s' xs)
        \<longrightarrow> snd (consume_authorization h (run_state (rt_step c) s' xs)) = Err RcCeremonyInvalidated)"
proof (intro conjI allI impI)
  fix k r gid g
  assume *: "hm_get (rt_grants s') k = Some r \<and> hm_get (gr_grants r) gid = Some g \<and> g_session_id g = sid"
  then obtain ra where "r = cancel_claims_for_session sid (on_principal_exit sid ra)" by (auto simp: assms(2) principal_exit_def)
  with * show "grant_state_of g \<noteq> Active"
    using auth.leave_none_active [of sid ra gid g] by (auto simp: cancel_claims_for_session_def grant_state_of_def)
next
  fix k r cid cl g
  assume *: "hm_get (rt_grants s') k = Some r \<and> hm_get (gr_claims r) cid = Some cl \<and> hm_get (gr_grants r) (ac_grant_id cl) = Some g"
  then obtain ra where ra: "hm_get (rt_grants s) k = Some ra" and r: "r = cancel_claims_for_session sid (on_principal_exit sid ra)"
    by (auto simp: assms(2) principal_exit_def)
  have "reg_inv (on_principal_exit sid ra)" by (rule on_principal_exit_inv [OF registry_generation(2) [OF assms(1) ra]])
  then have wf: "hm_wf (gr_claims (on_principal_exit sid ra))" by (rule hm_all_wf [OF reg_invD(4)])
  from * show "g_session_id g \<noteq> sid"
    by (auto simp: r cancel_claims_for_session_def dest!: hm_get_retain_SomeD [OF wf])
next
  fix k pq
  assume "hm_get (rt_pending_requests s') k = Some pq \<and> pq_session_id pq = sid"
  then have "hm_get (hm_map (\<lambda>pq. if pq_session_id pq = sid \<and> pq_state pq = PsWaiting then pq\<lparr>pq_state := PsCancelled\<rparr> else pq)
      (rt_pending_requests s)) k = Some pq" and sid: "pq_session_id pq = sid" by (simp_all add: assms(2) principal_exit_def)
  from hm_get_mapD [OF this(1)] obtain q
    where q: "pq = (if pq_session_id q = sid \<and> pq_state q = PsWaiting then q\<lparr>pq_state := PsCancelled\<rparr> else q)" by blast
  show "pq_state pq \<noteq> PsWaiting"
    using sid unfolding q by (cases "pq_session_id q = sid \<and> pq_state q = PsWaiting") simp_all
next
  fix h
  assume *: "(\<exists>pa. hm_get (rt_pending s) (ceremony_id_str (ah_ceremony_id h)) = Some pa \<and> ah_session_id pa = sid) \<and>
    \<not> reissued h (run_trace (rt_step c) s' xs)"
  then obtain pa where "hm_get (rt_pending s) (ceremony_id_str (ah_ceremony_id h)) = Some pa" "ah_session_id pa = sid" by blast
  then have "hm_get (rt_pending s') (ceremony_id_str (ah_ceremony_id h)) = Some (pa\<lparr>pa_invalidated := True\<rparr>)"
    by (simp add: assms(2) principal_exit_def)
  then have "dead h s'" by (simp add: dead_def)
  with * show "snd (consume_authorization h (run_state (rt_step c) s' xs)) = Err RcCeremonyInvalidated"
    by (simp add: dead_consume dead_run)
qed

text \<open>A waiting request is decided once: after it was approved, denied, timed out or cancelled, no run of operations changes it
  any more, unless a new request is created under the same identifier.\<close>

theorem request_decided_once:
  assumes "rt_inv s" and "hm_get (rt_pending_requests s) (pending_request_id_str pid) = Some pq" and "pq_state pq \<noteq> PsWaiting"
    and "\<forall>(x, y) \<in> set (run_trace (rt_step c) s xs). new_request y \<noteq> Some pid"
  shows "hm_get (rt_pending_requests (run_state (rt_step c) s xs)) (pending_request_id_str pid) = Some pq"
  using assms
proof (induction xs arbitrary: s)
  case (Cons x xs)
  let ?s = "fst (rt_step c s x)" and ?k = "pending_request_id_str pid"
  from Cons.prems(4) have n: "new_request (snd (rt_step c s x)) \<noteq> Some pid" by simp
  have "hm_get (rt_pending_requests ?s) ?k = Some pq"
  proof (cases "new_request (snd (rt_step c s x))")
    case None
    with rt_step_requests [OF rt_invD(5) [OF Cons.prems(1)], where c = c and x = x]
    have "rel_option pq_le (hm_get (rt_pending_requests s) ?k) (hm_get (rt_pending_requests ?s) ?k)"
      by (simp add: requests_move_def)
    with Cons.prems(2,3) show ?thesis by (auto simp: option_rel_Some1 pq_le_def)
  next
    case (Some pid')
    with n have "pending_request_id_str pid' \<noteq> ?k" by (auto simp: pending_request_id_str_eq)
    with Some rt_step_requests [OF rt_invD(5) [OF Cons.prems(1)], where c = c and x = x] Cons.prems(2) show ?thesis
      by auto
  qed
  with Cons.IH [OF rt_step_inv [OF Cons.prems(1)]] Cons.prems(3,4) show ?case by simp
qed simp

end
