(* ===== verification/Runtime_Ceremonies.thy ===== *)
theory Runtime_Ceremonies
  imports Runtime_Safety
begin

text \<open>
  The ceremonies of the policy runtime: exactly when an authorisation is granted, what a failed
  resolution of a delegated request leaves behind, and that a ceremony of an isolated profile runs
  to completion once a human has approved it.
\<close>

section \<open>Authorisation\<close>

text \<open>A claimable intent: approved, unexpired and matching the query.\<close>

definition claimable :: "monotonic_time \<Rightarrow> intent_query_params \<Rightarrow> intent_store \<Rightarrow> bool" where
  "claimable now q st \<longleftrightarrow> (\<exists>k i. hm_get (intents st) k = Some i \<and> matches_query i q True \<and> now < i_deadline i)"

lemma claim_approved_claimable:
  assumes "store_inv st"
  shows "is_ok (snd (claim_approved now q st)) \<longleftrightarrow> claimable now q st"
proof (cases "claim_approved now q st")
  case (Pair st' r)
  show ?thesis
  proof (cases r)
    case (Inl e)
    from claim_approved_err(3) [OF Pair [unfolded Inl]] show ?thesis by (auto simp: Pair Inl claimable_def)
  next
    case (Inr iid)
    have "claim_approved now q st = (st', Ok iid)" by (simp add: Pair Inr)
    with assms obtain i where "hm_get (intents st) (intent_id_str iid) = Some i" "matches_query i q True" "now < i_deadline i"
      by (rule claim_approved_ok)
    then show ?thesis by (auto simp: Pair Inr claimable_def)
  qed
qed

definition request_permitted :: "crates \<Rightarrow> authorization_request \<Rightarrow> generation_snapshot \<Rightarrow> bool" where
  "request_permitted c req g \<longleftrightarrow>
     ar_policy_generation_id req = gen_id g \<and> ar_policy_digest req = gen_digest g \<and>
     (\<exists>snap pol. find_snapshot g (ar_profile_id req) = Some snap \<and>
        is_rp_exact_match (cr_psl c) snap (ar_rp_id req) \<and>
        ceremony_policy (cr_psl c) snap (ar_rp_id req) (ar_action req) = Some pol \<and> authorization pol \<noteq> Deny \<and>
        (\<forall>cred. ar_credential_ref req = Some cred \<and> ps_credential_refs snap \<noteq> [] \<longrightarrow> cred \<in> set (ps_credential_refs snap)) \<and>
        action_allowed snap (ar_action req) \<and> (ps_require_uv snap \<longrightarrow> ar_uv_enforced req))"

lemma find_snapshot_id: "find_snapshot g pid = Some snap \<Longrightarrow> ps_profile_id snap = pid"
  by (auto simp: find_snapshot_def dest: find_SomeD)

lemma exact_match_nonempty: "is_rp_exact_match psl snap rp \<Longrightarrow> ps_normalized_rp_ids snap \<noteq> []"
  by (auto simp: is_rp_exact_match_def split: sum.splits)

lemma authorize_isolated_allowed:
  "is_allowed (fst (snd (authorize_isolated now cid snap req s))) \<longleftrightarrow>
     is_ok (snd (claim_approved now (request_query req (ps_profile_id snap) (ar_rp_id req)) (rt_intents s))) \<and>
     (ps_require_uv snap \<longrightarrow> ar_uv_enforced req)"
proof (cases "on_intents (claim_approved now (request_query req (ps_profile_id snap) (ar_rp_id req))) s")
  case (Pair s1 r)
  from on_intents_fieldsD(6) [OF Pair] show ?thesis
    by (auto simp: authorize_isolated_def Pair Let_def split: sum.split intent_error.split)
qed

text \<open>C5. An authorisation is granted exactly if the request names the current policy generation, the rule for its relying party
  and action does not deny it, its credential is in the profile's list (if there is one), user
  verification happened where the profile demands it, and a human-approved, unexpired intent with
  exactly the same data is waiting to be claimed.\<close>

theorem authorize_iff:
  assumes "rt_inv s"
  shows "is_allowed (fst (snd (authorize c now cid req s))) \<longleftrightarrow>
    request_permitted c req (rt_current s) \<and>
    claimable now (request_query req (ar_profile_id req) (ar_rp_id req)) (rt_intents s)"
proof (cases "find_snapshot (rt_current s) (ar_profile_id req)")
  case None
  then show ?thesis by (simp add: authorize_def request_permitted_def Let_def)
next
  case (Some snap)
  note id = find_snapshot_id [OF Some]
  note claim = claim_approved_claimable [OF rt_invD(1) [OF assms], of now "request_query req (ar_profile_id req) (ar_rp_id req)"]
  show ?thesis
  proof (cases "is_rp_exact_match (cr_psl c) snap (ar_rp_id req)")
    case True
    with Some exact_match_nonempty [OF True] show ?thesis
      by (cases "ceremony_policy (cr_psl c) snap (ar_rp_id req) (ar_action req)"; cases "ar_credential_ref req")
        (auto simp: authorize_def request_permitted_def Let_def authorize_isolated_allowed id claim)
  next
    case False
    with Some show ?thesis by (auto simp: authorize_def request_permitted_def Let_def)
  qed
qed

section \<open>Resolution of a waiting request\<close>

text \<open>
  An approval that succeeds.  An intent can be approved while it is pending and its deadline has not
  passed.
\<close>

lemma intent_approve_pending:
  assumes "intent_get st iid = Some i" and "i_state i = Pending" and "now < i_deadline i"
  shows "intent_approve now iid st = (st\<lparr>intents := hm_insert (intent_id_str iid) (i\<lparr>i_state := Approved\<rparr>) (intents st)\<rparr>, Ok ())"
proof -
  have "\<not> past_deadline now i" using assms by (simp add: past_deadline_def)
  then have "expire_if_needed now st iid = (st, Ok ())"
    using assms(1) by (cases rule: expire_if_needed_cases [where s = st and iid = iid and now = now]) (auto simp: intent_get_def)
  with assms show ?thesis
    by (simp add: intent_approve_def with_intent_def intent_get_def transition_to_def valid_transition_def)
qed

lemma intent_approve_ok:
  assumes "intent_approve now iid st = (st', Ok ())"
  shows "\<exists>i. intent_get st' iid = Some i \<and> i_state i = Approved"
proof (cases rule: expire_if_needed_cases [where s = st and iid = iid and now = now])
  case (live i)
  with assms have "with_intent st iid (transition_to Approved) = (st', Ok ())" by (simp add: intent_approve_def)
  then obtain j j' where "transition_to Approved j = (j', Ok ())"
    and "st' = st\<lparr>intents := hm_insert (intent_id_str iid) j' (intents st)\<rparr>" by (auto simp: with_intent_ok)
  then show ?thesis by (auto simp: intent_get_def transition_to_def split: if_splits)
qed (use assms in \<open>simp_all add: intent_approve_def\<close>)

lemma find_waiting_not_grant: "find_waiting t s \<noteq> Err (CrGrantFailed e)"
  by (auto simp: find_waiting_def split: list.splits option.splits pending_state.splits)

text \<open>C32. The resolution of a delegated request is not atomic when it fails: if the grant cannot be issued after the intent was
  approved, the operation reports the failure but the intent stays approved and the request stays
  waiting, so the ceremony can still be authorised without the grant.\<close>

theorem failed_grant_leaves_intent_approved:
  assumes "ceremony_resolve_pending c now_mono now now' now'' gid t s = (s', Err (CrGrantFailed e))"
  shows "\<exists>key pq i. find_waiting t s = Ok (key, pq) \<and>
    hm_get (rt_pending_requests s') key = Some pq \<and> pq_state pq = PsWaiting \<and>
    intent_get (rt_intents s') (pq_intent_id pq) = Some i \<and> i_state i = Approved"
proof (cases "find_waiting t s")
  case (Inr kp)
  obtain key pq where kp: "kp = (key, pq)" by (cases kp)
  obtain s1 r where s1: "on_intents (intent_approve now (pq_intent_id pq)) s = (s1, r)" by (rule prod.exhaust)
  from assms have "r = Ok () \<and> rt_intents s' = rt_intents s1 \<and> rt_pending_requests s' = rt_pending_requests s1"
    by (auto simp: ceremony_resolve_pending_def Inr kp s1 dest: on_grants_fieldsD(2,3)
        split: if_splits option.splits sum.splits prod.splits)
  moreover from this on_intents_fieldsD(5,6) [OF s1]
  have "intent_approve now (pq_intent_id pq) (rt_intents s) = (rt_intents s1, Ok ())" by (simp add: prod_eq_iff)
  then obtain i where "intent_get (rt_intents s1) (pq_intent_id pq) = Some i" "i_state i = Approved"
    using intent_approve_ok by blast
  ultimately show ?thesis
    using on_intents_fieldsD(2) [OF s1] find_waiting_ok [OF Inr [unfolded kp]] Inr kp by auto
qed (use assms find_waiting_not_grant in \<open>auto simp: ceremony_resolve_pending_def\<close>)

section \<open>A ceremony of an isolated profile completes\<close>

definition tuple_of :: "create_intent_params \<Rightarrow> ceremony_tuple" where
  "tuple_of p =
     \<lparr>ct_profile_id = cp_profile_id p, ct_session_id = cp_session_id p, ct_endpoint_id = cp_endpoint_id p,
      ct_process_digest = cp_process_digest p, ct_policy_generation = cp_policy_generation p,
      ct_policy_digest = cp_policy_digest p, ct_action = cp_action p, ct_rp_id = cp_rp_id p,
      ct_credential_ref = cp_credential_ref p\<rparr>"

definition request_of :: "create_intent_params \<Rightarrow> bool \<Rightarrow> authorization_request" where
  "request_of p uv =
     \<lparr>ar_profile_id = cp_profile_id p, ar_session_id = cp_session_id p, ar_endpoint_id = cp_endpoint_id p,
      ar_process_digest = cp_process_digest p, ar_policy_generation_id = cp_policy_generation p,
      ar_policy_digest = cp_policy_digest p, ar_action = cp_action p, ar_rp_id = cp_rp_id p,
      ar_credential_ref = cp_credential_ref p, ar_uv_enforced = uv\<rparr>"

definition params_info :: "create_intent_params \<Rightarrow> intent_consume_info \<Rightarrow> bool" where
  "params_info p info \<longleftrightarrow> ci_profile_id info = cp_profile_id p \<and> ci_action info = cp_action p \<and>
     ci_rp_id info = cp_rp_id p \<and> ci_credential_ref info = cp_credential_ref p"

text \<open>What the parameters must satisfy in the state in which the request is made.\<close>

definition may_run :: "crates \<Rightarrow> create_intent_params \<Rightarrow> bool \<Rightarrow> policy_runtime \<Rightarrow> bool" where
  "may_run c p uv s \<longleftrightarrow>
     cp_policy_generation p = gen_id (rt_current s) \<and> cp_policy_digest p = gen_digest (rt_current s) \<and>
     normalize (cp_rp_id p) = cp_rp_id p \<and>
     (\<exists>snap. find_snapshot (rt_current s) (cp_profile_id p) = Some snap \<and>
        is_rp_exact_match (cr_psl c) snap (cp_rp_id p) \<and> action_allowed snap (cp_action p) \<and>
        (\<forall>cred. cp_credential_ref p = Some cred \<and> ps_credential_refs snap \<noteq> [] \<longrightarrow> cred \<in> set (ps_credential_refs snap)) \<and>
        (ps_require_uv snap \<longrightarrow> uv)) \<and>
     (\<forall>k pq. hm_get (rt_pending_requests s) k = Some pq \<and> pq_state pq = PsWaiting \<longrightarrow> \<not> matches_tuple pq (tuple_of p))"

lemma fresh_insert: "hm_get m k = None \<Longrightarrow> hm_insert k v m = m @ [(k, v)]"
  by (simp add: hm_insert_def hm_get_def update_conv map_of_eq_None_iff) (induction m; auto)

lemma find_waiting_new:
  assumes "hm_wf (rt_pending_requests s)" and "hm_get (rt_pending_requests s) (pending_request_id_str (pq_id pq)) = None"
    and "pq_state pq = PsWaiting" and "matches_tuple pq t"
    and "\<forall>k q. hm_get (rt_pending_requests s) k = Some q \<and> pq_state q = PsWaiting \<longrightarrow> \<not> matches_tuple q t"
  shows "find_waiting t (insert_request pq s) = Ok (pending_request_id_str (pq_id pq), pq)"
proof -
  have "filter (\<lambda>q. pq_state q = PsWaiting \<and> matches_tuple q t) (hm_values (rt_pending_requests s)) = []"
    using assms(1,5) by (auto simp: filter_empty_conv hm_values_iff)
  moreover have "hm_values (hm_insert (pending_request_id_str (pq_id pq)) pq (rt_pending_requests s)) =
      hm_values (rt_pending_requests s) @ [pq]"
    by (simp add: fresh_insert [OF assms(2)] hm_values_def)
  ultimately show ?thesis using assms(3,4) by (simp add: find_waiting_def insert_request_def)
qed

definition new_intent ::
    "monotonic_time \<Rightarrow> monotonic_time \<Rightarrow> intent_id \<Rightarrow> claim_token \<Rightarrow> create_intent_params \<Rightarrow> u64 \<Rightarrow> intent" where
  "new_intent now deadline iid token p nonce =
     \<lparr>i_id = iid, i_profile_id = cp_profile_id p, i_session_id = cp_session_id p,
      i_endpoint_id = cp_endpoint_id p, i_process_digest = cp_process_digest p,
      i_action = cp_action p, i_rp_id = cp_rp_id p, i_credential_ref = cp_credential_ref p,
      i_policy_generation = cp_policy_generation p, i_policy_digest = cp_policy_digest p,
      i_require_uv = cp_require_uv p, i_created_at = now, i_deadline = deadline, i_state = Pending,
      i_claim_token = Some token, i_boot_nonce = nonce\<rparr>"

definition intent_ttl :: "create_intent_params \<Rightarrow> u64" where
  "intent_ttl p = (case cp_ttl_ms p of None \<Rightarrow> DEFAULT_INTENT_TTL_MS | Some t \<Rightarrow> t)"

definition has_room :: "monotonic_time \<Rightarrow> intent_store \<Rightarrow> bool" where
  "has_room now_gc st \<longleftrightarrow> active_count (cleanup_expired now_gc st) < max_intents (cleanup_expired now_gc st)"

lemma intent_create_room:
  assumes "has_room now_gc st" and "checked_add now (intent_ttl p) = Some deadline"
  shows "\<exists>st'. intent_create now_gc now iid token p st = (st', Ok (iid, token)) \<and>
    intent_get st' iid = Some (new_intent now deadline iid token p (boot_nonce (cleanup_expired now_gc st)))"
  using assms by (simp add: has_room_def intent_ttl_def intent_create_def Let_def new_intent_def intent_get_def)

lemma create_pending_room:
  assumes "has_room now_gc (rt_intents s)" and "checked_add now (intent_ttl p) = Some deadline"
  obtains st' where "principal_create_pending_intent now_mono now_gc now iid token pid p s =
      (insert_request (mk_pending_request now_mono pid IsolatedIntent p iid None) (s\<lparr>rt_intents := st'\<rparr>), Ok pid)"
    and "intent_get st' iid = Some (new_intent now deadline iid token p (boot_nonce (cleanup_expired now_gc (rt_intents s))))"
  using intent_create_room [OF assms, of iid token]
  by (auto simp: principal_create_pending_intent_def on_intents_def)

lemma resolve_waiting:
  assumes "find_waiting t s = Ok (key, pq)" and "now_mono < pq_deadline_mono pq" and "policy_refusal c t s = None"
    and "intent_get (rt_intents s) (pq_intent_id pq) = Some i" and "i_state i = Pending" and "now < i_deadline i"
    and "pq_kind pq = IsolatedIntent"
  shows "\<exists>st'. ceremony_resolve_pending c now_mono now now' now'' gid t s =
      (set_pending_state key PsApproved (s\<lparr>rt_intents := st'\<rparr>), Ok (bound_of pq None)) \<and>
    intent_get st' (pq_intent_id pq) = Some (i\<lparr>i_state := Approved\<rparr>)"
  using assms by (auto simp: ceremony_resolve_pending_def on_intents_def intent_approve_pending [OF assms(4-6)] intent_get_def)

lemma authorize_bound_claimable:
  assumes inv: "rt_inv s" and b: "bound_mismatch b req = None" "ba_policy_generation b = gen_id (rt_current s)"
      "ba_policy_digest b = gen_digest (rt_current s)" "ba_grant_id b = None"
    and snap: "find_snapshot (rt_current s) (ba_profile_id b) = Some snap" "ps_require_uv snap \<longrightarrow> ar_uv_enforced req"
    and claim: "claimable now (bound_query b) (rt_intents s)"
  obtains iid i s' where "authorize_bound c now now' now'' cid b req s = (s', decision_allow RcAllowed, Some (bound_handle cid iid b))"
    and "consumable (bound_handle cid iid b) s' iid (i\<lparr>i_state := Claimed, i_claim_token := None\<rparr>)"
    and "matches_query i (bound_query b) True"
proof -
  from claim claim_approved_claimable [OF rt_invD(1) [OF inv], of now "bound_query b"]
  obtain iid where "snd (claim_approved now (bound_query b) (rt_intents s)) = Ok iid" by (auto simp: is_ok_iff)
  then obtain st where st: "claim_approved now (bound_query b) (rt_intents s) = (st, Ok iid)" by (metis prod.collapse)
  with rt_invD(1) [OF inv] obtain i where "matches_query i (bound_query b) True"
    and st': "st = (cleanup_expired now (rt_intents s))\<lparr>intents := hm_insert (intent_id_str iid)
           (i\<lparr>i_state := Claimed, i_claim_token := None\<rparr>) (intents (cleanup_expired now (rt_intents s)))\<rparr>"
    by (rule claim_approved_ok)
  let ?h = "bound_handle cid iid b"
  let ?s = "insert_pending ?h (s\<lparr>rt_intents := st\<rparr>)"
  have "authorize_bound c now now' now'' cid b req s = (?s, decision_allow RcAllowed, Some ?h)"
    using b snap by (auto simp: authorize_bound_def on_intents_def st Let_def)
  moreover have "consumable ?h ?s iid (i\<lparr>i_state := Claimed, i_claim_token := None\<rparr>)"
    using b by (simp add: consumable_def insert_pending_def st' intent_get_def grant_usable_def bound_handle_def
        handle_matches_def authorization_handle.defs)
  ultimately show thesis using \<open>matches_query i (bound_query b) True\<close> by (rule that)
qed

lemma request_resolves:
  assumes inv: "rt_inv s" and may: "may_run c p uv s"
    and fresh: "hm_get (rt_pending_requests s) (pending_request_id_str pid) = None"
    and room: "has_room now_gc (rt_intents s)" and dl: "checked_add now0 (intent_ttl p) = Some deadline"
    and times: "now_mono1 < pq_deadline_mono (mk_pending_request now_mono0 pid IsolatedIntent p iid None)" "now1 < deadline"
  obtains s1 s2 i where
    "principal_create_pending_intent now_mono0 now_gc now0 iid token pid p s = (s1, Ok pid)"
    and "ceremony_resolve_pending c now_mono1 now1 now' now'' gid (tuple_of p) s1 =
      (s2, Ok (bound_of (mk_pending_request now_mono0 pid IsolatedIntent p iid None) None))"
    and "rt_inv s2" and "rt_current s2 = rt_current s"
    and "intent_get (rt_intents s2) iid = Some (i\<lparr>i_state := Approved\<rparr>)" and "\<exists>nonce. i = new_intent now0 deadline iid token p nonce"
proof -
  let ?pq = "mk_pending_request now_mono0 pid IsolatedIntent p iid None" and ?nonce = "boot_nonce (cleanup_expired now_gc (rt_intents s))"
  let ?i = "new_intent now0 deadline iid token p ?nonce" and ?k = "pending_request_id_str pid"
  from room dl obtain st1 where s1: "principal_create_pending_intent now_mono0 now_gc now0 iid token pid p s =
      (insert_request ?pq (s\<lparr>rt_intents := st1\<rparr>), Ok pid)" and i: "intent_get st1 iid = Some ?i"
    by (rule create_pending_room)
  let ?s1 = "insert_request ?pq (s\<lparr>rt_intents := st1\<rparr>)"
  have pq: "pq_id ?pq = pid" "pq_state ?pq = PsWaiting" "pq_intent_id ?pq = iid" "pq_kind ?pq = IsolatedIntent"
    "matches_tuple ?pq (tuple_of p)"
    by (auto simp: mk_pending_request_def Let_def matches_tuple_def tuple_of_def split: option.split)
  have "find_waiting (tuple_of p) ?s1 = Ok (pending_request_id_str (pq_id ?pq), ?pq)"
    by (rule find_waiting_new) (use fresh may pq rt_invD(5) [OF inv] in \<open>auto simp: may_run_def\<close>)
  then have w: "find_waiting (tuple_of p) ?s1 = Ok (?k, ?pq)" by (simp add: pq)
  have ref: "policy_refusal c (tuple_of p) ?s1 = None"
    using may by (auto simp: policy_refusal_def Let_def tuple_of_def may_run_def insert_request_def split: option.split)
  have gi: "intent_get (rt_intents ?s1) (pq_intent_id ?pq) = Some ?i" by (simp add: pq i insert_request_def)
  from resolve_waiting [OF w times(1) ref gi, of now1 now' now'' gid] times(2)
  obtain st2 where s2: "ceremony_resolve_pending c now_mono1 now1 now' now'' gid (tuple_of p) ?s1 =
      (set_pending_state ?k PsApproved (?s1\<lparr>rt_intents := st2\<rparr>), Ok (bound_of ?pq None))"
    and i2: "intent_get st2 iid = Some (?i\<lparr>i_state := Approved\<rparr>)"
    by (auto simp: pq new_intent_def)
  have "rt_inv ?s1" using rt_step_inv [OF inv, of c "PCreatePending now_mono0 now_gc now0 iid token pid p"] by (simp add: s1)
  from rt_step_inv [OF this, of c "PResolve now_mono1 now1 now' now'' gid (tuple_of p)"]
  have "rt_inv (set_pending_state ?k PsApproved (?s1\<lparr>rt_intents := st2\<rparr>))" by (simp add: s2)
  from that [OF s1 s2 this] i2 show thesis by (auto simp: set_pending_state_def insert_request_def)
qed

text \<open>
  The four steps of an isolated ceremony, for parameters that the policy permits.  The claim may hit
  another approved intent with the same data, so the result speaks about the data.
\<close>

lemma completes:
  assumes inv: "rt_inv s" and may: "may_run c p uv s"
    and fresh: "hm_get (rt_pending_requests s) (pending_request_id_str pid) = None"
    and room: "has_room now_gc (rt_intents s)" and dl: "checked_add now0 (intent_ttl p) = Some deadline"
    and times: "now_mono1 < pq_deadline_mono (mk_pending_request now_mono0 pid IsolatedIntent p iid None)"
      "now1 < deadline" "now2 < deadline"
  obtains s1 b s2 h s3 info where
    "principal_create_pending_intent now_mono0 now_gc now0 iid token pid p s = (s1, Ok pid)"
    and "ceremony_resolve_pending c now_mono1 now1 now' now'' gid (tuple_of p) s1 = (s2, Ok b)"
    and "authorize_bound c now2 now3 now4 cid b (request_of p uv) s2 = (s3, decision_allow RcAllowed, Some h)"
    and "snd (consume_authorization h s3) = Ok info" and "params_info p info"
proof -
  let ?b = "bound_of (mk_pending_request now_mono0 pid IsolatedIntent p iid None) None"
  from may obtain snap where norm: "normalize (cp_rp_id p) = cp_rp_id p"
    and snap: "find_snapshot (rt_current s) (cp_profile_id p) = Some snap" "ps_require_uv snap \<longrightarrow> uv"
    by (auto simp: may_run_def)
  from assms(1-7) obtain s1 s2 i nonce where
    s1: "principal_create_pending_intent now_mono0 now_gc now0 iid token pid p s = (s1, Ok pid)"
    and s2: "ceremony_resolve_pending c now_mono1 now1 now' now'' gid (tuple_of p) s1 = (s2, Ok ?b)"
    and inv2: "rt_inv s2" and cur: "rt_current s2 = rt_current s"
    and i: "intent_get (rt_intents s2) iid = Some (i\<lparr>i_state := Approved\<rparr>)" "i = new_intent now0 deadline iid token p nonce"
    by (rule request_resolves) blast
  have b: "bound_mismatch ?b (request_of p uv) = None" "ba_policy_generation ?b = gen_id (rt_current s2)"
    "ba_policy_digest ?b = gen_digest (rt_current s2)" "ba_grant_id ?b = None"
    "find_snapshot (rt_current s2) (ba_profile_id ?b) = Some snap" "ps_require_uv snap \<longrightarrow> ar_uv_enforced (request_of p uv)"
    using may norm snap by (auto simp: bound_mismatch_def bound_of_def mk_pending_request_def request_of_def Let_def may_run_def
        cur normalize_def split: option.split)
  have q: "matches_query j (bound_query ?b) True \<longleftrightarrow> i_state j = Approved \<and> i_profile_id j = cp_profile_id p \<and>
      i_session_id j = cp_session_id p \<and> i_endpoint_id j = cp_endpoint_id p \<and> i_process_digest j = cp_process_digest p \<and>
      i_policy_generation j = cp_policy_generation p \<and> i_policy_digest j = cp_policy_digest p \<and> i_action j = cp_action p \<and>
      i_rp_id j = cp_rp_id p \<and> i_credential_ref j = cp_credential_ref p" for j
    using norm by (auto simp: matches_query_def bound_query_def bound_of_def mk_pending_request_def Let_def normalize_def
        split: option.splits)
  have "claimable now2 (bound_query ?b) (rt_intents s2)"
    unfolding claimable_def q
    by (rule exI [of _ "intent_id_str iid"], rule exI [of _ "i\<lparr>i_state := Approved\<rparr>"])
      (use i times(3) in \<open>simp add: intent_get_def new_intent_def\<close>)
  with inv2 b obtain iid' j s3 where s3: "authorize_bound c now2 now3 now4 cid ?b (request_of p uv) s2 =
      (s3, decision_allow RcAllowed, Some (bound_handle cid iid' ?b))"
    and c: "consumable (bound_handle cid iid' ?b) s3 iid' (j\<lparr>i_state := Claimed, i_claim_token := None\<rparr>)"
    and j: "matches_query j (bound_query ?b) True" by (rule authorize_bound_claimable)
  have "rt_inv s3" using rt_step_inv [OF inv2, of c "PAuthorizeBound now2 now3 now4 cid ?b (request_of p uv)"] by (simp add: s3)
  from that [OF s1 s2 s3 consumable_consume [OF this c]] j show thesis by (simp add: params_info_def consume_info_def q)
qed


end
