(* ===== verification/Ledger.thy ===== *)
theory Ledger
  imports Runtime_Ceremonies
begin

text \<open>
  What the policy runtime promises to the authenticator, as an abstract ledger of one-time permits, and
  the proof that the runtime implements it.  A permit is asked for, confirmed, taken and used.  The ledger is a
  labelled transition system; the label of a step is computed from the operation that was called on the
  runtime and the answer it gave (\<open>rt_label\<close>), so a run of the runtime fixes the run of the ledger.  Between its
  own labels a permit can only lapse.
\<close>

section \<open>The ledger\<close>

datatype permit = Waiting intent_consume_info | Ready intent_consume_info | Held intent_consume_info

type_synonym ledger = "intent_id \<Rightarrow> permit option"

text \<open>
  \<open>Asked k d\<close>: a permit \<open>k\<close> with the data \<open>d\<close> is entered, waiting for a human.  \<open>Confirmed k\<close>: the human's approval
  was reported.  \<open>ConfirmedUnreported\<close>: an approval that ended in an error after the permit was confirmed.
  \<open>Taken k\<close>: the permit is held by a ceremony.  \<open>Used k d\<close>: the ceremony was told to go ahead with the data \<open>d\<close>.
  \<open>Refused k\<close>: the ceremony was told not to.  \<open>Cleared\<close>: the policy was replaced.  \<open>Idle\<close>: anything else.
\<close>

datatype ledger_label =
    Asked intent_id intent_consume_info
  | Confirmed intent_id
  | ConfirmedUnreported
  | Taken intent_id
  | Used intent_id intent_consume_info
  | Refused intent_id
  | Cleared
  | Idle

definition lapse :: "permit option \<Rightarrow> permit option \<Rightarrow> bool" where
  "lapse p p' \<longleftrightarrow> p' = p \<or> p' = None"

definition others_lapse :: "intent_id \<Rightarrow> ledger \<Rightarrow> ledger \<Rightarrow> bool" where
  "others_lapse k L L' \<longleftrightarrow> (\<forall>k'. k' \<noteq> k \<longrightarrow> lapse (L k') (L' k'))"

definition all_lapse :: "ledger \<Rightarrow> ledger \<Rightarrow> bool" where
  "all_lapse L L' \<longleftrightarrow> (\<forall>k. lapse (L k) (L' k))"

inductive ledger_step :: "ledger \<Rightarrow> ledger_label \<Rightarrow> ledger \<Rightarrow> bool" where
  asked: "L' k = Some (Waiting d) \<Longrightarrow> others_lapse k L L' \<Longrightarrow> ledger_step L (Asked k d) L'"
| confirmed: "L k = Some (Waiting d) \<Longrightarrow> L' k = Some (Ready d) \<Longrightarrow> others_lapse k L L' \<Longrightarrow> ledger_step L (Confirmed k) L'"
| unreported: "L k = Some (Waiting d) \<Longrightarrow> L' k = Some (Ready d) \<Longrightarrow> others_lapse k L L' \<Longrightarrow> ledger_step L ConfirmedUnreported L'"
| taken: "L k = Some (Ready d) \<Longrightarrow> L' k = Some (Held d) \<Longrightarrow> others_lapse k L L' \<Longrightarrow> ledger_step L (Taken k) L'"
| used: "L k = Some (Held d) \<Longrightarrow> L' k = None \<Longrightarrow> others_lapse k L L' \<Longrightarrow> ledger_step L (Used k d) L'"
| refused: "lapse (L k) (L' k) \<or> (\<exists>d. L k = Some (Held d) \<and> L' k = Some (Ready d)) \<Longrightarrow> others_lapse k L L' \<Longrightarrow>
    ledger_step L (Refused k) L'"
| cleared: "ledger_step L Cleared Map.empty"
| idle: "all_lapse L L' \<Longrightarrow> ledger_step L Idle L'"

inductive_cases ledger_stepE: "ledger_step L l L'"

fun ledger_run :: "ledger \<Rightarrow> ledger_label list \<Rightarrow> ledger \<Rightarrow> bool" where
  "ledger_run L [] L' \<longleftrightarrow> L' = L"
| "ledger_run L (l # ls) L' \<longleftrightarrow> (\<exists>M. ledger_step L l M \<and> ledger_run M ls L')"

lemma ledger_run_snoc: "ledger_run L (ls @ [l]) L' \<longleftrightarrow> (\<exists>M. ledger_run L ls M \<and> ledger_step M l L')"
  by (induction ls arbitrary: L) auto

section \<open>What a run of the ledger guarantees\<close>

text \<open>A permit lives on over a label that does not enter, use or clear it.\<close>

definition keeps :: "intent_id \<Rightarrow> ledger_label \<Rightarrow> bool" where
  "keeps k l \<longleftrightarrow> (\<forall>d. l \<noteq> Asked k d \<and> l \<noteq> Used k d) \<and> l \<noteq> Cleared"

definition confirms :: "intent_id \<Rightarrow> ledger_label \<Rightarrow> bool" where
  "confirms k l \<longleftrightarrow> l = Confirmed k \<or> l = ConfirmedUnreported"

text \<open>The labels since a permit was entered, for each of its states.\<close>

fun since_ok :: "intent_id \<Rightarrow> permit \<Rightarrow> ledger_label list \<Rightarrow> bool" where
  "since_ok k (Waiting d) q \<longleftrightarrow> True"
| "since_ok k (Ready d) q \<longleftrightarrow> list_ex (confirms k) q"
| "since_ok k (Held d) q \<longleftrightarrow> (\<exists>q1 q2. q = q1 @ q2 \<and> list_ex (confirms k) q1 \<and> Taken k \<in> set q2)"

fun permit_data :: "permit \<Rightarrow> intent_consume_info" where
  "permit_data (Waiting d) = d"
| "permit_data (Ready d) = d"
| "permit_data (Held d) = d"

definition entered :: "intent_id \<Rightarrow> permit \<Rightarrow> ledger_label list \<Rightarrow> bool" where
  "entered k p ls \<longleftrightarrow> (\<exists>pre q. ls = pre @ Asked k (permit_data p) # q \<and> list_all (keeps k) q \<and> since_ok k p q)"

lemma since_ok_snoc: "since_ok k p q \<Longrightarrow> since_ok k p (q @ [l])"
proof (cases p)
  case (Held d)
  assume "since_ok k p q"
  with Held obtain q1 q2 where "q = q1 @ q2" "list_ex (confirms k) q1" "Taken k \<in> set q2" by auto
  then have "\<exists>r1 r2. q @ [l] = r1 @ r2 \<and> list_ex (confirms k) r1 \<and> Taken k \<in> set r2"
    by (intro exI [of _ q1] exI [of _ "q2 @ [l]"]) simp
  with Held show ?thesis by simp
qed auto

lemma entered_snoc: "entered k p ls \<Longrightarrow> keeps k l \<Longrightarrow> entered k p (ls @ [l])"
  unfolding entered_def
proof (elim exE conjE)
  fix pre q
  assume "ls = pre @ Asked k (permit_data p) # q" "list_all (keeps k) q" "since_ok k p q" "keeps k l"
  then show "\<exists>pre q. ls @ [l] = pre @ Asked k (permit_data p) # q \<and> list_all (keeps k) q \<and> since_ok k p q"
    by (intro exI [of _ pre] exI [of _ "q @ [l]"]) (simp add: since_ok_snoc)
qed

lemma entered_confirm: "entered k (Waiting d) ls \<Longrightarrow> confirms k l \<Longrightarrow> keeps k l \<Longrightarrow> entered k (Ready d) (ls @ [l])"
  unfolding entered_def by force

lemma entered_take: "entered k (Ready d) ls \<Longrightarrow> entered k (Held d) (ls @ [Taken k])"
  unfolding entered_def by (force simp: keeps_def)

lemma entered_return: "entered k (Held d) ls \<Longrightarrow> entered k (Ready d) ls"
  unfolding entered_def by force

lemma ledger_run_entered: "ledger_run Map.empty ls L \<Longrightarrow> L k = Some p \<Longrightarrow> entered k p ls"
proof (induction ls arbitrary: L k p rule: rev_induct)
  case (snoc l ls)
  from snoc.prems(1) obtain M where M: "ledger_run Map.empty ls M" and st: "ledger_step M l L" by (auto simp: ledger_run_snoc)
  note IH = snoc.IH [OF M]
  have old: "entered k p (ls @ [l])" if "lapse (M k) (L k)" "keeps k l"
    using that snoc.prems(2) IH entered_snoc by (auto simp: lapse_def)
  have other: "k' \<noteq> k \<Longrightarrow> others_lapse k' M L \<Longrightarrow> keeps k l \<Longrightarrow> entered k p (ls @ [l])" for k'
    by (rule old) (simp_all add: others_lapse_def)
  from st show ?case
  proof (cases rule: ledger_step.cases)
    case (asked k' d)
    with snoc.prems(2) other [of k'] show ?thesis
      by (cases "k' = k") (force simp: entered_def, simp add: keeps_def)
  next
    case (confirmed k' d)
    with snoc.prems(2) other [of k'] IH show ?thesis
      by (cases "k' = k") (auto simp: keeps_def confirms_def intro!: entered_confirm)
  next
    case (unreported k' d)
    with snoc.prems(2) other [of k'] IH show ?thesis
      by (cases "k' = k") (auto simp: keeps_def confirms_def intro!: entered_confirm)
  next
    case (taken k' d)
    with snoc.prems(2) other [of k'] IH show ?thesis by (cases "k' = k") (auto simp: keeps_def intro: entered_take)
  next
    case (used k' d)
    with snoc.prems(2) other [of k'] show ?thesis by (cases "k' = k") (auto simp: keeps_def)
  next
    case (refused k')
    with snoc.prems(2) other [of k'] old IH show ?thesis
      by (cases "k' = k") (auto simp: keeps_def intro: entered_snoc [OF entered_return])
  next
    case idle
    with old show ?thesis by (simp add: all_lapse_def keeps_def)
  next
    case cleared
    with snoc.prems(2) show ?thesis by simp
  qed
qed simp

text \<open>
  Every use is licensed: since some entry of the permit with the same data there was a confirmation and
  then a taking, and in between the permit was not entered again, not used, and the ledger not cleared.
\<close>

definition uses_licensed :: "ledger_label list \<Rightarrow> bool" where
  "uses_licensed ls \<longleftrightarrow> (\<forall>pre k d post. ls = pre @ Used k d # post \<longrightarrow> entered k (Held d) pre)"

lemma ledger_run_append: "ledger_run L (ls @ ls') L' \<longleftrightarrow> (\<exists>M. ledger_run L ls M \<and> ledger_run M ls' L')"
  by (induction ls arbitrary: L) auto

lemma ledger_run_licensed: "ledger_run Map.empty ls L \<Longrightarrow> uses_licensed ls"
  unfolding uses_licensed_def
  by (auto simp: ledger_run_append elim!: ledger_stepE intro: ledger_run_entered)

section \<open>Components that implement a ledger\<close>

locale ledger_implementation = automaton_inv step inv
  for step :: "'s \<Rightarrow> 'op \<Rightarrow> 's \<times> 'o"
    and inv :: "'s \<Rightarrow> bool" +
  fixes ledger_of :: "'s \<Rightarrow> ledger"
    and label_of :: "'op \<Rightarrow> 'o \<Rightarrow> ledger_label"
  assumes step_refines: "inv s \<Longrightarrow> ledger_step (ledger_of s) (label_of x (snd (step s x))) (ledger_of (fst (step s x)))"
begin

lemma run_refines:
  "inv s \<Longrightarrow> ledger_run (ledger_of s) (map (case_prod label_of) (run_trace step s xs)) (ledger_of (run_state step s xs))"
proof (induction xs arbitrary: s)
  case (Cons x xs)
  from step_refines [OF Cons.prems, of x] Cons.IH [OF inv_step [OF Cons.prems]] show ?case by auto
qed simp

end

section \<open>The intent store\<close>

definition permit_of :: "intent \<Rightarrow> permit option" where
  "permit_of i = (case i_state i of
      Pending \<Rightarrow> Some (Waiting (consume_info i))
    | Approved \<Rightarrow> Some (Ready (consume_info i))
    | Claimed \<Rightarrow> Some (Held (consume_info i))
    | _ \<Rightarrow> None)"

definition store_ledger :: "intent_store \<Rightarrow> ledger" where
  "store_ledger st k = Option.bind (intent_get st k) permit_of"

lemma lapse_refl [simp]: "lapse p p" and lapse_None [simp]: "lapse p None"
  by (simp_all add: lapse_def)

lemma lapse_trans: "lapse p q \<Longrightarrow> lapse q r \<Longrightarrow> lapse p r"
  by (auto simp: lapse_def)

lemma all_lapse_refl [simp]: "all_lapse L L"
  by (simp add: all_lapse_def)

lemma all_lapse_trans: "all_lapse L M \<Longrightarrow> all_lapse M N \<Longrightarrow> all_lapse L N"
  unfolding all_lapse_def using lapse_trans by blast

lemma all_lapse_others: "all_lapse L L' \<Longrightarrow> others_lapse k L L'"
  by (simp add: all_lapse_def others_lapse_def)

lemma consume_info_state [simp]: "consume_info (i\<lparr>i_state := st\<rparr>) = consume_info i" "consume_info (i\<lparr>i_claim_token := t\<rparr>) = consume_info i"
  by (simp_all add: consume_info_def)

lemma permit_of_states:
  "i_state i = Approved \<Longrightarrow> permit_of i = Some (Ready (consume_info i))"
  "i_state i = Claimed \<Longrightarrow> permit_of i = Some (Held (consume_info i))"
  "i_state i = Pending \<Longrightarrow> permit_of i = Some (Waiting (consume_info i))"
  "is_terminal (i_state i) \<Longrightarrow> permit_of i = None"
  by (auto simp: permit_of_def is_terminal_def split: intent_state.split)

text \<open>The operations that only end intents.\<close>

lemma transition_lapse: "is_terminal st \<Longrightarrow> lapse (permit_of i) (permit_of (fst (transition_to st i)))"
  by (auto simp: transition_to_def permit_of_states(4))

lemma map_lapse:
  "(\<And>i. lapse (permit_of i) (permit_of (g i))) \<Longrightarrow> lapse (Option.bind m permit_of) (Option.bind (map_option g m) permit_of)"
  by (cases m) simp_all

lemma expired_permit [simp]: "permit_of (i\<lparr>i_state := intent_state.Expired\<rparr>) = None"
  by (simp add: permit_of_def)

lemma cleanup_expired_lapse: "all_lapse (store_ledger st) (store_ledger (cleanup_expired now st))"
  by (simp add: all_lapse_def store_ledger_def intent_get_def cleanup_expired_get map_lapse)

lemma guarded_lapse:
  assumes "\<And>i. lapse (permit_of i) (permit_of (fst (f i)))"
  shows "all_lapse (store_ledger st) (store_ledger (fst (and_then (expire_if_needed now st iid) (\<lambda>s _. with_intent s iid f))))"
  using assms by (simp add: all_lapse_def store_ledger_def guarded_get map_lapse)

lemma intent_deny_lapse: "all_lapse (store_ledger st) (store_ledger (fst (intent_deny now iid st)))"
  unfolding intent_deny_def by (rule guarded_lapse) (simp add: transition_lapse is_terminal_def)

lemma cancel_by_principal_lapse: "all_lapse (store_ledger st) (store_ledger (fst (cancel_by_principal now iid pid sid st)))"
  unfolding cancel_by_principal_def by (rule guarded_lapse) (simp add: transition_lapse is_terminal_def)

lemma cancel_by_session_lapse: "all_lapse (store_ledger st) (store_ledger (cancel_by_session sid st))"
  by (auto simp: all_lapse_def store_ledger_def intent_get_def cancel_by_session_def is_terminal_iff
      intro!: map_lapse transition_lapse)

lemma consume_claimed_lapse: "all_lapse (store_ledger st) (store_ledger (fst (consume_claimed iid st)))"
proof -
  have "lapse (permit_of i) (permit_of (fst (finish_consume i)))" for i
    using transition_lapse [of Consumed i] by (auto simp: finish_consume_def is_terminal_def split: prod.splits sum.splits)
  then show ?thesis by (auto simp: all_lapse_def store_ledger_def consume_claimed_def with_intent_get intro!: map_lapse)
qed

text \<open>The operations that enter, confirm, take and give back a permit.\<close>

definition asked_data :: "create_intent_params \<Rightarrow> intent_consume_info" where
  "asked_data p = \<lparr>ci_profile_id = cp_profile_id p, ci_action = cp_action p, ci_rp_id = cp_rp_id p,
     ci_credential_ref = cp_credential_ref p, ci_require_uv = cp_require_uv p\<rparr>"

lemma intent_create_ledger:
  assumes "intent_create now_gc now iid token p st = (st', r)"
  shows "case r of Inl _ \<Rightarrow> all_lapse (store_ledger st) (store_ledger st')
    | Inr _ \<Rightarrow> ledger_step (store_ledger st) (Asked iid (asked_data p)) (store_ledger st')"
proof (cases r)
  case (Inl e)
  with assms have "st' = cleanup_expired now_gc st" by (auto simp: intent_create_def Let_def split: if_splits option.splits)
  with Inl show ?thesis by (simp add: cleanup_expired_lapse)
next
  case (Inr v)
  with assms obtain i where st': "st' = (cleanup_expired now_gc st)\<lparr>intents := hm_insert (intent_id_str iid) i (intents (cleanup_expired now_gc st))\<rparr>"
    and i: "permit_of i = Some (Waiting (asked_data p))"
    by (auto simp: intent_create_def Let_def permit_of_def asked_data_def consume_info_def split: if_splits option.splits)
  have "store_ledger st' iid = Some (Waiting (asked_data p))" by (simp add: store_ledger_def st' intent_get_def i)
  moreover have "store_ledger st' k = store_ledger (cleanup_expired now_gc st) k" if "k \<noteq> iid" for k
    using that by (simp add: store_ledger_def st' intent_get_def)
  then have "others_lapse iid (store_ledger st) (store_ledger st')"
    using cleanup_expired_lapse [of st now_gc] by (simp add: others_lapse_def all_lapse_def)
  ultimately show ?thesis by (simp add: Inr ledger_step.asked)
qed

lemma intent_approve_ledger:
  assumes "intent_approve now iid st = (st', r)"
  shows "case r of Inl _ \<Rightarrow> all_lapse (store_ledger st) (store_ledger st')
    | Inr _ \<Rightarrow> ledger_step (store_ledger st) (Confirmed iid) (store_ledger st') \<and>
        ledger_step (store_ledger st) ConfirmedUnreported (store_ledger st')"
proof (cases rule: expire_if_needed_cases [where s = st and iid = iid and now = now])
  case missing
  with assms show ?thesis by (auto simp: intent_approve_def)
next
  case (expired i)
  with assms intent_deny_lapse [of st now iid] show ?thesis by (auto simp: intent_approve_def intent_deny_def)
next
  case (live i)
  with assms have w: "with_intent st iid (transition_to Approved) = (st', r)" by (simp add: intent_approve_def)
  show ?thesis
  proof (cases rule: transition_to_cases [of i Approved])
    case valid
    then have "i_state i = Pending" by (auto simp: valid_transition_def)
    then have "store_ledger st iid = Some (Waiting (consume_info i))" "store_ledger st' iid = Some (Ready (consume_info i))"
      "others_lapse iid (store_ledger st) (store_ledger st')" "r = Ok ()"
      using w live valid by (auto simp: with_intent_def store_ledger_def intent_get_def permit_of_states others_lapse_def)
    then show ?thesis by (auto intro: ledger_step.confirmed ledger_step.unreported)
  next
    case invalid
    with w live have "store_ledger st' = store_ledger st" "\<exists>e. r = Err e"
      by (auto simp: with_intent_def store_ledger_def intent_get_def fun_eq_iff)
    then show ?thesis by auto
  qed
qed

lemma claim_approved_ledger:
  assumes "store_inv st" and "claim_approved now q st = (st', r)"
  shows "case r of Inl _ \<Rightarrow> all_lapse (store_ledger st) (store_ledger st')
    | Inr iid \<Rightarrow> ledger_step (store_ledger st) (Taken iid) (store_ledger st')"
proof (cases r)
  case (Inl e)
  with assms(2) have "st' = cleanup_expired now st" using claim_approved_err(1) by blast
  with Inl show ?thesis by (simp add: cleanup_expired_lapse)
next
  case (Inr iid)
  with assms(2) have "claim_approved now q st = (st', Ok iid)" by simp
  with assms(1) obtain i where i: "hm_get (intents st) (intent_id_str iid) = Some i" "matches_query i q True"
    and st': "st' = (cleanup_expired now st)\<lparr>intents := hm_insert (intent_id_str iid)
       (i\<lparr>i_state := Claimed, i_claim_token := None\<rparr>) (intents (cleanup_expired now st))\<rparr>" by (rule claim_approved_ok)
  have "store_ledger st iid = Some (Ready (consume_info i))"
    using i by (simp add: store_ledger_def intent_get_def permit_of_states matches_query_approved)
  moreover have "store_ledger st' iid = Some (Held (consume_info i))" by (simp add: store_ledger_def st' intent_get_def permit_of_states)
  moreover have "store_ledger st' k = store_ledger (cleanup_expired now st) k" if "k \<noteq> iid" for k
    using that by (simp add: store_ledger_def st' intent_get_def)
  then have "others_lapse iid (store_ledger st) (store_ledger st')"
    using cleanup_expired_lapse [of st now] by (simp add: others_lapse_def all_lapse_def)
  ultimately show ?thesis by (simp add: Inr ledger_step.taken)
qed

text \<open>Giving a taken permit back at once leaves nothing but lapses.\<close>

lemma rollback_claim_get:
  "store_ledger (fst (rollback_claim iid st)) k =
     (if k = iid then (case store_ledger st iid of Some (Held d) \<Rightarrow> Some (Ready d) | p \<Rightarrow> p) else store_ledger st k)"
  by (cases "intent_get st iid") (auto simp: store_ledger_def rollback_claim_def with_intent_get permit_of_def split: intent_state.split)

lemma taken_rollback:
  "ledger_step (store_ledger st) (Taken iid) (store_ledger st') \<Longrightarrow>
   all_lapse (store_ledger st) (store_ledger (fst (rollback_claim iid st')))"
  by (erule ledger_stepE) (auto simp: all_lapse_def others_lapse_def rollback_claim_get)

lemma rollback_claim_refused: "ledger_step (store_ledger st) (Refused iid) (store_ledger (fst (rollback_claim iid st)))"
  by (rule ledger_step.refused) (auto simp: rollback_claim_get others_lapse_def split: option.split permit.split)

section \<open>The policy runtime\<close>

abbreviation runtime_ledger :: "policy_runtime \<Rightarrow> ledger" where
  "runtime_ledger s \<equiv> store_ledger (rt_intents s)"

text \<open>
  The label of a call and its answer.  A delegated request whose grant request fails has entered its intent
  before; an approval whose grant cannot be issued has confirmed its intent before, and its answer does not
  name the intent.
\<close>

definition handle_label :: "authorization_handle option \<Rightarrow> ledger_label" where
  "handle_label h = (case Option.bind h ah_intent_id of Some k \<Rightarrow> Taken k | None \<Rightarrow> Idle)"

fun rt_label :: "rt_op \<Rightarrow> rt_out \<Rightarrow> ledger_label" where
  "rt_label (PCreateIntent now_gc now iid token p) y = (case y of PoIntent (Inr _) \<Rightarrow> Asked iid (asked_data p) | _ \<Rightarrow> Idle)"
| "rt_label (PCreatePending now_mono now_gc now iid token pid p) y =
     (case y of PoPending (Inr _) \<Rightarrow> Asked iid (asked_data p) | _ \<Rightarrow> Idle)"
| "rt_label (PCreateDelegated now_mono now_gc now iid token now_grant rid pid p gp) y =
     (case y of PoDelegated (Inl (IntentCreationFailed _)) \<Rightarrow> Idle | PoDelegated _ \<Rightarrow> Asked iid (asked_data p) | _ \<Rightarrow> Idle)"
| "rt_label (PApproveIntent now iid) y = (case y of PoIntentUnit (Inr _) \<Rightarrow> Confirmed iid | _ \<Rightarrow> Idle)"
| "rt_label (PResolve now_mono now now' now'' gid t) y =
     (case y of PoBound (Inr b) \<Rightarrow> Confirmed (ba_intent_id b) | PoBound (Inl (CrGrantFailed _)) \<Rightarrow> ConfirmedUnreported | _ \<Rightarrow> Idle)"
| "rt_label (PAuthorize now cid req) y = (case y of PoDecision d h \<Rightarrow> handle_label h | _ \<Rightarrow> Idle)"
| "rt_label (PAuthorizeBound now now' now'' cid b req) y = (case y of PoDecision d h \<Rightarrow> handle_label h | _ \<Rightarrow> Idle)"
| "rt_label (PConsume h) y =
     (case ah_intent_id h of None \<Rightarrow> Idle | Some k \<Rightarrow>
       (case y of PoInfo (Inr info) \<Rightarrow> Used k info | _ \<Rightarrow> Refused k))"
| "rt_label (PReload gid now nonce config) y = (case y of PoDigest (Inr _) \<Rightarrow> Cleared | _ \<Rightarrow> Idle)"
| "rt_label _ y = Idle"

lemma on_grants_intents [simp]: "rt_intents (fst (on_grants k f s)) = rt_intents s"
  by (simp add: on_grants_def split: option.split prod.split)

lemma on_intents_intents [simp]: "rt_intents (fst (on_intents f s)) = fst (f (rt_intents s))"
  by (simp add: on_intents_def split: prod.split)

lemma frame_intents [simp]:
  "rt_intents (insert_pending h s) = rt_intents s" "rt_intents (insert_request pq s) = rt_intents s"
  "rt_intents (set_pending_state key st s) = rt_intents s"
  by (simp_all add: insert_pending_def insert_request_def set_pending_state_def)

lemma idle_refl [simp]: "ledger_step L Idle L"
  by (simp add: ledger_step.idle)

text \<open>The operations that leave the intents alone.\<close>

lemma grant_ops_intents:
  "rt_intents (fst (request_registration_grant now now' gid' sid eid pid rp ttl s)) = rt_intents s"
  "rt_intents (fst (consume_registration_grant pid gid' s)) = rt_intents s"
  "rt_intents (fst (revoke_grant_by_id gid s)) = rt_intents s"
  "rt_intents (fst (resolve_grant_for_sign now pid gid s)) = rt_intents s"
  "rt_intents (fst (admin_request_grant now rid p s)) = rt_intents s"
  "rt_intents (fst (admin_request_dynamic_grant now rid p s)) = rt_intents s"
  "rt_intents (fst (admin_approve_grant clk gid rid s)) = rt_intents s"
  "rt_intents (fst (admin_revoke_grant gid s)) = rt_intents s"
  by (simp_all add: request_registration_grant_def consume_registration_grant_def revoke_grant_by_id_def resolve_grant_for_sign_def
      admin_request_grant_def admin_request_dynamic_grant_def admin_approve_grant_def admin_revoke_grant_def Let_def
      split: option.split prod.split sum.split)

text \<open>The operations that give requests up.\<close>

lemma withdraw_lapse: "all_lapse (runtime_ledger s) (runtime_ledger (withdraw now pq s))"
  using intent_deny_lapse by (simp add: withdraw_def Let_def split: option.split)

lemma withdraw_all_lapse: "all_lapse (runtime_ledger s) (runtime_ledger (withdraw_all p st nows xs s))"
proof (induction p st nows xs s rule: withdraw_all.induct)
  case (2 p st nows key pq rest s)
  have "all_lapse (runtime_ledger s) (runtime_ledger
      (if pq_state pq = PsWaiting \<and> p pq then withdraw (nows key) pq (set_pending_state key st s) else s))"
    using withdraw_lapse [of "set_pending_state key st s"] by simp
  from all_lapse_trans [OF this 2] show ?case by simp
qed simp

text \<open>The authorisations: a claim that is given back is no step.\<close>

lemma authorize_isolated_ledger:
  assumes "store_inv (rt_intents s)" and "authorize_isolated now cid snap req s = (s', d, h)"
  shows "ledger_step (runtime_ledger s) (handle_label h) (runtime_ledger s')"
proof -
  obtain s1 r where c: "on_intents (claim_approved now (request_query req (ps_profile_id snap) (ar_rp_id req))) s = (s1, r)"
    by fastforce
  then have "claim_approved now (request_query req (ps_profile_id snap) (ar_rp_id req)) (rt_intents s) = (rt_intents s1, r)"
    using on_intents_fieldsD(5,6) by (metis prod.collapse)
  note l = claim_approved_ledger [OF assms(1) this]
  show ?thesis
  proof (cases r)
    case (Inl e)
    with assms(2) c l show ?thesis
      by (auto simp: authorize_isolated_def handle_label_def intro: ledger_step.idle split: intent_error.splits)
  next
    case (Inr iid)
    with assms(2) c l taken_rollback show ?thesis
      by (auto simp: authorize_isolated_def handle_label_def mk_handle_def Let_def intro!: ledger_step.idle split: if_splits)
  qed
qed

lemma authorize_ledger:
  assumes "store_inv (rt_intents s)" and "authorize c now cid req s = (s', d, h)"
  shows "ledger_step (runtime_ledger s) (handle_label h) (runtime_ledger s')"
  using assms(2) authorize_isolated_ledger [OF assms(1)]
  by (auto simp: authorize_def Let_def handle_label_def [of None] split: if_splits option.splits)

lemma authorize_bound_ledger:
  assumes "store_inv (rt_intents s)" and "authorize_bound c now now' now'' cid b req s = (s', d, h)"
  shows "ledger_step (runtime_ledger s) (handle_label h) (runtime_ledger s')"
proof -
  obtain s1 r where cl: "on_intents (claim_approved now (bound_query b)) s = (s1, r)" by fastforce
  then have "claim_approved now (bound_query b) (rt_intents s) = (rt_intents s1, r)"
    using on_intents_fieldsD(5,6) by (metis prod.collapse)
  note l = claim_approved_ledger [OF assms(1) this]
  let ?g = "\<lambda>gid. on_grants (profile_id_str (ba_profile_id b))
    (claim_for_authorize (cr_hex c) now' now'' cid gid (ba_session_id b) (bound_claim c b)) s1"
  have g: "rt_intents s2 = rt_intents s1" if "?g gid = (s2, x)" for gid s2 x using that on_grants_fieldsD(3) by blast
  show ?thesis
  proof (cases r)
    case (Inl e)
    with assms(2) cl l show ?thesis
      by (auto simp: authorize_bound_def handle_label_def intro: ledger_step.idle split: intent_error.splits option.splits if_splits)
  next
    case (Inr iid)
    with assms(2) cl l taken_rollback show ?thesis
      by (auto simp: authorize_bound_def handle_label_def bound_handle_def Let_def g intro!: ledger_step.idle
          split: if_splits option.splits prod.splits sum.splits)
  qed
qed

lemma on_intents_pending [simp]: "rt_pending (fst (on_intents f s)) = rt_pending s"
  by (simp add: on_intents_def split: prod.split)

text \<open>The consumption.\<close>

lemma invalidate_ceremony_ledger:
  "runtime_ledger (invalidate_ceremony key s) =
     (case Option.bind (hm_get (rt_pending s) key) ah_intent_id of
        Some k \<Rightarrow> store_ledger (fst (rollback_claim k (rt_intents s))) | None \<Rightarrow> runtime_ledger s)"
  by (simp add: invalidate_ceremony_def Let_def split: option.split)

lemma refused_lapse: "all_lapse L L' \<Longrightarrow> ledger_step L (Refused k) L'"
  by (rule ledger_step.refused) (simp_all add: all_lapse_def others_lapse_def)

lemma refused_refl [simp]: "ledger_step L (Refused k) L"
  by (simp add: refused_lapse)

lemma rollback_gone: "store_ledger st k = None \<Longrightarrow> store_ledger (fst (rollback_claim k st)) = store_ledger st"
  by (auto simp: rollback_claim_get)

lemma consume_claimed_used:
  assumes "consume_claimed k st = (st', Ok info)"
  shows "ledger_step (store_ledger st) (Used k info) (store_ledger st')" and "store_ledger st' k = None"
proof -
  from assms obtain i where i: "intent_get st k = Some i" "i_state i = Claimed" "info = consume_info i"
    and st': "st' = st\<lparr>intents := hm_insert (intent_id_str k) (i\<lparr>i_state := Consumed\<rparr>) (intents st)\<rparr>"
    using consume_ok(2) by blast
  then show gone: "store_ledger st' k = None" by (simp add: store_ledger_def intent_get_def permit_of_def)
  have "others_lapse k (store_ledger st) (store_ledger st')"
    using consume_claimed_lapse [of st k] assms by (simp add: all_lapse_others)
  with gone i show "ledger_step (store_ledger st) (Used k info) (store_ledger st')"
    by (intro ledger_step.used) (simp_all add: store_ledger_def permit_of_states)
qed

lemma consume_authorization_ledger:
  assumes "consume_authorization h s = (s', r)"
  shows "ledger_step (runtime_ledger s)
    (case ah_intent_id h of None \<Rightarrow> Idle | Some k \<Rightarrow> (case r of Inr info \<Rightarrow> Used k info | Inl _ \<Rightarrow> Refused k)) (runtime_ledger s')"
proof (cases "\<exists>pa. hm_get (rt_pending s) (ceremony_id_str (ah_ceremony_id h)) = Some pa \<and> handle_matches pa h")
  case False
  with assms have "s' = s \<and> (\<exists>e. r = Err e)" by (auto simp: consume_authorization_def Let_def split: option.splits)
  then show ?thesis by (auto intro: refused_lapse split: option.split)
next
  case True
  let ?key = "ceremony_id_str (ah_ceremony_id h)"
  from True have m: "(case hm_get (rt_pending s) ?key of Some pa \<Rightarrow> handle_matches pa h | None \<Rightarrow> False) = True" by auto
  from True have inv: "runtime_ledger (invalidate_ceremony ?key t) =
      (case ah_intent_id h of Some k \<Rightarrow> store_ledger (fst (rollback_claim k (rt_intents t))) | None \<Rightarrow> runtime_ledger t)"
    if "rt_pending t = rt_pending s" for t
    using that by (auto simp: invalidate_ceremony_ledger handle_matches_def)
  show ?thesis
  proof (cases "ah_intent_id h")
    case None
    with assms m have "r \<noteq> Ok info" "runtime_ledger s' = runtime_ledger s" for info
      by (auto simp: consume_authorization_def Let_def inv split: if_splits option.splits)
    with None show ?thesis by simp
  next
    case (Some k)
    obtain s1 x where c: "on_intents (consume_claimed k) s = (s1, x)" by fastforce
    have s1: "rt_pending s1 = rt_pending s" "consume_claimed k (rt_intents s) = (rt_intents s1, x)"
      using on_intents_fieldsD [OF c] by (simp_all add: prod_eq_iff)
    have g: "rt_pending s2 = rt_pending s" "rt_intents s2 = rt_intents s1"
      if "on_grants p (consume_claim_by_ceremony cid) s1 = (s2, y)" for p cid s2 y
      using on_grants_fieldsD [OF that] s1 by simp_all
    have lapse: "all_lapse (runtime_ledger s) (runtime_ledger s1)" using consume_claimed_lapse [of "rt_intents s" k] s1(2) by simp
    have used: "ledger_step (runtime_ledger s) (Used k info) (runtime_ledger s1)" "runtime_ledger s1 k = None" if "x = Ok info" for info
      using consume_claimed_used [of k "rt_intents s" "rt_intents s1" info] s1(2) that by simp_all
    show ?thesis
    proof (cases x)
      case (Inl e)
      with assms m c Some lapse show ?thesis
        by (auto simp: consume_authorization_def Let_def inv rollback_claim_refused intro: refused_lapse
            split: if_splits option.splits intent_error.splits)
    next
      case (Inr info)
      note gone = rollback_gone [OF used(2) [OF Inr]]
      have gone2: "store_ledger (fst (rollback_claim k (fst (rollback_claim k (rt_intents s1))))) = runtime_ledger s1"
        using gone used(2) [OF Inr] by (simp add: rollback_gone)
      from assms m c Some Inr show ?thesis
        by (auto simp: consume_authorization_def Let_def inv rollback_claim_refused g s1(1) gone gone2 used(1) refused_lapse [OF lapse]
            split: if_splits option.splits prod.splits sum.splits)
    qed
  qed
qed

lemma create_pending_ledger:
  "ledger_step (runtime_ledger s) (rt_label (PCreatePending now_mono now_gc now iid token pid p) (PoPending
     (snd (principal_create_pending_intent now_mono now_gc now iid token pid p s))))
     (runtime_ledger (fst (principal_create_pending_intent now_mono now_gc now iid token pid p s)))"
  "ledger_step (runtime_ledger s) (rt_label (PCreateDelegated now_mono now_gc now iid token now_grant rid pid p gp) (PoDelegated
     (snd (principal_create_pending_delegated now_mono now_gc now iid token now_grant rid pid p gp s))))
     (runtime_ledger (fst (principal_create_pending_delegated now_mono now_gc now iid token now_grant rid pid p gp s)))"
proof -
  obtain s1 r where c: "on_intents (intent_create now_gc now iid token p) s = (s1, r)" by fastforce
  then have "intent_create now_gc now iid token p (rt_intents s) = (rt_intents s1, r)"
    using on_intents_fieldsD(5,6) by (metis prod.collapse)
  note l = intent_create_ledger [OF this]
  have g: "rt_intents s2 = rt_intents s1" if "on_grants k (request_grant now_grant rid gp) s1 = (s2, x)" for k s2 x
    using that on_grants_fieldsD(3) by blast
  show "ledger_step (runtime_ledger s) (rt_label (PCreatePending now_mono now_gc now iid token pid p) (PoPending
     (snd (principal_create_pending_intent now_mono now_gc now iid token pid p s))))
     (runtime_ledger (fst (principal_create_pending_intent now_mono now_gc now iid token pid p s)))"
    using c l by (auto simp: principal_create_pending_intent_def intro: ledger_step.idle split: sum.splits)
  show "ledger_step (runtime_ledger s) (rt_label (PCreateDelegated now_mono now_gc now iid token now_grant rid pid p gp) (PoDelegated
     (snd (principal_create_pending_delegated now_mono now_gc now iid token now_grant rid pid p gp s))))
     (runtime_ledger (fst (principal_create_pending_delegated now_mono now_gc now iid token now_grant rid pid p gp s)))"
    using c l g by (auto simp: principal_create_pending_delegated_def intro: ledger_step.idle split: sum.splits option.splits prod.splits)
qed

lemma resolve_pending_ledger:
  "ledger_step (runtime_ledger s) (rt_label (PResolve now_mono now now' now'' gid t) (PoBound
     (snd (ceremony_resolve_pending c now_mono now now' now'' gid t s))))
     (runtime_ledger (fst (ceremony_resolve_pending c now_mono now now' now'' gid t s)))"
proof (cases "find_waiting t s")
  case (Inl e)
  then show ?thesis by (auto simp: ceremony_resolve_pending_def find_waiting_not_grant split: ceremony_resolve_error.split)
next
  case (Inr kp)
  obtain key pq where kp: "kp = (key, pq)" by (cases kp)
  obtain s1 r where a: "on_intents (intent_approve now (pq_intent_id pq)) s = (s1, r)" by fastforce
  then have "intent_approve now (pq_intent_id pq) (rt_intents s) = (rt_intents s1, r)"
    using on_intents_fieldsD(5,6) by (metis prod.collapse)
  note l = intent_approve_ledger [OF this]
  have g: "rt_intents s2 = rt_intents s1" if "on_grants k (resolve_grant now' now'' gid rid) s1 = (s2, x)" for k rid s2 x
    using that on_grants_fieldsD(3) by blast
  show ?thesis
    using a l g by (auto simp: ceremony_resolve_pending_def Inr kp bound_of_def intro: ledger_step.idle
        split: sum.splits option.splits prod.splits)
qed

lemma reload_ledger:
  "ledger_step (runtime_ledger s) (rt_label (PReload gid now nonce config) (PoDigest (snd (reload c gid now nonce config s))))
     (runtime_ledger (fst (reload c gid now nonce config s)))"
proof (cases "compile_generation (cr_fs c) (cr_hex c) (cr_sha c) gid config now")
  case (Inr g)
  have "store_ledger (invalidate_all nonce (rt_intents s)) = Map.empty"
    by (simp add: store_ledger_def invalidate_all_def intent_get_def fun_eq_iff)
  with Inr show ?thesis by (simp add: reload_def ledger_step.cleared)
qed (simp add: reload_def)

lemma rt_step_ledger:
  assumes "rt_inv s"
  shows "ledger_step (runtime_ledger s) (rt_label x (snd (rt_step c s x))) (runtime_ledger (fst (rt_step c s x)))"
proof (cases x)
  case (PAuthorize now cid req)
  obtain s' d h where "authorize c now cid req s = (s', d, h)" by (cases "authorize c now cid req s") auto
  with authorize_ledger [OF rt_invD(1) [OF assms]] PAuthorize show ?thesis by simp
next
  case (PAuthorizeBound now now' now'' cid b req)
  obtain s' d h where "authorize_bound c now now' now'' cid b req s = (s', d, h)"
    by (cases "authorize_bound c now now' now'' cid b req s") auto
  with authorize_bound_ledger [OF rt_invD(1) [OF assms]] PAuthorizeBound show ?thesis by simp
next
  case (PConsume h)
  obtain s' r where r: "consume_authorization h s = (s', r)" by fastforce
  from consume_authorization_ledger [OF this] show ?thesis by (simp add: PConsume r split: option.splits sum.splits)
next
  case (PApproveIntent now iid)
  show ?thesis
    using intent_approve_ledger [of now iid "rt_intents s"] by (auto simp: PApproveIntent admin_approve_intent_def on_intents_def
        intro: ledger_step.idle split: prod.split sum.splits)
next
  case (PCreateIntent now_gc now iid token p)
  show ?thesis
    using intent_create_ledger [of now_gc now iid token p "rt_intents s"] by (auto simp: PCreateIntent admin_create_intent_def on_intents_def
        intro: ledger_step.idle split: prod.split sum.splits)
next
  case (PCancelPending now pid sid)
  show ?thesis
    using withdraw_lapse [of "set_pending_state (pending_request_id_str pid) PsCancelled s"]
    by (auto simp: PCancelPending principal_cancel_pending_def Let_def intro: ledger_step.idle split: option.split)
next
  case (PDenyPending now t)
  show ?thesis
    using withdraw_lapse [of s] by (auto simp: PDenyPending ceremony_deny_pending_def intro: ledger_step.idle split: sum.split)
qed (use create_pending_ledger resolve_pending_ledger reload_ledger in
  \<open>simp_all add: grant_ops_intents admin_deny_intent_def intent_deny_lapse principal_cancel_intent_def cancel_by_principal_lapse
    principal_exit_def cancel_by_session_lapse cleanup_expired_pending_def cancel_pending_for_session_def withdraw_all_lapse
    ledger_step.idle Let_def\<close>)

interpretation rtledger: ledger_implementation "rt_step c" rt_inv runtime_ledger rt_label for c
  by unfold_locales (rule rt_step_ledger)

text \<open>C4. The policy runtime implements the ledger of one-time permits. The labels that its calls and their answers
  determine, one for each call, form a run of the ledger from the empty one to the one that the runtime's
  intents stand for. So in every run of the runtime a permit is entered only by a creation, with the
  requested data, becomes ready only by an approval, held only by an authorisation that returned a
  handle for it, and a successful consumption uses up a held permit and returns its data; a reload
  empties the ledger; an approval that fails because its grant cannot be issued may leave one permit
  ready, and a refused consumption may give its permit back; otherwise permits only lapse. And every use is
  licensed: since the permit was last entered, with the same data, it was confirmed and then taken,
  not used before, and no reload came in between.\<close>

theorem runtime_refines_ledger:
  assumes "runtime_new c gid now nonce config audit = Ok s"
  shows "ledger_run Map.empty (map (case_prod rt_label) (run_trace (rt_step c) s xs)) (runtime_ledger (run_state (rt_step c) s xs)) \<and>
    uses_licensed (map (case_prod rt_label) (run_trace (rt_step c) s xs))"
proof -
  have "runtime_ledger s = Map.empty"
    using assms by (auto simp: runtime_new_def res_bind_ok with_defaults_def store_new_def store_ledger_def intent_get_def)
  with rtledger.run_refines [OF runtime_new_inv [OF assms], of c xs] show ?thesis by (auto dest: ledger_run_licensed)
qed

end
