(* ===== verification/Runtime_Examples.thy ===== *)
theory Runtime_Examples
  imports Runtime_Ceremonies Ledger
begin

text \<open>
  A runtime with one isolated profile, an accepted ceremony on it, and the instances of the
  properties of the runtime on that run.
\<close>

section \<open>The runtime\<close>

definition rex_crates :: crates where
  "rex_crates = \<lparr>cr_psl = cex_psl, cr_fs = cex_fs, cr_hex = (\<lambda>_. []), cr_sha = (\<lambda>_. [])\<rparr>"

definition rex_config :: agent_config where
  "rex_config = \<lparr>ag_enabled = True, ag_profiles = [(''i'', cex_isolated ''i'')], ag_audit_path = Some [RootDir, Normal ''audit''],
     ag_acknowledge_global_same_user = [], ag_acknowledge_same_user_registration = []\<rparr>"

abbreviation rex_new :: "runtime_error + policy_runtime" where
  "rex_new \<equiv> runtime_new rex_crates (PolicyGenerationId ''g'') 0 0 rex_config False"

abbreviation rex_step :: "policy_runtime \<Rightarrow> rt_op \<Rightarrow> policy_runtime \<times> rt_out" where
  "rex_step \<equiv> rt_step rex_crates"

definition rex_params :: "policy_digest \<Rightarrow> create_intent_params" where
  "rex_params dig =
     \<lparr>cp_profile_id = ProfileId ''i'', cp_session_id = PrincipalSessionId ''s'', cp_endpoint_id = EndpointId ''e'',
      cp_process_digest = ProcessIdentityDigest [1], cp_action = Authenticate, cp_rp_id = ''a.b'', cp_credential_ref = None,
      cp_policy_generation = PolicyGenerationId ''g'', cp_policy_digest = dig, cp_require_uv = False, cp_ttl_ms = None\<rparr>"

lemma rex_generation:
  obtains snap g where "compile_generation cex_fs (\<lambda>_. []) (\<lambda>_. []) gid rex_config now = Ok g"
    and "gen_id g = gid" and "gen_snapshots g = [snap]" and "ps_profile_id snap = ProfileId ''i''"
    and "compile_snapshot cex_fs (\<lambda>_. []) (\<lambda>_. []) (ProfileId ''i'') (cex_isolated ''i'') = Ok snap"
proof -
  obtain snap where snap: "compile_snapshot cex_fs (\<lambda>_. []) (\<lambda>_. []) (ProfileId ''i'') (cex_isolated ''i'') = Ok snap"
    by (rule sx_compile)
  with that [OF _ _ _ compile_snapshot_profile [OF snap] snap] show thesis
    by (simp add: compile_generation_def rex_config_def cex_profile_ids Let_def)
qed

lemma rex_snapshot:
  assumes "compile_snapshot cex_fs (\<lambda>_. []) (\<lambda>_. []) (ProfileId ''i'') (cex_isolated ''i'') = Ok snap"
  shows "is_rp_exact_match cex_psl snap ''a.b''" and "action_allowed snap Authenticate" and "ps_credential_refs snap = []"
    and "\<not> ps_require_uv snap" and "ps_max_grant_ttl_secs snap = 300"
    and "ceremony_policy cex_psl snap ''a.b'' Authenticate = Some policy_supervised"
proof -
  note s = compile_snapshot_ok [OF assms]
  have e: "effective_rules (cex_isolated ''i'') = [cex_rule ''a.b'' policy_supervised policy_supervised]"
    by (simp add: effective_rules_def cex_isolated_def cex_profile_def)
  have k: "rule_key (cex_rule ''a.b'' policy_supervised policy_supervised) = ''a.b''"
    by (simp add: rule_key_def cex_rule_def cex_trim) (simp add: to_ascii_lowercase_def lower_char_def)
  show "is_rp_exact_match cex_psl snap ''a.b''" using s by (simp add: is_rp_exact_match_def cex_rp e k)
  show "action_allowed snap Authenticate"
    using s by (simp add: action_allowed_def action_str_def allows_authentication_def e cex_rule_def policy_supervised_def)
  show "ps_credential_refs snap = []" "\<not> ps_require_uv snap" using s by (simp_all add: cex_isolated_def cex_profile_def)
  show "ps_max_grant_ttl_secs snap = 300"
    using assms by (auto simp: compile_snapshot_def Let_def compile_params_def cex_isolated_def cex_profile_def duration_or_def split: sum.splits)
  show "ceremony_policy cex_psl snap ''a.b'' Authenticate = Some policy_supervised"
    using s k by (simp add: ceremony_policy_def cex_rp e eq_ignore_ascii_case_def rule_policy_def)
      (simp add: cex_rule_def cex_trim)
qed

lemma rex_runtime:
  obtains s snap where "rex_new = Ok s" and "rt_inv s" and "find_snapshot (rt_current s) (ProfileId ''i'') = Some snap"
    and "gen_id (rt_current s) = PolicyGenerationId ''g''"
    and "compile_snapshot cex_fs (\<lambda>_. []) (\<lambda>_. []) (ProfileId ''i'') (cex_isolated ''i'') = Ok snap"
    and "rt_intents s = with_defaults 0" and "rt_pending_requests s = []"
    and "rt_grants s = [(''i'', grant_registry_new (PolicyGenerationId ''g'') (ps_digest snap) 300 (ps_allowed_actions snap)
      (ps_max_concurrent_grants snap) None)]"
proof -
  obtain snap g where g: "compile_generation cex_fs (\<lambda>_. []) (\<lambda>_. []) (PolicyGenerationId ''g'') rex_config 0 = Ok g"
    "gen_id g = PolicyGenerationId ''g''" "gen_snapshots g = [snap]" "ps_profile_id snap = ProfileId ''i''"
    and snap: "compile_snapshot cex_fs (\<lambda>_. []) (\<lambda>_. []) (ProfileId ''i'') (cex_isolated ''i'') = Ok snap"
    by (rule rex_generation)
  then have new: "rex_new = Ok \<lparr>rt_current = g, rt_intents = with_defaults 0, rt_grants = new_registries False g,
      rt_registration_grants = [], rt_pending = [], rt_pending_requests = [], rt_audit_gate = False\<rparr>"
    by (simp add: runtime_new_def rex_crates_def)
  from that [OF new runtime_new_inv [OF new] _ _ snap] g rex_snapshot(5) [OF snap] show thesis
    by (simp add: find_snapshot_def new_registries_def hm_insert_def)
qed

abbreviation rex_digest :: "policy_runtime \<Rightarrow> policy_digest" where
  "rex_digest s \<equiv> gen_digest (rt_current s)"

lemma rex_may_run:
  assumes "find_snapshot (rt_current s) (ProfileId ''i'') = Some snap" and "gen_id (rt_current s) = PolicyGenerationId ''g''"
    and "compile_snapshot cex_fs (\<lambda>_. []) (\<lambda>_. []) (ProfileId ''i'') (cex_isolated ''i'') = Ok snap"
    and "rt_pending_requests s = []"
  shows "may_run rex_crates (rex_params (rex_digest s)) False s"
  using assms rex_snapshot [OF assms(3)] cex_trim
  by (simp add: may_run_def rex_params_def rex_crates_def normalize_def hm_get_def)
    (simp add: to_ascii_lowercase_def lower_char_def)

lemma rex_times:
  "has_room 0 (with_defaults 0)" "checked_add 0 (intent_ttl (rex_params dig)) = Some DEFAULT_INTENT_TTL_MS"
  "0 < pq_deadline_mono (mk_pending_request 0 pid IsolatedIntent (rex_params dig) iid None)" "(0::u64) < DEFAULT_INTENT_TTL_MS"
  by (simp_all add: has_room_def with_defaults_def store_new_def cleanup_expired_def active_count_def intent_ttl_def rex_params_def
      checked_add_def DEFAULT_INTENT_TTL_MS_def mk_pending_request_def hm_count_def hm_values_def hm_map_def DEFAULT_MAX_INTENTS_def
      saturating_add_def div_ceil_def)

section \<open>A run that ends with an authorised ceremony\<close>

abbreviation rex_create :: "policy_digest \<Rightarrow> rt_op" where
  "rex_create dig \<equiv> PCreatePending 0 0 0 (IntentId ''I'') (ClaimToken [7]) (PendingRequestId ''p'') (rex_params dig)"

abbreviation rex_resolve :: "policy_digest \<Rightarrow> rt_op" where
  "rex_resolve dig \<equiv> PResolve 0 0 0 0 (GrantId ''G'') (tuple_of (rex_params dig))"

abbreviation rex_authorize :: "policy_digest \<Rightarrow> bound_approval \<Rightarrow> rt_op" where
  "rex_authorize dig b \<equiv> PAuthorizeBound 0 0 0 (CeremonyId ''c'') b (request_of (rex_params dig) False)"

lemma rex_run:
  obtains s dig b h info where "rex_new = Ok s"
    and "snd (consume_authorization h (run_state rex_step s [rex_create dig, rex_resolve dig, rex_authorize dig b])) = Ok info"
    and "params_info (rex_params dig) info"
    and "rt_inv (run_state rex_step s [rex_create dig, rex_resolve dig, rex_authorize dig b])"
proof -
  obtain s snap where new: "rex_new = Ok s" and inv: "rt_inv s" and f: "find_snapshot (rt_current s) (ProfileId ''i'') = Some snap"
    "gen_id (rt_current s) = PolicyGenerationId ''g''"
    "compile_snapshot cex_fs (\<lambda>_. []) (\<lambda>_. []) (ProfileId ''i'') (cex_isolated ''i'') = Ok snap"
    and st: "rt_intents s = with_defaults 0" and empty: "rt_pending_requests s = []" by (rule rex_runtime)
  let ?dig = "rex_digest s" and ?pid = "PendingRequestId ''p''"
  have fresh: "hm_get (rt_pending_requests s) (pending_request_id_str ?pid) = None" by (simp add: empty hm_get_def)
  have room: "has_room 0 (rt_intents s)" by (simp add: st rex_times)
  from inv rex_may_run [OF f empty] fresh room rex_times(2) rex_times(3) rex_times(4) rex_times(4)
  obtain s1 b s2 h s3 info where
    "principal_create_pending_intent 0 0 0 (IntentId ''I'') (ClaimToken [7]) ?pid (rex_params ?dig) s = (s1, Ok ?pid)"
    and "ceremony_resolve_pending rex_crates 0 0 0 0 (GrantId ''G'') (tuple_of (rex_params ?dig)) s1 = (s2, Ok b)"
    and "authorize_bound rex_crates 0 0 0 (CeremonyId ''c'') b (request_of (rex_params ?dig) False) s2 =
      (s3, decision_allow RcAllowed, Some h)"
    and "snd (consume_authorization h s3) = Ok info" "params_info (rex_params ?dig) info"
    by (rule completes)
  moreover from this have "run_state rex_step s [rex_create ?dig, rex_resolve ?dig, rex_authorize ?dig b] = s3" by simp
  ultimately show thesis using that [OF new, of h ?dig b info] runtime.inv_run [OF inv] by metis
qed

section \<open>The properties on that run\<close>

theorem runtime_reachable_consistent_witness:
  "\<exists>s. rex_new = Ok s \<and> rt_inv (run_state rex_step s [rex_create (rex_digest s), rex_resolve (rex_digest s)])"
  by (rule rex_runtime) (use runtime_reachable_consistent in blast)

theorem consume_authorization_iff_witness:
  "\<exists>s h iid i. snd (consume_authorization h s) = Ok (consume_info i) \<and> consumable h s iid i"
  by (rule rex_run) (use consume_authorization_iff in blast)

theorem runtime_consumes_once_witness:
  "\<exists>s dig b h. rex_new = Ok s \<and>
     length (filter (\<lambda>(x, y). rt_consumes (IntentId ''I'') x y)
       (run_trace rex_step s [rex_create dig, rex_resolve dig, rex_authorize dig b, PConsume h, PConsume h])) \<le> 1"
proof -
  obtain s where new: "rex_new = Ok s" by (rule rex_runtime)
  show ?thesis
    by (intro exI conjI, rule new, rule order_trans [OF runtime_consumes_once [OF new]]) simp
qed

theorem consumption_requires_approval_witness:
  "\<exists>s dig b h info iid pre x post. rex_new = Ok s \<and>
     snd (consume_authorization h (run_state rex_step s [rex_create dig, rex_resolve dig, rex_authorize dig b])) = Ok info \<and>
     [rex_create dig, rex_resolve dig, rex_authorize dig b] = pre @ x # post \<and>
     approves_intent iid (run_state rex_step s pre) x"
proof -
  obtain s dig b h info where new: "rex_new = Ok s"
    and c: "snd (consume_authorization h (run_state rex_step s [rex_create dig, rex_resolve dig, rex_authorize dig b])) = Ok info"
    by (rule rex_run)
  from consumption_requires_approval [OF new c] new c show ?thesis by blast
qed

theorem runtime_refines_ledger_witness:
  "\<exists>s xs k info. rex_new = Ok s \<and> Used k info \<in> set (map (case_prod rt_label) (run_trace rex_step s xs)) \<and>
     ledger_run Map.empty (map (case_prod rt_label) (run_trace rex_step s xs)) (runtime_ledger (run_state rex_step s xs)) \<and>
     uses_licensed (map (case_prod rt_label) (run_trace rex_step s xs))"
proof -
  obtain s dig b h info where new: "rex_new = Ok s"
    and c: "snd (consume_authorization h (run_state rex_step s [rex_create dig, rex_resolve dig, rex_authorize dig b])) = Ok info"
    and inv: "rt_inv (run_state rex_step s [rex_create dig, rex_resolve dig, rex_authorize dig b])"
    by (rule rex_run)
  let ?s = "run_state rex_step s [rex_create dig, rex_resolve dig, rex_authorize dig b]"
  let ?xs = "[rex_create dig, rex_resolve dig, rex_authorize dig b, PConsume h]"
  have "consume_authorization h ?s = (fst (consume_authorization h ?s), Ok info)" by (simp only: c prod_eq_iff fst_conv snd_conv simp_thms)
  with inv obtain k i where "consumable h ?s k i" by (rule consume_authorization_ok)
  then have "ah_intent_id h = Some k" by (simp add: consumable_def)
  with c have "Used k info \<in> set (map (case_prod rt_label) (run_trace rex_step s ?xs))" by simp
  with new runtime_refines_ledger [OF new, of ?xs] show ?thesis by blast
qed

lemma rex_reload: "\<exists>s' dig. reload rex_crates (PolicyGenerationId ''h'') 0 1 rex_config s = (s', Ok dig)"
  by (rule rex_generation [of "PolicyGenerationId ''h''" 0]) (simp add: reload_def rex_crates_def)

theorem reload_withdraws_authorisations_witness:
  "\<exists>s h info s' dig. snd (consume_authorization h s) = Ok info \<and>
     reload rex_crates (PolicyGenerationId ''h'') 0 1 rex_config s = (s', Ok dig) \<and>
     snd (consume_authorization h s') = Err RcCeremonyInvalidated \<and> rt_registration_grants s' = rt_registration_grants s"
proof -
  obtain s h info where c: "snd (consume_authorization h s) = Ok info" by (rule rex_run)
  obtain s' dig where r: "reload rex_crates (PolicyGenerationId ''h'') 0 1 rex_config s = (s', Ok dig)"
    using rex_reload by blast
  from reload_withdraws_authorisations [OF r, of h "[]"] have "snd (consume_authorization h s') = Err RcCeremonyInvalidated"
    "rt_registration_grants s' = rt_registration_grants s" by (simp_all add: reissued_def)
  with c r show ?thesis by blast
qed

theorem principal_exit_ends_session_witness:
  "\<exists>s h info. snd (consume_authorization h s) = Ok info \<and>
     snd (consume_authorization h (principal_exit (ah_session_id h) s)) = Err RcCeremonyInvalidated"
proof -
  obtain s h info where inv: "rt_inv s" and c: "snd (consume_authorization h s) = Ok info" by (rule rex_run)
  have "consume_authorization h s = (fst (consume_authorization h s), Ok info)" by (simp add: prod_eq_iff c)
  with inv obtain iid i where "consumable h s iid i" by (rule consume_authorization_ok)
  then have "\<exists>pa. hm_get (rt_pending s) (ceremony_id_str (ah_ceremony_id h)) = Some pa \<and> ah_session_id pa = ah_session_id h"
    by (auto simp: consumable_def handle_matches_def)
  with principal_exit_ends_session [OF inv refl, of "ah_session_id h" rex_crates "[]"] c show ?thesis
    by (fastforce simp: reissued_def)
qed

theorem request_decided_once_witness:
  "\<exists>s pq. pq_state pq = PsCancelled \<and> hm_get (rt_pending_requests s) ''p'' = Some pq \<and>
     hm_get (rt_pending_requests (run_state rex_step s [PExit (PrincipalSessionId ''s'')])) ''p'' = Some pq"
proof -
  obtain s0 where inv: "rt_inv s0" and st: "rt_intents s0 = with_defaults 0" by (rule rex_runtime)
  have room: "has_room 0 (rt_intents s0)" by (simp add: st rex_times)
  let ?pq = "mk_pending_request 0 (PendingRequestId ''p'') IsolatedIntent (rex_params (PolicyDigest [])) (IntentId ''I'') None"
  let ?sid = "PrincipalSessionId ''s''"
  from room rex_times(2) obtain st' where
    "principal_create_pending_intent 0 0 0 (IntentId ''I'') (ClaimToken [7]) (PendingRequestId ''p'') (rex_params (PolicyDigest [])) s0 =
      (insert_request ?pq (s0\<lparr>rt_intents := st'\<rparr>), Ok (PendingRequestId ''p''))" by (rule create_pending_room)
  then have run: "run_state rex_step s0 [rex_create (PolicyDigest []), PExit ?sid] = principal_exit ?sid (insert_request ?pq (s0\<lparr>rt_intents := st'\<rparr>))"
    by simp
  let ?s = "run_state rex_step s0 [rex_create (PolicyDigest []), PExit ?sid]" and ?q = "?pq\<lparr>pq_state := PsCancelled\<rparr>"
  have q: "hm_get (rt_pending_requests ?s) (pending_request_id_str (PendingRequestId ''p'')) = Some ?q"
    unfolding run by (simp add: principal_exit_def insert_request_def mk_pending_request_def rex_params_def)
  from request_decided_once [OF runtime.inv_run [OF inv] this, of rex_crates "[PExit ?sid]"] q show ?thesis
    by (intro exI [of _ ?s] exI [of _ ?q]) simp
qed

theorem authorize_iff_witness:
  "\<exists>s dig. is_allowed (fst (snd (authorize rex_crates 0 (CeremonyId ''c'') (request_of (rex_params dig) False) s)))"
proof -
  obtain s snap where inv: "rt_inv s" and f: "find_snapshot (rt_current s) (ProfileId ''i'') = Some snap"
    "gen_id (rt_current s) = PolicyGenerationId ''g''"
    "compile_snapshot cex_fs (\<lambda>_. []) (\<lambda>_. []) (ProfileId ''i'') (cex_isolated ''i'') = Ok snap"
    and st: "rt_intents s = with_defaults 0" and empty: "rt_pending_requests s = []" by (rule rex_runtime)
  let ?p = "rex_params (rex_digest s)"
  have fresh: "hm_get (rt_pending_requests s) (pending_request_id_str (PendingRequestId ''p'')) = None" by (simp add: empty hm_get_def)
  have room: "has_room 0 (rt_intents s)" by (simp add: st rex_times)
  from inv rex_may_run [OF f empty] fresh room rex_times(2) rex_times(3) rex_times(4)
  obtain s2 i where inv2: "rt_inv s2" and cur: "rt_current s2 = rt_current s"
    and i: "intent_get (rt_intents s2) (IntentId ''I'') = Some (i\<lparr>i_state := Approved\<rparr>)"
    and i': "\<exists>nonce. i = new_intent 0 DEFAULT_INTENT_TTL_MS (IntentId ''I'') (ClaimToken [7]) ?p nonce"
    by (rule request_resolves)
  have n: "normalize ''a.b'' = ''a.b''"
    by (simp add: normalize_def cex_trim) (simp add: to_ascii_lowercase_def lower_char_def)
  let ?req = "request_of ?p False"
  have "claimable 0 (request_query ?req (ar_profile_id ?req) (ar_rp_id ?req)) (rt_intents s2)"
    unfolding claimable_def
    by (rule exI [of _ "''I''"], rule exI [of _ "i\<lparr>i_state := Approved\<rparr>"])
      (use i i' n in \<open>auto simp: intent_get_def matches_query_def new_intent_def request_query_def request_of_def rex_params_def
        Let_def DEFAULT_INTENT_TTL_MS_def\<close>)
  moreover have "request_permitted rex_crates ?req (rt_current s2)"
    using f rex_snapshot [OF f(3)] by (simp add: request_permitted_def cur request_of_def rex_params_def rex_crates_def policy_supervised_def)
  ultimately show ?thesis using authorize_iff [OF inv2, of rex_crates 0 "CeremonyId ''c''" ?req] by blast
qed


section \<open>A delegated request whose grant cannot be issued\<close>

definition rex_grant_params :: grant_request_params where
  "rex_grant_params = \<lparr>grp_profile_id = ProfileId ''i'', grp_session_id = PrincipalSessionId ''s'', grp_endpoint_id = EndpointId ''e'',
     grp_principal_digest = [1], grp_rp_ids = [''A.b''], grp_credentials = [CredentialRef [3]], grp_requested_ttl_secs = 10\<rparr>"

text \<open>The grant is requested at time 1 and resolved after the clock went back to 0, which the registry refuses.\<close>

lemma rex_request_grant:
  "\<exists>r'. request_grant 1 (GrantRequestId ''q'') rex_grant_params (grant_registry_new gen dig 300 acts n None) = (r', Ok (GrantRequestId ''q'')) \<and>
     gr_last_seen_mono r' = 1 \<and> resolved_grant_id (GrantRequestId ''q'') r' = None"
  by (simp add: request_grant_def request_grant_inner_def rex_grant_params_def check_clock_def gex_scope gex_credentials
      grant_registry_new_def record_audit_def resolved_grant_id_def)

text \<open>The state after the request: one waiting delegated request, a pending intent, and the registry at time 1.\<close>

lemma rex_delegated:
  assumes "rt_intents s = with_defaults 0" and "rt_grants s = [(''i'', grant_registry_new gen d 300 acts n None)]"
  obtains st r s1 where
    "principal_create_pending_delegated 0 0 0 (IntentId ''I'') (ClaimToken [7]) 1 (GrantRequestId ''q'') (PendingRequestId ''p'')
       (rex_params dig) rex_grant_params s = (s1, Ok (PendingRequestId ''p'', GrantRequestId ''q''))"
    and "s1 = insert_request (mk_pending_request 0 (PendingRequestId ''p'') DelegatedAuth (rex_params dig) (IntentId ''I'') (Some (GrantRequestId ''q'')))
       (s\<lparr>rt_intents := st, rt_grants := [(''i'', r)]\<rparr>)"
    and "intent_get st (IntentId ''I'') = Some (new_intent 0 DEFAULT_INTENT_TTL_MS (IntentId ''I'') (ClaimToken [7]) (rex_params dig)
       (boot_nonce (cleanup_expired 0 (rt_intents s))))"
    and "gr_last_seen_mono r = 1" and "resolved_grant_id (GrantRequestId ''q'') r = None"
proof -
  have room: "has_room 0 (rt_intents s)" by (simp add: assms rex_times)
  obtain st where st: "intent_create 0 0 (IntentId ''I'') (ClaimToken [7]) (rex_params dig) (rt_intents s) = (st, Ok (IntentId ''I'', ClaimToken [7]))"
    and i: "intent_get st (IntentId ''I'') = Some (new_intent 0 DEFAULT_INTENT_TTL_MS (IntentId ''I'') (ClaimToken [7]) (rex_params dig)
       (boot_nonce (cleanup_expired 0 (rt_intents s))))"
    using intent_create_room [OF room rex_times(2)] by blast
  obtain r where r: "request_grant 1 (GrantRequestId ''q'') rex_grant_params (grant_registry_new gen d 300 acts n None) = (r, Ok (GrantRequestId ''q''))"
    "gr_last_seen_mono r = 1" "resolved_grant_id (GrantRequestId ''q'') r = None" using rex_request_grant by blast
  have "cp_profile_id (rex_params dig) = ProfileId ''i''" by (simp add: rex_params_def)
  with st r(1) assms(2) that [OF _ refl i r(2,3)] show thesis
    by (simp add: principal_create_pending_delegated_def on_intents_def on_grants_def hm_get_def hm_insert_def)
qed

lemma rex_resolve_fails:
  assumes "find_waiting t s1 = Ok (key, pq)" and "0 < pq_deadline_mono pq" and "policy_refusal c t s1 = None"
    and "intent_get (rt_intents s1) (pq_intent_id pq) = Some i" and "i_state i = Pending" and "0 < i_deadline i"
    and "pq_kind pq = DelegatedAuth" and "pq_grant_request_id pq = Some rid"
    and "hm_get (rt_grants s1) (profile_id_str (pq_profile_id pq)) = Some r"
    and "gr_last_seen_mono r = 1" and "resolved_grant_id rid r = None"
  obtains s2 where "ceremony_resolve_pending c 0 0 0 0 gid t s1 = (s2, Err (CrGrantFailed (ApprovalFailed ClockAmbiguity)))"
proof -
  have "snd (resolve_grant 0 0 gid rid r) = Err (ApprovalFailed ClockAmbiguity)"
    using assms(10,11) by (simp add: resolve_grant_def approve_grant_def check_clock_def)
  then obtain r' where "resolve_grant 0 0 gid rid r = (r', Err (ApprovalFailed ClockAmbiguity))" by (metis prod.collapse)
  with assms have "\<exists>s2. ceremony_resolve_pending c 0 0 0 0 gid t s1 = (s2, Err (CrGrantFailed (ApprovalFailed ClockAmbiguity)))"
    by (auto simp: ceremony_resolve_pending_def on_intents_def intent_approve_pending [OF assms(4-6)] on_grants_def)
  with that show thesis by blast
qed

theorem failed_grant_leaves_intent_approved_witness:
  "\<exists>s dig s1 s2 key pq i.
     principal_create_pending_delegated 0 0 0 (IntentId ''I'') (ClaimToken [7]) 1 (GrantRequestId ''q'') (PendingRequestId ''p'')
       (rex_params dig) rex_grant_params s = (s1, Ok (PendingRequestId ''p'', GrantRequestId ''q'')) \<and>
     ceremony_resolve_pending rex_crates 0 0 0 0 (GrantId ''G'') (tuple_of (rex_params dig)) s1 =
       (s2, Err (CrGrantFailed (ApprovalFailed ClockAmbiguity))) \<and>
     hm_get (rt_pending_requests s2) key = Some pq \<and> pq_state pq = PsWaiting \<and>
     intent_get (rt_intents s2) (pq_intent_id pq) = Some i \<and> i_state i = Approved"
proof -
  obtain s snap where inv: "rt_inv s" and f: "find_snapshot (rt_current s) (ProfileId ''i'') = Some snap"
    "gen_id (rt_current s) = PolicyGenerationId ''g''"
    "compile_snapshot cex_fs (\<lambda>_. []) (\<lambda>_. []) (ProfileId ''i'') (cex_isolated ''i'') = Ok snap"
    and st: "rt_intents s = with_defaults 0" and empty: "rt_pending_requests s = []"
    and gr: "rt_grants s = [(''i'', grant_registry_new (PolicyGenerationId ''g'') (ps_digest snap) 300 (ps_allowed_actions snap)
      (ps_max_concurrent_grants snap) None)]" by (rule rex_runtime)
  let ?p = "rex_params (rex_digest s)"
  let ?pq = "mk_pending_request 0 (PendingRequestId ''p'') DelegatedAuth ?p (IntentId ''I'') (Some (GrantRequestId ''q''))"
  from st gr obtain st1 r s1 where
    s1: "principal_create_pending_delegated 0 0 0 (IntentId ''I'') (ClaimToken [7]) 1 (GrantRequestId ''q'') (PendingRequestId ''p'')
       ?p rex_grant_params s = (s1, Ok (PendingRequestId ''p'', GrantRequestId ''q''))"
    and s1': "s1 = insert_request ?pq (s\<lparr>rt_intents := st1, rt_grants := [(''i'', r)]\<rparr>)"
    and i: "intent_get st1 (IntentId ''I'') = Some (new_intent 0 DEFAULT_INTENT_TTL_MS (IntentId ''I'') (ClaimToken [7]) ?p
       (boot_nonce (cleanup_expired 0 (rt_intents s))))"
    and r: "gr_last_seen_mono r = 1" "resolved_grant_id (GrantRequestId ''q'') r = None" by (rule rex_delegated)
  have t: "matches_tuple ?pq (tuple_of ?p)"
    by (simp add: mk_pending_request_def Let_def matches_tuple_def tuple_of_def rex_params_def)
  have "find_waiting (tuple_of ?p) s1 = Ok (pending_request_id_str (pq_id ?pq), ?pq)" unfolding s1'
    by (rule find_waiting_new) (use t empty in \<open>simp_all add: hm_get_def hm_wf_def mk_pending_request_def Let_def\<close>)
  then have w: "find_waiting (tuple_of ?p) s1 = Ok (''p'', ?pq)" by (simp add: mk_pending_request_def Let_def)
  have ref: "policy_refusal rex_crates (tuple_of ?p) s1 = None"
    using rex_may_run [OF f empty] unfolding s1' by (auto simp: policy_refusal_def Let_def tuple_of_def may_run_def insert_request_def split: option.split)
  obtain s2 where "ceremony_resolve_pending rex_crates 0 0 0 0 (GrantId ''G'') (tuple_of ?p) s1 =
      (s2, Err (CrGrantFailed (ApprovalFailed ClockAmbiguity)))"
    by (rule rex_resolve_fails [OF w _ ref, where r = r])
      (use i r in \<open>auto simp: s1' insert_request_def mk_pending_request_def Let_def new_intent_def rex_params_def
        DEFAULT_INTENT_TTL_MS_def saturating_add_def div_ceil_def hm_get_def\<close>)
  with failed_grant_leaves_intent_approved [OF this] s1 show ?thesis by blast
qed

end
