(* ===== verification/Interaction.thy ===== *)
theory Interaction
  imports Intents
begin

text \<open>
  The interaction tokens of \<open>cmd/passless/src/agent/interaction.rs\<close>.  After a trusted prompt the
  ceremony mints a token; the authenticator's user-presence and user-verification callbacks take their
  answer from it.  An \<open>Instant\<close> and a \<open>Duration\<close> are numbers of nanoseconds in 64 bits, and
  \<open>Instant + Duration\<close> panics when the sum does not fit.  The readings of the clock are arguments.
  The answers \<open>UpResult\<close> and \<open>UvResult\<close> belong to the authenticator library; only the values used here are named.
\<close>

section \<open>Tokens\<close>

datatype up_result = UpAccepted | UpDenied
datatype uv_result = UvAcceptedWithUp | UvDenied

text \<open>
  \<open>to_lowercase\<close> is Unicode aware.  Only ASCII letters and the Kelvin sign have a lower-case form that
  is an ASCII letter alone, and neither word contains a \<open>k\<close>, so ASCII lower-casing finds the same words.
\<close>

definition derive_action_from_info :: "string \<Rightarrow> intent_action" where
  "derive_action_from_info info =
     (let lower = to_ascii_lowercase info in
      if contains_str lower ''registration'' \<and> \<not> contains_str lower ''credential excluded''
      then Register else Authenticate)"

record interaction_token =
  it_rp_id :: string
  it_action :: intent_action
  it_generation :: u64
  it_up_approved :: bool
  it_uv_approved :: bool
  it_up_consumed :: bool
  it_uv_consumed :: bool
  it_expires_at :: u64

definition token_new ::
    "u64 \<Rightarrow> string \<Rightarrow> intent_action \<Rightarrow> u64 \<Rightarrow> bool \<Rightarrow> bool \<Rightarrow> u64 \<Rightarrow> interaction_token option" where
  "token_new now rp_id action generation up uv ttl =
     map_option (\<lambda>e. \<lparr>it_rp_id = rp_id, it_action = action, it_generation = generation, it_up_approved = up,
        it_uv_approved = uv, it_up_consumed = False, it_uv_consumed = False, it_expires_at = e\<rparr>) (checked_add now ttl)"

definition token_is_expired :: "u64 \<Rightarrow> interaction_token \<Rightarrow> bool" where
  "token_is_expired now t = (it_expires_at t \<le> now)"

definition token_matches :: "interaction_token \<Rightarrow> string \<Rightarrow> intent_action \<Rightarrow> u64 \<Rightarrow> bool" where
  "token_matches t rp_id action generation =
     (it_rp_id t = rp_id \<and> it_action t = action \<and> it_generation t = generation)"

text \<open>The atomic flag makes each consumption a single step: the first caller wins.\<close>

definition token_try_consume_up :: "u64 \<Rightarrow> interaction_token \<Rightarrow> interaction_token \<times> up_result option" where
  "token_try_consume_up now t =
     (if token_is_expired now t then (t, None)
      else if \<not> it_up_consumed t
      then (t\<lparr>it_up_consumed := True\<rparr>, Some (if it_up_approved t then UpAccepted else UpDenied))
      else (t, None))"

definition token_try_consume_uv :: "u64 \<Rightarrow> interaction_token \<Rightarrow> interaction_token \<times> uv_result option" where
  "token_try_consume_uv now t =
     (if token_is_expired now t then (t, None)
      else if \<not> it_uv_consumed t
      then (t\<lparr>it_uv_consumed := True\<rparr>, Some (if it_uv_approved t then UvAcceptedWithUp else UvDenied))
      else (t, None))"

section \<open>The manager\<close>

type_synonym interaction_manager = "interaction_token option"

definition manager_new :: interaction_manager where
  "manager_new = None"

text \<open>\<open>None\<close> is the panic of \<open>Instant + Duration\<close>, which happens before the lock is taken.\<close>

definition mint ::
    "u64 \<Rightarrow> string \<Rightarrow> intent_action \<Rightarrow> u64 \<Rightarrow> bool \<Rightarrow> bool \<Rightarrow> u64 \<Rightarrow> interaction_manager \<Rightarrow> interaction_manager option" where
  "mint now rp_id action generation up uv ttl active =
     (case token_new now rp_id action generation up uv ttl of None \<Rightarrow> None | Some t \<Rightarrow> Some (Some t))"

definition try_consume_up ::
    "u64 \<Rightarrow> string \<Rightarrow> intent_action \<Rightarrow> u64 \<Rightarrow> interaction_manager \<Rightarrow> interaction_manager \<times> up_result option" where
  "try_consume_up now rp_id action generation active =
     (case active of
        None \<Rightarrow> (active, None)
      | Some t \<Rightarrow>
          if token_matches t rp_id action generation then apfst Some (token_try_consume_up now t) else (active, None))"

definition try_consume_uv ::
    "u64 \<Rightarrow> string \<Rightarrow> intent_action \<Rightarrow> u64 \<Rightarrow> interaction_manager \<Rightarrow> interaction_manager \<times> uv_result option" where
  "try_consume_uv now rp_id action generation active =
     (case active of
        None \<Rightarrow> (active, None)
      | Some t \<Rightarrow>
          if token_matches t rp_id action generation then apfst Some (token_try_consume_uv now t) else (active, None))"

text \<open>\<open>clear\<close> is also what dropping an \<open>InteractionTokenGuard\<close> does.\<close>

definition manager_clear :: "interaction_manager \<Rightarrow> interaction_manager" where
  "manager_clear active = None"

definition has_active_token :: "u64 \<Rightarrow> interaction_manager \<Rightarrow> bool" where
  "has_active_token now active = (case active of None \<Rightarrow> False | Some t \<Rightarrow> \<not> token_is_expired now t)"

section \<open>Runs\<close>

datatype interaction_op =
    ItMint u64 string intent_action u64 bool bool u64
  | ItUp u64 string intent_action u64
  | ItUv u64 string intent_action u64
  | ItClear

datatype interaction_out = ItUpAnswer "up_result option" | ItUvAnswer "uv_result option" | ItDone | ItPanic

fun interaction_step :: "interaction_manager \<Rightarrow> interaction_op \<Rightarrow> interaction_manager \<times> interaction_out" where
  "interaction_step m (ItMint now rp a g up uv ttl) =
     (case mint now rp a g up uv ttl m of None \<Rightarrow> (m, ItPanic) | Some m' \<Rightarrow> (m', ItDone))"
| "interaction_step m (ItUp now rp a g) = apsnd ItUpAnswer (try_consume_up now rp a g m)"
| "interaction_step m (ItUv now rp a g) = apsnd ItUvAnswer (try_consume_uv now rp a g m)"
| "interaction_step m ItClear = (manager_clear m, ItDone)"

datatype factor = Presence | Verification

fun answers :: "factor \<Rightarrow> interaction_op \<Rightarrow> interaction_out \<Rightarrow> bool" where
  "answers Presence x (ItUpAnswer (Some r)) = True"
| "answers Verification x (ItUvAnswer (Some r)) = True"
| "answers f x y = False"

fun is_mint :: "interaction_op \<Rightarrow> bool" where
  "is_mint (ItMint now rp a g up uv ttl) = True"
| "is_mint x = False"

definition factor_used :: "factor \<Rightarrow> interaction_manager \<Rightarrow> bool" where
  "factor_used f m \<longleftrightarrow>
     (\<forall>t. m = Some t \<longrightarrow> (case f of Presence \<Rightarrow> it_up_consumed t | Verification \<Rightarrow> it_uv_consumed t))"

lemmas interaction_defs = try_consume_up_def try_consume_uv_def token_try_consume_up_def token_try_consume_uv_def
  mint_def token_new_def manager_clear_def

interpretation token: one_shot interaction_step "\<lambda>_. True" answers factor_used "\<lambda>f x. \<not> is_mint x"
proof unfold_locales
  fix m f x
  assume "answers f x (snd (interaction_step m x))"
  then show "factor_used f (fst (interaction_step m x))"
    by (cases x; cases m; cases f) (auto simp: interaction_defs factor_used_def split: if_splits option.splits)
next
  fix m f x
  assume "factor_used f m"
  then show "\<not> answers f x (snd (interaction_step m x))"
    by (cases x; cases m; cases f) (auto simp: interaction_defs factor_used_def split: option.splits)
next
  fix m f x
  assume "\<not> is_mint x" and "factor_used f m"
  then show "factor_used f (fst (interaction_step m x))"
    by (cases x; cases m; cases f) (auto simp: interaction_defs factor_used_def)
qed simp

lemma no_mint_no_token: "\<not> list_ex is_mint xs \<Longrightarrow> run_state interaction_step None xs = None"
proof (induction xs)
  case (Cons x xs)
  then show ?case by (cases x) (simp_all add: interaction_defs)
qed simp

text \<open>C34. An interaction token is single-use: after any run \<open>pre\<close>, and in whatever follows up to the next minting, each of
  the two factors is answered at most once; and it is not answered at all when \<open>pre\<close> minted no token.\<close>

theorem interaction_token_single_use:
  "length (filter (\<lambda>(x, y). answers f x y)
     (run_trace interaction_step (run_state interaction_step manager_new pre) (takeWhile (\<lambda>x. \<not> is_mint x) post)))
   \<le> (if list_ex is_mint pre then 1 else 0)"
proof -
  have "filter is_mint (takeWhile (\<lambda>x. \<not> is_mint x) post) = []" by (auto simp: filter_empty_conv dest: set_takeWhileD)
  moreover have "factor_used f (run_state interaction_step manager_new pre)" if "\<not> list_ex is_mint pre"
    using no_mint_no_token [OF that] by (simp add: manager_new_def factor_used_def)
  ultimately show ?thesis
    using token.wins_bounded [where s = "run_state interaction_step manager_new pre" and k = f and
      xs = "takeWhile (\<lambda>x. \<not> is_mint x) post"]
    by (auto split: if_splits)
qed

text \<open>The token in force after a run: minted by an operation of the run, and not cleared since.\<close>

definition minted :: "interaction_op list \<Rightarrow> interaction_token \<Rightarrow> bool" where
  "minted xs t \<longleftrightarrow> (\<exists>pre post now ttl.
     xs = pre @ ItMint now (it_rp_id t) (it_action t) (it_generation t) (it_up_approved t) (it_uv_approved t) ttl # post \<and>
     ItClear \<notin> set post \<and> checked_add now ttl = Some (it_expires_at t))"

lemma minted_snoc: "minted xs t \<Longrightarrow> x \<noteq> ItClear \<Longrightarrow> minted (xs @ [x]) t"
  unfolding minted_def by force

lemma minted_frame:
  "minted xs t \<Longrightarrow> minted xs (t\<lparr>it_up_consumed := b\<rparr>)" "minted xs t \<Longrightarrow> minted xs (t\<lparr>it_uv_consumed := b\<rparr>)"
  by (simp_all add: minted_def)

lemma run_minted: "run_state interaction_step manager_new xs = Some t \<Longrightarrow> minted xs t"
proof (induction xs arbitrary: t rule: rev_induct)
  case (snoc x xs)
  let ?m = "run_state interaction_step manager_new xs"
  show ?case
  proof (cases "is_mint x")
    case True
    then obtain now rp a g up uv ttl where x: "x = ItMint now rp a g up uv ttl" by (cases x) auto
    show ?thesis
    proof (cases "checked_add now ttl")
      case None
      with snoc x show ?thesis by (auto simp: mint_def token_new_def intro: minted_snoc)
    next
      case (Some e)
      with snoc.prems x have "t = \<lparr>it_rp_id = rp, it_action = a, it_generation = g, it_up_approved = up,
        it_uv_approved = uv, it_up_consumed = False, it_uv_consumed = False, it_expires_at = e\<rparr>"
        by (simp add: mint_def token_new_def)
      with Some x show ?thesis unfolding minted_def by force
    qed
  next
    case False
    with snoc.prems obtain t' where t': "?m = Some t'" and x: "x \<noteq> ItClear"
      by (cases ?m; cases x) (auto simp: interaction_defs)
    have "t = t' \<or> t = t'\<lparr>it_up_consumed := True\<rparr> \<or> t = t'\<lparr>it_uv_consumed := True\<rparr>"
      using snoc.prems False x by (cases x) (auto simp: interaction_defs t' split: if_splits)
    with minted_snoc [OF snoc.IH [OF t'] x] show ?thesis by (auto intro: minted_frame)
  qed
qed (simp add: manager_new_def)

text \<open>C35. Every answer comes from a prompt: a factor is answered only from a token minted in the run for the same relying party,
  action and generation, not cleared since and not yet expired, and the answer is the decision the
  token was minted with.\<close>

theorem interaction_answer_authentic:
  "(snd (try_consume_up now rp a g (run_state interaction_step manager_new xs)) = Some r \<longrightarrow>
     (\<exists>t. minted xs t \<and> token_matches t rp a g \<and> now < it_expires_at t \<and>
        r = (if it_up_approved t then UpAccepted else UpDenied))) \<and>
   (snd (try_consume_uv now rp a g (run_state interaction_step manager_new xs)) = Some r' \<longrightarrow>
     (\<exists>t. minted xs t \<and> token_matches t rp a g \<and> now < it_expires_at t \<and>
        r' = (if it_uv_approved t then UvAcceptedWithUp else UvDenied)))"
proof (intro conjI impI)
  assume "snd (try_consume_up now rp a g (run_state interaction_step manager_new xs)) = Some r"
  then obtain t where "run_state interaction_step manager_new xs = Some t" and m: "token_matches t rp a g"
    and "snd (token_try_consume_up now t) = Some r" by (auto simp: try_consume_up_def split: option.splits if_splits)
  then show "\<exists>t. minted xs t \<and> token_matches t rp a g \<and> now < it_expires_at t \<and> r = (if it_up_approved t then UpAccepted else UpDenied)"
    by (intro exI [of _ t]) (simp add: run_minted m token_try_consume_up_def token_is_expired_def not_le split: if_splits)
next
  assume "snd (try_consume_uv now rp a g (run_state interaction_step manager_new xs)) = Some r'"
  then obtain t where "run_state interaction_step manager_new xs = Some t" and m: "token_matches t rp a g"
    and "snd (token_try_consume_uv now t) = Some r'" by (auto simp: try_consume_uv_def split: option.splits if_splits)
  then show "\<exists>t. minted xs t \<and> token_matches t rp a g \<and> now < it_expires_at t \<and> r' = (if it_uv_approved t then UvAcceptedWithUp else UvDenied)"
    by (intro exI [of _ t]) (simp add: run_minted m token_try_consume_uv_def token_is_expired_def not_le split: if_splits)
qed

theorem interaction_answer_authentic_witness:
  "\<exists>t. minted [ItMint 5 ''a.b'' Register 1 True False 10] t \<and> token_matches t ''a.b'' Register 1 \<and> 7 < it_expires_at t \<and> it_up_approved t"
proof -
  have "snd (try_consume_up 7 ''a.b'' Register 1 (run_state interaction_step manager_new
      [ItMint 5 ''a.b'' Register 1 True False 10])) = Some UpAccepted"
    by (simp add: interaction_defs checked_add_def token_matches_def token_is_expired_def)
  with interaction_answer_authentic [THEN conjunct1, rule_format, OF this] show ?thesis by (auto split: if_splits)
qed

end
