(* ===== verification/Audit_Frames.thy ===== *)
theory Audit_Frames
  imports Rust_Strings
begin

text \<open>
  The records of the audit log, \<open>cmd/passless/src/agent/audit.rs\<close>: the binary layout of segment headers,
  record frames and the anchor, their hashes, and the loops that read the frames of a segment.  SHA-256
  and the hexadecimal printer are the parameters \<open>sha\<close> and \<open>hex\<close>.  A segment file is the list of its
  bytes; \<open>read_exact\<close> on a file is a prefix of the bytes that are left.  Sequence numbers and offsets are
  64-bit words, whose additions wrap around in the release build.
\<close>

section \<open>Errors and constants\<close>

datatype audit_error =
    AeIo string
  | SymlinkDetected string
  | LockFailed string
  | InvalidFrame string
  | HashMismatch string string
  | SequenceGap u64 u64
  | CircuitBroken string
  | SchemaViolation string
  | RotationFailed string
  | TruncatedRecord
  | Overflow
  | OwnerMismatch string
  | ModeMismatch string
  | AnchorViolation string

definition SEGMENT_MAGIC :: u32 where "SEGMENT_MAGIC = 0x41554453"
definition FRAME_MAGIC :: u32 where "FRAME_MAGIC = 0x41554449"
definition ANCHOR_MAGIC :: u32 where "ANCHOR_MAGIC = 0x41554441"
definition SCHEMA_VERSION :: u32 where "SCHEMA_VERSION = 1"
definition HEADER_SIZE :: nat where "HEADER_SIZE = 4 + 4 + 8 + 8 + 32 + 32"
definition ANCHOR_SIZE :: nat where "ANCHOR_SIZE = 4 + 4 + 8 + 8 + 32 + 32"
definition FRAME_OVERHEAD :: nat where "FRAME_OVERHEAD = 8 + 8 + 8 + 4 + 32 + 32"
definition MAX_PAYLOAD_SIZE :: u32 where "MAX_PAYLOAD_SIZE = 64 * 1024"
definition MAX_FRAME_SIZE :: u64 where "MAX_FRAME_SIZE = of_nat FRAME_OVERHEAD + ucast MAX_PAYLOAD_SIZE"
definition HASH_DOMAIN :: string where "HASH_DOMAIN = ''passless/audit/record/v1''"
definition HEADER_DOMAIN :: string where "HEADER_DOMAIN = ''passless/audit/header/v1''"
definition ANCHOR_DOMAIN :: string where "ANCHOR_DOMAIN = ''passless/audit/anchor/v1''"

lemmas audit_sizes = HEADER_SIZE_def ANCHOR_SIZE_def FRAME_OVERHEAD_def MAX_PAYLOAD_SIZE_def MAX_FRAME_SIZE_def

definition zero_hash :: bytes where "zero_hash = replicate 32 0"

text \<open>The message of \<open>io::ErrorKind::UnexpectedEof\<close> from \<open>read_exact\<close>.\<close>

definition eof_error :: audit_error where
  "eof_error = AeIo ''failed to fill whole buffer''"

section \<open>Segment headers\<close>

record segment_header =
  sh_version :: u32
  sh_segment_index :: u64
  sh_first_sequence :: u64
  sh_previous_final_hash :: bytes

definition compute_header_hash :: "(bytes \<Rightarrow> bytes) \<Rightarrow> bytes \<Rightarrow> bytes" where
  "compute_header_hash sha header_bytes = sha (as_bytes HEADER_DOMAIN @ header_bytes)"

definition header_fields :: "segment_header \<Rightarrow> bytes" where
  "header_fields h = to_le_bytes SEGMENT_MAGIC @ to_le_bytes (sh_version h) @ to_le_bytes (sh_segment_index h) @
     to_le_bytes (sh_first_sequence h) @ sh_previous_final_hash h"

definition header_encode :: "(bytes \<Rightarrow> bytes) \<Rightarrow> segment_header \<Rightarrow> bytes" where
  "header_encode sha h = header_fields h @ compute_header_hash sha (header_fields h)"

definition header_decode :: "(bytes \<Rightarrow> string) \<Rightarrow> (bytes \<Rightarrow> bytes) \<Rightarrow> bytes \<Rightarrow> audit_error + segment_header" where
  "header_decode hex sha data =
     (let magic = from_le_bytes (slice 0 4 data) :: u32; version = from_le_bytes (slice 4 8 data) :: u32 in
      if magic \<noteq> SEGMENT_MAGIC then Err (InvalidFrame ''bad segment magic'')
      else if version \<noteq> SCHEMA_VERSION then Err (SchemaViolation (''unsupported version: '' @ show_nat (unat version)))
      else
        (let expected_hash = compute_header_hash sha (slice 0 56 data); actual_hash = slice 56 88 data in
         if expected_hash \<noteq> actual_hash then Err (HashMismatch (hex expected_hash) (hex actual_hash))
         else Ok \<lparr>sh_version = version, sh_segment_index = from_le_bytes (slice 8 16 data),
                  sh_first_sequence = from_le_bytes (slice 16 24 data), sh_previous_final_hash = slice 24 56 data\<rparr>))"

section \<open>Record frames\<close>

definition record_preimage :: "bytes \<Rightarrow> u64 \<Rightarrow> u64 \<Rightarrow> u64 \<Rightarrow> bytes \<Rightarrow> bytes" where
  "record_preimage previous_hash sequence wall_time_ms monotonic_ms payload =
     as_bytes HASH_DOMAIN @ previous_hash @ to_le_bytes sequence @ to_le_bytes wall_time_ms @ to_le_bytes monotonic_ms @
     to_le_bytes (of_nat (length payload) :: u32) @ payload"

definition compute_record_hash :: "(bytes \<Rightarrow> bytes) \<Rightarrow> bytes \<Rightarrow> u64 \<Rightarrow> u64 \<Rightarrow> u64 \<Rightarrow> bytes \<Rightarrow> bytes" where
  "compute_record_hash sha previous_hash sequence wall_time_ms monotonic_ms payload =
     sha (record_preimage previous_hash sequence wall_time_ms monotonic_ms payload)"

definition encode_frame :: "u64 \<Rightarrow> u64 \<Rightarrow> u64 \<Rightarrow> bytes \<Rightarrow> bytes \<Rightarrow> bytes \<Rightarrow> bytes" where
  "encode_frame sequence wall_time_ms monotonic_ms payload previous_hash current_hash =
     (let frame_len = FRAME_OVERHEAD + length payload in
      to_le_bytes FRAME_MAGIC @ to_le_bytes (of_nat frame_len :: u64) @ to_le_bytes sequence @ to_le_bytes wall_time_ms @
      to_le_bytes monotonic_ms @ to_le_bytes (of_nat (length payload) :: u32) @ payload @ previous_hash @ current_hash)"

record decoded_frame =
  df_sequence :: u64
  df_wall_time_ms :: u64
  df_monotonic_ms :: u64
  df_payload :: bytes
  df_previous_hash :: bytes
  df_current_hash :: bytes

definition decode_frame :: "(bytes \<Rightarrow> string) \<Rightarrow> (bytes \<Rightarrow> bytes) \<Rightarrow> bytes \<Rightarrow> audit_error + decoded_frame" where
  "decode_frame hex sha data =
     (if length data < 4 + 8 then Err TruncatedRecord
      else if (from_le_bytes (slice 0 4 data) :: u32) \<noteq> FRAME_MAGIC then Err (InvalidFrame ''bad frame magic'')
      else
        (let frame_len = unat (from_le_bytes (slice 4 12 data) :: u64) in
         if frame_len < FRAME_OVERHEAD \<or> unat MAX_FRAME_SIZE < frame_len
         then Err (InvalidFrame (''bad frame length: '' @ show_nat frame_len @ '' (min '' @ show_nat FRAME_OVERHEAD @
           '', max '' @ show_nat (unat MAX_FRAME_SIZE) @ '')''))
         else if length data < 12 + frame_len then Err TruncatedRecord
         else
           (let body = slice 12 (12 + frame_len) data;
                sequence = from_le_bytes (slice 0 8 body); wall_time_ms = from_le_bytes (slice 8 16 body);
                monotonic_ms = from_le_bytes (slice 16 24 body);
                payload_len = unat (from_le_bytes (slice 24 28 body) :: u32) in
            if unat MAX_PAYLOAD_SIZE < payload_len then Err (InvalidFrame ''payload too large'')
            else if length body < 28 + payload_len + 64 then Err TruncatedRecord
            else
              (let payload = slice 28 (28 + payload_len) body; hash_offset = 28 + payload_len;
                   previous_hash = slice hash_offset (hash_offset + 32) body;
                   current_hash = slice (hash_offset + 32) (hash_offset + 64) body;
                   expected = compute_record_hash sha previous_hash sequence wall_time_ms monotonic_ms payload in
               if expected \<noteq> current_hash then Err (HashMismatch (hex expected) (hex current_hash))
               else Ok \<lparr>df_sequence = sequence, df_wall_time_ms = wall_time_ms, df_monotonic_ms = monotonic_ms,
                        df_payload = payload, df_previous_hash = previous_hash, df_current_hash = current_hash\<rparr>))))"

section \<open>The anchor\<close>

record anchor_state =
  an_segment_index :: u64
  an_sequence :: u64
  an_hash :: bytes

definition anchor_initial :: anchor_state where
  "anchor_initial = \<lparr>an_segment_index = 0, an_sequence = 0, an_hash = zero_hash\<rparr>"

definition anchor_fields :: "anchor_state \<Rightarrow> bytes" where
  "anchor_fields a = to_le_bytes ANCHOR_MAGIC @ to_le_bytes SCHEMA_VERSION @ to_le_bytes (an_segment_index a) @
     to_le_bytes (an_sequence a) @ an_hash a"

definition encode_anchor :: "(bytes \<Rightarrow> bytes) \<Rightarrow> anchor_state \<Rightarrow> bytes" where
  "encode_anchor sha a = anchor_fields a @ sha (as_bytes ANCHOR_DOMAIN @ anchor_fields a)"

definition decode_anchor :: "(bytes \<Rightarrow> bytes) \<Rightarrow> bytes \<Rightarrow> audit_error + anchor_state" where
  "decode_anchor sha data =
     (let magic = from_le_bytes (slice 0 4 data) :: u32; version = from_le_bytes (slice 4 8 data) :: u32 in
      if magic \<noteq> ANCHOR_MAGIC then Err (AnchorViolation ''bad anchor magic'')
      else if version \<noteq> SCHEMA_VERSION then Err (SchemaViolation (''unsupported anchor version: '' @ show_nat (unat version)))
      else if slice 56 88 data \<noteq> sha (as_bytes ANCHOR_DOMAIN @ slice 0 56 data) then Err (AnchorViolation ''anchor hash mismatch'')
      else Ok \<lparr>an_segment_index = from_le_bytes (slice 8 16 data), an_sequence = from_le_bytes (slice 16 24 data),
               an_hash = slice 24 56 data\<rparr>)"

section \<open>Reading the frames of a segment\<close>

text \<open>One turn of the reading loops: the end of the file, a failure, or the length and bytes of a frame and the rest.\<close>

datatype frame_read = FrEof | FrFail audit_error | FrRead u64 bytes bytes

definition read_frame :: "bytes \<Rightarrow> frame_read" where
  "read_frame rest =
     (if length rest < 4 then FrEof
      else if (from_le_bytes (take 4 rest) :: u32) \<noteq> FRAME_MAGIC then FrFail (InvalidFrame ''bad frame magic'')
      else if length rest < 12 then FrFail eof_error
      else
        (let frame_len = from_le_bytes (slice 4 12 rest) :: u64 in
         if unat frame_len < FRAME_OVERHEAD \<or> MAX_FRAME_SIZE < frame_len
         then FrFail (InvalidFrame (''bad frame length: '' @ show_nat (unat frame_len)))
         else if length rest < 12 + unat frame_len then FrFail eof_error
         else FrRead frame_len (take (12 + unat frame_len) rest) (drop (12 + unat frame_len) rest)))"

lemma read_frame_rest: "read_frame rest = FrRead n frame rest' \<Longrightarrow> length rest' < length rest"
  by (auto simp: read_frame_def Let_def split: if_splits)

text \<open>The loop of \<open>read_last_record_info\<close>: every frame must be intact, chained and in sequence.\<close>

function strict_loop ::
    "(bytes \<Rightarrow> string) \<Rightarrow> (bytes \<Rightarrow> bytes) \<Rightarrow> bytes \<Rightarrow> u64 \<Rightarrow> u64 \<Rightarrow> bytes \<Rightarrow> u64 \<Rightarrow> bytes \<Rightarrow> audit_error + u64 \<times> bytes \<times> u64" where
  "strict_loop hex sha prev eseq seq lhash off rest =
     (case read_frame rest of
        FrEof \<Rightarrow> Ok (seq, lhash, off)
      | FrFail e \<Rightarrow> Err e
      | FrRead n frame rest' \<Rightarrow>
          res_bind (decode_frame hex sha frame) (\<lambda>r.
            if df_previous_hash r \<noteq> prev then Err (HashMismatch (hex prev) (hex (df_previous_hash r)))
            else if df_sequence r \<noteq> eseq then Err (SequenceGap eseq (df_sequence r))
            else strict_loop hex sha (df_current_hash r) (eseq + 1) (df_sequence r) (df_current_hash r) (off + (4 + 8 + n)) rest'))"
  by pat_completeness auto
termination
  by (relation "measure (\<lambda>(hex, sha, prev, eseq, seq, lhash, off, rest). length rest)") (auto dest: read_frame_rest)

text \<open>The loop of \<open>read_last_valid_record_info\<close>: it stops where the strict loop fails.\<close>

function tolerant_loop ::
    "(bytes \<Rightarrow> string) \<Rightarrow> (bytes \<Rightarrow> bytes) \<Rightarrow> bytes \<Rightarrow> u64 \<Rightarrow> u64 \<Rightarrow> bytes \<Rightarrow> u64 \<Rightarrow> bytes \<Rightarrow> u64 \<times> bytes \<times> u64" where
  "tolerant_loop hex sha prev eseq seq lhash off rest =
     (case read_frame rest of
        FrRead n frame rest' \<Rightarrow>
          (case decode_frame hex sha frame of
             Inl e \<Rightarrow> (seq, lhash, off)
           | Inr r \<Rightarrow>
               if df_previous_hash r \<noteq> prev \<or> df_sequence r \<noteq> eseq then (seq, lhash, off)
               else tolerant_loop hex sha (df_current_hash r) (eseq + 1) (df_sequence r) (df_current_hash r) (off + 4 + 8 + n) rest')
      | _ \<Rightarrow> (seq, lhash, off))"
  by pat_completeness auto
termination
  by (relation "measure (\<lambda>(hex, sha, prev, eseq, seq, lhash, off, rest). length rest)") (auto dest: read_frame_rest)

text \<open>The loop of \<open>count_records_in_segment\<close> looks at the lengths only.\<close>

function count_loop :: "u64 \<Rightarrow> bytes \<Rightarrow> audit_error + u64" where
  "count_loop count rest =
     (case read_frame rest of
        FrEof \<Rightarrow> Ok count
      | FrFail e \<Rightarrow> Err e
      | FrRead n frame rest' \<Rightarrow> count_loop (count + 1) rest')"
  by pat_completeness auto
termination
  by (relation "measure (\<lambda>(count, rest). length rest)") (auto dest: read_frame_rest)

declare strict_loop.simps [simp del] tolerant_loop.simps [simp del] count_loop.simps [simp del]

section \<open>What is written is read back\<close>

lemma header_roundtrip:
  assumes "\<And>x. length (sha x) = 32" and "length (sh_previous_final_hash h) = 32" and "sh_version h = SCHEMA_VERSION"
  shows "length (header_encode sha h) = HEADER_SIZE" and "header_decode hex sha (header_encode sha h) = Ok h"
proof -
  have l: "length (header_fields h) = 56" using assms(2) by (simp add: header_fields_def)
  then show "length (header_encode sha h) = HEADER_SIZE" by (simp add: header_encode_def compute_header_hash_def assms(1) audit_sizes)
  have "slice 0 56 (header_encode sha h) = header_fields h" "slice 56 88 (header_encode sha h) = compute_header_hash sha (header_fields h)"
    using l assms(1) by (simp_all add: slice_def header_encode_def compute_header_hash_def)
  moreover have "slice 0 4 (header_encode sha h) = to_le_bytes SEGMENT_MAGIC" "slice 4 8 (header_encode sha h) = to_le_bytes (sh_version h)"
    "slice 8 16 (header_encode sha h) = to_le_bytes (sh_segment_index h)" "slice 16 24 (header_encode sha h) = to_le_bytes (sh_first_sequence h)"
    "slice 24 56 (header_encode sha h) = sh_previous_final_hash h"
    using assms(2) by (simp_all add: slice_def header_encode_def header_fields_def)
  ultimately show "header_decode hex sha (header_encode sha h) = Ok h"
    using assms(3) by (simp add: header_decode_def)
qed

lemma anchor_roundtrip:
  assumes "\<And>x. length (sha x) = 32" and "length (an_hash a) = 32"
  shows "length (encode_anchor sha a) = ANCHOR_SIZE" and "decode_anchor sha (encode_anchor sha a) = Ok a"
proof -
  have l: "length (anchor_fields a) = 56" using assms(2) by (simp add: anchor_fields_def)
  then show "length (encode_anchor sha a) = ANCHOR_SIZE" by (simp add: encode_anchor_def assms(1) audit_sizes)
  have "slice 0 56 (encode_anchor sha a) = anchor_fields a" "slice 56 88 (encode_anchor sha a) = sha (as_bytes ANCHOR_DOMAIN @ anchor_fields a)"
    using l assms(1) by (simp_all add: slice_def encode_anchor_def)
  moreover have "slice 0 4 (encode_anchor sha a) = to_le_bytes ANCHOR_MAGIC" "slice 4 8 (encode_anchor sha a) = to_le_bytes SCHEMA_VERSION"
    "slice 8 16 (encode_anchor sha a) = to_le_bytes (an_segment_index a)" "slice 16 24 (encode_anchor sha a) = to_le_bytes (an_sequence a)"
    "slice 24 56 (encode_anchor sha a) = an_hash a"
    using assms(2) by (simp_all add: slice_def encode_anchor_def anchor_fields_def)
  ultimately show "decode_anchor sha (encode_anchor sha a) = Ok a" by (simp add: decode_anchor_def)
qed

text \<open>Frames whose payload is within the bound; the hash of a well-formed one is the hash of its fields.\<close>

definition frame_of :: "decoded_frame \<Rightarrow> bytes" where
  "frame_of r = encode_frame (df_sequence r) (df_wall_time_ms r) (df_monotonic_ms r) (df_payload r) (df_previous_hash r) (df_current_hash r)"

definition frame_hash :: "(bytes \<Rightarrow> bytes) \<Rightarrow> decoded_frame \<Rightarrow> bytes" where
  "frame_hash sha r =
     compute_record_hash sha (df_previous_hash r) (df_sequence r) (df_wall_time_ms r) (df_monotonic_ms r) (df_payload r)"

definition frame_ok :: "(bytes \<Rightarrow> bytes) \<Rightarrow> decoded_frame \<Rightarrow> bool" where
  "frame_ok sha r \<longleftrightarrow> length (df_payload r) \<le> unat MAX_PAYLOAD_SIZE \<and> length (df_previous_hash r) = 32 \<and>
     length (df_current_hash r) = 32 \<and> df_current_hash r = frame_hash sha r"

lemma unat_of_nat_bounded: "n \<le> 65628 \<Longrightarrow> unat (of_nat n :: u32) = n" "n \<le> 65628 \<Longrightarrow> unat (of_nat n :: u64) = n"
  by (simp_all add: unat_of_nat)

lemma frame_okD:
  assumes "frame_ok sha r"
  shows "length (df_payload r) \<le> unat MAX_PAYLOAD_SIZE" and "length (df_previous_hash r) = 32" and "length (df_current_hash r) = 32"
  using assms unfolding frame_ok_def by blast+

lemma frame_length: "frame_ok sha r \<Longrightarrow> length (frame_of r) = 12 + (FRAME_OVERHEAD + length (df_payload r))"
  by (simp add: frame_of_def encode_frame_def frame_okD audit_sizes)

lemma max_frame: "unat MAX_FRAME_SIZE = 65628" "unat MAX_PAYLOAD_SIZE = 65536"
  by (simp_all add: audit_sizes)

lemma frame_head:
  assumes "frame_ok sha r"
  shows "slice 0 4 (frame_of r @ rest) = to_le_bytes FRAME_MAGIC" and "take 4 (frame_of r @ rest) = to_le_bytes FRAME_MAGIC"
    and "slice 4 12 (frame_of r @ rest) = to_le_bytes (of_nat (FRAME_OVERHEAD + length (df_payload r)) :: u64)"
  using assms by (simp_all add: slice_def frame_of_def encode_frame_def)

lemma frame_roundtrip:
  assumes "frame_ok sha r"
  shows "decode_frame hex sha (frame_of r @ rest) = Ok r"
proof -
  let ?n = "FRAME_OVERHEAD + length (df_payload r)" and ?d = "frame_of r @ rest"
  note len = frame_length [OF assms]
  from assms have p: "length (df_payload r) \<le> 65536" by (simp add: frame_ok_def max_frame)
  then have n: "unat (from_le_bytes (slice 4 12 ?d) :: u64) = ?n"
    by (simp add: frame_head(3) [OF assms] unat_of_nat_bounded FRAME_OVERHEAD_def del: of_nat_add)
  let ?b = "slice 12 (12 + ?n) ?d"
  have b: "?b = to_le_bytes (df_sequence r) @ to_le_bytes (df_wall_time_ms r) @ to_le_bytes (df_monotonic_ms r) @
      to_le_bytes (of_nat (length (df_payload r)) :: u32) @ df_payload r @ df_previous_hash r @ df_current_hash r"
    by (simp add: slice_def frame_of_def encode_frame_def frame_okD [OF assms] FRAME_OVERHEAD_def)
  then have f: "slice 0 8 ?b = to_le_bytes (df_sequence r)" "slice 8 16 ?b = to_le_bytes (df_wall_time_ms r)"
    "slice 16 24 ?b = to_le_bytes (df_monotonic_ms r)" "slice 24 28 ?b = to_le_bytes (of_nat (length (df_payload r)) :: u32)"
    "slice 28 (28 + length (df_payload r)) ?b = df_payload r"
    "slice (28 + length (df_payload r)) (28 + length (df_payload r) + 32) ?b = df_previous_hash r"
    "slice (28 + length (df_payload r) + 32) (28 + length (df_payload r) + 64) ?b = df_current_hash r"
    "length ?b = 92 + length (df_payload r)"
    by (simp_all add: slice_def frame_okD [OF assms])
  have pl: "unat (from_le_bytes (slice 24 28 ?b) :: u32) = length (df_payload r)"
    using p by (simp add: f(4) unat_of_nat_bounded)
  have h: "compute_record_hash sha (df_previous_hash r) (df_sequence r) (df_wall_time_ms r) (df_monotonic_ms r) (df_payload r) = df_current_hash r"
    using assms by (simp add: frame_ok_def frame_hash_def)
  show ?thesis
    unfolding decode_frame_def Let_def n pl f(1-3,5-8) frame_head(1) [OF assms]
    using p len h by (simp add: max_frame FRAME_OVERHEAD_def)
qed

lemma read_frame_of:
  assumes "frame_ok sha r"
  shows "read_frame (frame_of r @ rest) = FrRead (of_nat (FRAME_OVERHEAD + length (df_payload r))) (frame_of r) rest"
proof -
  define n where "n = FRAME_OVERHEAD + length (df_payload r)"
  from frame_okD(1) [OF assms] have "n \<le> 65628" "92 \<le> n" by (simp_all add: n_def max_frame FRAME_OVERHEAD_def)
  moreover from this have "unat (of_nat n :: u64) = n" by (simp add: unat_of_nat_bounded)
  moreover have "length (frame_of r) = 12 + n" using frame_length [OF assms] by (simp add: n_def)
  ultimately show ?thesis
    unfolding read_frame_def Let_def word_less_nat_alt frame_head(2,3) [OF assms] n_def [symmetric]
    by (simp add: max_frame FRAME_OVERHEAD_def)
qed

text \<open>What the audit log writes it reads back: a segment header, an anchor and a record frame are decoded to what was encoded,
  the frame also when more bytes follow it in the file.\<close>

theorem audit_codec_roundtrip:
  assumes "\<And>x. length (sha x) = 32"
  shows "(sh_version h = SCHEMA_VERSION \<and> length (sh_previous_final_hash h) = 32 \<longrightarrow>
      length (header_encode sha h) = HEADER_SIZE \<and> header_decode hex sha (header_encode sha h) = Ok h) \<and>
    (length (an_hash a) = 32 \<longrightarrow>
      length (encode_anchor sha a) = ANCHOR_SIZE \<and> decode_anchor sha (encode_anchor sha a) = Ok a) \<and>
    (length payload \<le> unat MAX_PAYLOAD_SIZE \<and> length prev = 32 \<longrightarrow>
      decode_frame hex sha (encode_frame seq wall ticks payload prev (compute_record_hash sha prev seq wall ticks payload) @ rest) =
        Ok \<lparr>df_sequence = seq, df_wall_time_ms = wall, df_monotonic_ms = ticks, df_payload = payload, df_previous_hash = prev,
            df_current_hash = compute_record_hash sha prev seq wall ticks payload\<rparr>)"
proof (intro conjI impI)
  let ?r = "\<lparr>df_sequence = seq, df_wall_time_ms = wall, df_monotonic_ms = ticks, df_payload = payload, df_previous_hash = prev,
    df_current_hash = compute_record_hash sha prev seq wall ticks payload\<rparr>"
  assume "length payload \<le> unat MAX_PAYLOAD_SIZE \<and> length prev = 32"
  then have "frame_ok sha ?r" by (simp add: frame_ok_def frame_hash_def) (simp add: compute_record_hash_def assms)
  from frame_roundtrip [OF this, of hex rest] show "decode_frame hex sha (encode_frame seq wall ticks payload prev
      (compute_record_hash sha prev seq wall ticks payload) @ rest) = Ok ?r" by (simp add: frame_of_def)
qed (use assms header_roundtrip anchor_roundtrip in blast)+

theorem audit_codec_roundtrip_witness:
  "decode_anchor (\<lambda>_. zero_hash) (encode_anchor (\<lambda>_. zero_hash) \<lparr>an_segment_index = 3, an_sequence = 9, an_hash = zero_hash\<rparr>) =
     Ok \<lparr>an_segment_index = 3, an_sequence = 9, an_hash = zero_hash\<rparr>"
  using audit_codec_roundtrip [of "\<lambda>_. zero_hash", THEN conjunct2, THEN conjunct1] by (simp add: zero_hash_def)

section \<open>Chains\<close>

text \<open>
  A list of frames that continues the hash \<open>prev\<close> and ends with the hash \<open>h\<close>; in a segment the
  sequence numbers also count up from \<open>seq\<close>.
\<close>

fun chained :: "(bytes \<Rightarrow> bytes) \<Rightarrow> bytes \<Rightarrow> decoded_frame list \<Rightarrow> bytes \<Rightarrow> bool" where
  "chained sha prev [] h \<longleftrightarrow> h = prev"
| "chained sha prev (r # rs) h \<longleftrightarrow>
     df_previous_hash r = prev \<and> df_current_hash r = frame_hash sha r \<and> chained sha (df_current_hash r) rs h"

fun numbered :: "u64 \<Rightarrow> decoded_frame list \<Rightarrow> bool" where
  "numbered seq [] \<longleftrightarrow> True"
| "numbered seq (r # rs) \<longleftrightarrow> df_sequence r = seq \<and> numbered (seq + 1) rs"

lemma chained_append: "chained sha prev (rs @ rs') h \<longleftrightarrow> (\<exists>h'. chained sha prev rs h' \<and> chained sha h' rs' h)"
  by (induction rs arbitrary: prev) auto

lemma numbered_append: "numbered seq (rs @ rs') \<longleftrightarrow> numbered seq rs \<and> numbered (seq + of_nat (length rs)) rs'"
  by (induction rs arbitrary: seq) (auto simp: add.assoc)

lemma chained_end: "chained sha prev rs h \<Longrightarrow> h = (if rs = [] then prev else df_current_hash (last rs))"
  by (induction rs arbitrary: prev) (auto split: if_splits)

text \<open>
  The hash at the end of a chain fixes the whole chain.  Otherwise the two chains exhibit two different
  inputs of the hash function with the same value, or an input whose value is the starting hash.
\<close>

definition frame_preimage :: "decoded_frame \<Rightarrow> bytes" where
  "frame_preimage r = record_preimage (df_previous_hash r) (df_sequence r) (df_wall_time_ms r) (df_monotonic_ms r) (df_payload r)"

definition hash_broken :: "(bytes \<Rightarrow> bytes) \<Rightarrow> bytes \<Rightarrow> bytes set \<Rightarrow> bool" where
  "hash_broken sha start X \<longleftrightarrow> (\<exists>x\<in>X. \<exists>y\<in>X. x \<noteq> y \<and> sha x = sha y) \<or> (\<exists>x\<in>X. sha x = start)"

lemma frame_preimage_inj:
  assumes "frame_preimage r = frame_preimage r'" and "length (df_previous_hash r) = 32" and "length (df_previous_hash r') = 32"
  shows "df_previous_hash r = df_previous_hash r' \<and> df_sequence r = df_sequence r' \<and> df_wall_time_ms r = df_wall_time_ms r' \<and>
    df_monotonic_ms r = df_monotonic_ms r' \<and> df_payload r = df_payload r'"
  using assms by (simp add: frame_preimage_def record_preimage_def to_le_bytes_inj)

lemma chained_unique:
  assumes "chained sha start rs h" and "chained sha start rs' h"
    and "\<forall>r \<in> set rs \<union> set rs'. length (df_previous_hash r) = 32"
    and "\<not> hash_broken sha start (frame_preimage ` (set rs \<union> set rs'))"
  shows "rs = rs'"
  using assms
proof (induction rs arbitrary: rs' h rule: rev_induct)
  case Nil
  show ?case
  proof (cases rs' rule: rev_cases)
    case (snoc qs q)
    with Nil have "sha (frame_preimage q) = start"
      by (auto simp: chained_append frame_hash_def compute_record_hash_def frame_preimage_def)
    with Nil(4) snoc show ?thesis by (auto simp: hash_broken_def)
  qed simp
next
  case (snoc r rs)
  from snoc.prems(1) have r: "chained sha start rs (df_previous_hash r)" "sha (frame_preimage r) = h" "h = df_current_hash r"
    by (auto simp: chained_append frame_hash_def compute_record_hash_def frame_preimage_def)
  show ?case
  proof (cases rs' rule: rev_cases)
    case Nil
    with snoc.prems(2) r have "sha (frame_preimage r) = start" by simp
    with snoc.prems(4) show ?thesis by (auto simp: hash_broken_def)
  next
    case s': (snoc qs q)
    with snoc.prems(2) have q: "chained sha start qs (df_previous_hash q)" "sha (frame_preimage q) = h" "h = df_current_hash q"
      by (auto simp: chained_append frame_hash_def compute_record_hash_def frame_preimage_def)
    from r(2) q(2) snoc.prems(4) s' have "frame_preimage r = frame_preimage q" by (auto simp: hash_broken_def)
    with frame_preimage_inj [of r q] snoc.prems(3) s' r(3) q(3) have "r = q" by simp
    moreover have "rs = qs"
      by (rule snoc.IH [OF r(1)]) (use q(1) \<open>r = q\<close> snoc.prems(3,4) s' in \<open>auto simp: hash_broken_def\<close>)
    ultimately show ?thesis using s' by simp
  qed
qed

section \<open>What the loops find\<close>

text \<open>The frames the tolerant loop accepts, and the number of bytes they take.\<close>

function valid_scan :: "(bytes \<Rightarrow> string) \<Rightarrow> (bytes \<Rightarrow> bytes) \<Rightarrow> bytes \<Rightarrow> u64 \<Rightarrow> bytes \<Rightarrow> decoded_frame list \<times> nat" where
  "valid_scan hex sha prev eseq rest =
     (case read_frame rest of
        FrRead n frame rest' \<Rightarrow>
          (case decode_frame hex sha frame of
             Inl e \<Rightarrow> ([], 0)
           | Inr r \<Rightarrow>
               if df_previous_hash r \<noteq> prev \<or> df_sequence r \<noteq> eseq then ([], 0)
               else (case valid_scan hex sha (df_current_hash r) (eseq + 1) rest' of (rs, k) \<Rightarrow> (r # rs, 12 + unat n + k)))
      | _ \<Rightarrow> ([], 0))"
  by pat_completeness auto
termination
  by (relation "measure (\<lambda>(hex, sha, prev, eseq, rest). length rest)") (auto dest: read_frame_rest)

declare valid_scan.simps [simp del]

definition scan_result :: "u64 \<Rightarrow> bytes \<Rightarrow> u64 \<Rightarrow> decoded_frame list \<times> nat \<Rightarrow> u64 \<times> bytes \<times> u64" where
  "scan_result seq lhash off s = (case s of (rs, k) \<Rightarrow>
     (if rs = [] then seq else df_sequence (last rs), if rs = [] then lhash else df_current_hash (last rs), off + of_nat k))"

lemma tolerant_scan:
  "tolerant_loop hex sha prev eseq seq lhash off rest = scan_result seq lhash off (valid_scan hex sha prev eseq rest)"
proof (induction hex sha prev eseq seq lhash off rest rule: tolerant_loop.induct)
  case (1 hex sha prev eseq seq lhash off rest)
  show ?case
  proof (cases "\<exists>n frame rest' r. read_frame rest = FrRead n frame rest' \<and> decode_frame hex sha frame = Ok r \<and>
      df_previous_hash r = prev \<and> df_sequence r = eseq")
    case True
    then obtain n frame rest' r where f: "read_frame rest = FrRead n frame rest'" and r: "decode_frame hex sha frame = Ok r"
      "df_previous_hash r = prev" "df_sequence r = eseq" by blast
    from 1 [OF f r(1)] r(2,3) show ?thesis
      by (subst tolerant_loop.simps, subst valid_scan.simps)
        (simp add: f r scan_result_def add.assoc split: prod.split)
  next
    case False
    then show ?thesis
      by (subst tolerant_loop.simps, subst valid_scan.simps)
        (auto simp: scan_result_def split: frame_read.split sum.split)
  qed
qed

lemma strict_scan:
  "strict_loop hex sha prev eseq seq lhash off rest = Ok t \<Longrightarrow> t = scan_result seq lhash off (valid_scan hex sha prev eseq rest)"
proof (induction hex sha prev eseq seq lhash off rest rule: strict_loop.induct)
  case (1 hex sha prev eseq seq lhash off rest)
  show ?case
  proof (cases "read_frame rest")
    case (FrRead n frame rest')
    with 1(2) obtain r where r: "decode_frame hex sha frame = Ok r" "df_previous_hash r = prev" "df_sequence r = eseq"
      and "strict_loop hex sha (df_current_hash r) (eseq + 1) (df_sequence r) (df_current_hash r) (off + (4 + 8 + n)) rest' = Ok t"
      by (subst (asm) strict_loop.simps) (auto simp: res_bind_ok split: if_splits)
    with 1(1) [OF FrRead, of r] have t: "t = scan_result (df_sequence r) (df_current_hash r) (off + (4 + 8 + n))
        (valid_scan hex sha (df_current_hash r) (eseq + 1) rest')" by simp
    show ?thesis
      by (subst valid_scan.simps) (simp add: FrRead r t scan_result_def algebra_simps split: prod.split)
  qed (use 1(2) in \<open>subst (asm) strict_loop.simps, subst valid_scan.simps, simp add: scan_result_def\<close>)+
qed

text \<open>Every accepted frame is intact; the accepted frames form a chain from \<open>prev\<close> and count up from \<open>eseq\<close>.\<close>

lemma decode_frame_ok:
  assumes "decode_frame hex sha data = Ok r"
  shows "df_current_hash r = frame_hash sha r" and "length (df_previous_hash r) = 32" and "length (df_current_hash r) = 32"
  using assms unfolding decode_frame_def Let_def if_err_ok sum.inject by (auto simp: frame_hash_def length_slice)

definition chain_end :: "bytes \<Rightarrow> decoded_frame list \<Rightarrow> bytes" where
  "chain_end prev rs = (if rs = [] then prev else df_current_hash (last rs))"

lemma valid_scan_chain:
  "valid_scan hex sha prev eseq rest = (rs, k) \<Longrightarrow>
     chained sha prev rs (chain_end prev rs) \<and> numbered eseq rs \<and> (\<forall>r \<in> set rs. length (df_previous_hash r) = 32) \<and> k \<le> length rest"
proof (induction hex sha prev eseq rest arbitrary: rs k rule: valid_scan.induct)
  case (1 hex sha prev eseq rest)
  show ?case
  proof (cases "rs = []")
    case True
    with 1(2) have "k = 0"
      by (subst (asm) valid_scan.simps) (auto split: frame_read.splits sum.splits if_splits prod.splits)
    with True show ?thesis by (simp add: chain_end_def)
  next
    case False
    with 1(2) obtain n frame rest' r rs' k' where f: "read_frame rest = FrRead n frame rest'" and r: "decode_frame hex sha frame = Ok r"
      "df_previous_hash r = prev" "df_sequence r = eseq"
      and s: "valid_scan hex sha (df_current_hash r) (eseq + 1) rest' = (rs', k')" and eq: "rs = r # rs'" "k = 12 + unat n + k'"
      by (subst (asm) valid_scan.simps) (auto split: frame_read.splits sum.splits if_splits prod.splits)
    have "length rest = 12 + unat n + length rest'"
      using f by (auto simp: read_frame_def Let_def split: if_splits)
    with 1(1) [OF f r(1) _ s] r decode_frame_ok [OF r(1)] eq show ?thesis by (auto simp: chain_end_def)
  qed
qed

text \<open>What was written is found: intact chained frames are accepted, and the scan continues behind them.\<close>

lemma frame_ok_unat: "frame_ok sha r \<Longrightarrow> unat (of_nat (FRAME_OVERHEAD + length (df_payload r)) :: u64) = FRAME_OVERHEAD + length (df_payload r)"
  by (rule unat_of_nat_bounded) (use frame_okD(1) [of sha r] in \<open>simp add: max_frame FRAME_OVERHEAD_def\<close>)

lemma valid_scan_frames:
  assumes "\<forall>r \<in> set rs. frame_ok sha r" and "chained sha prev rs h" and "numbered eseq rs"
    and "valid_scan hex sha h (eseq + of_nat (length rs)) tail = (rs', k)"
  shows "valid_scan hex sha prev eseq (concat (map frame_of rs) @ tail) = (rs @ rs', length (concat (map frame_of rs)) + k)"
  using assms
proof (induction rs arbitrary: prev eseq)
  case (Cons r rs)
  from Cons.prems have ok: "frame_ok sha r" by simp
  have IH: "valid_scan hex sha (df_current_hash r) (eseq + 1) (concat (map frame_of rs) @ tail) = (rs @ rs', length (concat (map frame_of rs)) + k)"
    using Cons.prems by (intro Cons.IH) (auto simp: add.assoc)
  have "read_frame (frame_of r @ concat (map frame_of rs) @ tail) =
      FrRead (of_nat (FRAME_OVERHEAD + length (df_payload r))) (frame_of r) (concat (map frame_of rs) @ tail)"
    using ok by (rule read_frame_of)
  moreover have "decode_frame hex sha (frame_of r) = Ok r" using frame_roundtrip [OF ok, of hex "[]"] by simp
  ultimately show ?case
    using Cons.prems(2,3) IH frame_ok_unat [OF ok] frame_length [OF ok]
    by (subst valid_scan.simps) (simp del: of_nat_add)
qed simp

lemma strict_loop_frames:
  assumes "\<forall>r \<in> set rs. frame_ok sha r" and "chained sha prev rs h" and "numbered eseq rs" and "length tail < 4"
  shows "is_ok (strict_loop hex sha prev eseq seq lhash off (concat (map frame_of rs) @ tail))"
  using assms
proof (induction rs arbitrary: prev eseq seq lhash off)
  case Nil
  then show ?case by (subst strict_loop.simps) (simp add: read_frame_def)
next
  case (Cons r rs)
  from Cons.prems have ok: "frame_ok sha r" by simp
  have "read_frame (frame_of r @ concat (map frame_of rs) @ tail) =
      FrRead (of_nat (FRAME_OVERHEAD + length (df_payload r))) (frame_of r) (concat (map frame_of rs) @ tail)"
    using ok by (rule read_frame_of)
  moreover have "decode_frame hex sha (frame_of r) = Ok r" using frame_roundtrip [OF ok, of hex "[]"] by simp
  moreover have "is_ok (strict_loop hex sha (df_current_hash r) (eseq + 1) s l n (concat (map frame_of rs) @ tail))" for s l n
    using Cons.prems by (intro Cons.IH) auto
  ultimately show ?case
    using Cons.prems(2,3) by (subst strict_loop.simps) (simp del: of_nat_add)
qed

lemma count_loop_frames:
  assumes "\<forall>r \<in> set rs. frame_ok sha r" and "length tail < 4"
  shows "count_loop n (concat (map frame_of rs) @ tail) = Ok (n + of_nat (length rs))"
  using assms
proof (induction rs arbitrary: n)
  case Nil
  then show ?case by (subst count_loop.simps) (simp add: read_frame_def)
next
  case (Cons r rs)
  from Cons.prems have ok: "frame_ok sha r" by simp
  with Cons.prems Cons.IH [of "n + 1"] read_frame_of [OF ok, of "concat (map frame_of rs) @ tail"] show ?case
    by (subst count_loop.simps) (simp add: add.assoc del: of_nat_add)
qed

text \<open>A torn frame, a proper prefix of the bytes of a frame, is not accepted.\<close>

lemma torn_frame:
  assumes "frame_ok sha r" and "k < length (frame_of r)"
  shows "valid_scan hex sha prev eseq (take k (frame_of r)) = ([], 0)"
proof -
  define n where "n = FRAME_OVERHEAD + length (df_payload r)"
  have len: "length (frame_of r) = 12 + n" using frame_length [OF assms(1)] by (simp add: n_def)
  have u: "unat (of_nat n :: u64) = n" using frame_ok_unat [OF assms(1)] by (simp add: n_def)
  have "\<nexists>m f rest. read_frame (take k (frame_of r)) = FrRead m f rest"
  proof (cases "k < 12")
    case True
    with len show ?thesis by (auto simp: read_frame_def)
  next
    case False
    then have "slice 4 12 (take k (frame_of r)) = slice 4 12 (frame_of r)" by (simp add: slice_def drop_take min_def)
    also have "\<dots> = to_le_bytes (of_nat n :: u64)" using frame_head(3) [OF assms(1), of "[]"] by (simp add: n_def)
    finally show ?thesis using assms(2) len u by (auto simp: read_frame_def Let_def)
  qed
  then show ?thesis by (subst valid_scan.simps) (auto split: frame_read.split)
qed

end
