(* ===== verification/Audit_Log.thy ===== *)
theory Audit_Log
  imports Audit_Frames Ids
begin

text \<open>
  The audit log on disk, \<open>AuditGate\<close> of \<open>cmd/passless/src/agent/audit.rs\<close>: segments, anchor, appending,
  rotation, verification and the recovery at start-up.  The directory is the map of its file names to
  their contents, and the anchor file.  What the operating system can refuse is explicit: \<open>record_fault\<close>,
  \<open>rotate_fault\<close> and \<open>start_fault\<close> say where an append, a rotation or a start fails and what had reached the disk by
  then; reads return what is on disk.  The
  checks of owner, mode and file type (\<open>check_file_at\<close> and the same checks in \<open>load_anchor\<close>) and the JSON
  serialiser are parameters of the environment; clock readings are arguments.
\<close>

section \<open>The directory\<close>

definition strip_suffix :: "string \<Rightarrow> string \<Rightarrow> string option" where
  "strip_suffix s p = (if ends_with s p then Some (take (length s - length p) s) else None)"

text \<open>\<open>str::parse::<u64>\<close>: an optional plus sign, then decimal digits whose value fits.\<close>

definition decimal_value :: "string \<Rightarrow> nat" where
  "decimal_value ds = foldl (\<lambda>v c. 10 * v + (of_char c - 48)) 0 ds"

definition parse_u64 :: "string \<Rightarrow> u64 option" where
  "parse_u64 s =
     (let ds = (case s of [] \<Rightarrow> [] | c # cs \<Rightarrow> if c = CHR ''+'' then cs else s) in
      if ds = [] \<or> \<not> list_all is_ascii_digit ds then None
      else if decimal_value ds < 2 ^ 64 then Some (of_nat (decimal_value ds)) else None)"

text \<open>The name of a segment; the format \<open>{:06}\<close> pads with zeros on the left.\<close>

definition segment_name :: "u64 \<Rightarrow> string" where
  "segment_name i =
     (let ds = show_nat (unat i) in ''audit-'' @ replicate (6 - length ds) (CHR ''0'') @ ds @ ''.log'')"

record audit_disk =
  dk_files :: "(string, bytes) hashmap"
  dk_anchor :: "bytes option"

datatype recovery_reason = IncompleteTailTruncated | AnchorViolationRecovered | SegmentGapDetected

record daemon_recover =
  dr_reason :: recovery_reason
  dr_truncated_size :: u64
  dr_anchor_segment :: u64
  dr_anchor_sequence :: u64

record audit_env =
  ae_hex :: "bytes \<Rightarrow> string"
  ae_sha :: "bytes \<Rightarrow> bytes"
  ae_check :: "string \<Rightarrow> audit_error + unit"
  ae_recover_json :: "u64 \<Rightarrow> daemon_recover \<Rightarrow> bytes option"

definition list_segments :: "audit_disk \<Rightarrow> string list" where
  "list_segments d = sort (filter (\<lambda>n. starts_with n ''audit-'' \<and> ends_with n ''.log'') (map fst (dk_files d)))"

definition extract_segment_index :: "string \<Rightarrow> audit_error + u64" where
  "extract_segment_index filename =
     (case Option.bind (strip_prefix filename ''audit-'') (\<lambda>s. strip_suffix s ''.log'') of
        None \<Rightarrow> Err (InvalidFrame ''bad segment name'')
      | Some index_str \<Rightarrow>
          (case parse_u64 index_str of None \<Rightarrow> Err (InvalidFrame ''bad segment index'') | Some i \<Rightarrow> Ok i))"

definition open_file_at :: "audit_disk \<Rightarrow> string \<Rightarrow> audit_error + bytes" where
  "open_file_at d name =
     (case hm_get (dk_files d) name of
        None \<Rightarrow> Err (AeIo (''openat '' @ name @ '': ENOENT: No such file or directory''))
      | Some content \<Rightarrow> Ok content)"

definition read_segment_header :: "audit_env \<Rightarrow> bytes \<Rightarrow> audit_error + segment_header" where
  "read_segment_header e content =
     (if length content < HEADER_SIZE then Err eof_error else header_decode (ae_hex e) (ae_sha e) (take HEADER_SIZE content))"

definition read_last_record_info :: "audit_env \<Rightarrow> bytes \<Rightarrow> audit_error + u64 \<times> bytes \<times> u64" where
  "read_last_record_info e content =
     (if length content \<le> HEADER_SIZE then Ok (0, zero_hash, of_nat HEADER_SIZE)
      else res_bind (header_decode (ae_hex e) (ae_sha e) (take HEADER_SIZE content)) (\<lambda>h.
        strict_loop (ae_hex e) (ae_sha e) (sh_previous_final_hash h) (sh_first_sequence h) 0 (sh_previous_final_hash h)
          (of_nat HEADER_SIZE) (drop HEADER_SIZE content)))"

definition read_last_valid_record_info :: "audit_env \<Rightarrow> bytes \<Rightarrow> audit_error + u64 \<times> bytes \<times> u64" where
  "read_last_valid_record_info e content =
     (if length content \<le> HEADER_SIZE then Ok (0, zero_hash, of_nat HEADER_SIZE)
      else res_bind (header_decode (ae_hex e) (ae_sha e) (take HEADER_SIZE content)) (\<lambda>h.
        Ok (tolerant_loop (ae_hex e) (ae_sha e) (sh_previous_final_hash h) (sh_first_sequence h) 0 (sh_previous_final_hash h)
          (of_nat HEADER_SIZE) (drop HEADER_SIZE content))))"

definition count_records_in_segment :: "bytes \<Rightarrow> audit_error + u64" where
  "count_records_in_segment content =
     (if length content \<le> HEADER_SIZE then Ok 0 else count_loop 0 (drop HEADER_SIZE content))"

section \<open>Verification\<close>

text \<open>The checks on the header of the segment at position \<open>i\<close>.\<close>

definition check_header :: "audit_env \<Rightarrow> nat \<Rightarrow> bytes \<Rightarrow> u64 \<Rightarrow> segment_header \<Rightarrow> audit_error + unit" where
  "check_header e i expected_prev_hash idx h =
     (if sh_segment_index h \<noteq> idx
      then Err (InvalidFrame (''header index '' @ show_nat (unat (sh_segment_index h)) @ '' != filename index '' @ show_nat (unat idx)))
      else if i = 0 then
        (if sh_first_sequence h \<noteq> 1 then Err (SequenceGap 1 (sh_first_sequence h))
         else if sh_previous_final_hash h \<noteq> zero_hash
         then Err (HashMismatch (ae_hex e zero_hash) (ae_hex e (sh_previous_final_hash h)))
         else Ok ())
      else if sh_previous_final_hash h \<noteq> expected_prev_hash
      then Err (HashMismatch (ae_hex e expected_prev_hash) (ae_hex e (sh_previous_final_hash h)))
      else Ok ())"

fun verify_segments :: "audit_env \<Rightarrow> audit_disk \<Rightarrow> nat \<Rightarrow> bytes \<Rightarrow> string list \<Rightarrow> audit_error + unit" where
  "verify_segments e d i expected_prev_hash [] = Ok ()"
| "verify_segments e d i expected_prev_hash (name # names) =
     res_bind (extract_segment_index name) (\<lambda>idx.
     if idx \<noteq> of_nat i then Err (SequenceGap (of_nat i) idx)
     else
       res_bind (ae_check e name) (\<lambda>_.
       res_bind (open_file_at d name) (\<lambda>content.
       res_bind (read_segment_header e content) (\<lambda>h.
       res_bind (check_header e i expected_prev_hash idx h) (\<lambda>_.
       res_bind (if names = [] then read_last_valid_record_info e content else read_last_record_info e content)
         (\<lambda>(last_seq, last_hash, _).
           verify_segments e d (i + 1) (if 0 < last_seq then last_hash else sh_previous_final_hash h) names))))))"

definition verify_all_segments :: "audit_env \<Rightarrow> audit_disk \<Rightarrow> string list \<Rightarrow> audit_error + unit" where
  "verify_all_segments e d segments = verify_segments e d 0 zero_hash segments"

fun count_segments :: "audit_disk \<Rightarrow> u64 \<Rightarrow> string list \<Rightarrow> audit_error + u64" where
  "count_segments d acc [] = Ok acc"
| "count_segments d acc (name # names) =
     res_bind (open_file_at d name) (\<lambda>content.
     res_bind (count_records_in_segment content) (\<lambda>n. count_segments d (acc + n) names))"

definition verify_all :: "audit_env \<Rightarrow> audit_disk \<Rightarrow> audit_error + u64" where
  "verify_all e d =
     (let segments = list_segments d in
      res_bind (verify_all_segments e d segments) (\<lambda>_. count_segments d 0 segments))"

definition load_anchor :: "audit_env \<Rightarrow> audit_disk \<Rightarrow> audit_error + anchor_state option" where
  "load_anchor e d =
     (case dk_anchor d of
        None \<Rightarrow> Ok None
      | Some b \<Rightarrow>
          res_bind (ae_check e ''audit.anchor'') (\<lambda>_.
          if length b < ANCHOR_SIZE then Err eof_error
          else res_bind (decode_anchor (ae_sha e) (take ANCHOR_SIZE b)) (\<lambda>a. Ok (Some a))))"

definition write_anchor :: "audit_env \<Rightarrow> anchor_state \<Rightarrow> audit_disk \<Rightarrow> audit_disk" where
  "write_anchor e a d = d\<lparr>dk_anchor := Some (encode_anchor (ae_sha e) a)\<rparr>"

section \<open>The gate\<close>

record audit_gate =
  ga_disk :: audit_disk
  ga_segment_name :: string
  ga_offset :: u64
  ga_sequence :: u64
  ga_last_hash :: bytes
  ga_broken :: bool
  ga_max_segment_size :: u64
  ga_segment_index :: u64
  ga_anchor :: anchor_state

definition set_file :: "string \<Rightarrow> bytes \<Rightarrow> audit_disk \<Rightarrow> audit_disk" where
  "set_file name content d = d\<lparr>dk_files := hm_insert name content (dk_files d)\<rparr>"

text \<open>\<open>write_at\<close> and \<open>truncate_to\<close> on the bytes of a file; a gap is filled with zeros.\<close>

definition write_at :: "nat \<Rightarrow> bytes \<Rightarrow> bytes \<Rightarrow> bytes" where
  "write_at off data content =
     take off content @ replicate (off - length content) 0 @ data @ drop (off + length data) content"

definition truncate_to :: "nat \<Rightarrow> bytes \<Rightarrow> bytes" where
  "truncate_to n content = take n content @ replicate (n - length content) 0"

text \<open>
  Where an append fails: \<open>RfWrite n undone\<close> when only the first \<open>n\<close> bytes of the frame were written,
  \<open>RfSync undone\<close> when syncing the file fails, \<open>RfDirSync\<close> and \<open>RfAnchor renamed\<close> later.  The gate then
  tries to cut the file back, which may itself fail (\<open>undone\<close> is false).
\<close>

datatype record_fault = RfNone | RfWrite nat bool | RfSync bool | RfDirSync | RfAnchor bool

text \<open>Where a rotation fails; \<open>RoHeader n\<close> leaves a new segment file with the first \<open>n\<close> bytes of its header, all of them when
  syncing the file or the directory or opening the file again fails.\<close>

datatype rotate_fault = RoNone | RoSync | RoCreate | RoHeader nat

definition new_header :: "u64 \<Rightarrow> u64 \<Rightarrow> bytes \<Rightarrow> segment_header" where
  "new_header idx first prev =
     \<lparr>sh_version = SCHEMA_VERSION, sh_segment_index = idx, sh_first_sequence = first, sh_previous_final_hash = prev\<rparr>"

definition rotate_segment :: "audit_env \<Rightarrow> rotate_fault \<Rightarrow> audit_gate \<Rightarrow> audit_gate \<times> (audit_error + unit)" where
  "rotate_segment e fault g =
     (if fault = RoSync then (g\<lparr>ga_broken := True\<rparr>, Err (RotationFailed ''sync current''))
      else
        (let next_idx = ga_segment_index g + 1; next_seq = ga_sequence g + 1; name = segment_name next_idx;
             encoded = header_encode (ae_sha e) (new_header next_idx next_seq (ga_last_hash g)) in
         if fault = RoCreate \<or> hm_get (dk_files (ga_disk g)) name \<noteq> None
         then (g, Err (RotationFailed ''create segment''))
         else
           (case fault of
              RoHeader n \<Rightarrow> (g\<lparr>ga_disk := set_file name (take n encoded) (ga_disk g)\<rparr>, Err (AeIo ''header''))
            | _ \<Rightarrow>
                (let g1 = g\<lparr>ga_disk := set_file name encoded (ga_disk g)\<rparr> in
                 case ae_check e name of
                   Inl err \<Rightarrow> (g1, Err err)
                 | Inr _ \<Rightarrow> (g1\<lparr>ga_segment_name := name, ga_offset := of_nat (length encoded), ga_segment_index := next_idx\<rparr>, Ok ())))))"

definition file_content :: "audit_gate \<Rightarrow> bytes" where
  "file_content g = (case hm_get (dk_files (ga_disk g)) (ga_segment_name g) of None \<Rightarrow> [] | Some c \<Rightarrow> c)"

definition set_content :: "bytes \<Rightarrow> audit_gate \<Rightarrow> audit_gate" where
  "set_content c g = g\<lparr>ga_disk := set_file (ga_segment_name g) c (ga_disk g)\<rparr>"

text \<open>The second half of \<open>record\<close>: write the frame, sync, write the anchor.\<close>

definition append_frame ::
    "audit_env \<Rightarrow> record_fault \<Rightarrow> u64 \<Rightarrow> bytes \<Rightarrow> bytes \<Rightarrow> audit_gate \<Rightarrow> audit_gate \<times> (audit_error + unit)" where
  "append_frame e fault next_seq current_hash frame g =
     (let save_offset = unat (ga_offset g); old = file_content g;
          fail = (\<lambda>g' msg. (g'\<lparr>ga_broken := True\<rparr>, Err (AeIo msg)));
          undo = (\<lambda>undone written. set_content (if undone then truncate_to save_offset (write_at save_offset written old)
                    else write_at save_offset written old) g) in
      case fault of
        RfWrite n undone \<Rightarrow> fail (undo undone (take (min n (length frame - 1)) frame)) ''write record''
      | RfSync undone \<Rightarrow> fail (undo undone frame) ''fsync record''
      | _ \<Rightarrow>
          (let g1 = (set_content (write_at save_offset frame old) g)\<lparr>ga_offset := of_nat save_offset + of_nat (length frame)\<rparr>;
               a = \<lparr>an_segment_index = ga_segment_index g, an_sequence = next_seq, an_hash = current_hash\<rparr>;
               g2 = g1\<lparr>ga_disk := write_anchor e a (ga_disk g1)\<rparr> in
           case fault of
             RfDirSync \<Rightarrow> fail g1 ''fsync dir''
           | RfAnchor renamed \<Rightarrow> fail (if renamed then g2 else g1) ''write anchor''
           | _ \<Rightarrow> (g2\<lparr>ga_sequence := next_seq, ga_last_hash := current_hash, ga_anchor := a\<rparr>, Ok ())))"

definition record_event ::
    "audit_env \<Rightarrow> record_fault \<Rightarrow> rotate_fault \<Rightarrow> bytes option \<Rightarrow> u64 \<Rightarrow> u64 \<Rightarrow> audit_gate \<Rightarrow> audit_gate \<times> (audit_error + unit)" where
  "record_event e fault rfault json wall_time_ms monotonic_ms g =
     (if ga_broken g then (g, Err (CircuitBroken ''audit subsystem is in failed state''))
      else case json of
        None \<Rightarrow> (g\<lparr>ga_broken := True\<rparr>, Err (SchemaViolation ''serialize event''))
      | Some payload \<Rightarrow>
          if MAX_PAYLOAD_SIZE < of_nat (length payload) then (g, Err (SchemaViolation ''payload too large''))
          else
            (case checked_add (ga_sequence g) 1 of
               None \<Rightarrow> (g, Err Overflow)
             | Some next_seq \<Rightarrow>
                 (let prev_hash = ga_last_hash g;
                      current_hash = compute_record_hash (ae_sha e) prev_hash next_seq wall_time_ms monotonic_ms payload;
                      frame = encode_frame next_seq wall_time_ms monotonic_ms payload prev_hash current_hash;
                      should_rotate = (case hm_get (dk_files (ga_disk g)) (ga_segment_name g) of
                         None \<Rightarrow> False
                       | Some c \<Rightarrow> ga_max_segment_size g < of_nat (length c) + of_nat (length frame)) in
                  if should_rotate then
                    and_then (rotate_segment e rfault g) (\<lambda>g _. append_frame e fault next_seq current_hash frame g)
                  else append_frame e fault next_seq current_hash frame g)))"

section \<open>Start-up\<close>

text \<open>
  Where a start fails before it records anything: the first segment is not created, or is left with the first \<open>n\<close> bytes
  of its header (all of them when syncing fails); the bytes behind the last frame cannot be cut off, or are cut off and syncing fails;
  the segment cannot be opened for writing; the anchor cannot be written, or is renamed and syncing fails.
\<close>

datatype start_fault = SfNone | SfCreate | SfHeader nat | SfTruncate bool | SfOpen | SfAnchor bool

definition create_initial_segment :: "audit_env \<Rightarrow> start_fault \<Rightarrow> u64 \<Rightarrow> audit_disk \<Rightarrow> audit_disk \<times> (audit_error + audit_gate)" where
  "create_initial_segment e sfault max_size d =
     (let name = ''audit-000000.log''; encoded = header_encode (ae_sha e) (new_header 0 1 zero_hash) in
      if sfault = SfCreate \<or> hm_get (dk_files d) name \<noteq> None then (d, Err (RotationFailed ''create initial segment''))
      else
        (case sfault of
           SfHeader n \<Rightarrow> (set_file name (take n encoded) d, Err (AeIo ''header''))
         | _ \<Rightarrow>
             (let d1 = set_file name encoded d in
              case ae_check e name of
                Inl err \<Rightarrow> (d1, Err err)
              | Inr _ \<Rightarrow>
                  if sfault = SfOpen then (d1, Err (AeIo ''openat''))
                  else
                    (let d2 = write_anchor e anchor_initial d1 in
                     case sfault of
                       SfAnchor renamed \<Rightarrow> (if renamed then d2 else d1, Err (AeIo ''write anchor''))
                     | _ \<Rightarrow>
                         (d2, Ok \<lparr>ga_disk = d2, ga_segment_name = name, ga_offset = of_nat (length encoded), ga_sequence = 0,
                            ga_last_hash = zero_hash, ga_broken = False, ga_max_segment_size = max_size, ga_segment_index = 0,
                            ga_anchor = anchor_initial\<rparr>)))))"

text \<open>The checks of the anchor against the last segment.\<close>

definition check_anchor :: "anchor_state option \<Rightarrow> u64 \<Rightarrow> bool \<Rightarrow> u64 \<Rightarrow> audit_error + unit" where
  "check_anchor anchor idx has_tail_garbage last_seq =
     (case anchor of
        None \<Rightarrow> Ok ()
      | Some a \<Rightarrow>
          if idx < an_segment_index a then Err (AnchorViolation ''anchor points to deleted segment'')
          else if has_tail_garbage \<and> an_segment_index a = idx \<and> last_seq < an_sequence a
          then Err (AnchorViolation (''anchor attests into truncated region: anchor seq '' @ show_nat (unat (an_sequence a)) @
            '' > last valid seq '' @ show_nat (unat last_seq)))
          else Ok ())"

text \<open>What start-up learns from the last segment before it changes anything.\<close>

record segment_tip =
  st_name :: string
  st_index :: u64
  st_last_seq :: u64
  st_valid_offset :: u64
  st_file_size :: u64
  st_next_seq :: u64
  st_next_hash :: bytes
  st_content :: bytes

definition read_tip :: "audit_env \<Rightarrow> audit_disk \<Rightarrow> string \<Rightarrow> audit_error + segment_tip" where
  "read_tip e d name =
     res_bind (extract_segment_index name) (\<lambda>idx.
     res_bind (open_file_at d name) (\<lambda>content.
     res_bind (read_last_valid_record_info e content) (\<lambda>(last_seq, last_hash, valid_offset).
     res_bind (read_segment_header e content) (\<lambda>h.
       let empty = (valid_offset \<le> of_nat HEADER_SIZE) in
       Ok \<lparr>st_name = name, st_index = idx, st_last_seq = last_seq, st_valid_offset = valid_offset,
           st_file_size = of_nat (length content),
           st_next_seq = (if empty then sh_first_sequence h else last_seq + 1),
           st_next_hash = (if empty then sh_previous_final_hash h else last_hash), st_content = content\<rparr>))))"

definition resume ::
    "audit_env \<Rightarrow> start_fault \<Rightarrow> record_fault \<Rightarrow> rotate_fault \<Rightarrow> u64 \<Rightarrow> u64 \<Rightarrow> u64 \<Rightarrow> anchor_state option \<Rightarrow> segment_tip \<Rightarrow>
     audit_disk \<Rightarrow> audit_disk \<times> (audit_error + audit_gate)" where
  "resume e sfault fault rfault wall_time_ms monotonic_ms max_size anchor t d =
     (let has_tail_garbage = st_valid_offset t < st_file_size t;
          content = (if has_tail_garbage then truncate_to (unat (st_valid_offset t)) (st_content t) else st_content t);
          d1 = (if has_tail_garbage then set_file (st_name t) content d else d) in
      if has_tail_garbage \<and> sfault = SfTruncate False then (d, Err (AeIo ''set_len''))
      else if has_tail_garbage \<and> sfault = SfTruncate True then (d1, Err (AeIo ''fsync''))
      else case ae_check e (st_name t) of
        Inl err \<Rightarrow> (d1, Err err)
      | Inr _ \<Rightarrow>
          if sfault = SfOpen then (d1, Err (AeIo ''openat''))
          else
          (let a = (case anchor of Some a \<Rightarrow> a
                    | None \<Rightarrow> \<lparr>an_segment_index = st_index t, an_sequence = st_next_seq t - 1, an_hash = st_next_hash t\<rparr>);
               d2 = (if anchor = None then write_anchor e a d1 else d1);
               needs_recovery = (has_tail_garbage \<or>
                 (case anchor of None \<Rightarrow> False | Some a \<Rightarrow> an_sequence a < st_last_seq t \<or> an_segment_index a < st_index t));
               g = \<lparr>ga_disk = d2, ga_segment_name = st_name t, ga_offset = of_nat (length content), ga_sequence = st_next_seq t - 1,
                    ga_last_hash = st_next_hash t, ga_broken = False, ga_max_segment_size = max_size,
                    ga_segment_index = st_index t, ga_anchor = a\<rparr> in
           if anchor = None \<and> sfault = SfAnchor False then (d1, Err (AeIo ''write anchor''))
           else if anchor = None \<and> sfault = SfAnchor True then (d2, Err (AeIo ''write anchor''))
           else if needs_recovery then
             (case record_event e fault rfault
                (ae_recover_json e wall_time_ms \<lparr>dr_reason = (if has_tail_garbage then IncompleteTailTruncated else AnchorViolationRecovered),
                   dr_truncated_size = (if has_tail_garbage then st_file_size t - st_valid_offset t else 0),
                   dr_anchor_segment = an_segment_index a, dr_anchor_sequence = an_sequence a\<rparr>) wall_time_ms monotonic_ms g of
                (g', Inl err) \<Rightarrow> (ga_disk g', Err err)
              | (g', Inr _) \<Rightarrow> (ga_disk g', Ok g'))
           else (d2, Ok g)))"

definition initialize_or_verify ::
    "audit_env \<Rightarrow> start_fault \<Rightarrow> record_fault \<Rightarrow> rotate_fault \<Rightarrow> u64 \<Rightarrow> u64 \<Rightarrow> u64 \<Rightarrow> audit_disk \<Rightarrow>
     audit_disk \<times> (audit_error + audit_gate)" where
  "initialize_or_verify e sfault fault rfault wall_time_ms monotonic_ms max_size d =
     (let segments = list_segments d in
      case load_anchor e d of
        Inl err \<Rightarrow> (d, Err err)
      | Inr anchor \<Rightarrow>
          if segments = [] then
            (if (case anchor of Some a \<Rightarrow> 0 < an_sequence a | None \<Rightarrow> False)
             then (d, Err (AnchorViolation ''anchor references deleted segments''))
             else create_initial_segment e sfault max_size d)
          else
            (case res_bind (verify_all_segments e d segments) (\<lambda>_. read_tip e d (last segments)) of
               Inl err \<Rightarrow> (d, Err err)
             | Inr t \<Rightarrow>
                 (case check_anchor anchor (st_index t) (st_valid_offset t < st_file_size t) (st_last_seq t) of
                    Inl err \<Rightarrow> (d, Err err)
                  | Inr _ \<Rightarrow> resume e sfault fault rfault wall_time_ms monotonic_ms max_size anchor t d)))"

end
