(* ===== verification/Audit_Names.thy ===== *)
theory Audit_Names
  imports Audit_Log
begin

text \<open>
  Segment names of the audit log: the index is read back from the name, and the names of the first
  1,000,000 segments sort like their indexes, so that listing the directory gives the segments in order.
\<close>

section \<open>Segment names\<close>

lemma foldl_decimal:
  "foldl (\<lambda>v c. 10 * v + g c) a ys = a * 10 ^ length ys + foldl (\<lambda>v c. 10 * v + g c) (0::nat) ys"
proof (induction ys arbitrary: a)
  case (Cons c ys)
  have "foldl (\<lambda>v c. 10 * v + g c) a (c # ys) = (10 * a + g c) * 10 ^ length ys + foldl (\<lambda>v c. 10 * v + g c) 0 ys"
    by (simp add: Cons [of "10 * a + g c"])
  also have "\<dots> = a * 10 ^ length (c # ys) + (g c * 10 ^ length ys + foldl (\<lambda>v c. 10 * v + g c) 0 ys)"
    by (simp add: algebra_simps)
  also have "g c * 10 ^ length ys + foldl (\<lambda>v c. 10 * v + g c) 0 ys = foldl (\<lambda>v c. 10 * v + g c) 0 (c # ys)"
    by (simp add: Cons [of "g c"])
  finally show ?case .
qed simp

lemma decimal_value_append: "decimal_value (xs @ ys) = decimal_value xs * 10 ^ length ys + decimal_value ys"
  unfolding decimal_value_def foldl_append by (rule foldl_decimal)

lemma digit_char:
  assumes "d < (10::nat)"
  shows "of_char (char_of (48 + d) :: char) = 48 + d" and "is_ascii_digit (char_of (48 + d))"
proof -
  show c: "of_char (char_of (48 + d) :: char) = 48 + d" using assms by simp
  show "is_ascii_digit (char_of (48 + d))" using assms c by (simp add: is_ascii_digit_def less_eq_char_def)
qed

lemma decimal_value_single: "d < 10 \<Longrightarrow> decimal_value [char_of (48 + d)] = d"
  by (simp add: decimal_value_def digit_char)

lemma show_nat_digits: "list_all is_ascii_digit (show_nat n) \<and> decimal_value (show_nat n) = n \<and> show_nat n \<noteq> []"
proof (induction n rule: show_nat.induct)
  case (1 n)
  show ?case
  proof (cases "n < 10")
    case True
    then show ?thesis by (subst (1 2 3) show_nat.simps) (simp add: digit_char decimal_value_single)
  next
    case False
    with 1 show ?thesis
      by (subst (1 2 3) show_nat.simps) (simp add: digit_char decimal_value_append decimal_value_single)
  qed
qed

lemma show_nat_length: "n < 10 ^ k \<Longrightarrow> 0 < k \<Longrightarrow> length (show_nat n) \<le> k"
proof (induction n arbitrary: k rule: show_nat.induct)
  case (1 n)
  show ?case
  proof (cases "n < 10")
    case True
    with 1(3) show ?thesis by (subst show_nat.simps) simp
  next
    case False
    with 1(2) obtain k' where k: "k = Suc k'" "0 < k'" by (cases k; cases "k - 1") auto
    with 1(2) have "n div 10 < 10 ^ k'" by auto
    with 1(1) [OF False this k(2)] False k(1) show ?thesis by (subst show_nat.simps) simp
  qed
qed

lemma decimal_value_Cons: "decimal_value (c # cs) = (of_char c - 48) * 10 ^ length cs + decimal_value cs"
  using decimal_value_append [of "[c]" cs] by (simp add: decimal_value_def)

lemma decimal_value_zeros: "decimal_value (replicate n (CHR ''0'')) = 0"
  by (induction n) (simp_all add: decimal_value_Cons decimal_value_def [of "[]"])

definition index_digits :: "u64 \<Rightarrow> string" where
  "index_digits i = replicate (6 - length (show_nat (unat i))) (CHR ''0'') @ show_nat (unat i)"

lemma index_digits: "list_all is_ascii_digit (index_digits i)" "decimal_value (index_digits i) = unat i" "index_digits i \<noteq> []"
  using show_nat_digits [of "unat i"]
  by (auto simp: index_digits_def decimal_value_append decimal_value_zeros list_all_iff is_ascii_digit_def)

lemma segment_name_eq: "segment_name i = ''audit-'' @ index_digits i @ ''.log''"
  by (simp add: segment_name_def index_digits_def Let_def)

lemma extract_segment_name [simp]: "extract_segment_index (segment_name i) = Ok i"
proof -
  have "strip_prefix (segment_name i) ''audit-'' = Some (index_digits i @ ''.log'')"
    unfolding segment_name_eq by (rule strip_prefix_append)
  moreover have "strip_suffix (index_digits i @ ''.log'') ''.log'' = Some (index_digits i)"
    by (simp add: strip_suffix_def ends_with_suffix suffix_def)
  moreover have "parse_u64 (index_digits i) = Some i"
  proof -
    obtain c cs where c: "index_digits i = c # cs" using index_digits(3) [of i] by (cases "index_digits i") simp_all
    with index_digits(1) [of i] have "is_ascii_digit c" by simp
    then have "c \<noteq> CHR ''+''" by (auto simp: is_ascii_digit_def less_eq_char_def)
    with c index_digits(1,2) [of i] show ?thesis using unsigned_less [of i] by (simp add: parse_u64_def)
  qed
  ultimately show ?thesis by (simp add: extract_segment_index_def)
qed

lemma segment_name_inj: "segment_name i = segment_name j \<longleftrightarrow> i = j"
  by (metis extract_segment_name sum.inject(2))

lemma segment_name_listed: "starts_with (segment_name i) ''audit-''" "ends_with (segment_name i) ''.log''"
  by (simp_all add: segment_name_eq starts_with_prefix ends_with_suffix) (metis append.assoc append_Cons append_Nil suffixI)

text \<open>Names with six digits sort like their numbers.\<close>

lemma decimal_value_less: "list_all is_ascii_digit xs \<Longrightarrow> decimal_value xs < 10 ^ length xs"
proof (induction xs)
  case (Cons c xs)
  then have "of_char c - 48 \<le> (9::nat)" by (auto simp: is_ascii_digit_def less_eq_char_def)
  then have "(of_char c - 48) * 10 ^ length xs \<le> 9 * (10::nat) ^ length xs" by (rule mult_le_mono1)
  moreover have "decimal_value xs < 10 ^ length xs" using Cons by simp
  ultimately have "(of_char c - 48) * 10 ^ length xs + decimal_value xs < 9 * 10 ^ length xs + 10 ^ length xs" by (rule add_le_less_mono)
  then show ?case by (simp add: decimal_value_Cons)
qed (simp add: decimal_value_def)

lemma digits_order:
  assumes "length xs = length ys" and "list_all is_ascii_digit xs" and "list_all is_ascii_digit ys" and "decimal_value xs < decimal_value ys"
  shows "xs @ s < ys @ t"
  using assms
proof (induction xs ys rule: list_induct2)
  case (Cons c xs d ys)
  note v = decimal_value_Cons
  from Cons.prems have b: "decimal_value xs < 10 ^ length ys" "decimal_value ys < 10 ^ length ys"
    using decimal_value_less [of xs] decimal_value_less [of ys] Cons.hyps by simp_all
  from Cons.prems have c: "48 \<le> (of_char c :: nat)" "48 \<le> (of_char d :: nat)"
    by (simp_all add: is_ascii_digit_def less_eq_char_def)
  consider "(of_char c :: nat) < of_char d" | "(of_char d :: nat) < of_char c" | "c = d" by (metis linorder_neqE_nat of_char_eq_iff)
  then show ?case
  proof cases
    case 1
    then show ?thesis by (simp add: less_char_def)
  next
    case 2
    with c have "of_char d - 48 + 1 \<le> of_char c - (48::nat)" by linarith
    then have "(of_char d - 48 + 1) * 10 ^ length ys \<le> (of_char c - 48) * (10::nat) ^ length ys" by (rule mult_le_mono1)
    with Cons.prems(3) b Cons.hyps v show ?thesis by (simp add: algebra_simps)
  next
    case 3
    with Cons v show ?thesis by simp
  qed
qed simp

lemma segment_name_less:
  assumes "i < j" and "j < 1000000"
  shows "segment_name (of_nat i) < segment_name (of_nat j)"
proof -
  have u: "unat (of_nat k :: u64) = k" "length (index_digits (of_nat k)) = 6" if "k < 1000000" for k
  proof -
    show "unat (of_nat k :: u64) = k" using that by (simp add: unat_of_nat)
    with show_nat_length [of k 6] that show "length (index_digits (of_nat k)) = 6" by (simp add: index_digits_def)
  qed
  have "index_digits (of_nat i) @ ''.log'' < index_digits (of_nat j) @ ''.log''"
    by (rule digits_order) (use assms u index_digits in simp_all)
  then show ?thesis by (simp add: segment_name_eq)
qed

lemma list_segments_named:
  assumes "map fst (dk_files d) = map (\<lambda>i. segment_name (of_nat i)) [0..<n]" and "n \<le> 1000000"
  shows "list_segments d = map (\<lambda>i. segment_name (of_nat i)) [0..<n]"
proof -
  have "sorted_wrt (<) (map (\<lambda>i. segment_name (of_nat i)) [0..<n])"
    unfolding sorted_wrt_map
    by (rule sorted_wrt_mono_rel [OF _ sorted_wrt_upt]) (use assms(2) segment_name_less in auto)
  then have "sorted (map (\<lambda>i. segment_name (of_nat i)) [0..<n])" by (rule strict_sorted_imp_sorted)
  moreover have "filter (\<lambda>n. starts_with n ''audit-'' \<and> ends_with n ''.log'') (map fst (dk_files d)) = map fst (dk_files d)"
    unfolding assms(1) by (rule filter_True) (auto simp: segment_name_listed)
  ultimately show ?thesis unfolding list_segments_def by (simp only: assms(1) sorted_sort_id)
qed

end
