(* ===== verification/Audit_Chain.thy ===== *)
theory Audit_Chain
  imports Audit_Names
begin

text \<open>
  What verification guarantees: the records of a verified log form one hash chain over all segments, so the
  final hash fixes every record.
\<close>

section \<open>A verified log is one chain\<close>

text \<open>The records that reading accepts: those of a segment, and those of the whole log in the order of the segments.\<close>

definition segment_records :: "audit_env \<Rightarrow> bytes \<Rightarrow> decoded_frame list" where
  "segment_records e content =
     (case header_decode (ae_hex e) (ae_sha e) (take HEADER_SIZE content) of
        Inl _ \<Rightarrow> []
      | Inr h \<Rightarrow> fst (valid_scan (ae_hex e) (ae_sha e) (sh_previous_final_hash h) (sh_first_sequence h) (drop HEADER_SIZE content)))"

definition records_of :: "audit_env \<Rightarrow> audit_disk \<Rightarrow> string list \<Rightarrow> decoded_frame list" where
  "records_of e d names =
     concat (map (\<lambda>n. case hm_get (dk_files d) n of None \<Rightarrow> [] | Some c \<Rightarrow> segment_records e c) names)"

definition log_records :: "audit_env \<Rightarrow> audit_disk \<Rightarrow> decoded_frame list" where
  "log_records e d = records_of e d (list_segments d)"

definition tip_seq :: "decoded_frame list \<Rightarrow> u64" where
  "tip_seq rs = (if rs = [] then 0 else df_sequence (last rs))"

lemma no_frames: "valid_scan hex sha prev eseq [] = ([], 0)"
  by (subst valid_scan.simps) (simp add: read_frame_def)

lemma segment_info:
  assumes "read_segment_header e content = Ok h"
    and "(if final then read_last_valid_record_info e content else read_last_record_info e content) = Ok (s, l, off)"
  shows "s = tip_seq (segment_records e content)"
    and "0 < s \<Longrightarrow> l = chain_end (sh_previous_final_hash h) (segment_records e content)"
proof -
  from assms(1) have d: "header_decode (ae_hex e) (ae_sha e) (take HEADER_SIZE content) = Ok h" and len: "HEADER_SIZE \<le> length content"
    unfolding read_segment_header_def if_err_ok by simp_all
  obtain rs k where v: "valid_scan (ae_hex e) (ae_sha e) (sh_previous_final_hash h) (sh_first_sequence h) (drop HEADER_SIZE content) = (rs, k)"
    by fastforce
  have sr: "segment_records e content = rs" by (simp add: segment_records_def d v)
  have "s = tip_seq rs \<and> (0 < s \<longrightarrow> l = chain_end (sh_previous_final_hash h) rs)"
  proof (cases "length content \<le> HEADER_SIZE")
    case True
    with v have "rs = []" by (simp add: no_frames)
    with True assms(2) show ?thesis
      by (auto simp: read_last_valid_record_info_def read_last_record_info_def tip_seq_def split: if_splits)
  next
    case False
    have "(s, l, off) = scan_result 0 (sh_previous_final_hash h) (of_nat HEADER_SIZE) (rs, k)"
    proof (cases final)
      case True
      with assms(2) False d v show ?thesis by (simp add: read_last_valid_record_info_def tolerant_scan)
    next
      case nf: False
      with assms(2) False d have "strict_loop (ae_hex e) (ae_sha e) (sh_previous_final_hash h) (sh_first_sequence h) 0
          (sh_previous_final_hash h) (of_nat HEADER_SIZE) (drop HEADER_SIZE content) = Ok (s, l, off)"
        by (simp add: read_last_record_info_def)
      from strict_scan [OF this] v show ?thesis by simp
    qed
    then show ?thesis by (simp add: scan_result_def tip_seq_def chain_end_def)
  qed
  with sr show "s = tip_seq (segment_records e content)"
    and "0 < s \<Longrightarrow> l = chain_end (sh_previous_final_hash h) (segment_records e content)" by simp_all
qed

lemma segment_chained:
  assumes "read_segment_header e content = Ok h"
  shows "chained (ae_sha e) (sh_previous_final_hash h) (segment_records e content) (chain_end (sh_previous_final_hash h) (segment_records e content))"
    and "\<forall>r \<in> set (segment_records e content). length (df_previous_hash r) = 32"
proof -
  from assms have d: "header_decode (ae_hex e) (ae_sha e) (take HEADER_SIZE content) = Ok h"
    unfolding read_segment_header_def if_err_ok by simp
  obtain rs k where v: "valid_scan (ae_hex e) (ae_sha e) (sh_previous_final_hash h) (sh_first_sequence h) (drop HEADER_SIZE content) = (rs, k)"
    by fastforce
  have "segment_records e content = rs" by (simp add: segment_records_def d v)
  with valid_scan_chain [OF v] show "chained (ae_sha e) (sh_previous_final_hash h) (segment_records e content)
      (chain_end (sh_previous_final_hash h) (segment_records e content))"
    and "\<forall>r \<in> set (segment_records e content). length (df_previous_hash r) = 32" by simp_all
qed

lemma chain_end_append: "chain_end prev (rs @ rs') = chain_end (chain_end prev rs) rs'"
  by (simp add: chain_end_def)

lemma verified_chain:
  assumes "verify_segments e d i prev names = Ok ()" and "i = 0 \<longrightarrow> prev = zero_hash"
    and "\<forall>r \<in> set (records_of e d names). df_sequence r \<noteq> 0"
  shows "chained (ae_sha e) prev (records_of e d names) (chain_end prev (records_of e d names)) \<and>
    (\<forall>r \<in> set (records_of e d names). length (df_previous_hash r) = 32)"
  using assms
proof (induction names arbitrary: i prev)
  case Nil
  then show ?case by (simp add: records_of_def chain_end_def)
next
  case (Cons name names)
  from Cons.prems(1) obtain idx content h s l off where c: "open_file_at d name = Ok content" and h: "read_segment_header e content = Ok h"
    and ch: "check_header e i prev idx h = Ok ()"
    and info: "(if names = [] then read_last_valid_record_info e content else read_last_record_info e content) = Ok (s, l, off)"
    and rest: "verify_segments e d (i + 1) (if 0 < s then l else sh_previous_final_hash h) names = Ok ()"
    by (auto simp: res_bind_ok if_err_ok simp del: One_nat_def split: prod.splits)
  let ?rs = "segment_records e content"
  from ch Cons.prems(2) have prev: "sh_previous_final_hash h = prev"
    unfolding check_header_def if_err_ok by (simp split: if_splits)
  have get: "hm_get (dk_files d) name = Some content" using c by (simp add: open_file_at_def split: option.splits)
  then have eq: "records_of e d (name # names) = ?rs @ records_of e d names" by (simp add: records_of_def)
  have "s = 0 \<longleftrightarrow> ?rs = []"
    using segment_info(1) [OF h info] Cons.prems(3) eq by (auto simp: tip_seq_def)
  then have "(if 0 < s then l else sh_previous_final_hash h) = chain_end prev ?rs"
    using segment_info(2) [OF h info] prev by (auto simp: chain_end_def word_neq_0_conv)
  with Cons.IH [of "i + 1" "chain_end prev ?rs"] rest Cons.prems(3) eq segment_chained [OF h] prev show ?case
    by (auto simp: chained_append chain_end_append)
qed


end
