(* ===== verification/Audit_Layout.thy ===== *)
theory Audit_Layout
  imports Audit_Chain
begin

text \<open>
  The files of an audit log as the gate lays them out: segments of intact, chained and numbered frames, the last of
  which may end in bytes that are no frame.  Such files are listed in order, verified, and read back to their frames.
\<close>

section \<open>Segments\<close>

text \<open>A segment is its first sequence number, its frames, and the bytes after them.\<close>

type_synonym log_segment = "u64 \<times> decoded_frame list \<times> bytes"

definition env_ok :: "audit_env \<Rightarrow> bool" where
  "env_ok e \<longleftrightarrow> (\<forall>x. length (ae_sha e x) = 32) \<and> (\<forall>n. ae_check e n = Ok ()) \<and>
     (\<forall>t r. \<exists>p. ae_recover_json e t r = Some p \<and> length p \<le> unat MAX_PAYLOAD_SIZE)"

fun seg_content :: "audit_env \<Rightarrow> nat \<Rightarrow> bytes \<Rightarrow> log_segment \<Rightarrow> bytes" where
  "seg_content e i prev (first, rs, tail) =
     header_encode (ae_sha e) (new_header (of_nat i) first prev) @ concat (map frame_of rs) @ tail"

fun seg_ok :: "audit_env \<Rightarrow> bytes \<Rightarrow> log_segment \<Rightarrow> bool" where
  "seg_ok e prev (first, rs, tail) \<longleftrightarrow>
     (\<forall>r \<in> set rs. frame_ok (ae_sha e) r) \<and> chained (ae_sha e) prev rs (chain_end prev rs) \<and> numbered first rs \<and>
     valid_scan (ae_hex e) (ae_sha e) (chain_end prev rs) (first + of_nat (length rs)) tail = ([], 0)"

definition tip_hash :: "bytes \<Rightarrow> decoded_frame list \<Rightarrow> bytes" where
  "tip_hash prev rs = (if tip_seq rs = 0 then prev else df_current_hash (last rs))"

lemma chain_end_length: "\<forall>r \<in> set rs. frame_ok sha r \<Longrightarrow> length prev = 32 \<Longrightarrow> length (chain_end prev rs) = 32"
  using frame_okD(3) [of sha "last rs"] by (auto simp: chain_end_def)

lemma tip_hash_length: "\<forall>r \<in> set rs. frame_ok sha r \<Longrightarrow> length prev = 32 \<Longrightarrow> length (tip_hash prev rs) = 32"
  using frame_okD(3) [of sha "last rs"] by (auto simp: tip_hash_def tip_seq_def)

lemma seg_header:
  assumes "env_ok e" and "length prev = 32"
  shows "length (header_encode (ae_sha e) (new_header i first prev)) = HEADER_SIZE"
    and "header_decode (ae_hex e) (ae_sha e) (header_encode (ae_sha e) (new_header i first prev)) = Ok (new_header i first prev)"
  using header_roundtrip [of "ae_sha e" "new_header i first prev"] assms by (simp_all add: env_ok_def new_header_def)

lemma seg_reads:
  fixes i
  assumes "env_ok e" and "length prev = 32" and "seg_ok e prev (first, rs, tail)"
  defines "c \<equiv> seg_content e i prev (first, rs, tail)"
    and "l \<equiv> (if rs = [] \<and> tail = [] then zero_hash else chain_end prev rs)"
  shows "read_segment_header e c = Ok (new_header (of_nat i) first prev)"
    and "read_last_valid_record_info e c = Ok (tip_seq rs, l, of_nat (HEADER_SIZE + length (concat (map frame_of rs))))"
    and "tail = [] \<Longrightarrow> read_last_record_info e c = Ok (tip_seq rs, l, of_nat (HEADER_SIZE + length (concat (map frame_of rs))))"
    and "segment_records e c = rs"
    and "length tail < 4 \<Longrightarrow> count_records_in_segment c = Ok (of_nat (length rs))"
proof -
  let ?b = "concat (map frame_of rs) @ tail" and ?h = "new_header (of_nat i) first prev"
  note hd = seg_header [OF assms(1,2), of "of_nat i" first]
  have t: "take HEADER_SIZE c = header_encode (ae_sha e) ?h" and d: "drop HEADER_SIZE c = ?b" and len: "length c = HEADER_SIZE + length ?b"
    using hd(1) by (simp_all add: c_def)
  then show "read_segment_header e c = Ok ?h" by (simp add: read_segment_header_def hd(2))
  have h: "sh_previous_final_hash ?h = prev" "sh_first_sequence ?h = first" by (simp_all add: new_header_def)
  have v: "valid_scan (ae_hex e) (ae_sha e) prev first ?b = (rs, length (concat (map frame_of rs)))"
    using valid_scan_frames [of rs "ae_sha e" prev "chain_end prev rs" first "ae_hex e" tail "[]" 0] assms(3) by simp
  show "segment_records e c = rs" by (simp add: segment_records_def t hd(2) d h v)
  have ne: "0 < length (frame_of r)" if "r \<in> set rs" for r
    using frame_length [of "ae_sha e" r] that assms(3) by simp
  then have empty: "length c \<le> HEADER_SIZE \<longleftrightarrow> rs = [] \<and> tail = []" by (cases rs) (auto simp: len)
  have sc: "scan_result 0 prev (of_nat HEADER_SIZE) (rs, length (concat (map frame_of rs))) =
      (tip_seq rs, chain_end prev rs, of_nat (HEADER_SIZE + length (concat (map frame_of rs))))"
    by (simp add: scan_result_def tip_seq_def chain_end_def)
  show "read_last_valid_record_info e c = Ok (tip_seq rs, l, of_nat (HEADER_SIZE + length (concat (map frame_of rs))))"
    using sc by (simp add: read_last_valid_record_info_def empty t d hd(2) h tolerant_scan v l_def) (simp add: tip_seq_def)
  show "count_records_in_segment c = Ok (of_nat (length rs))" if "length tail < 4"
    using count_loop_frames [of rs "ae_sha e" tail 0] assms(3) that by (simp add: count_records_in_segment_def empty d)
  assume tail: "tail = []"
  have "is_ok (strict_loop (ae_hex e) (ae_sha e) prev first 0 prev (of_nat HEADER_SIZE) ?b)"
    by (rule strict_loop_frames) (use assms(3) tail in auto)
  then obtain x where x: "strict_loop (ae_hex e) (ae_sha e) prev first 0 prev (of_nat HEADER_SIZE) ?b = Ok x"
    by (cases "strict_loop (ae_hex e) (ae_sha e) prev first 0 prev (of_nat HEADER_SIZE) ?b") auto
  with strict_scan [OF x] v sc show "read_last_record_info e c = Ok (tip_seq rs, l, of_nat (HEADER_SIZE + length (concat (map frame_of rs))))"
    by (simp add: read_last_record_info_def empty t d hd(2) h l_def) (simp add: tip_seq_def)
qed

section \<open>Files\<close>

fun layout :: "audit_env \<Rightarrow> nat \<Rightarrow> bytes \<Rightarrow> log_segment list \<Rightarrow> (string \<times> bytes) list" where
  "layout e i prev [] = []"
| "layout e i prev (s # segs) = (segment_name (of_nat i), seg_content e i prev s) # layout e (Suc i) (tip_hash prev (fst (snd s))) segs"

fun segs_ok :: "audit_env \<Rightarrow> nat \<Rightarrow> bytes \<Rightarrow> log_segment list \<Rightarrow> bool" where
  "segs_ok e i prev [] \<longleftrightarrow> True"
| "segs_ok e i prev (s # segs) \<longleftrightarrow>
     seg_ok e prev s \<and> (i = 0 \<longrightarrow> fst s = 1 \<and> prev = zero_hash) \<and> segs_ok e (Suc i) (tip_hash prev (fst (snd s))) segs"

definition end_hash :: "bytes \<Rightarrow> log_segment list \<Rightarrow> bytes" where
  "end_hash prev segs = foldl (\<lambda>p s. tip_hash p (fst (snd s))) prev segs"

definition closed :: "log_segment list \<Rightarrow> bool" where
  "closed segs \<longleftrightarrow> (\<forall>s \<in> set segs. snd (snd s) = [])"

definition seg_frames :: "log_segment list \<Rightarrow> decoded_frame list" where
  "seg_frames segs = concat (map (\<lambda>s. fst (snd s)) segs)"

lemma seg_frames_simps [simp]: "seg_frames [] = []" "seg_frames (s # segs) = fst (snd s) @ seg_frames segs"
  "seg_frames (xs @ ys) = seg_frames xs @ seg_frames ys"
  by (simp_all add: seg_frames_def)

lemma closed_simps [simp]: "closed []" "closed (s # segs) \<longleftrightarrow> snd (snd s) = [] \<and> closed segs" "closed (xs @ ys) \<longleftrightarrow> closed xs \<and> closed ys"
  by (auto simp: closed_def)

lemma end_hash_simps [simp]: "end_hash prev [] = prev" "end_hash prev (s # segs) = end_hash (tip_hash prev (fst (snd s))) segs"
  "end_hash prev (xs @ ys) = end_hash (end_hash prev xs) ys"
  by (simp_all add: end_hash_def)

lemma layout_append: "layout e i prev (xs @ ys) = layout e i prev xs @ layout e (i + length xs) (end_hash prev xs) ys"
  by (induction xs arbitrary: i prev) auto

lemma segs_ok_append: "segs_ok e i prev (xs @ ys) \<longleftrightarrow> segs_ok e i prev xs \<and> segs_ok e (i + length xs) (end_hash prev xs) ys"
  by (induction xs arbitrary: i prev) auto

lemma layout_length [simp]: "length (layout e i prev segs) = length segs"
  by (induction segs arbitrary: i prev) auto

lemma layout_names: "map fst (layout e i prev segs) = map (\<lambda>k. segment_name (of_nat k)) [i..<i + length segs]"
  by (induction segs arbitrary: i prev) (simp_all add: upt_conv_Cons del: upt_Suc)

lemma seg_ok_tip: "seg_ok e prev s \<Longrightarrow> length prev = 32 \<Longrightarrow> length (tip_hash prev (fst (snd s))) = 32"
  by (cases s) (auto intro: tip_hash_length)

lemma end_hash_length: "segs_ok e i prev segs \<Longrightarrow> length prev = 32 \<Longrightarrow> length (end_hash prev segs) = 32"
  by (induction segs arbitrary: i prev) (auto dest: seg_ok_tip)

lemma seg_frames_ok: "segs_ok e i prev segs \<Longrightarrow> r \<in> set (seg_frames segs) \<Longrightarrow> frame_ok (ae_sha e) r"
proof (induction segs arbitrary: i prev)
  case (Cons s segs)
  obtain first rs tail where "s = (first, rs, tail)" by (cases s)
  with Cons show ?case by auto
qed simp

lemma names_apart:
  assumes "i < 1000000" and "j < 1000000"
  shows "segment_name (of_nat i) = segment_name (of_nat j) \<longleftrightarrow> i = j"
  using segment_name_less [of i j] segment_name_less [of j i] assms by (metis less_irrefl linorder_neqE_nat)

lemma layout_distinct: "length segs \<le> 1000000 \<Longrightarrow> distinct (map fst (layout e 0 prev segs))"
  unfolding layout_names by (auto simp: distinct_map inj_on_def names_apart)

lemma layout_listed:
  "dk_files d = layout e 0 prev segs \<Longrightarrow> length segs \<le> 1000000 \<Longrightarrow> list_segments d = map fst (layout e 0 prev segs)"
  using list_segments_named [of d "length segs"] by (simp add: layout_names)

lemma layout_get: "hm_get (layout e 0 zero_hash segs) n = Some c \<longleftrightarrow> (n, c) \<in> set (layout e 0 zero_hash segs)"
  if "length segs \<le> 1000000"
  using layout_distinct [OF that, of e zero_hash] by (simp add: hm_get_def)

section \<open>Laid-out logs verify\<close>

lemma seg_verified:
  assumes "env_ok e" and "length prev = 32" and "seg_ok e prev s" and "i = 0 \<longrightarrow> fst s = 1 \<and> prev = zero_hash"
    and "hm_get (dk_files d) (segment_name (of_nat i)) = Some (seg_content e i prev s)" and "names = [] \<or> snd (snd s) = []"
  shows "verify_segments e d i prev (segment_name (of_nat i) # names) =
    verify_segments e d (Suc i) (tip_hash prev (fst (snd s))) names"
proof -
  obtain first rs tail where s: "s = (first, rs, tail)" by (cases s)
  note reads = seg_reads [OF assms(1,2) assms(3) [unfolded s], of i]
  have ck: "check_header e i prev (of_nat i) (new_header (of_nat i) first prev) = Ok ()"
    using assms(4) by (simp add: check_header_def new_header_def s)
  have info: "(if names = [] then read_last_valid_record_info e (seg_content e i prev s) else read_last_record_info e (seg_content e i prev s)) =
      Ok (tip_seq rs, if rs = [] \<and> tail = [] then zero_hash else chain_end prev rs, of_nat (HEADER_SIZE + length (concat (map frame_of rs))))"
    using reads(2,3) assms(6) unfolding s by auto
  have hash: "(if 0 < tip_seq rs then if rs = [] \<and> tail = [] then zero_hash else chain_end prev rs else prev) = tip_hash prev rs"
    by (auto simp: tip_hash_def tip_seq_def chain_end_def word_neq_0_conv)
  have o: "open_file_at d (segment_name (of_nat i)) = Ok (seg_content e i prev s)" using assms(5) by (simp add: open_file_at_def)
  have env: "ae_check e n = Ok ()" for n using assms(1) by (simp add: env_ok_def)
  have r1: "read_segment_header e (seg_content e i prev s) = Ok (new_header (of_nat i) first prev)"
    using reads(1) by (simp only: s)
  have h: "sh_previous_final_hash (new_header (of_nat i) first prev) = prev" by (simp add: new_header_def)
  show ?thesis
    unfolding verify_segments.simps extract_segment_name o env res_bind_simps r1 ck info prod.case h hash by (simp add: s)
qed

lemma verify_prefix:
  assumes "env_ok e" and "length prev = 32" and "segs_ok e i prev pre" and "closed pre"
    and "\<forall>(n, c) \<in> set (layout e i prev pre). hm_get (dk_files d) n = Some c"
  shows "verify_segments e d i prev (map fst (layout e i prev pre) @ names) = verify_segments e d (i + length pre) (end_hash prev pre) names"
  using assms
proof (induction pre arbitrary: i prev)
  case (Cons p pre)
  have "length (tip_hash prev (fst (snd p))) = 32" using Cons.prems by (auto intro: seg_ok_tip)
  with Cons.prems Cons.IH [of "tip_hash prev (fst (snd p))" "Suc i"]
    seg_verified [of e prev p i d "map fst (layout e (Suc i) (tip_hash prev (fst (snd p))) pre) @ names"] show ?case by simp
qed simp

lemma verify_layout:
  assumes "env_ok e" and "length prev = 32" and "segs_ok e i prev (pre @ [s])" and "closed pre"
    and "\<forall>(n, c) \<in> set (layout e i prev (pre @ [s])). hm_get (dk_files d) n = Some c"
  shows "verify_segments e d i prev (map fst (layout e i prev (pre @ [s]))) = Ok ()"
proof -
  let ?p = "end_hash prev pre" and ?k = "i + length pre"
  from assms(3) have ok: "segs_ok e i prev pre" "seg_ok e ?p s" "?k = 0 \<longrightarrow> fst s = 1 \<and> ?p = zero_hash" by (auto simp: segs_ok_append)
  have "verify_segments e d ?k ?p [segment_name (of_nat ?k)] = verify_segments e d (Suc ?k) (tip_hash ?p (fst (snd s))) []"
    by (rule seg_verified) (use assms(1,2,5) ok end_hash_length [OF ok(1)] in \<open>simp_all add: layout_append\<close>)
  with verify_prefix [OF assms(1,2) ok(1) assms(4)] assms(5) show ?thesis by (simp add: layout_append)
qed

lemma records_layout:
  assumes "env_ok e" and "length prev = 32" and "segs_ok e i prev segs"
    and "\<forall>(n, c) \<in> set (layout e i prev segs). hm_get (dk_files d) n = Some c"
  shows "records_of e d (map fst (layout e i prev segs)) = seg_frames segs"
  using assms
proof (induction segs arbitrary: i prev)
  case Nil
  then show ?case by (simp add: records_of_def)
next
  case (Cons s segs)
  obtain first rs tail where s: "s = (first, rs, tail)" by (cases s)
  have "segment_records e (seg_content e i prev s) = rs"
    using seg_reads(4) [OF Cons.prems(1,2), of first rs tail i] Cons.prems(3) s by simp
  moreover have "length (tip_hash prev rs) = 32" using Cons.prems(2,3) seg_ok_tip [of e prev s] s by simp
  ultimately show ?case using Cons.IH [of "tip_hash prev rs" "Suc i"] Cons.prems s by (simp add: records_of_def del: seg_content.simps)
qed

lemma count_layout:
  assumes "env_ok e" and "length prev = 32" and "segs_ok e i prev segs" and "\<forall>s \<in> set segs. length (snd (snd s)) < 4"
    and "\<forall>(n, c) \<in> set (layout e i prev segs). hm_get (dk_files d) n = Some c"
  shows "count_segments d m (map fst (layout e i prev segs)) = Ok (m + of_nat (length (seg_frames segs)))"
  using assms
proof (induction segs arbitrary: i prev m)
  case (Cons s segs)
  obtain first rs tail where s: "s = (first, rs, tail)" by (cases s)
  have "count_records_in_segment (seg_content e i prev s) = Ok (of_nat (length rs))"
    using seg_reads(5) [OF Cons.prems(1,2), of first rs tail i] Cons.prems(3,4) s by simp
  moreover have "length (tip_hash prev rs) = 32" using Cons.prems(2,3) seg_ok_tip [of e prev s] s by simp
  moreover have "open_file_at d (segment_name (of_nat i)) = Ok (seg_content e i prev s)"
    using Cons.prems(5) by (simp add: open_file_at_def del: seg_content.simps)
  ultimately show ?case
    using Cons.IH [of "tip_hash prev rs" "Suc i" "m + of_nat (length rs)"] Cons.prems s by (simp add: add.assoc del: seg_content.simps)
qed simp

end
