(* ===== verification/Audit_Recovery.thy ===== *)
theory Audit_Recovery
  imports Audit_Layout
begin

text \<open>
  The invariant of the audit gate and of its disk, kept by every append, rotation and start, whatever
  fails on the way: the records are those of the log before, or one more.
\<close>

section \<open>Numbered logs\<close>

fun counted :: "nat \<Rightarrow> log_segment list \<Rightarrow> bool" where
  "counted n [] \<longleftrightarrow> True"
| "counted n (s # segs) \<longleftrightarrow> fst s = of_nat (Suc n) \<and> counted (n + length (fst (snd s))) segs"

lemma counted_append: "counted n (xs @ ys) \<longleftrightarrow> counted n xs \<and> counted (n + length (seg_frames xs)) ys"
  by (induction xs arbitrary: n) (auto simp: add.assoc)

lemma numbered_last: "numbered s rs \<Longrightarrow> rs \<noteq> [] \<Longrightarrow> df_sequence (last rs) + 1 = s + of_nat (length rs)"
proof (induction rs arbitrary: s)
  case (Cons r rs)
  then show ?case using Cons.IH [of "s + 1"] by (cases "rs = []") (simp_all add: add.assoc)
qed simp

lemma tip_seq_counted:
  assumes "numbered (of_nat (Suc n)) rs" and "n + length rs < 2 ^ 64"
  shows "rs \<noteq> [] \<Longrightarrow> unat (tip_seq rs) = n + length rs" and "tip_seq rs = 0 \<longleftrightarrow> rs = []"
proof -
  have u: "unat (tip_seq rs) = n + length rs" if ne: "rs \<noteq> []"
  proof -
    from numbered_last [OF assms(1) ne] have "tip_seq rs = of_nat (n + length rs)" using ne by (simp add: tip_seq_def algebra_simps)
    then show ?thesis using assms(2) by (simp add: unat_of_nat del: of_nat_add)
  qed
  then show "rs \<noteq> [] \<Longrightarrow> unat (tip_seq rs) = n + length rs" .
  show "tip_seq rs = 0 \<longleftrightarrow> rs = []" using u by (cases rs) (auto simp: tip_seq_def)
qed

section \<open>The invariant\<close>

definition anchored :: "anchor_state \<Rightarrow> nat \<Rightarrow> decoded_frame list \<Rightarrow> bool" where
  "anchored a k rs \<longleftrightarrow> length (an_hash a) = 32 \<and> an_segment_index a \<le> of_nat k \<and>
     (an_segment_index a = of_nat k \<longrightarrow> an_sequence a \<le> tip_seq rs)"

definition files_ok :: "audit_env \<Rightarrow> log_segment list \<Rightarrow> u64 \<Rightarrow> decoded_frame list \<Rightarrow> bytes \<Rightarrow> audit_disk \<Rightarrow> bool" where
  "files_ok e pre first rs tail d \<longleftrightarrow>
     dk_files d = layout e 0 zero_hash (pre @ [(first, rs, tail)]) \<and>
     segs_ok e 0 zero_hash (pre @ [(first, rs, tail)]) \<and> closed pre \<and> counted 0 (pre @ [(first, rs, tail)]) \<and>
     length (seg_frames pre) + length rs < 2 ^ 64 \<and> length pre < 1000000 \<and>
     length (seg_content e (length pre) (end_hash zero_hash pre) (first, rs, tail)) \<le> 2 ^ 62"

definition disk_ok ::
    "audit_env \<Rightarrow> log_segment list \<Rightarrow> u64 \<Rightarrow> decoded_frame list \<Rightarrow> bytes \<Rightarrow> anchor_state \<Rightarrow> audit_disk \<Rightarrow> bool" where
  "disk_ok e pre first rs tail a d \<longleftrightarrow> files_ok e pre first rs tail d \<and>
     dk_anchor d = Some (encode_anchor (ae_sha e) a) \<and> anchored a (length pre) rs"

lemmas disk_ok_unfold = disk_ok_def files_ok_def

definition gate_ok ::
    "audit_env \<Rightarrow> log_segment list \<Rightarrow> u64 \<Rightarrow> decoded_frame list \<Rightarrow> anchor_state \<Rightarrow> audit_gate \<Rightarrow> bool" where
  "gate_ok e pre first rs a g \<longleftrightarrow>
     disk_ok e pre first rs [] a (ga_disk g) \<and> \<not> ga_broken g \<and> ga_max_segment_size g \<le> 2 ^ 62 \<and>
     ga_segment_name g = segment_name (of_nat (length pre)) \<and> ga_segment_index g = of_nat (length pre) \<and>
     ga_offset g = of_nat (length (seg_content e (length pre) (end_hash zero_hash pre) (first, rs, []))) \<and>
     ga_sequence g = of_nat (length (seg_frames pre) + length rs) \<and>
     ga_last_hash g = chain_end (end_hash zero_hash pre) rs"

text \<open>A disk, and an open gate, that hold exactly the given records.\<close>

definition disk_of :: "audit_env \<Rightarrow> decoded_frame list \<Rightarrow> audit_disk \<Rightarrow> bool" where
  "disk_of e recs d \<longleftrightarrow> (\<exists>pre first rs tail a. disk_ok e pre first rs tail a d \<and> recs = seg_frames pre @ rs)"

definition gate_of :: "audit_env \<Rightarrow> decoded_frame list \<Rightarrow> audit_gate \<Rightarrow> bool" where
  "gate_of e recs g \<longleftrightarrow> (\<exists>pre first rs a. gate_ok e pre first rs a g \<and> recs = seg_frames pre @ rs)"

lemma gate_of_disk: "gate_of e recs g \<Longrightarrow> disk_of e recs (ga_disk g)"
  unfolding gate_of_def disk_of_def gate_ok_def by blast

lemma zero_hash_length [simp]: "length zero_hash = 32"
  by (simp add: zero_hash_def)

lemma files_okD:
  assumes "files_ok e pre first rs tail d"
  shows "seg_ok e (end_hash zero_hash pre) (first, rs, tail)" and "first = of_nat (Suc (length (seg_frames pre)))"
    and "length (end_hash zero_hash pre) = 32" and "\<forall>r \<in> set rs. frame_ok (ae_sha e) r" and "numbered first rs"
    and "chained (ae_sha e) (end_hash zero_hash pre) rs (chain_end (end_hash zero_hash pre) rs)"
proof -
  from assms have segs: "segs_ok e 0 zero_hash pre" and s: "seg_ok e (end_hash zero_hash pre) (first, rs, tail)"
    and f: "first = of_nat (Suc (length (seg_frames pre)))"
    by (auto simp: files_ok_def segs_ok_append counted_append simp del: seg_ok.simps)
  show "seg_ok e (end_hash zero_hash pre) (first, rs, tail)" by (fact s)
  show "first = of_nat (Suc (length (seg_frames pre)))" by (fact f)
  show "length (end_hash zero_hash pre) = 32" using end_hash_length [OF segs] by simp
  show "\<forall>r \<in> set rs. frame_ok (ae_sha e) r" "numbered first rs"
    "chained (ae_sha e) (end_hash zero_hash pre) rs (chain_end (end_hash zero_hash pre) rs)" using s by simp_all
qed

lemma disk_ok_parts: "disk_ok e pre first rs tail a d \<Longrightarrow> files_ok e pre first rs tail d"
  by (simp add: disk_ok_def)

lemmas disk_okD = files_okD [OF disk_ok_parts]

lemma files_records:
  assumes "env_ok e" and "files_ok e pre first rs tail d"
  shows "log_records e d = seg_frames pre @ rs"
proof -
  let ?segs = "pre @ [(first, rs, tail)]"
  have files: "dk_files d = layout e 0 zero_hash ?segs" and len: "length ?segs \<le> 1000000" and ok: "segs_ok e 0 zero_hash ?segs"
    using assms(2) by (simp_all add: files_ok_def)
  have "\<forall>(n, c) \<in> set (layout e 0 zero_hash ?segs). hm_get (dk_files d) n = Some c"
    unfolding files using layout_get [OF len] by blast
  from records_layout [OF assms(1) _ ok this] layout_listed [OF files len] show ?thesis by (simp add: log_records_def)
qed

lemma disk_ok_files: "disk_ok e pre first rs tail a d \<Longrightarrow> length (dk_files d) = Suc (length pre)"
  by (simp add: disk_ok_unfold)

lemma hm_insert_last: "k \<notin> fst ` set m \<Longrightarrow> hm_insert k v (m @ [(k, w)]) = m @ [(k, v)]" "k \<notin> fst ` set m \<Longrightarrow> hm_insert k v m = m @ [(k, v)]"
  by (induction m) (auto simp: hm_insert_def)

lemma layout_fresh:
  assumes "length segs < 1000000"
  shows "segment_name (of_nat (length segs)) \<notin> fst ` set (layout e 0 prev segs)"
proof -
  have "fst ` set (layout e 0 prev segs) = set (map fst (layout e 0 prev segs))" by simp
  also have "\<dots> = (\<lambda>k. segment_name (of_nat k)) ` {0..<length segs}" unfolding layout_names by simp
  finally show ?thesis using assms names_apart by auto
qed

lemma files_ok_replace:
  assumes "files_ok e pre first rs tail d" and "seg_ok e (end_hash zero_hash pre) (first, rs', tail')"
    and "length (seg_frames pre) + length rs' < 2 ^ 64"
    and "length (seg_content e (length pre) (end_hash zero_hash pre) (first, rs', tail')) \<le> 2 ^ 62"
    and "dk_files d' = hm_insert (segment_name (of_nat (length pre))) (seg_content e (length pre) (end_hash zero_hash pre) (first, rs', tail')) (dk_files d)"
  shows "files_ok e pre first rs' tail' d'"
proof -
  have "dk_files d' = layout e 0 zero_hash (pre @ [(first, rs', tail')])"
    using assms(1,5) layout_fresh [of pre e zero_hash] by (simp add: files_ok_def layout_append hm_insert_last)
  with assms show ?thesis by (simp add: files_ok_def segs_ok_append counted_append)
qed

lemma disk_ok_replace:
  assumes "disk_ok e pre first rs tail a d" and "seg_ok e (end_hash zero_hash pre) (first, rs', tail')"
    and "length (seg_frames pre) + length rs' < 2 ^ 64" and "anchored a' (length pre) rs'"
    and "length (seg_content e (length pre) (end_hash zero_hash pre) (first, rs', tail')) \<le> 2 ^ 62"
    and "dk_files d' = hm_insert (segment_name (of_nat (length pre))) (seg_content e (length pre) (end_hash zero_hash pre) (first, rs', tail')) (dk_files d)"
    and "dk_anchor d' = Some (encode_anchor (ae_sha e) a')"
  shows "disk_ok e pre first rs' tail' a' d'"
  using files_ok_replace [OF disk_ok_parts [OF assms(1)] assms(2,3,5,6)] assms(4,7) by (simp add: disk_ok_def)

lemma gate_file:
  assumes "gate_ok e pre first rs a g"
  defines "c \<equiv> seg_content e (length pre) (end_hash zero_hash pre) (first, rs, [])"
  shows "hm_get (dk_files (ga_disk g)) (ga_segment_name g) = Some c" and "file_content g = c" and "unat (ga_offset g) = length c"
proof -
  have d: "disk_ok e pre first rs [] a (ga_disk g)" and n: "ga_segment_name g = segment_name (of_nat (length pre))"
    using assms(1) by (simp_all add: gate_ok_def)
  then show get: "hm_get (dk_files (ga_disk g)) (ga_segment_name g) = Some c"
    using layout_get [of "pre @ [(first, rs, [])]" e] by (simp add: disk_ok_unfold layout_append c_def)
  then show "file_content g = c" by (simp add: file_content_def)
  have "length c \<le> 2 ^ 62" using d by (simp add: disk_ok_unfold c_def)
  with assms(1) show "unat (ga_offset g) = length c" by (simp add: gate_ok_def c_def unat_of_nat del: seg_content.simps)
qed

section \<open>Appending a frame\<close>

text \<open>The frame that the gate writes next.\<close>

definition next_frame :: "audit_env \<Rightarrow> bytes \<Rightarrow> u64 \<Rightarrow> u64 \<Rightarrow> audit_gate \<Rightarrow> decoded_frame" where
  "next_frame e payload wall ticks g =
     \<lparr>df_sequence = ga_sequence g + 1, df_wall_time_ms = wall, df_monotonic_ms = ticks, df_payload = payload,
      df_previous_hash = ga_last_hash g,
      df_current_hash = compute_record_hash (ae_sha e) (ga_last_hash g) (ga_sequence g + 1) wall ticks payload\<rparr>"

lemma next_frame_ok:
  assumes "env_ok e" and "gate_ok e pre first rs a g" and "length payload \<le> unat MAX_PAYLOAD_SIZE"
  shows "frame_ok (ae_sha e) (next_frame e payload wall ticks g)"
proof -
  have d: "disk_ok e pre first rs [] a (ga_disk g)" using assms(2) by (simp add: gate_ok_def)
  have "length (ga_last_hash g) = 32"
    using chain_end_length [OF disk_okD(4,3) [OF d]] assms(2) by (simp add: gate_ok_def)
  then show ?thesis
    using assms(1,3) by (simp add: frame_ok_def next_frame_def frame_hash_def) (simp add: compute_record_hash_def env_ok_def)
qed

lemma seg_ok_snoc:
  assumes "env_ok e" and "gate_ok e pre first rs a g" and "length payload \<le> unat MAX_PAYLOAD_SIZE"
  shows "seg_ok e (end_hash zero_hash pre) (first, rs @ [next_frame e payload wall ticks g], [])"
proof -
  have d: "disk_ok e pre first rs [] a (ga_disk g)" using assms(2) by (simp add: gate_ok_def)
  let ?r = "next_frame e payload wall ticks g" and ?p = "end_hash zero_hash pre"
  have "chained (ae_sha e) ?p (rs @ [?r]) (df_current_hash ?r)"
    using disk_okD(6) [OF d] assms(2) by (auto simp: chained_append gate_ok_def next_frame_def frame_hash_def)
  moreover have "numbered first (rs @ [?r])"
    using disk_okD(2,5) [OF d] assms(2) by (simp add: numbered_append gate_ok_def next_frame_def)
  ultimately show ?thesis
    using disk_okD(4) [OF d] next_frame_ok [OF assms] by (simp add: chain_end_def no_frames)
qed

lemma seg_ok_torn:
  assumes "env_ok e" and "gate_ok e pre first rs a g" and "length payload \<le> unat MAX_PAYLOAD_SIZE"
    and "k < length (frame_of (next_frame e payload wall ticks g))"
  shows "seg_ok e (end_hash zero_hash pre) (first, rs, take k (frame_of (next_frame e payload wall ticks g)))"
  using torn_frame [OF next_frame_ok [OF assms(1-3)] assms(4)] disk_okD(1) [of e pre first rs "[]" a "ga_disk g"] assms(2)
  by (simp add: gate_ok_def)

lemma seg_content_tail: "seg_content e k p (first, rs, []) @ x = seg_content e k p (first, rs, x)"
  "seg_content e k p (first, rs, []) @ frame_of r = seg_content e k p (first, rs @ [r], [])"
  by simp_all

lemma write_at_end: "write_at (length c) x c = c @ x" "truncate_to (length c) (c @ x) = c"
  by (simp_all add: write_at_def truncate_to_def)

lemma anchored_snoc:
  assumes "disk_ok e pre first rs tail a d" and "seg_ok e (end_hash zero_hash pre) (first, rs @ [r], [])"
    and "length (seg_frames pre) + length rs + 1 < 2 ^ 64"
  shows "anchored a (length pre) (rs @ [r])"
proof -
  have n: "numbered (of_nat (Suc (length (seg_frames pre)))) (rs @ [r])" using assms(2) disk_okD(2) [OF assms(1)] by simp
  then have "numbered (of_nat (Suc (length (seg_frames pre)))) rs" by (simp add: numbered_append)
  from tip_seq_counted(1) [OF n] tip_seq_counted(1) [OF this] assms(3) have "tip_seq rs \<le> tip_seq (rs @ [r])"
    by (cases "rs = []") (simp_all add: word_le_nat_alt tip_seq_def [of "[]"])
  with assms(1) show ?thesis by (auto simp: anchored_def disk_ok_unfold)
qed

lemma append_frame_keeps:
  assumes "env_ok e" and "gate_ok e pre first rs a g" and "length payload \<le> unat MAX_PAYLOAD_SIZE"
    and "length (seg_frames pre) + length rs + 1 < 2 ^ 64" and r: "r = next_frame e payload wall ticks g"
    and bound: "length (seg_content e (length pre) (end_hash zero_hash pre) (first, rs, frame_of r)) \<le> 2 ^ 62"
    and run: "append_frame e fault (df_sequence r) (df_current_hash r) (frame_of r) g = (g', res)"
  shows "res = Ok () \<and> (\<exists>a'. gate_ok e pre first (rs @ [r]) a' g') \<or>
    \<not> is_ok res \<and> ga_broken g' \<and> (\<exists>rs' tail a'. disk_ok e pre first rs' tail a' (ga_disk g') \<and> (rs' = rs \<or> rs' = rs @ [r]))"
    (is "?done \<or> \<not> is_ok res \<and> ga_broken g' \<and> ?left")
proof -
  let ?p = "end_hash zero_hash pre" and ?k = "length pre"
  let ?n = "segment_name (of_nat ?k)" and ?c = "\<lambda>rs tail. seg_content e ?k ?p (first, rs, tail)"
  let ?a = "\<lparr>an_segment_index = ga_segment_index g, an_sequence = df_sequence r, an_hash = df_current_hash r\<rparr>"
  have d: "disk_ok e pre first rs [] a (ga_disk g)" and name: "ga_segment_name g = ?n" "ga_segment_index g = of_nat ?k"
    using assms(2) by (simp_all add: gate_ok_def)
  note fc = gate_file [OF assms(2)] and ok = seg_ok_snoc [OF assms(1-3), of wall ticks, folded r]
  have one: "disk_ok e pre first (rs @ [r]) [] a' d'"
    if "dk_files d' = hm_insert ?n (?c rs [] @ frame_of r) (dk_files (ga_disk g))" "dk_anchor d' = Some (encode_anchor (ae_sha e) a')"
      "anchored a' ?k (rs @ [r])" for d' a'
    by (rule disk_ok_replace [OF d ok]) (use that assms(4) bound in simp_all)
  have kept: "anchored a ?k (rs @ [r])" by (rule anchored_snoc [OF d ok assms(4)])
  have moved: "anchored ?a ?k (rs @ [r])"
    using name frame_okD(3) [OF next_frame_ok [OF assms(1-3), of wall ticks, folded r]] by (simp add: anchored_def tip_seq_def)
  have torn: "disk_ok e pre first rs (take k (frame_of r)) a d'"
    if "dk_files d' = hm_insert ?n (?c rs [] @ take k (frame_of r)) (dk_files (ga_disk g))" "dk_anchor d' = dk_anchor (ga_disk g)"
      "k < length (frame_of r)" for d' k
  proof (rule disk_ok_replace [OF d])
    show "length (?c rs (take k (frame_of r))) \<le> 2 ^ 62" using bound by simp
    show "seg_ok e ?p (first, rs, take k (frame_of r))" using seg_ok_torn [OF assms(1-3)] that(3) r by simp
  qed (use that d in \<open>simp_all add: disk_ok_unfold\<close>)
  have anchor: "dk_anchor (ga_disk g) = Some (encode_anchor (ae_sha e) a)" using d by (simp add: disk_ok_unfold)
  have len: "0 < length (frame_of r)"
    using frame_length [OF next_frame_ok [OF assms(1-3), of wall ticks, folded r]] by simp
  note eval = run [unfolded append_frame_def Let_def fc(2,3) write_at_end]
  show ?thesis
  proof (cases fault)
    case RfNone
    with eval have "res = Ok ()" and g': "g' = (set_content (?c rs [] @ frame_of r) g)
        \<lparr>ga_offset := of_nat (length (?c rs [])) + of_nat (length (frame_of r)),
         ga_disk := write_anchor e ?a (ga_disk (set_content (?c rs [] @ frame_of r) g)),
         ga_sequence := df_sequence r, ga_last_hash := df_current_hash r, ga_anchor := ?a\<rparr>"
      by simp_all
    moreover have "gate_ok e pre first (rs @ [r]) ?a g'"
      using assms(2) one [of "ga_disk g'" ?a] moved r
      by (simp add: g' gate_ok_def set_content_def set_file_def write_anchor_def name chain_end_def next_frame_def)
    ultimately show ?thesis by blast
  next
    case (RfWrite n undone)
    let ?m = "if undone then 0 else min n (length (frame_of r) - 1)"
    from RfWrite eval have "\<not> is_ok res" "ga_broken g'" "ga_disk g' = set_file ?n (?c rs [] @ take ?m (frame_of r)) (ga_disk g)"
      by (auto simp: set_content_def name)
    moreover have "?m < length (frame_of r)" using len by (simp add: min_less_iff_disj)
    moreover from this calculation(3) have "disk_ok e pre first rs (take ?m (frame_of r)) a (ga_disk g')"
      by (intro torn) (simp_all add: set_file_def)
    ultimately show ?thesis by blast
  next
    case (RfSync undone)
    then show ?thesis
    proof (cases undone)
      case True
      with RfSync eval have "\<not> is_ok res" "ga_broken g'" "ga_disk g' = set_file ?n (?c rs [] @ take 0 (frame_of r)) (ga_disk g)"
        by (auto simp: set_content_def name)
      moreover from this(3) have "disk_ok e pre first rs (take 0 (frame_of r)) a (ga_disk g')"
        by (intro torn) (use len in \<open>simp_all add: set_file_def\<close>)
      ultimately show ?thesis by blast
    next
      case False
      with RfSync eval have "\<not> is_ok res" "ga_broken g'" "ga_disk g' = set_file ?n (?c rs [] @ frame_of r) (ga_disk g)"
        by (auto simp: set_content_def name)
      moreover from this(3) have "disk_ok e pre first (rs @ [r]) [] a (ga_disk g')"
        by (intro one) (use kept anchor in \<open>simp_all add: set_file_def\<close>)
      ultimately show ?thesis by blast
    qed
  next
    case RfDirSync
    with eval have "\<not> is_ok res" "ga_broken g'" "ga_disk g' = set_file ?n (?c rs [] @ frame_of r) (ga_disk g)"
      by (auto simp: set_content_def name)
    moreover from this(3) have "disk_ok e pre first (rs @ [r]) [] a (ga_disk g')"
      by (intro one) (use kept anchor in \<open>simp_all add: set_file_def\<close>)
    ultimately show ?thesis by blast
  next
    case (RfAnchor renamed)
    with eval have "\<not> is_ok res" "ga_broken g'" "ga_disk g' = (if renamed then write_anchor e ?a else id) (set_file ?n (?c rs [] @ frame_of r) (ga_disk g))"
      by (auto simp: set_content_def name)
    moreover from this(3) have "disk_ok e pre first (rs @ [r]) [] (if renamed then ?a else a) (ga_disk g')"
      by (intro one) (use kept moved anchor in \<open>simp_all add: set_file_def write_anchor_def\<close>)
    ultimately show ?thesis by blast
  qed
qed

lemma append_frame_succeeds: "is_ok (snd (append_frame e RfNone seq h frame g))"
  by (simp add: append_frame_def Let_def)

section \<open>Rotation\<close>

lemma of_nat_less_u64: "i < j \<Longrightarrow> j < 2 ^ 64 \<Longrightarrow> (of_nat i :: u64) < of_nat j"
  by (simp add: word_less_nat_alt unat_of_nat)

lemma rotate_keeps:
  assumes "env_ok e" and "gate_ok e pre first rs a g" and "length pre + 1 < 1000000" and "\<forall>n. fault \<noteq> RoHeader n"
    and "rotate_segment e fault g = (g', res)"
  shows "res = Ok () \<and> gate_ok e (pre @ [(first, rs, [])]) (of_nat (Suc (length (seg_frames pre) + length rs))) [] a g' \<and>
      ga_sequence g' = ga_sequence g \<and> ga_last_hash g' = ga_last_hash g \<or>
    \<not> is_ok res \<and> (g' = g \<or> g' = g\<lparr>ga_broken := True\<rparr>)"
    and "fault = RoNone \<Longrightarrow> is_ok res"
proof -
  let ?pre = "pre @ [(first, rs, [])]" and ?seq = "of_nat (Suc (length (seg_frames pre) + length rs)) :: u64"
  let ?p = "end_hash zero_hash pre"
  have d: "disk_ok e pre first rs [] a (ga_disk g)" using assms(2) by (simp add: gate_ok_def)
  have n: "numbered (of_nat (Suc (length (seg_frames pre)))) rs" using disk_okD(2,5) [OF d] by simp
  have tip: "tip_hash ?p rs = chain_end ?p rs"
    using tip_seq_counted(2) [OF n] d by (simp add: tip_hash_def chain_end_def disk_ok_unfold)
  have fresh: "segment_name (of_nat (length ?pre)) \<notin> fst ` set (dk_files (ga_disk g))"
    using layout_fresh [of ?pre e zero_hash] assms(3) d by (simp add: disk_ok_unfold)
  then have none: "hm_get (dk_files (ga_disk g)) (segment_name (of_nat (length pre) + 1)) = None"
    by (simp add: hm_get_def map_of_eq_None_iff add.commute)
  let ?h = "header_encode (ae_sha e) (new_header (of_nat (length ?pre)) ?seq (chain_end ?p rs))"
  let ?g = "g\<lparr>ga_disk := set_file (segment_name (of_nat (length ?pre))) ?h (ga_disk g),
    ga_segment_name := segment_name (of_nat (length ?pre)), ga_offset := of_nat (length ?h), ga_segment_index := of_nat (length ?pre)\<rparr>"
  have run: "rotate_segment e fault g = (if fault = RoSync then (g\<lparr>ga_broken := True\<rparr>, Err (RotationFailed ''sync current''))
      else if fault = RoCreate then (g, Err (RotationFailed ''create segment'')) else (?g, Ok ()))"
    using assms(1,2,4) none
    by (cases fault) (simp_all add: rotate_segment_def gate_ok_def env_ok_def Let_def add.commute add.left_commute)
  have hl: "length ?h = HEADER_SIZE"
    by (rule seg_header(1)) (use assms(1) chain_end_length [OF disk_okD(4,3) [OF d]] in simp_all)
  have "dk_files (ga_disk ?g) = layout e 0 zero_hash (?pre @ [(?seq, [], [])])"
    using fresh d by (simp add: set_file_def hm_insert_last disk_ok_unfold layout_append tip)
  moreover have "segs_ok e 0 zero_hash (?pre @ [(?seq, [], [])])"
    using d by (simp add: disk_ok_unfold segs_ok_append chain_end_def no_frames)
  moreover have "anchored a (length ?pre) []"
  proof -
    have "(of_nat (length pre) :: u64) < of_nat (length ?pre)" by (rule of_nat_less_u64) (use assms(3) in simp_all)
    with d show ?thesis by (auto simp: anchored_def disk_ok_unfold)
  qed
  ultimately have "disk_ok e ?pre ?seq [] [] a (ga_disk ?g)"
    using d assms(3) hl by (simp add: disk_ok_unfold counted_append set_file_def tip audit_sizes)
  then have "gate_ok e ?pre ?seq [] a ?g"
    using assms(2) tip by (simp add: gate_ok_def chain_end_def)
  with assms(5) run show "res = Ok () \<and> gate_ok e ?pre ?seq [] a g' \<and> ga_sequence g' = ga_sequence g \<and> ga_last_hash g' = ga_last_hash g \<or>
    \<not> is_ok res \<and> (g' = g \<or> g' = g\<lparr>ga_broken := True\<rparr>)" by (auto split: if_splits)
  from assms(5) run show "fault = RoNone \<Longrightarrow> is_ok res" by auto
qed

section \<open>Recording an event\<close>

text \<open>What is left of the records \<open>recs\<close> after an attempt to append \<open>r\<close>.\<close>

definition recorded :: "audit_env \<Rightarrow> decoded_frame list \<Rightarrow> decoded_frame \<Rightarrow> audit_gate \<Rightarrow> bool \<Rightarrow> bool" where
  "recorded e recs r g success \<longleftrightarrow>
     (if success then gate_of e (recs @ [r]) g
      else gate_of e recs g \<or> ga_broken g \<and> (disk_of e recs (ga_disk g) \<or> disk_of e (recs @ [r]) (ga_disk g)))"

lemma append_recorded:
  assumes "env_ok e" and "gate_ok e pre first rs a g" and "length payload \<le> unat MAX_PAYLOAD_SIZE"
    and "length (seg_frames pre) + length rs + 1 < 2 ^ 64" and "r = next_frame e payload wall ticks g"
    and "length (seg_content e (length pre) (end_hash zero_hash pre) (first, rs, frame_of r)) \<le> 2 ^ 62"
    and "append_frame e fault (df_sequence r) (df_current_hash r) (frame_of r) g = (g', res)"
  shows "recorded e (seg_frames pre @ rs) r g' (is_ok res)"
  using append_frame_keeps [OF assms]
proof
  assume "res = Ok () \<and> (\<exists>a'. gate_ok e pre first (rs @ [r]) a' g')"
  then show ?thesis by (auto simp: recorded_def gate_of_def intro!: exI [of _ pre] exI [of _ first] exI [of _ "rs @ [r]"])
next
  assume *: "\<not> is_ok res \<and> ga_broken g' \<and> (\<exists>rs' tail a'. disk_ok e pre first rs' tail a' (ga_disk g') \<and> (rs' = rs \<or> rs' = rs @ [r]))"
  then obtain rs' tail a' where "disk_ok e pre first rs' tail a' (ga_disk g')" "rs' = rs \<or> rs' = rs @ [r]" by blast
  then have "disk_of e (seg_frames pre @ rs) (ga_disk g') \<or> disk_of e ((seg_frames pre @ rs) @ [r]) (ga_disk g')"
    unfolding disk_of_def by (metis append.assoc)
  with * show ?thesis by (simp add: recorded_def)
qed

lemma rotate_recorded:
  assumes "env_ok e" and "gate_ok e pre first rs a g" and "length payload \<le> unat MAX_PAYLOAD_SIZE"
    and "length (seg_frames pre) + length rs + 1 < 2 ^ 64" and r: "r = next_frame e payload wall ticks g"
    and "length pre + 1 < 1000000" and "\<forall>n. rfault \<noteq> RoHeader n"
    and run: "and_then (rotate_segment e rfault g) (\<lambda>g _. append_frame e fault (df_sequence r) (df_current_hash r) (frame_of r) g) = (g', res)"
  shows "recorded e (seg_frames pre @ rs) r g' (is_ok res)" and "fault = RfNone \<Longrightarrow> rfault = RoNone \<Longrightarrow> is_ok res"
proof -
  obtain g1 r1 where rot: "rotate_segment e rfault g = (g1, r1)" by fastforce
  note keeps = rotate_keeps [OF assms(1,2,6,7) rot]
  let ?pre = "pre @ [(first, rs, [])]" and ?seq = "of_nat (Suc (length (seg_frames pre) + length rs)) :: u64"
  from keeps(1) have "recorded e (seg_frames pre @ rs) r g' (is_ok res) \<and> (fault = RfNone \<longrightarrow> rfault = RoNone \<longrightarrow> is_ok res)"
  proof
    assume ok: "r1 = Ok () \<and> gate_ok e ?pre ?seq [] a g1 \<and> ga_sequence g1 = ga_sequence g \<and> ga_last_hash g1 = ga_last_hash g"
    then have r1: "r = next_frame e payload wall ticks g1" by (simp add: r next_frame_def)
    from ok run rot have app: "append_frame e fault (df_sequence r) (df_current_hash r) (frame_of r) g1 = (g', res)" by simp
    have g1: "gate_ok e ?pre ?seq [] a g1" using ok by blast
    have dk: "disk_ok e ?pre ?seq [] [] a (ga_disk g1)" using g1 by (simp add: gate_ok_def)
    have "length (frame_of r) \<le> 65640"
      using frame_length [OF next_frame_ok [OF assms(1-3), of wall ticks, folded r]] assms(3) r
      by (simp add: next_frame_def max_frame FRAME_OVERHEAD_def)
    then have "length (seg_content e (length ?pre) (end_hash zero_hash ?pre) (?seq, [], frame_of r)) \<le> 2 ^ 62"
      using seg_header(1) [OF assms(1) disk_okD(3) [OF dk]] by (simp add: audit_sizes)
    from append_recorded [OF assms(1) g1 assms(3) _ r1 this app] assms(4)
    have "recorded e (seg_frames pre @ rs) r g' (is_ok res)" by simp
    moreover have "fault = RfNone \<Longrightarrow> is_ok res" using append_frame_succeeds [of e "df_sequence r" "df_current_hash r" "frame_of r" g1] app by simp
    ultimately show ?thesis by blast
  next
    assume err: "\<not> is_ok r1 \<and> (g1 = g \<or> g1 = g\<lparr>ga_broken := True\<rparr>)"
    with run rot have "g' = g1" "\<not> is_ok res" by (cases r1; simp)+
    moreover have "gate_of e (seg_frames pre @ rs) g" using assms(2) by (auto simp: gate_of_def)
    ultimately show ?thesis
      using err keeps(2) gate_of_disk [of e "seg_frames pre @ rs" g] by (auto simp: recorded_def)
  qed
  then show "recorded e (seg_frames pre @ rs) r g' (is_ok res)" and "fault = RfNone \<Longrightarrow> rfault = RoNone \<Longrightarrow> is_ok res" by simp_all
qed

definition payload_of :: "bytes option \<Rightarrow> bytes" where
  "payload_of json = (case json of None \<Rightarrow> [] | Some p \<Rightarrow> p)"

lemma record_event_keeps:
  assumes "env_ok e" and "gate_of e recs g" and "length (dk_files (ga_disk g)) < 1000000"
    and "length (payload_of json) < 2 ^ 32" and "\<forall>n. rfault \<noteq> RoHeader n"
    and "record_event e fault rfault json wall ticks g = (g', res)"
  shows "recorded e recs (next_frame e (payload_of json) wall ticks g) g' (is_ok res)"
    and "fault = RfNone \<Longrightarrow> rfault = RoNone \<Longrightarrow> json = Some p \<Longrightarrow> length p \<le> unat MAX_PAYLOAD_SIZE \<Longrightarrow> length recs + 1 < 2 ^ 64 \<Longrightarrow> is_ok res"
proof -
  from assms(2) obtain pre first rs a where g: "gate_ok e pre first rs a g" and recs: "recs = seg_frames pre @ rs"
    by (auto simp: gate_of_def)
  define r where "r = next_frame e (payload_of json) wall ticks g"
  have d: "disk_ok e pre first rs [] a (ga_disk g)" and live: "\<not> ga_broken g" and k: "length pre + 1 < 1000000"
    using g assms(3) by (simp_all add: gate_ok_def disk_ok_unfold)
  have seq: "unat (ga_sequence g) = length recs" using g d by (simp add: gate_ok_def disk_ok_unfold recs unat_of_nat del: of_nat_add)
  have same: "recorded e recs r' g False" "recorded e recs r' (g\<lparr>ga_broken := True\<rparr>) False" for r'
    using assms(2) gate_of_disk [OF assms(2)] by (simp_all add: recorded_def)
  have main: "recorded e recs r g' (is_ok res) \<and> (fault = RfNone \<longrightarrow> rfault = RoNone \<longrightarrow> is_ok res)"
    if p: "json = Some p" "length p \<le> unat MAX_PAYLOAD_SIZE" and n: "length recs + 1 < 2 ^ 64" for p
  proof -
    let ?c = "seg_content e (length pre) (end_hash zero_hash pre) (first, rs, [])"
    have po: "length (payload_of json) \<le> unat MAX_PAYLOAD_SIZE" and n': "length (seg_frames pre) + length rs + 1 < 2 ^ 64"
      using p n by (simp_all add: payload_of_def recs)
    have small: "\<not> MAX_PAYLOAD_SIZE < of_nat (length p)" using p(2) by (simp add: word_less_nat_alt unat_of_nat max_frame)
    have add: "checked_add (ga_sequence g) 1 = Some (ga_sequence g + 1)" using n seq by (simp add: checked_add_def)
    let ?app = "append_frame e fault (df_sequence r) (df_current_hash r) (frame_of r)"
    have "record_event e fault rfault json wall ticks g = (if ga_max_segment_size g < of_nat (length ?c) + of_nat (length (frame_of r))
        then and_then (rotate_segment e rfault g) (\<lambda>g _. ?app g) else ?app g)"
      using live small
      by (simp add: record_event_def Let_def p add gate_file(1) [OF g] r_def next_frame_def frame_of_def payload_of_def del: seg_content.simps)
    with assms(6) have run: "(if ga_max_segment_size g < of_nat (length ?c) + of_nat (length (frame_of r))
        then and_then (rotate_segment e rfault g) (\<lambda>g _. ?app g) else ?app g) = (g', res)" by (simp only:)
    show ?thesis
    proof (cases "ga_max_segment_size g < of_nat (length ?c) + of_nat (length (frame_of r))")
      case True
      with run have "and_then (rotate_segment e rfault g) (\<lambda>g _. ?app g) = (g', res)" by (simp only: if_True)
      from rotate_recorded [OF assms(1) g po n' r_def k assms(5) this] recs show ?thesis by blast
    next
      case False
      have "length (frame_of r) \<le> 65640"
        using frame_length [OF next_frame_ok [OF assms(1) g po, of wall ticks, folded r_def]] po
        by (simp add: r_def next_frame_def max_frame FRAME_OVERHEAD_def)
      moreover have "length ?c \<le> 2 ^ 62" using d by (simp add: disk_ok_unfold)
      ultimately have "unat (of_nat (length ?c) + of_nat (length (frame_of r)) :: u64) = length ?c + length (frame_of r)"
        by (subst of_nat_add [symmetric]) (simp add: unat_of_nat del: of_nat_add seg_content.simps)
      moreover have "unat (ga_max_segment_size g) \<le> 2 ^ 62" using g by (simp add: gate_ok_def word_le_nat_alt)
      ultimately have "length ?c + length (frame_of r) \<le> 2 ^ 62"
        using False by (simp add: word_less_nat_alt del: seg_content.simps)
      then have b: "length (seg_content e (length pre) (end_hash zero_hash pre) (first, rs, frame_of r)) \<le> 2 ^ 62" by simp
      from run False have app: "?app g = (g', res)" by simp
      have "fault = RfNone \<Longrightarrow> is_ok res"
        using append_frame_succeeds [of e "df_sequence r" "df_current_hash r" "frame_of r" g] app by simp
      with append_recorded [OF assms(1) g po n' r_def b app] recs show ?thesis by simp
    qed
  qed
  show "recorded e recs (next_frame e (payload_of json) wall ticks g) g' (is_ok res)"
  proof (cases json)
    case None
    with assms(6) live same show ?thesis by (auto simp: record_event_def)
  next
    case (Some p)
    show ?thesis
    proof (cases "length p \<le> unat MAX_PAYLOAD_SIZE \<and> length recs + 1 < 2 ^ 64")
      case True
      with main Some show ?thesis by (simp add: r_def)
    next
      case False
      have "unat (of_nat (length p) :: u32) = length p" using assms(4) Some by (simp add: payload_of_def unat_of_nat)
      with False have "MAX_PAYLOAD_SIZE < of_nat (length p) \<or> checked_add (ga_sequence g) 1 = None"
        using seq by (auto simp: word_less_nat_alt checked_add_def)
      with assms(6) Some live same show ?thesis by (auto simp: record_event_def split: if_splits)
    qed
  qed
  show "fault = RfNone \<Longrightarrow> rfault = RoNone \<Longrightarrow> json = Some p \<Longrightarrow> length p \<le> unat MAX_PAYLOAD_SIZE \<Longrightarrow> length recs + 1 < 2 ^ 64 \<Longrightarrow> is_ok res"
    using main by blast
qed

section \<open>Start-up\<close>

lemma tip_read:
  assumes "env_ok e" and "files_ok e pre first rs tail d"
  defines "k \<equiv> length pre" and "p \<equiv> end_hash zero_hash pre"
  shows "list_segments d \<noteq> []" and "verify_all_segments e d (list_segments d) = Ok ()"
    and "read_tip e d (last (list_segments d)) =
      Ok \<lparr>st_name = segment_name (of_nat k), st_index = of_nat k, st_last_seq = tip_seq rs,
          st_valid_offset = of_nat (length (seg_content e k p (first, rs, []))),
          st_file_size = of_nat (length (seg_content e k p (first, rs, tail))),
          st_next_seq = of_nat (Suc (length (seg_frames pre) + length rs)), st_next_hash = chain_end p rs,
          st_content = seg_content e k p (first, rs, tail)\<rparr>"
proof -
  let ?segs = "pre @ [(first, rs, tail)]"
  have files: "dk_files d = layout e 0 zero_hash ?segs" and len: "length ?segs \<le> 1000000" and ok: "segs_ok e 0 zero_hash ?segs"
    and c: "closed pre" and b: "length (seg_content e k p (first, rs, tail)) \<le> 2 ^ 62"
    using assms(2) by (simp_all add: files_ok_def k_def p_def)
  note list = layout_listed [OF files len]
  show "list_segments d \<noteq> []" by (simp add: list layout_append)
  have get: "\<forall>(n, c) \<in> set (layout e 0 zero_hash ?segs). hm_get (dk_files d) n = Some c"
    unfolding files using layout_get [OF len] by blast
  show "verify_all_segments e d (list_segments d) = Ok ()"
    unfolding list verify_all_segments_def by (rule verify_layout) (use assms(1) ok c get in auto)
  have last: "last (list_segments d) = segment_name (of_nat k)" by (simp add: list layout_append k_def)
  have o: "open_file_at d (segment_name (of_nat k)) = Ok (seg_content e k p (first, rs, tail))"
    using get by (simp add: open_file_at_def layout_append k_def p_def del: seg_content.simps)
  note s = files_okD [OF assms(2), folded p_def]
  note reads = seg_reads [OF assms(1) s(3,1), of k]
  have hl: "length (seg_content e k p (first, rs, [])) = HEADER_SIZE + length (concat (map frame_of rs))"
    using seg_header(1) [OF assms(1) s(3)] by simp
  have ne: "0 < length (concat (map frame_of rs))" if "rs \<noteq> []"
    using frame_length [of "ae_sha e" "hd rs"] s(4) that by (cases rs) auto
  have empty: "(of_nat (HEADER_SIZE + length (concat (map frame_of rs))) :: u64) \<le> of_nat HEADER_SIZE \<longleftrightarrow> rs = []"
    using b ne hl by (cases "rs = []") (simp_all add: word_le_nat_alt unat_of_nat audit_sizes del: of_nat_add)
  have nseq: "(if rs = [] then first else tip_seq rs + 1) = of_nat (Suc (length (seg_frames pre) + length rs))"
    using s(2) numbered_last [OF s(5)] by (simp add: tip_seq_def add.assoc)
  show "read_tip e d (last (list_segments d)) = Ok \<lparr>st_name = segment_name (of_nat k), st_index = of_nat k, st_last_seq = tip_seq rs,
      st_valid_offset = of_nat (length (seg_content e k p (first, rs, []))),
      st_file_size = of_nat (length (seg_content e k p (first, rs, tail))),
      st_next_seq = of_nat (Suc (length (seg_frames pre) + length rs)), st_next_hash = chain_end p rs,
      st_content = seg_content e k p (first, rs, tail)\<rparr>"
    unfolding last read_tip_def extract_segment_name o res_bind_simps reads(1,2) prod.case Let_def empty hl
    using nseq by (cases "rs = []") (simp_all add: new_header_def chain_end_def)
qed

lemma files_verify:
  assumes "env_ok e" and "files_ok e pre first rs tail d" and "length tail < 4"
  shows "verify_all e d = Ok (of_nat (length (seg_frames pre) + length rs))"
proof -
  let ?segs = "pre @ [(first, rs, tail)]"
  have files: "dk_files d = layout e 0 zero_hash ?segs" and len: "length ?segs \<le> 1000000" and ok: "segs_ok e 0 zero_hash ?segs"
    and c: "closed pre" using assms(2) by (simp_all add: files_ok_def)
  have get: "\<forall>(n, c) \<in> set (layout e 0 zero_hash ?segs). hm_get (dk_files d) n = Some c"
    unfolding files using layout_get [OF len] by blast
  have "count_segments d 0 (map fst (layout e 0 zero_hash ?segs)) = Ok (0 + of_nat (length (seg_frames ?segs)))"
    by (rule count_layout) (use assms(1,3) ok get c in \<open>auto simp: closed_def\<close>)
  then show ?thesis
    using tip_read(2) [OF assms(1,2)] layout_listed [OF files len] by (simp add: verify_all_def Let_def)
qed

text \<open>The result of a start on a disk with the records \<open>recs\<close>: they are all there, and at most the recovery record is new.\<close>

definition started :: "audit_env \<Rightarrow> decoded_frame list \<Rightarrow> audit_disk \<Rightarrow> audit_error + audit_gate \<Rightarrow> bool" where
  "started e recs d res \<longleftrightarrow> (\<exists>recs'. (recs' = recs \<or> (\<exists>r. recs' = recs @ [r])) \<and>
     (case res of Inl _ \<Rightarrow> disk_of e recs' d | Inr g \<Rightarrow> ga_disk g = d \<and> gate_of e recs' g))"

text \<open>The gate that start-up opens on the last segment, after cutting off the bytes that are no frame.\<close>

definition resumed :: "audit_env \<Rightarrow> log_segment list \<Rightarrow> u64 \<Rightarrow> decoded_frame list \<Rightarrow> bytes \<Rightarrow> anchor_state \<Rightarrow> u64 \<Rightarrow> audit_disk \<Rightarrow> audit_gate" where
  "resumed e pre first rs tail a max_size d =
     (let name = segment_name (of_nat (length pre)); c = seg_content e (length pre) (end_hash zero_hash pre) (first, rs, []) in
      \<lparr>ga_disk = if tail = [] then d else set_file name c d, ga_segment_name = name, ga_offset = of_nat (length c),
       ga_sequence = of_nat (length (seg_frames pre) + length rs), ga_last_hash = chain_end (end_hash zero_hash pre) rs,
       ga_broken = False, ga_max_segment_size = max_size, ga_segment_index = of_nat (length pre), ga_anchor = a\<rparr>)"

lemma resumed_ok:
  assumes "disk_ok e pre first rs tail a d" and "max_size \<le> 2 ^ 62"
  shows "gate_ok e pre first rs a (resumed e pre first rs tail a max_size d)"
    and "length (dk_files (ga_disk (resumed e pre first rs tail a max_size d))) = length (dk_files d)"
proof -
  let ?n = "segment_name (of_nat (length pre))" and ?c = "seg_content e (length pre) (end_hash zero_hash pre) (first, rs, [])"
  have "disk_ok e pre first rs [] a (set_file ?n ?c d)"
    by (rule disk_ok_replace [OF assms(1)]) (use assms(1) disk_okD(1) [OF assms(1)] in \<open>simp_all add: disk_ok_unfold set_file_def no_frames\<close>)
  then have dk: "disk_ok e pre first rs [] a (if tail = [] then d else set_file ?n ?c d)" using assms(1) by auto
  then show g: "gate_ok e pre first rs a (resumed e pre first rs tail a max_size d)"
    using assms(2) by (simp add: gate_ok_def resumed_def Let_def del: seg_content.simps)
  show "length (dk_files (ga_disk (resumed e pre first rs tail a max_size d))) = length (dk_files d)"
    using g assms(1) by (auto simp: gate_ok_def dest!: disk_ok_files)
qed

text \<open>The part of a start that may record, once the segment is open.\<close>

definition recover :: "audit_env \<Rightarrow> record_fault \<Rightarrow> rotate_fault \<Rightarrow> u64 \<Rightarrow> u64 \<Rightarrow> daemon_recover \<Rightarrow> bool \<Rightarrow> audit_gate \<Rightarrow>
    audit_disk \<times> (audit_error + audit_gate)" where
  "recover e fault rfault wall ticks rec needs g =
     (if needs then
        (case record_event e fault rfault (ae_recover_json e wall rec) wall ticks g of
           (g', Inl err) \<Rightarrow> (ga_disk g', Err err) | (g', Inr _) \<Rightarrow> (ga_disk g', Ok g'))
      else (ga_disk g, Ok g))"

lemma initialize_resumes:
  assumes "env_ok e" and d: "files_ok e pre first rs tail d" and an: "dk_anchor d = Some (encode_anchor (ae_sha e) a)"
    "length (an_hash a) = 32" "an_segment_index a \<le> of_nat (length pre)" "tail = [] \<or> anchored a (length pre) rs"
  defines "needs \<equiv> tail \<noteq> [] \<or> an_sequence a < tip_seq rs \<or> an_segment_index a < of_nat (length pre)"
  shows "\<exists>rec. initialize_or_verify e sfault fault rfault wall ticks max_size d =
    (if tail \<noteq> [] \<and> sfault = SfTruncate False then (d, Err (AeIo ''set_len''))
     else if tail \<noteq> [] \<and> sfault = SfTruncate True then (ga_disk (resumed e pre first rs tail a max_size d), Err (AeIo ''fsync''))
     else if sfault = SfOpen then (ga_disk (resumed e pre first rs tail a max_size d), Err (AeIo ''openat''))
     else recover e fault rfault wall ticks rec needs (resumed e pre first rs tail a max_size d))"
proof -
  let ?k = "length pre" and ?p = "end_hash zero_hash pre"
  let ?c = "\<lambda>tail. seg_content e ?k ?p (first, rs, tail)"
  note tip = tip_read [OF assms(1) d]
  have env: "ae_check e n = Ok ()" for n using assms(1) by (simp add: env_ok_def)
  have load: "load_anchor e d = Ok (Some a)"
    using anchor_roundtrip [of "ae_sha e" a] assms(1) an(1,2) by (simp add: load_anchor_def env env_ok_def)
  have b: "length (?c tail) \<le> 2 ^ 62" "length (?c []) \<le> 2 ^ 62" "length (?c tail) = length (?c []) + length tail"
    using d by (simp_all add: files_ok_def)
  then have garbage: "(of_nat (length (?c [])) :: u64) < of_nat (length (?c tail)) \<longleftrightarrow> tail \<noteq> []"
    by (cases "tail = []") (simp_all add: word_less_nat_alt unat_of_nat del: of_nat_add seg_content.simps)
  have trunc: "truncate_to (unat (of_nat (length (?c [])) :: u64)) (?c tail) = ?c []"
    using b(2) write_at_end(2) [of "?c []" tail] seg_content_tail(1) [of e ?k ?p first rs tail]
    by (simp add: unat_of_nat del: seg_content.simps)
  have ck: "check_anchor (Some a) (of_nat ?k) (tail \<noteq> []) (tip_seq rs) = Ok ()"
    using an(3,4) by (auto simp: check_anchor_def anchored_def)
  let ?rec = "\<lparr>dr_reason = (if tail \<noteq> [] then IncompleteTailTruncated else AnchorViolationRecovered),
    dr_truncated_size = (if tail \<noteq> [] then of_nat (length (?c tail)) - of_nat (length (?c [])) else 0),
    dr_anchor_segment = an_segment_index a, dr_anchor_sequence = an_sequence a\<rparr>"
  have same: "?c tail = ?c []" if "tail = []" using that by simp
  show ?thesis
    unfolding initialize_or_verify_def Let_def load sum.case tip(2) res_bind_simps tip(3) segment_tip.simps garbage ck resume_def env
      option.case
    using tip(1) trunc same
    by (intro exI [of _ ?rec])
      (cases "tail = []"; simp add: recover_def resumed_def Let_def needs_def disj_commute del: seg_content.simps)
qed

lemma recover_keeps:
  assumes "env_ok e" and g: "gate_of e recs g" and "length (dk_files (ga_disk g)) < 1000000" and "\<forall>n. rfault \<noteq> RoHeader n"
    and run: "recover e fault rfault wall ticks rec needs g = (d', res)"
  shows "started e recs d' res" and "fault = RfNone \<Longrightarrow> rfault = RoNone \<Longrightarrow> length recs + 1 < 2 ^ 64 \<Longrightarrow> is_ok res"
proof -
  obtain g' r where r: "record_event e fault rfault (ae_recover_json e wall rec) wall ticks g = (g', r)" by fastforce
  obtain p where p: "ae_recover_json e wall rec = Some p" "length p \<le> unat MAX_PAYLOAD_SIZE" using assms(1) unfolding env_ok_def by blast
  then have short: "length (payload_of (ae_recover_json e wall rec)) < 2 ^ 32" by (simp add: payload_of_def max_frame)
  note keeps = record_event_keeps [OF assms(1-3) short assms(4) r]
  have "started e recs d' res \<and> (fault = RfNone \<longrightarrow> rfault = RoNone \<longrightarrow> length recs + 1 < 2 ^ 64 \<longrightarrow> is_ok res)"
  proof (cases needs)
    case True
    have "case r of Inl _ \<Rightarrow> disk_of e recs (ga_disk g') \<or> (\<exists>r. disk_of e (recs @ [r]) (ga_disk g')) | Inr _ \<Rightarrow> \<exists>r. gate_of e (recs @ [r]) g'"
      using keeps(1) gate_of_disk [of e recs g'] by (cases r) (auto simp: recorded_def)
    then have "started e recs (ga_disk g') (case r of Inl err \<Rightarrow> Err err | Inr _ \<Rightarrow> Ok g')" by (cases r) (auto simp: started_def)
    moreover have "d' = ga_disk g'" "res = (case r of Inl err \<Rightarrow> Err err | Inr _ \<Rightarrow> Ok g')"
      using run r True by (cases r; simp add: recover_def)+
    ultimately have "started e recs d' res" by simp
    moreover have "is_ok res = is_ok r" using run r True by (cases r) (auto simp: recover_def)
    ultimately show ?thesis using keeps(2) p by simp
  next
    case False
    with run g show ?thesis by (auto simp: recover_def started_def)
  qed
  then show "started e recs d' res" and "fault = RfNone \<Longrightarrow> rfault = RoNone \<Longrightarrow> length recs + 1 < 2 ^ 64 \<Longrightarrow> is_ok res" by simp_all
qed

lemma initialize_keeps:
  assumes "env_ok e" and "disk_of e recs d" and "length (dk_files d) < 1000000" and "max_size \<le> 2 ^ 62"
    and "\<forall>n. rfault \<noteq> RoHeader n" and run: "initialize_or_verify e sfault fault rfault wall ticks max_size d = (d', res)"
  shows "started e recs d' res" and "sfault = SfNone \<Longrightarrow> fault = RfNone \<Longrightarrow> rfault = RoNone \<Longrightarrow> length recs + 1 < 2 ^ 64 \<Longrightarrow> is_ok res"
proof -
  from assms(2) obtain pre first rs tail a where d: "disk_ok e pre first rs tail a d" and recs: "recs = seg_frames pre @ rs"
    by (auto simp: disk_of_def)
  let ?g = "resumed e pre first rs tail a max_size d"
  have g: "gate_of e recs ?g" using resumed_ok(1) [OF d assms(4)] recs by (auto simp: gate_of_def)
  have len: "length (dk_files (ga_disk ?g)) < 1000000" using resumed_ok(2) [OF d assms(4)] assms(3) by simp
  have an: "dk_anchor d = Some (encode_anchor (ae_sha e) a)" "length (an_hash a) = 32" "an_segment_index a \<le> of_nat (length pre)"
    "tail = [] \<or> anchored a (length pre) rs" using d by (simp_all add: disk_ok_def anchored_def)
  from initialize_resumes [OF assms(1) disk_ok_parts [OF d] an, of sfault fault rfault wall ticks max_size] obtain rec needs where
    "initialize_or_verify e sfault fault rfault wall ticks max_size d =
      (if tail \<noteq> [] \<and> sfault = SfTruncate False then (d, Err (AeIo ''set_len''))
       else if tail \<noteq> [] \<and> sfault = SfTruncate True then (ga_disk ?g, Err (AeIo ''fsync''))
       else if sfault = SfOpen then (ga_disk ?g, Err (AeIo ''openat''))
       else recover e fault rfault wall ticks rec needs ?g)" by blast
  with run have cases: "(d' = d \<or> d' = ga_disk ?g) \<and> \<not> is_ok res \<and> sfault \<noteq> SfNone \<or> recover e fault rfault wall ticks rec needs ?g = (d', res)"
    by (auto split: if_splits)
  note keeps = recover_keeps [OF assms(1) g len assms(5)]
  have "started e recs x res" if "x = d \<or> x = ga_disk ?g" "\<not> is_ok res" for x
    using that assms(2) gate_of_disk [OF g] by (cases res) (auto simp: started_def)
  with cases keeps(1) show "started e recs d' res" by blast
  show "sfault = SfNone \<Longrightarrow> fault = RfNone \<Longrightarrow> rfault = RoNone \<Longrightarrow> length recs + 1 < 2 ^ 64 \<Longrightarrow> is_ok res"
    using cases keeps(2) by blast
qed

end
