(* ===== verification/Audit_Safety.thy ===== *)
theory Audit_Safety
  imports Audit_Recovery
begin

text \<open>
  The life of the audit log: starts, records and crashes in any order, with failures of writes, syncs, truncations and renames.
  Acknowledged records survive and the log opens again; and what the checks at start-up miss.
\<close>

section \<open>Starts, records and crashes\<close>

datatype audit_op =
    Start start_fault record_fault rotate_fault u64 u64 u64
  | Record record_fault rotate_fault "bytes option" u64 u64
  | Crash

record audit_life =
  al_disk :: audit_disk
  al_gate :: "audit_gate option"

text \<open>A step and, where a start or a record was attempted, its result.\<close>

fun audit_step :: "audit_env \<Rightarrow> audit_life \<Rightarrow> audit_op \<Rightarrow> audit_life \<times> (audit_error + unit) option" where
  "audit_step e s (Start sfault fault rfault wall ticks max_size) =
     (case initialize_or_verify e sfault fault rfault wall ticks max_size (al_disk s) of
        (d, Inl err) \<Rightarrow> (\<lparr>al_disk = d, al_gate = None\<rparr>, Some (Err err))
      | (d, Inr g) \<Rightarrow> (\<lparr>al_disk = d, al_gate = Some g\<rparr>, Some (Ok ())))"
| "audit_step e s (Record fault rfault json wall ticks) =
     (case al_gate s of
        None \<Rightarrow> (s, None)
      | Some g \<Rightarrow>
          (case record_event e fault rfault json wall ticks g of
             (g', res) \<Rightarrow> (\<lparr>al_disk = ga_disk g', al_gate = Some g'\<rparr>, Some res)))"
| "audit_step e s Crash = (s\<lparr>al_gate := None\<rparr>, None)"

definition blank_log :: audit_life where
  "blank_log = \<lparr>al_disk = \<lparr>dk_files = [], dk_anchor = None\<rparr>, al_gate = None\<rparr>"

text \<open>
  The operations considered: events shorter than 4 GiB, segments of at most \<open>2 ^ 62\<close> bytes, and a file system that either does not
  create the file of a new segment or writes its 88-byte header and, in a rotation, syncs it and opens the file again.  What happens
  otherwise is \<open>partial_header_locks_log\<close> and \<open>partial_first_header_locks_log\<close>.
\<close>

definition header_whole :: "start_fault \<Rightarrow> bool" where
  "header_whole sfault = (case sfault of SfHeader n \<Rightarrow> HEADER_SIZE \<le> n | _ \<Rightarrow> True)"

fun audit_op_ok :: "audit_op \<Rightarrow> bool" where
  "audit_op_ok (Start sfault fault rfault wall ticks max_size) \<longleftrightarrow>
     header_whole sfault \<and> (case rfault of RoHeader _ \<Rightarrow> False | _ \<Rightarrow> True) \<and> max_size \<le> 2 ^ 62"
| "audit_op_ok (Record fault rfault json wall ticks) \<longleftrightarrow>
     (case rfault of RoHeader _ \<Rightarrow> False | _ \<Rightarrow> True) \<and> length (payload_of json) < 2 ^ 32"
| "audit_op_ok Crash \<longleftrightarrow> True"

text \<open>What the callers of \<open>record\<close> were told is on disk: wall clock, monotonic clock and payload of every event recorded with success.\<close>

definition stamp :: "decoded_frame \<Rightarrow> u64 \<times> u64 \<times> bytes" where
  "stamp r = (df_wall_time_ms r, df_monotonic_ms r, df_payload r)"

fun acknowledged :: "(audit_op \<times> (audit_error + unit) option) list \<Rightarrow> (u64 \<times> u64 \<times> bytes) list" where
  "acknowledged [] = []"
| "acknowledged ((Record fault rfault json wall ticks, Some (Inr _)) # t) = (wall, ticks, payload_of json) # acknowledged t"
| "acknowledged (_ # t) = acknowledged t"

lemma acknowledged_append: "acknowledged (t @ t') = acknowledged t @ acknowledged t'"
  by (induction t rule: acknowledged.induct) auto

section \<open>The invariant\<close>

text \<open>The disk after a start that wrote the first header and no anchor.\<close>

definition first_disk :: "audit_env \<Rightarrow> audit_disk" where
  "first_disk e = \<lparr>dk_files = [(''audit-000000.log'', header_encode (ae_sha e) (new_header 0 1 zero_hash))], dk_anchor = None\<rparr>"

text \<open>No start has succeeded or written the anchor yet.\<close>

definition unopened :: "audit_env \<Rightarrow> audit_life \<Rightarrow> bool" where
  "unopened e s \<longleftrightarrow> al_gate s = None \<and> (al_disk s = al_disk blank_log \<or> al_disk s = first_disk e)"

definition life_ok :: "audit_env \<Rightarrow> decoded_frame list \<Rightarrow> audit_life \<Rightarrow> bool" where
  "life_ok e recs s \<longleftrightarrow> unopened e s \<and> recs = [] \<or>
     disk_of e recs (al_disk s) \<and>
       (case al_gate s of None \<Rightarrow> True | Some g \<Rightarrow> ga_disk g = al_disk s \<and> (gate_of e recs g \<or> ga_broken g))"

definition first_gate :: "audit_env \<Rightarrow> u64 \<Rightarrow> audit_gate" where
  "first_gate e max_size =
     \<lparr>ga_disk = write_anchor e anchor_initial (first_disk e),
      ga_segment_name = ''audit-000000.log'', ga_offset = of_nat HEADER_SIZE, ga_sequence = 0,
      ga_last_hash = zero_hash, ga_broken = False, ga_max_segment_size = max_size, ga_segment_index = 0, ga_anchor = anchor_initial\<rparr>"

lemma files_ok_anchor: "files_ok e pre first rs tail (write_anchor e' a d) = files_ok e pre first rs tail d"
  by (simp add: files_ok_def write_anchor_def)

lemma first_gate_ok:
  assumes "env_ok e" and "max_size \<le> 2 ^ 62"
  shows "gate_ok e [] 1 [] anchor_initial (first_gate e max_size)" and "files_ok e [] 1 [] [] (first_disk e)"
proof -
  have name: "segment_name 0 = ''audit-000000.log''" by code_simp
  have hl: "length (header_encode (ae_sha e) (new_header 0 1 zero_hash)) = HEADER_SIZE" by (rule seg_header(1)) (use assms(1) in simp_all)
  then show f: "files_ok e [] 1 [] [] (first_disk e)"
    by (simp add: files_ok_def first_disk_def name chain_end_def no_frames audit_sizes)
  have "files_ok e [] 1 [] [] (ga_disk (first_gate e max_size))" using f by (simp add: first_gate_def files_ok_anchor)
  then have "disk_ok e [] 1 [] [] anchor_initial (ga_disk (first_gate e max_size))"
    by (simp add: disk_ok_def first_gate_def write_anchor_def anchored_def anchor_initial_def)
  with assms(2) name hl show "gate_ok e [] 1 [] anchor_initial (first_gate e max_size)"
    by (simp add: gate_ok_def first_gate_def chain_end_def)
qed

lemma first_gate_of: "env_ok e \<Longrightarrow> max_size \<le> 2 ^ 62 \<Longrightarrow> gate_of e [] (first_gate e max_size)"
  unfolding gate_of_def by (intro exI conjI, rule first_gate_ok(1)) simp_all

text \<open>A start on an empty directory, and one on a directory with the first header only.\<close>

lemma blank_start:
  assumes "env_ok e"
  shows "initialize_or_verify e sfault fault rfault wall ticks max_size (al_disk blank_log) =
    (case sfault of
       SfCreate \<Rightarrow> (al_disk blank_log, Err (RotationFailed ''create initial segment''))
     | SfHeader n \<Rightarrow> (set_file ''audit-000000.log'' (take n (header_encode (ae_sha e) (new_header 0 1 zero_hash))) (al_disk blank_log), Err (AeIo ''header''))
     | SfOpen \<Rightarrow> (first_disk e, Err (AeIo ''openat''))
     | SfAnchor renamed \<Rightarrow> (if renamed then ga_disk (first_gate e max_size) else first_disk e, Err (AeIo ''write anchor''))
     | _ \<Rightarrow> (ga_disk (first_gate e max_size), Ok (first_gate e max_size)))"
proof -
  have "length (header_encode (ae_sha e) (new_header 0 1 zero_hash)) = HEADER_SIZE" by (rule seg_header(1)) (use assms in simp_all)
  then show ?thesis
    using assms
    by (cases sfault) (simp_all add: initialize_or_verify_def blank_log_def list_segments_def load_anchor_def create_initial_segment_def Let_def
      set_file_def hm_insert_def write_anchor_def env_ok_def first_gate_def first_disk_def)
qed

lemma header_start:
  assumes "env_ok e"
  shows "initialize_or_verify e sfault fault rfault wall ticks max_size (first_disk e) =
    (case sfault of
       SfOpen \<Rightarrow> (first_disk e, Err (AeIo ''openat''))
     | SfAnchor renamed \<Rightarrow> (if renamed then ga_disk (first_gate e max_size) else first_disk e, Err (AeIo ''write anchor''))
     | _ \<Rightarrow> (ga_disk (first_gate e max_size), Ok (first_gate e max_size)))"
proof -
  have m: "(0 :: u64) \<le> 2 ^ 62" by simp
  note tip = tip_read [OF assms first_gate_ok(2) [OF assms m]]
  have name: "segment_name 0 = ''audit-000000.log''" by code_simp
  have hl: "length (header_encode (ae_sha e) (new_header 0 1 zero_hash)) = HEADER_SIZE" by (rule seg_header(1)) (use assms in simp_all)
  have load: "load_anchor e (first_disk e) = Ok None" by (simp add: load_anchor_def first_disk_def)
  have env: "ae_check e n = Ok ()" for n using assms by (simp add: env_ok_def)
  show ?thesis
    unfolding initialize_or_verify_def Let_def load sum.case tip(2) res_bind_simps tip(3) segment_tip.simps resume_def env
    using tip(1)
    by (cases sfault) (simp_all add: check_anchor_def name hl chain_end_def first_gate_def anchor_initial_def)
qed

lemma unopened_start:
  assumes "env_ok e" and "d = al_disk blank_log \<or> d = first_disk e" and "header_whole sfault"
    and "initialize_or_verify e sfault fault rfault wall ticks max_size d = (d', res)"
  shows "res = Ok (first_gate e max_size) \<and> d' = ga_disk (first_gate e max_size) \<or>
    \<not> is_ok res \<and> (d' = al_disk blank_log \<or> d' = first_disk e \<or> d' = ga_disk (first_gate e max_size))"
    and "sfault = SfNone \<Longrightarrow> is_ok res"
proof -
  have hl: "length (header_encode (ae_sha e) (new_header 0 1 zero_hash)) = HEADER_SIZE" by (rule seg_header(1)) (use assms(1) in simp_all)
  then have w: "set_file ''audit-000000.log'' (take n (header_encode (ae_sha e) (new_header 0 1 zero_hash))) (al_disk blank_log) = first_disk e"
    if "HEADER_SIZE \<le> n" for n using that by (simp add: set_file_def blank_log_def first_disk_def hm_insert_def)
  show "res = Ok (first_gate e max_size) \<and> d' = ga_disk (first_gate e max_size) \<or>
    \<not> is_ok res \<and> (d' = al_disk blank_log \<or> d' = first_disk e \<or> d' = ga_disk (first_gate e max_size))"
    using assms(2-4) blank_start [OF assms(1), of sfault fault rfault wall ticks max_size]
      header_start [OF assms(1), of sfault fault rfault wall ticks max_size]
    by (cases sfault) (auto simp: header_whole_def w split: if_splits)
  show "sfault = SfNone \<Longrightarrow> is_ok res"
    using assms(2,4) blank_start [OF assms(1), of SfNone fault rfault wall ticks max_size]
      header_start [OF assms(1), of SfNone fault rfault wall ticks max_size] by auto
qed

lemma life_start:
  assumes "env_ok e" and "life_ok e recs s" and "length (dk_files (al_disk s)) < 1000000"
    and "audit_op_ok (Start sfault fault rfault wall ticks max_size)"
    and "audit_step e s (Start sfault fault rfault wall ticks max_size) = (s', y)"
  shows "\<exists>new. life_ok e (recs @ new) s'"
proof -
  obtain d res where run: "initialize_or_verify e sfault fault rfault wall ticks max_size (al_disk s) = (d, res)" by fastforce
  from assms(4) have x: "\<forall>n. rfault \<noteq> RoHeader n" "max_size \<le> 2 ^ 62" "header_whole sfault" by (auto split: rotate_fault.splits)
  show ?thesis
  proof (cases "unopened e s \<and> recs = []")
    case True
    then have "al_disk s = al_disk blank_log \<or> al_disk s = first_disk e" by (simp add: unopened_def)
    from unopened_start(1) [OF assms(1) this x(3) run] assms(5) run True first_gate_of [OF assms(1) x(2)]
      gate_of_disk [OF first_gate_of [OF assms(1) x(2)]]
    have "life_ok e (recs @ []) s'" by (cases res) (auto simp: life_ok_def unopened_def)
    then show ?thesis by blast
  next
    case False
    with assms(2) have "disk_of e recs (al_disk s)" by (auto simp: life_ok_def)
    from initialize_keeps(1) [OF assms(1) this assms(3) x(2,1) run] obtain recs' where
      r: "recs' = recs \<or> (\<exists>r. recs' = recs @ [r])" "case res of Inl _ \<Rightarrow> disk_of e recs' d | Inr g \<Rightarrow> ga_disk g = d \<and> gate_of e recs' g"
      by (auto simp: started_def)
    with run assms(5) have "life_ok e recs' s'" by (cases res) (auto simp: life_ok_def dest: gate_of_disk)
    with r(1) show ?thesis by (metis append.right_neutral)
  qed
qed

lemma life_step:
  assumes "env_ok e" and "life_ok e recs s" and "length (dk_files (al_disk s)) < 1000000" and "audit_op_ok x"
    and "audit_step e s x = (s', y)"
  shows "\<exists>new. life_ok e (recs @ new) s' \<and> subseq (acknowledged [(x, y)]) (map stamp new)"
proof (cases x)
  case Crash
  with assms(2,5) show ?thesis
    by (intro exI [of _ "[]"]) (auto simp: life_ok_def unopened_def)
next
  case (Start sfault fault rfault wall ticks max_size)
  with life_start [OF assms(1-3)] assms(4,5) show ?thesis by fastforce
next
  case (Record fault rfault json wall ticks)
  from Record assms(4) have x: "\<forall>n. rfault \<noteq> RoHeader n" "length (payload_of json) < 2 ^ 32" by (auto split: rotate_fault.splits)
  show ?thesis
  proof (cases "\<exists>g. al_gate s = Some g \<and> gate_of e recs g")
    case True
    then obtain g where g: "al_gate s = Some g" "gate_of e recs g" by blast
    with assms(2) have dk: "ga_disk g = al_disk s" by (auto simp: life_ok_def unopened_def)
    obtain g' res where run: "record_event e fault rfault json wall ticks g = (g', res)" by fastforce
    let ?r = "next_frame e (payload_of json) wall ticks g"
    from record_event_keeps(1) [OF assms(1) g(2) _ x(2,1) run] assms(3) dk have rec: "recorded e recs ?r g' (is_ok res)" by simp
    from g Record run assms(5) have s': "s' = \<lparr>al_disk = ga_disk g', al_gate = Some g'\<rparr>" and y: "y = Some res" by simp_all
    show ?thesis
    proof (cases "is_ok res")
      case True
      with rec s' have "life_ok e (recs @ [?r]) s'" by (auto simp: recorded_def life_ok_def dest: gate_of_disk)
      moreover have "subseq (acknowledged [(x, y)]) (map stamp [?r])"
        using True Record y by (cases res) (simp_all add: stamp_def next_frame_def)
      ultimately show ?thesis by blast
    next
      case False
      with rec s' have "life_ok e (recs @ []) s' \<or> life_ok e (recs @ [?r]) s'" by (auto simp: recorded_def life_ok_def dest: gate_of_disk)
      moreover have "acknowledged [(x, y)] = []" using False Record y by (cases res) simp_all
      ultimately show ?thesis by (metis list_emb_Nil)
    qed
  next
    case False
    have "s' = s \<and> acknowledged [(x, y)] = []"
    proof (cases "al_gate s")
      case (Some g)
      with False assms(2) have "ga_broken g" "ga_disk g = al_disk s" by (auto simp: life_ok_def unopened_def)
      with Some Record assms(5) show ?thesis by (auto simp: record_event_def)
    qed (use Record assms(5) in simp)
    with assms(2) show ?thesis by (intro exI [of _ "[]"]) simp
  qed
qed

section \<open>Runs\<close>

text \<open>Segments are never removed, and one operation adds only a few.\<close>

definition grows :: "nat \<Rightarrow> audit_disk \<Rightarrow> audit_disk \<Rightarrow> bool" where
  "grows n d d' \<longleftrightarrow> length (dk_files d) \<le> length (dk_files d') \<and> length (dk_files d') \<le> length (dk_files d) + n"

lemma grows_refl [simp]: "grows n d d"
  by (simp add: grows_def)

lemma grows_trans: "grows m d d' \<Longrightarrow> grows n d' d'' \<Longrightarrow> m + n \<le> k \<Longrightarrow> grows k d d''"
  by (simp add: grows_def)

lemma hm_insert_length: "length m \<le> length (hm_insert k v m)" "length (hm_insert k v m) \<le> Suc (length m)"
  by (induction m) (auto simp: hm_insert_def)

lemma grows_file:
  "grows 2 d (set_file name c d)" "grows 2 d (write_anchor e a d)" "grows 2 d (write_anchor e a (set_file name c d))"
  using hm_insert_length [where m = "dk_files d" and k = name and v = c] by (simp_all add: grows_def set_file_def write_anchor_def)

lemma append_frame_files: "grows 2 (ga_disk g) (ga_disk (fst (append_frame e fault seq h frame g)))"
  by (cases fault) (auto simp: append_frame_def Let_def set_content_def grows_file)

lemma rotate_files: "grows 2 (ga_disk g) (ga_disk (fst (rotate_segment e fault g)))"
  by (cases fault) (auto simp: rotate_segment_def Let_def grows_file split: sum.split)

lemma record_event_files: "grows 4 (ga_disk g) (ga_disk (fst (record_event e fault rfault json wall ticks g)))"
proof -
  have up: "grows 4 d d'" if "grows 2 d d'" for d d' using that by (simp add: grows_def)
  have "grows 4 (ga_disk g) (ga_disk (fst (and_then (rotate_segment e rfault g) (\<lambda>g _. append_frame e fault seq h frame g))))" for seq h frame
    using rotate_files [of g e rfault] append_frame_files [of "fst (rotate_segment e rfault g)" e fault seq h frame]
    by (auto simp: and_then_def grows_def split: prod.split sum.split)
  then show ?thesis
    by (auto simp: record_event_def Let_def up append_frame_files split: option.split)
qed

lemma initialize_files: "grows 6 d (fst (initialize_or_verify e sfault fault rfault wall ticks max_size d))"
proof -
  have f: "grows 6 d (fst (case record_event e fault rfault json wall ticks g of
      (g', Inl err) \<Rightarrow> (ga_disk g', Err err) | (g', Inr _) \<Rightarrow> (ga_disk g', Ok g')))" if "grows 2 d (ga_disk g)" for g json
    using grows_trans [OF that record_event_files [of g e fault rfault json wall ticks], of 6]
    by (auto split: prod.split sum.split)
  have up: "grows 6 d d'" if "grows 2 d d'" for d' using that by (simp add: grows_def)
  have "grows 6 d (fst (resume e sfault fault rfault wall ticks max_size anchor t d))" for anchor t
    unfolding resume_def Let_def by (simp add: if_distrib [of fst] grows_file up f split: sum.split)
  moreover have "grows 6 d (fst (create_initial_segment e sfault max_size d))"
    by (cases sfault) (auto simp: create_initial_segment_def Let_def up grows_file split: sum.split)
  ultimately show ?thesis
    by (auto simp: initialize_or_verify_def Let_def split: sum.split)
qed

lemma initialize_disk: "initialize_or_verify e sfault fault rfault wall ticks max_size d = (d', Inr g) \<Longrightarrow> ga_disk g = d'"
  by (auto simp: initialize_or_verify_def create_initial_segment_def resume_def Let_def split: sum.splits prod.splits if_splits start_fault.splits)

lemma audit_step_files: "length (dk_files (al_disk s)) \<le> length (dk_files (al_disk (fst (audit_step e s x))))"
  if "case al_gate s of None \<Rightarrow> True | Some g \<Rightarrow> ga_disk g = al_disk s"
proof (cases x)
  case (Start sfault fault rfault wall ticks max_size)
  with initialize_files [of "al_disk s" e sfault fault rfault wall ticks max_size] show ?thesis
    by (auto simp: grows_def split: prod.splits sum.splits)
next
  case (Record fault rfault json wall ticks)
  then show ?thesis
    using that record_event_files [of "the (al_gate s)" e fault rfault json wall ticks]
    by (auto simp: grows_def split: option.splits prod.splits)
qed simp

lemma gate_on_disk: "case al_gate (run_state (audit_step e) blank_log xs) of None \<Rightarrow> True
    | Some g \<Rightarrow> ga_disk g = al_disk (run_state (audit_step e) blank_log xs)"
proof (induction xs rule: rev_induct)
  case Nil
  then show ?case by (simp add: blank_log_def)
next
  case (snoc x xs)
  then show ?case by (cases x) (auto split: option.splits prod.splits sum.splits dest: initialize_disk)
qed

lemma life_run:
  assumes "env_ok e" and "list_all audit_op_ok xs"
    and "length (dk_files (al_disk (run_state (audit_step e) blank_log xs))) < 1000000"
  shows "\<exists>recs. life_ok e recs (run_state (audit_step e) blank_log xs) \<and>
    subseq (acknowledged (run_trace (audit_step e) blank_log xs)) (map stamp recs)"
  using assms(2,3)
proof (induction xs rule: rev_induct)
  case Nil
  then show ?case by (auto simp: life_ok_def unopened_def blank_log_def)
next
  case (snoc x xs)
  let ?s = "run_state (audit_step e) blank_log xs"
  from audit_step_files [OF gate_on_disk, of e xs e x] snoc.prems(2) have len: "length (dk_files (al_disk ?s)) < 1000000" by simp
  with snoc obtain recs where r: "life_ok e recs ?s" "subseq (acknowledged (run_trace (audit_step e) blank_log xs)) (map stamp recs)" by auto
  obtain s' y where step: "audit_step e ?s x = (s', y)" by fastforce
  from life_step [OF assms(1) r(1) len _ step] snoc.prems(1) obtain new where
    "life_ok e (recs @ new) s'" "subseq (acknowledged [(x, y)]) (map stamp new)" by auto
  with r(2) step show ?case
    by (intro exI [of _ "recs @ new"]) (auto simp: acknowledged_append intro: list_emb_append_mono)
qed

lemma life_records:
  assumes "env_ok e" and "life_ok e recs s"
  shows "log_records e (al_disk s) = recs"
proof -
  from assms(2) consider "al_disk s = al_disk blank_log" "recs = []" | "al_disk s = first_disk e" "recs = []" | "disk_of e recs (al_disk s)"
    by (auto simp: life_ok_def unopened_def)
  then show ?thesis
  proof cases
    case 1
    then show ?thesis by (simp add: blank_log_def log_records_def records_of_def list_segments_def)
  next
    case 2
    with files_records [OF assms(1) first_gate_ok(2) [OF assms(1), of 0]] show ?thesis by simp
  next
    case 3
    then obtain pre first rs tail a where d: "disk_ok e pre first rs tail a (al_disk s)" and r: "recs = seg_frames pre @ rs"
      unfolding disk_of_def by blast
    from files_records [OF assms(1) disk_ok_parts [OF d]] r show ?thesis by simp
  qed
qed

text \<open>C8. No acknowledged record is ever lost: after any sequence of starts, records and crashes on an initially empty directory,
  every event whose recording succeeded is in the log, in order.  Writing, syncing or cutting off a frame, writing, renaming or syncing the
  anchor, cutting off the end of the log at start-up, creating the file of a new segment and opening the segment at start-up may fail at
  every step; but once the file of a new segment is created its 88-byte header is written completely and, in a rotation, synced and the file
  opened again.  Reads return what is on disk; the checks of owner and mode pass, digests have 32 bytes, and the recovery event is
  serialised to at most 64 KiB (\<open>env_ok\<close>).  The log stays below 1,000,000 segments of at most \<open>2 ^ 62\<close> bytes, and events are shorter than
  4 GiB.\<close>

theorem acknowledged_records_survive:
  assumes "env_ok e" and "list_all audit_op_ok xs"
    and "length (dk_files (al_disk (run_state (audit_step e) blank_log xs))) < 1000000"
  shows "subseq (acknowledged (run_trace (audit_step e) blank_log xs))
    (map stamp (log_records e (al_disk (run_state (audit_step e) blank_log xs))))"
proof -
  from life_run [OF assms] obtain recs where "life_ok e recs (run_state (audit_step e) blank_log xs)"
    and sub: "subseq (acknowledged (run_trace (audit_step e) blank_log xs)) (map stamp recs)" by blast
  from life_records [OF assms(1) this(1)] sub show ?thesis by simp
qed

lemma life_restart:
  assumes "env_ok e" and "life_ok e recs s" and "length (dk_files (al_disk s)) < 1000000" and "max_size \<le> 2 ^ 62" and "length recs + 1 < 2 ^ 64"
  obtains d g recs' where "initialize_or_verify e SfNone RfNone RoNone wall ticks max_size (al_disk s) = (d, Ok g)"
    and "ga_disk g = d" and "gate_of e recs' g" and "length recs' \<le> length recs + 1"
proof -
  obtain d res where run: "initialize_or_verify e SfNone RfNone RoNone wall ticks max_size (al_disk s) = (d, res)" by fastforce
  show thesis
  proof (cases "unopened e s \<and> recs = []")
    case True
    then have d: "al_disk s = al_disk blank_log \<or> al_disk s = first_disk e" by (simp add: unopened_def)
    have "header_whole SfNone" by (simp add: header_whole_def)
    from unopened_start [OF assms(1) d this run] have "res = Ok (first_gate e max_size)" "d = ga_disk (first_gate e max_size)" by auto
    with that [OF _ _ first_gate_of [OF assms(1,4)]] run show thesis by simp
  next
    case False
    with assms(2) have dk: "disk_of e recs (al_disk s)" by (auto simp: life_ok_def)
    note keeps = initialize_keeps [OF assms(1) dk assms(3,4) _ run]
    from keeps(2) assms(5) obtain g where "res = Ok g" by (cases res) auto
    with keeps(1) run that show thesis by (auto simp: started_def)
  qed
qed

text \<open>C10. The log never locks itself out: after any sequence of starts, records and crashes as in the previous property (with the same failures:
  once the file of a new segment is created its header is written completely and, in a rotation, synced and the file opened again) a start
  without failures succeeds, and the gate it opens records the next event (of at most 64 KiB) as the last of the log, as long as neither sequence
  numbers nor segment names run out: less than 999,990 segments of at most \<open>2 ^ 62\<close> bytes and less than \<open>2 ^ 64 - 2\<close> records.\<close>

theorem audit_log_reopens:
  assumes "env_ok e" and "list_all audit_op_ok xs" and "max_size \<le> 2 ^ 62" and "length p \<le> unat MAX_PAYLOAD_SIZE"
    and "length (dk_files (al_disk (run_state (audit_step e) blank_log xs))) < 999990"
    and "length (log_records e (al_disk (run_state (audit_step e) blank_log xs))) + 2 < 2 ^ 64"
  shows "\<exists>d g g'. initialize_or_verify e SfNone RfNone RoNone wall ticks max_size (al_disk (run_state (audit_step e) blank_log xs)) = (d, Ok g) \<and>
    record_event e RfNone RoNone (Some p) wall' ticks' g = (g', Ok ()) \<and>
    stamp (last (log_records e (ga_disk g'))) = (wall', ticks', p)"
proof -
  let ?s = "run_state (audit_step e) blank_log xs"
  from life_run [OF assms(1,2)] assms(5) obtain recs where ok: "life_ok e recs ?s" by auto
  have l: "length (dk_files (al_disk ?s)) < 1000000" "length recs + 1 < 2 ^ 64"
    using assms(5,6) life_records [OF assms(1) ok] by simp_all
  obtain d g recs' where run: "initialize_or_verify e SfNone RfNone RoNone wall ticks max_size (al_disk ?s) = (d, Ok g)"
    and g: "ga_disk g = d" "gate_of e recs' g" and n: "length recs' \<le> length recs + 1"
    using life_restart [OF assms(1) ok l(1) assms(3) l(2)] by metis
  have "length (dk_files (ga_disk g)) < 1000000"
    using initialize_files [of "al_disk ?s" e SfNone RfNone RoNone wall ticks max_size] run g(1) assms(5) by (simp add: grows_def)
  moreover obtain g' r where rec: "record_event e RfNone RoNone (Some p) wall' ticks' g = (g', r)" by fastforce
  moreover have "length (payload_of (Some p)) < 2 ^ 32" using assms(4) by (simp add: payload_of_def max_frame)
  ultimately have keeps: "recorded e recs' (next_frame e (payload_of (Some p)) wall' ticks' g) g' (is_ok r)" "length recs' + 1 < 2 ^ 64 \<Longrightarrow> is_ok r"
    using record_event_keeps [OF assms(1) g(2), of "Some p" RoNone RfNone wall' ticks' g' r] assms(4) by blast+
  have "length recs' + 1 < 2 ^ 64" using assms(6) n life_records [OF assms(1) ok] by simp
  with keeps have "is_ok r" and "recorded e recs' (next_frame e p wall' ticks' g) g' (is_ok r)" by (simp_all add: payload_of_def)
  then have "r = Ok ()" and "gate_of e (recs' @ [next_frame e p wall' ticks' g]) g'" by (auto simp: recorded_def is_ok_iff)
  moreover from this(2) have "log_records e (ga_disk g') = recs' @ [next_frame e p wall' ticks' g]"
    using life_records [OF assms(1), of "recs' @ [next_frame e p wall' ticks' g]" "\<lparr>al_disk = ga_disk g', al_gate = None\<rparr>"]
      gate_of_disk by (simp add: life_ok_def)
  ultimately show ?thesis using run rec by (auto simp: stamp_def next_frame_def)
qed

section \<open>Open logs\<close>

lemma life_open:
  assumes "env_ok e" and "list_all audit_op_ok xs" and "length (dk_files (al_disk (run_state (audit_step e) blank_log xs))) < 1000000"
    and "al_gate (run_state (audit_step e) blank_log xs) = Some g" and "\<not> ga_broken g"
  obtains pre first rs a where "gate_ok e pre first rs a g" and "log_records e (ga_disk g) = seg_frames pre @ rs"
proof -
  let ?s = "run_state (audit_step e) blank_log xs"
  from life_run [OF assms(1-3)] obtain recs where ok: "life_ok e recs ?s" by blast
  with assms(4,5) have "gate_of e recs g" "ga_disk g = al_disk ?s" by (auto simp: life_ok_def unopened_def)
  with that life_records [OF assms(1) ok] show thesis by (auto simp: gate_of_def)
qed

text \<open>An open log always passes its own verification: on the disk under a working gate, \<open>verify_all\<close> succeeds and returns the gate's
  sequence number, which is the number of records in the log.\<close>

theorem open_log_verifies:
  assumes "env_ok e" and "list_all audit_op_ok xs" and "length (dk_files (al_disk (run_state (audit_step e) blank_log xs))) < 1000000"
    and "al_gate (run_state (audit_step e) blank_log xs) = Some g" and "\<not> ga_broken g"
  shows "verify_all e (ga_disk g) = Ok (ga_sequence g) \<and> unat (ga_sequence g) = length (log_records e (ga_disk g))"
proof -
  obtain pre first rs a where g: "gate_ok e pre first rs a g" and recs: "log_records e (ga_disk g) = seg_frames pre @ rs"
    using life_open [OF assms] by metis
  then have "files_ok e pre first rs [] (ga_disk g)" by (simp add: gate_ok_def disk_ok_def)
  with files_verify [OF assms(1) this] g recs show ?thesis by (simp add: gate_ok_def files_ok_def unat_of_nat del: of_nat_add)
qed

section \<open>What start-up misses\<close>

text \<open>C24. Start-up does not notice that the last record was cut off.  When a log with an open gate loses its last frame, cleanly and
  from the end of the current segment, the next start succeeds, without a recovery record and without a change on disk, although
  the anchor still attests the record that is gone.\<close>

theorem clean_truncation_unnoticed:
  assumes "env_ok e" and "list_all audit_op_ok xs" and "length (dk_files (al_disk (run_state (audit_step e) blank_log xs))) < 1000000"
    and "al_gate (run_state (audit_step e) blank_log xs) = Some g" and "\<not> ga_broken g"
    and "log_records e (ga_disk g) = recs @ [r]" and "hm_get (dk_files (ga_disk g)) (ga_segment_name g) = Some (c @ frame_of r)"
    and "load_anchor e (ga_disk g) = Ok (Some a)" and "an_segment_index a = ga_segment_index g" and "an_sequence a = ga_sequence g"
    and "d = set_file (ga_segment_name g) c (ga_disk g)"
  shows "(\<exists>g'. initialize_or_verify e SfNone fault rfault wall ticks max_size d = (d, Ok g')) \<and> log_records e d = recs \<and>
    load_anchor e d = Ok (Some a) \<and> length recs < unat (an_sequence a)"
proof -
  obtain pre first rs a' where g: "gate_ok e pre first rs a' g" and recs: "recs @ [r] = seg_frames pre @ rs"
    using life_open [OF assms(1-5)] assms(6) by metis
  let ?p = "end_hash zero_hash pre" and ?k = "length pre"
  have dk: "disk_ok e pre first rs [] a' (ga_disk g)" and name: "ga_segment_name g = segment_name (of_nat ?k)" "ga_segment_index g = of_nat ?k"
    "ga_sequence g = of_nat (length (seg_frames pre) + length rs)" using g by (simp_all add: gate_ok_def)
  have an: "dk_anchor (ga_disk g) = Some (encode_anchor (ae_sha e) a')" "anchored a' ?k rs" using dk by (simp_all add: disk_ok_def)
  then have "a' = a"
    using anchor_roundtrip [of "ae_sha e" a'] assms(1,8) by (simp add: load_anchor_def anchored_def env_ok_def)
  have c: "c @ frame_of r = seg_content e ?k ?p (first, rs, [])" using gate_file(1) [OF g] assms(7) by simp
  have "segs_ok e 0 zero_hash (pre @ [(first, rs, [])])" using dk by (simp add: disk_ok_unfold)
  then have "frame_ok (ae_sha e) r" by (rule seg_frames_ok) (simp add: recs [symmetric])
  from frame_length [OF this] have "HEADER_SIZE < length (frame_of r)" by (simp add: audit_sizes)
  moreover have "length (c @ frame_of r) = HEADER_SIZE" if "rs = []"
    unfolding c using that seg_header(1) [OF assms(1) disk_okD(3) [OF dk]] by simp
  ultimately have "rs \<noteq> []" by fastforce
  then obtain qs where qs: "rs = qs @ [r]" and recs': "recs = seg_frames pre @ qs" using recs by (cases rs rule: rev_cases) auto
  then have c': "c = seg_content e ?k ?p (first, qs, [])" using c by simp
  have "seg_ok e ?p (first, qs, [])"
    using disk_okD(4-6) [OF dk] chained_end [of "ae_sha e" ?p qs]
    by (auto simp: qs numbered_append chained_append no_frames chain_end_def [of _ qs])
  then have fok: "files_ok e pre first qs [] d"
    by (rule files_ok_replace [OF disk_ok_parts [OF dk]]) (use dk c c' qs in \<open>simp_all add: disk_ok_unfold assms(11) name set_file_def\<close>)
  have n: "unat (an_sequence a) = length (seg_frames pre) + length rs"
    using dk name(3) assms(10) by (simp add: disk_ok_unfold unat_of_nat del: of_nat_add)
  have "\<not> an_sequence a < tip_seq qs"
    using tip_seq_counted(1) [of "length (seg_frames pre)" qs] files_okD(2,5) [OF fok] fok n qs
    by (cases "qs = []") (simp_all add: word_less_nat_alt files_ok_def tip_seq_def [of "[]"])
  moreover have "\<not> an_segment_index a < of_nat ?k" using assms(9) name(2) by simp
  ultimately have "\<exists>g'. initialize_or_verify e SfNone fault rfault wall ticks max_size d = (d, Ok g')"
    using initialize_resumes [OF assms(1) fok, of a SfNone fault rfault wall ticks max_size] an \<open>a' = a\<close> assms(11)
    by (auto simp: set_file_def anchored_def resumed_def recover_def)
  moreover have "load_anchor e d = Ok (Some a)" using assms(8,11) by (simp add: load_anchor_def set_file_def)
  ultimately show ?thesis using files_records [OF assms(1) fok] recs' n qs by simp
qed

text \<open>C25. A failure while the header of a new segment is written locks the log: when a rotation leaves a segment file with less than
  a complete header, every later start fails with the same error and changes nothing.\<close>

theorem partial_header_locks_log:
  assumes "env_ok e" and "list_all audit_op_ok xs" and "length (dk_files (al_disk (run_state (audit_step e) blank_log xs))) < 999999"
    and "al_gate (run_state (audit_step e) blank_log xs) = Some g" and "\<not> ga_broken g"
    and "n < HEADER_SIZE" and "d = ga_disk (fst (rotate_segment e (RoHeader n) g))"
  shows "initialize_or_verify e sfault fault rfault wall ticks max_size d = (d, Err eof_error)"
proof -
  obtain pre first rs a where g: "gate_ok e pre first rs a g" using life_open [OF assms(1,2) _ assms(4,5)] assms(3) by force
  have dk: "disk_ok e pre first rs [] a (ga_disk g)" using g by (simp add: gate_ok_def)
  let ?segs = "pre @ [(first, rs, [])]"
  let ?c = "take n (header_encode (ae_sha e) (new_header (of_nat (length ?segs)) (ga_sequence g + 1) (ga_last_hash g)))"
  let ?n = "segment_name (of_nat (length ?segs))"
  have len: "length ?segs < 1000000" using disk_ok_files [OF dk] gate_on_disk [of e xs] assms(3,4) by simp
  have files: "dk_files (ga_disk g) = layout e 0 zero_hash ?segs" using dk by (simp add: disk_ok_unfold)
  have fresh: "?n \<notin> fst ` set (layout e 0 zero_hash ?segs)" by (rule layout_fresh [OF len])
  then have d: "d = set_file ?n ?c (ga_disk g)"
    using g files by (simp add: assms(7) rotate_segment_def Let_def gate_ok_def hm_get_def map_of_eq_None_iff add.commute)
  then have dfiles: "dk_files d = layout e 0 zero_hash ?segs @ [(?n, ?c)]"
    using fresh files by (simp add: set_file_def hm_insert_last)
  have "map fst (dk_files d) = map (\<lambda>i. segment_name (of_nat i)) [0..<Suc (length ?segs)]"
    by (simp add: dfiles layout_names)
  then have list: "list_segments d = map fst (layout e 0 zero_hash ?segs) @ [?n]"
    using list_segments_named [of d "Suc (length ?segs)"] len by (simp add: layout_names)
  have load: "load_anchor e d = Ok (Some a)"
    using anchor_roundtrip [of "ae_sha e" a] assms(1) dk by (simp add: d set_file_def load_anchor_def disk_ok_def anchored_def env_ok_def)
  have "\<forall>(n, c) \<in> set (layout e 0 zero_hash ?segs). hm_get (dk_files d) n = Some c"
    using layout_get [of ?segs e] len fresh by (auto simp: d set_file_def files image_iff)
  then have "verify_all_segments e d (list_segments d) = verify_segments e d (length ?segs) (end_hash zero_hash ?segs) [?n]"
    unfolding list verify_all_segments_def using verify_prefix [of e zero_hash 0 ?segs d "[?n]"] assms(1) dk by (simp add: disk_ok_unfold)
  moreover have "open_file_at d ?n = Ok ?c" by (simp add: d set_file_def open_file_at_def)
  moreover have "read_segment_header e ?c = Err eof_error" using assms(6) by (simp add: read_segment_header_def min_less_iff_disj)
  ultimately have "verify_all_segments e d (list_segments d) = Err eof_error"
    using assms(1) by (simp add: env_ok_def)
  then show ?thesis using load list by (simp add: initialize_or_verify_def Let_def)
qed

text \<open>The same for the first segment: a first start that leaves less than a complete header keeps every later one from starting.\<close>

theorem partial_first_header_locks_log:
  assumes "env_ok e" and "n < HEADER_SIZE"
    and "d = fst (initialize_or_verify e (SfHeader n) fault rfault wall ticks max_size (al_disk blank_log))"
  shows "initialize_or_verify e sfault fault' rfault' wall' ticks' max_size' d = (d, Err eof_error)"
proof -
  let ?c = "take n (header_encode (ae_sha e) (new_header 0 1 zero_hash))"
  have name: "segment_name 0 = ''audit-000000.log''" by code_simp
  have d: "d = \<lparr>dk_files = [(''audit-000000.log'', ?c)], dk_anchor = None\<rparr>"
    using assms(3) blank_start [OF assms(1)] by (simp add: set_file_def hm_insert_def blank_log_def)
  have list: "list_segments d = [segment_name 0]" using list_segments_named [of d 1] by (simp add: d name)
  have load: "load_anchor e d = Ok None" and opened: "open_file_at d (segment_name 0) = Ok ?c"
    unfolding d by (simp_all add: load_anchor_def open_file_at_def hm_get_def name)
  have "read_segment_header e ?c = Err eof_error" using assms(2) by (simp add: read_segment_header_def min_less_iff_disj)
  then have "verify_all_segments e d [segment_name 0] = Err eof_error"
    using assms(1) extract_segment_name [of 0] opened by (simp add: verify_all_segments_def env_ok_def)
  then show ?thesis by (simp add: initialize_or_verify_def load list)
qed

section \<open>A log with one record\<close>

definition one_ops :: "bytes \<Rightarrow> audit_op list" where
  "one_ops p = [Start SfNone RfNone RoNone 1 2 1048576, Record RfNone RoNone (Some p) 3 4]"

definition one_record :: "audit_env \<Rightarrow> bytes \<Rightarrow> decoded_frame" where
  "one_record e p = next_frame e p 3 4 (first_gate e 1048576)"

definition one_anchor :: "audit_env \<Rightarrow> bytes \<Rightarrow> anchor_state" where
  "one_anchor e p = \<lparr>an_segment_index = 0, an_sequence = 1, an_hash = df_current_hash (one_record e p)\<rparr>"

definition one_gate :: "audit_env \<Rightarrow> bytes \<Rightarrow> audit_gate" where
  "one_gate e p = (first_gate e 1048576)
     \<lparr>ga_disk := \<lparr>dk_files = [(''audit-000000.log'', header_encode (ae_sha e) (new_header 0 1 zero_hash) @ frame_of (one_record e p))],
         dk_anchor = Some (encode_anchor (ae_sha e) (one_anchor e p))\<rparr>,
      ga_offset := of_nat HEADER_SIZE + of_nat (length (frame_of (one_record e p))), ga_sequence := 1,
      ga_last_hash := df_current_hash (one_record e p), ga_anchor := one_anchor e p\<rparr>"

lemma one_run:
  assumes "env_ok e" and "length p \<le> unat MAX_PAYLOAD_SIZE"
  shows "record_event e RfNone RoNone (Some p) 3 4 (first_gate e 1048576) = (one_gate e p, Ok ())"
    and "run_state (audit_step e) blank_log (one_ops p) = \<lparr>al_disk = ga_disk (one_gate e p), al_gate = Some (one_gate e p)\<rparr>"
    and "run_trace (audit_step e) blank_log (one_ops p) = zip (one_ops p) [Some (Ok ()), Some (Ok ())]"
    and "files_ok e [] 1 [one_record e p] [] (ga_disk (one_gate e p))"
proof -
  let ?g = "first_gate e 1048576" and ?h = "header_encode (ae_sha e) (new_header 0 1 zero_hash)"
  have m: "(1048576 :: u64) \<le> 2 ^ 62" by simp
  have hl: "length ?h = HEADER_SIZE" by (rule seg_header(1)) (use assms(1) in simp_all)
  have ok: "frame_ok (ae_sha e) (one_record e p)"
    unfolding one_record_def by (rule next_frame_ok [OF assms(1) first_gate_ok(1) [OF assms(1) m] assms(2)])
  have fl: "length (frame_of (one_record e p)) \<le> 65640"
    using frame_length [OF ok] assms(2) by (simp add: one_record_def next_frame_def max_frame FRAME_OVERHEAD_def)
  then have nr: "\<not> (1048576 :: u64) < of_nat HEADER_SIZE + of_nat (length (frame_of (one_record e p)))"
    unfolding of_nat_add [symmetric] by (simp add: word_less_nat_alt unat_of_nat audit_sizes del: of_nat_add)
  have small: "\<not> MAX_PAYLOAD_SIZE < of_nat (length p)" using assms(2) by (simp add: word_less_nat_alt unat_of_nat max_frame)
  have frame: "encode_frame 1 3 4 p zero_hash (df_current_hash (one_record e p)) = frame_of (one_record e p)"
    "compute_record_hash (ae_sha e) zero_hash 1 3 4 p = df_current_hash (one_record e p)"
    by (simp_all add: one_record_def frame_of_def next_frame_def first_gate_def)
  have w: "unat (of_nat HEADER_SIZE :: u64) = HEADER_SIZE" by (simp add: audit_sizes)
  show rec: "record_event e RfNone RoNone (Some p) 3 4 ?g = (one_gate e p, Ok ())"
    using small nr hl
    by (simp add: record_event_def first_gate_def first_disk_def checked_add_def Let_def hm_get_def append_frame_def file_content_def w frame
      write_at_def set_content_def set_file_def hm_insert_def write_anchor_def one_gate_def one_anchor_def)
  show "run_state (audit_step e) blank_log (one_ops p) = \<lparr>al_disk = ga_disk (one_gate e p), al_gate = Some (one_gate e p)\<rparr>"
    "run_trace (audit_step e) blank_log (one_ops p) = zip (one_ops p) [Some (Ok ()), Some (Ok ())]"
    by (simp_all add: one_ops_def blank_start [OF assms(1)] rec)
  have name: "segment_name 0 = ''audit-000000.log''" by code_simp
  show "files_ok e [] 1 [one_record e p] [] (ga_disk (one_gate e p))"
    using seg_ok_snoc [OF assms(1) first_gate_ok(1) [OF assms(1) m] assms(2), of 3 4] hl fl
    by (simp add: files_ok_def one_gate_def name one_record_def audit_sizes no_frames)
qed

text \<open>A concrete environment, for the applications of the theorems.\<close>

definition sample_env :: audit_env where
  "sample_env = \<lparr>ae_hex = (\<lambda>_. []), ae_sha = (\<lambda>_. replicate 31 0 @ [1]), ae_check = (\<lambda>_. Ok ()), ae_recover_json = (\<lambda>_ _. Some [7])\<rparr>"

lemma sample_env_ok: "env_ok sample_env"
  by (simp add: env_ok_def sample_env_def max_frame)

lemma sample_payload: "length ([65] :: bytes) \<le> unat MAX_PAYLOAD_SIZE"
  by (simp add: max_frame)

lemmas sample = one_run [OF sample_env_ok sample_payload]

lemma sample_ops: "list_all audit_op_ok (one_ops [65])"
  by (simp add: one_ops_def payload_of_def header_whole_def)

lemma sample_files: "length (dk_files (ga_disk (one_gate sample_env [65]))) = 1"
  by (simp add: one_gate_def)

lemma sample_records: "log_records sample_env (ga_disk (one_gate sample_env [65])) = [one_record sample_env [65]]"
  using files_records [OF sample_env_ok sample(4)] by simp

theorem acknowledged_records_survive_witness:
  "acknowledged (run_trace (audit_step sample_env) blank_log (one_ops [65])) = [(3, 4, [65])] \<and>
   subseq [(3, 4, [65])] (map stamp (log_records sample_env (al_disk (run_state (audit_step sample_env) blank_log (one_ops [65])))))"
proof -
  have "acknowledged (run_trace (audit_step sample_env) blank_log (one_ops [65])) = [(3, 4, [65])]"
    by (simp add: sample(3)) (simp add: one_ops_def payload_of_def)
  with acknowledged_records_survive [OF sample_env_ok sample_ops] sample(2) sample_files show ?thesis by simp
qed

theorem audit_log_reopens_witness:
  "\<exists>d g g'. initialize_or_verify sample_env SfNone RfNone RoNone 5 6 1048576 (al_disk (run_state (audit_step sample_env) blank_log (one_ops [65]))) = (d, Ok g) \<and>
    record_event sample_env RfNone RoNone (Some [65]) 7 8 g = (g', Ok ()) \<and> stamp (last (log_records sample_env (ga_disk g'))) = (7, 8, [65])"
  by (rule audit_log_reopens [OF sample_env_ok sample_ops _ sample_payload]) (simp_all add: sample(2) sample_files sample_records)

theorem clean_truncation_unnoticed_witness:
  "\<exists>d g'. d = set_file ''audit-000000.log'' (header_encode (ae_sha sample_env) (new_header 0 1 zero_hash)) (ga_disk (one_gate sample_env [65])) \<and>
    initialize_or_verify sample_env SfNone RfNone RoNone 5 6 1048576 d = (d, Ok g') \<and> log_records sample_env d = []"
proof -
  let ?g = "one_gate sample_env [65]" and ?h = "header_encode (ae_sha sample_env) (new_header 0 1 zero_hash)"
  have "length (an_hash (one_anchor sample_env [65])) = 32"
    by (simp add: one_anchor_def one_record_def next_frame_def compute_record_hash_def sample_env_def)
  then have a: "load_anchor sample_env (ga_disk ?g) = Ok (Some (one_anchor sample_env [65]))"
    using anchor_roundtrip [of "ae_sha sample_env" "one_anchor sample_env [65]"] sample_env_ok
    by (simp add: load_anchor_def env_ok_def one_gate_def)
  have s: "length (dk_files (al_disk (run_state (audit_step sample_env) blank_log (one_ops [65])))) < 1000000"
    "al_gate (run_state (audit_step sample_env) blank_log (one_ops [65])) = Some ?g" "\<not> ga_broken ?g"
    "log_records sample_env (ga_disk ?g) = [] @ [one_record sample_env [65]]"
    "hm_get (dk_files (ga_disk ?g)) (ga_segment_name ?g) = Some (?h @ frame_of (one_record sample_env [65]))"
    "an_segment_index (one_anchor sample_env [65]) = ga_segment_index ?g" "an_sequence (one_anchor sample_env [65]) = ga_sequence ?g"
    using sample_files sample_records by (simp_all add: sample(2) one_gate_def first_gate_def hm_get_def one_anchor_def)
  from clean_truncation_unnoticed [OF sample_env_ok sample_ops s(1-5) a s(6,7) refl, of RfNone RoNone 5 6 1048576] show ?thesis
    by (simp add: one_gate_def first_gate_def)
qed

theorem open_log_verifies_witness:
  "verify_all sample_env (ga_disk (one_gate sample_env [65])) = Ok 1"
proof -
  have "al_gate (run_state (audit_step sample_env) blank_log (one_ops [65])) = Some (one_gate sample_env [65])"
    "\<not> ga_broken (one_gate sample_env [65])" "ga_sequence (one_gate sample_env [65]) = 1"
    by (simp_all add: sample(2) one_gate_def first_gate_def)
  with open_log_verifies [OF sample_env_ok sample_ops _ this(1,2)] sample_files show ?thesis by (simp add: sample(2))
qed

theorem partial_header_locks_log_witness:
  "initialize_or_verify sample_env SfNone RfNone RoNone 5 6 1048576 (ga_disk (fst (rotate_segment sample_env (RoHeader 10) (one_gate sample_env [65])))) =
    (ga_disk (fst (rotate_segment sample_env (RoHeader 10) (one_gate sample_env [65]))), Err eof_error)"
  by (rule partial_header_locks_log [OF sample_env_ok sample_ops])
    (simp_all add: sample(2) sample_files audit_sizes one_gate_def first_gate_def)


end
