(* ===== verification/Storage_Index.thy ===== *)
theory Storage_Index
  imports Paths
begin

text \<open>
  The credential index: relying-party identifiers as directory names (\<open>cmd/passless/src/storage/rp_id.rs\<close>), credential
  file names and the indexes by identifier, relying party and hash (\<open>storage/index.rs\<close>).  SHA-256 is a parameter.  A slice of a
  string off a character boundary panics; the functions that slice return \<open>Err Panic\<close> there.
\<close>

section \<open>Relying-party identifiers as directory names\<close>

definition MAX_RP_ID_LENGTH :: nat where "MAX_RP_ID_LENGTH = 255"

datatype rp_id_validation_error =
    RvEmpty
  | RvTooLong nat
  | RvContainsNull
  | RvContainsForwardSlash
  | RvContainsBackslash
  | RvParentDirectoryComponent
  | RvCurrentDirectoryComponent
  | RvMultiplePathComponents
  | RvAbsolutePath
  | RvHiddenFile

definition rp_components_error :: "path \<Rightarrow> rp_id_validation_error option" where
  "rp_components_error components =
     (case components of
        [Normal _] \<Rightarrow> None
      | [CurDir] \<Rightarrow> Some RvCurrentDirectoryComponent
      | [ParentDir] \<Rightarrow> Some RvParentDirectoryComponent
      | _ \<Rightarrow>
          if RootDir \<in> set components then Some RvAbsolutePath
          else if components \<noteq> [] \<and> hd components = ParentDir then Some RvParentDirectoryComponent
          else Some RvMultiplePathComponents)"

definition validated_rp_id :: "string \<Rightarrow> rp_id_validation_error + string" where
  "validated_rp_id value =
     (let trimmed = trim value in
      if trimmed = [] then Err RvEmpty
      else if MAX_RP_ID_LENGTH < length trimmed then Err (RvTooLong (length trimmed))
      else if CHR 0x00 \<in> set trimmed then Err RvContainsNull
      else case rp_components_error (path_of trimmed) of
        Some e \<Rightarrow> Err e
      | None \<Rightarrow>
          if CHR ''/'' \<in> set trimmed then Err RvContainsForwardSlash
          else if CHR 0x5C \<in> set trimmed then Err RvContainsBackslash
          else if starts_with trimmed ''.'' then Err RvHiddenFile
          else Ok trimmed)"

section \<open>File names\<close>

definition hex_digit :: "nat \<Rightarrow> char" where
  "hex_digit n = char_of (if n < 10 then 48 + n else 87 + n)"

definition bytes_to_hex :: "bytes \<Rightarrow> string" where
  "bytes_to_hex bs = concat (map (\<lambda>b. [hex_digit (unat b div 16), hex_digit (unat b mod 16)]) bs)"

definition get_filename :: "bytes \<Rightarrow> string \<Rightarrow> string" where
  "get_filename cred_id extension = bytes_to_hex cred_id @ ''.'' @ extension"

text \<open>\<open>u8::from_str_radix\<close> on two bytes: an optional plus sign, and hexadecimal digits of either case.\<close>

definition hex_value :: "char \<Rightarrow> nat option" where
  "hex_value c =
     (let n = of_char c in
      if 48 \<le> n \<and> n \<le> 57 then Some (n - 48)
      else if 97 \<le> n \<and> n \<le> 102 then Some (n - 87)
      else if 65 \<le> n \<and> n \<le> 70 then Some (n - 55)
      else None)"

definition from_str_radix16 :: "char \<Rightarrow> char \<Rightarrow> u8 option" where
  "from_str_radix16 a b =
     (if a = CHR ''+'' then map_option of_nat (hex_value b)
      else case (hex_value a, hex_value b) of (Some x, Some y) \<Rightarrow> Some (of_nat (16 * x + y)) | _ \<Rightarrow> None)"

datatype panic = Panic

definition continuation_byte :: "char \<Rightarrow> bool" where
  "continuation_byte c = (128 \<le> (of_char c :: nat) \<and> of_char c < (192 :: nat))"

fun parse_pairs :: "string \<Rightarrow> panic + bytes option" where
  "parse_pairs (a # b # rest) =
     (if rest \<noteq> [] \<and> continuation_byte (hd rest) then Err Panic
      else case from_str_radix16 a b of
        None \<Rightarrow> Ok None
      | Some x \<Rightarrow> res_bind (parse_pairs rest) (\<lambda>bs. Ok (map_option ((#) x) bs)))"
| "parse_pairs _ = Ok (Some [])"

definition parse_cred_id_from_filename :: "string \<Rightarrow> string \<Rightarrow> panic + bytes option" where
  "parse_cred_id_from_filename filename extension =
     (if \<not> ends_with filename (''.'' @ extension) then Ok None
      else
        (let name = take (length filename - length (''.'' @ extension)) filename in
         if length name mod 2 \<noteq> 0 then Ok None else parse_pairs name))"

section \<open>Paths of credentials\<close>

record credential_path_info =
  pi_rp_id :: string
  pi_cred_id :: bytes
  pi_extension :: string

definition get_credential_path :: "path \<Rightarrow> string \<Rightarrow> bytes \<Rightarrow> string \<Rightarrow> path" where
  "get_credential_path storage_dir rp_id cred_id extension =
     path_join (path_join storage_dir (path_of rp_id)) (path_of (get_filename cred_id extension))"

definition to_path :: "path \<Rightarrow> credential_path_info \<Rightarrow> path" where
  "to_path base_dir info = get_credential_path base_dir (pi_rp_id info) (pi_cred_id info) (pi_extension info)"

definition from_path :: "path \<Rightarrow> string \<Rightarrow> panic + credential_path_info option" where
  "from_path p extension =
     (case file_name p of
        None \<Rightarrow> Ok None
      | Some filename \<Rightarrow>
          res_bind (parse_cred_id_from_filename filename extension) (\<lambda>cred_id.
            case cred_id of
              None \<Rightarrow> Ok None
            | Some cid \<Rightarrow>
                (case Option.bind (parent p) file_name of
                   None \<Rightarrow> Ok None
                 | Some rp_str \<Rightarrow>
                     (case validated_rp_id rp_str of
                        Inl _ \<Rightarrow> Ok None
                      | Inr rp \<Rightarrow> Ok (Some \<lparr>pi_rp_id = rp, pi_cred_id = cid, pi_extension = extension\<rparr>)))))"

definition rp_id_hash :: "(bytes \<Rightarrow> bytes) \<Rightarrow> credential_path_info \<Rightarrow> bytes" where
  "rp_id_hash sha info = sha (as_bytes (pi_rp_id info))"

section \<open>Indexes\<close>

record credential_indexes =
  ix_id :: "(bytes, credential_path_info) hashmap"
  ix_rp :: "(string, bytes list) hashmap"
  ix_rp_hash :: "(bytes, bytes list) hashmap"

datatype credential_filter = FilterNone | ById bytes | ByRp string | ByHash bytes

definition empty_indexes :: credential_indexes where
  "empty_indexes = \<lparr>ix_id = [], ix_rp = [], ix_rp_hash = []\<rparr>"

definition entry_push :: "'k \<Rightarrow> 'v \<Rightarrow> ('k, 'v list) hashmap \<Rightarrow> ('k, 'v list) hashmap" where
  "entry_push k v m = hm_insert k ((case hm_get m k of None \<Rightarrow> [] | Some vs \<Rightarrow> vs) @ [v]) m"

definition entry_retain :: "'k \<Rightarrow> 'v \<Rightarrow> ('k, 'v list) hashmap \<Rightarrow> ('k, 'v list) hashmap" where
  "entry_retain k v m =
     (case hm_get m k of
        None \<Rightarrow> m
      | Some vs \<Rightarrow>
          (let vs' = filter (\<lambda>x. x \<noteq> v) vs in if vs' = [] then hm_remove k m else hm_insert k vs' m))"

definition resolve_ids :: "credential_indexes \<Rightarrow> path \<Rightarrow> bytes list option \<Rightarrow> path list" where
  "resolve_ids ix base_dir ids =
     (case ids of
        None \<Rightarrow> []
      | Some cids \<Rightarrow> List.map_filter (\<lambda>cid. map_option (to_path base_dir) (hm_get (ix_id ix) cid)) cids)"

definition resolve_filter :: "credential_indexes \<Rightarrow> credential_filter \<Rightarrow> path \<Rightarrow> path list" where
  "resolve_filter ix f base_dir =
     (case f of
        FilterNone \<Rightarrow> map (to_path base_dir) (hm_values (ix_id ix))
      | ById cid \<Rightarrow> (case hm_get (ix_id ix) cid of Some info \<Rightarrow> [to_path base_dir info] | None \<Rightarrow> [])
      | ByRp rp \<Rightarrow> resolve_ids ix base_dir (hm_get (ix_rp ix) rp)
      | ByHash h \<Rightarrow> resolve_ids ix base_dir (hm_get (ix_rp_hash ix) h))"

definition index_insert :: "(bytes \<Rightarrow> bytes) \<Rightarrow> credential_path_info \<Rightarrow> credential_indexes \<Rightarrow> credential_indexes" where
  "index_insert sha info ix =
     \<lparr>ix_id = hm_insert (pi_cred_id info) info (ix_id ix),
      ix_rp = entry_push (pi_rp_id info) (pi_cred_id info) (ix_rp ix),
      ix_rp_hash = entry_push (rp_id_hash sha info) (pi_cred_id info) (ix_rp_hash ix)\<rparr>"

definition update_indexes_on_write :: "(bytes \<Rightarrow> bytes) \<Rightarrow> credential_path_info \<Rightarrow> credential_indexes \<Rightarrow> credential_indexes" where
  "update_indexes_on_write sha info ix =
     (if hm_get (ix_id ix) (pi_cred_id info) = None then index_insert sha info ix
      else ix\<lparr>ix_id := hm_insert (pi_cred_id info) info (ix_id ix)\<rparr>)"

definition update_indexes_on_delete :: "(bytes \<Rightarrow> bytes) \<Rightarrow> bytes \<Rightarrow> credential_indexes \<Rightarrow> credential_indexes" where
  "update_indexes_on_delete sha cid ix =
     (case hm_get (ix_id ix) cid of
        None \<Rightarrow> ix
      | Some info \<Rightarrow>
          \<lparr>ix_id = hm_remove cid (ix_id ix),
           ix_rp = entry_retain (pi_rp_id info) cid (ix_rp ix),
           ix_rp_hash = entry_retain (rp_id_hash sha info) cid (ix_rp_hash ix)\<rparr>)"

section \<open>Loading\<close>

text \<open>
  The files below a directory and the names \<open>read_dir\<close> lists in it, in the order of the map.  A directory without a file
  holds no credential and is not represented.  \<open>extension\<close> is that of \<open>std::path\<close>: what follows the last dot, unless the dot comes first.
\<close>

type_synonym disk = "(path, bytes) hashmap"

definition read_dir :: "disk \<Rightarrow> path \<Rightarrow> string list" where
  "read_dir files d =
     remdups (List.map_filter (\<lambda>p. if path_starts_with p d \<and> length d < length p
       then (case p ! length d of Normal n \<Rightarrow> Some n | _ \<Rightarrow> None) else None) (map fst files))"

definition is_dir :: "disk \<Rightarrow> path \<Rightarrow> bool" where
  "is_dir files d = list_ex (\<lambda>p. path_starts_with p d \<and> length d < length p) (map fst files)"

definition path_extension :: "path \<Rightarrow> string option" where
  "path_extension p =
     (case file_name p of
        None \<Rightarrow> None
      | Some n \<Rightarrow>
          (let after = takeWhile (\<lambda>c. c \<noteq> CHR ''.'') (rev n) in
           if length after = length n \<or> Suc (length after) = length n then None else Some (rev after)))"

fun load_files :: "(bytes \<Rightarrow> bytes) \<Rightarrow> string \<Rightarrow> path list \<Rightarrow> credential_indexes \<Rightarrow> panic + credential_indexes" where
  "load_files sha extension [] ix = Ok ix"
| "load_files sha extension (p # ps) ix =
     res_bind (from_path p extension) (\<lambda>info.
       load_files sha extension ps (case info of None \<Rightarrow> ix | Some i \<Rightarrow> index_insert sha i ix))"

text \<open>\<open>listable\<close> says which directories the operating system lists; a directory that cannot be listed counts as empty.\<close>

definition list_dir :: "(path \<Rightarrow> bool) \<Rightarrow> disk \<Rightarrow> path \<Rightarrow> string list" where
  "list_dir listable files d = (if listable d then read_dir files d else [])"

definition credential_files :: "(path \<Rightarrow> bool) \<Rightarrow> disk \<Rightarrow> path \<Rightarrow> string \<Rightarrow> path list" where
  "credential_files listable files storage_dir extension =
     concat (map (\<lambda>d. filter (\<lambda>p. path_extension p = Some extension)
         (map (\<lambda>n. storage_dir @ [Normal d, Normal n]) (list_dir listable files (storage_dir @ [Normal d]))))
       (filter (\<lambda>d. is_dir files (storage_dir @ [Normal d]) \<and> \<not> starts_with d ''.'') (list_dir listable files storage_dir)))"

definition load_credential_paths ::
    "(bytes \<Rightarrow> bytes) \<Rightarrow> (path \<Rightarrow> bool) \<Rightarrow> disk \<Rightarrow> path \<Rightarrow> string \<Rightarrow> panic + credential_indexes" where
  "load_credential_paths sha listable files storage_dir extension =
     load_files sha extension (credential_files listable files storage_dir extension) empty_indexes"

section \<open>Names and paths\<close>

lemma split_on_none: "c \<notin> set s \<Longrightarrow> split_on c s = [s]"
  by (induction s) auto

lemma path_of_name:
  assumes "CHR ''/'' \<notin> set s" and "s \<noteq> []" and "s \<noteq> ''.''" and "s \<noteq> ''..''"
  shows "path_of s = [Normal s]"
  using assms by (cases s) (auto simp: path_of_def split_on_none component_of_def starts_with_prefix)

lemma validated_rp_id_ok:
  assumes "validated_rp_id v = Ok r"
  shows "r = trim v" and "path_of r = [Normal r]" and "validated_rp_id r = Ok r" and "CHR ''/'' \<notin> set r" and "\<not> starts_with r ''.''"
proof -
  from assms have r: "r = trim v \<and> r \<noteq> [] \<and> CHR ''/'' \<notin> set r \<and> \<not> starts_with r ''.''"
    by (auto simp: validated_rp_id_def Let_def split: if_splits option.splits)
  then show "r = trim v" "CHR ''/'' \<notin> set r" "\<not> starts_with r ''.''" by blast+
  from assms r have "validated_rp_id v = Ok (trim v)" by simp
  with r show "validated_rp_id r = Ok r" by (simp add: validated_rp_id_def)
  from r show "path_of r = [Normal r]" by (intro path_of_name) (auto simp: starts_with_prefix)
qed

lemma hex_digit_value: "n < 16 \<Longrightarrow> hex_value (hex_digit n) = Some n" "n < 16 \<Longrightarrow> hex_digit n \<noteq> CHR ''+''"
  "n < 16 \<Longrightarrow> \<not> continuation_byte (hex_digit n)" "n < 16 \<Longrightarrow> hex_digit n \<noteq> CHR ''/''" "n < 16 \<Longrightarrow> hex_digit n \<noteq> CHR ''.''"
proof -
  assume n: "n < 16"
  then have c: "of_char (hex_digit n) = (if n < 10 then 48 + n else 87 + n)" by (simp add: hex_digit_def)
  show "hex_value (hex_digit n) = Some n" using n by (simp add: hex_value_def Let_def c)
  have ne: "hex_digit n \<noteq> d" if "of_char d < (48 :: nat)" for d
  proof
    assume "hex_digit n = d"
    with c that show False by (simp split: if_splits)
  qed
  show "hex_digit n \<noteq> CHR ''+''" "hex_digit n \<noteq> CHR ''/''" "hex_digit n \<noteq> CHR ''.''" by (rule ne, simp)+
  show "\<not> continuation_byte (hex_digit n)" using n by (simp add: continuation_byte_def c)
qed

lemma nibbles: "unat (b :: u8) div 16 < 16" "unat b mod 16 < 16"
  using unsigned_less [of b, where ?'a = nat] by simp_all

lemma parse_pairs_hex: "parse_pairs (bytes_to_hex bs) = Ok (Some bs)"
proof (induction bs)
  case (Cons b bs)
  have "from_str_radix16 (hex_digit (unat b div 16)) (hex_digit (unat b mod 16)) = Some b"
    by (simp add: from_str_radix16_def hex_digit_value nibbles)
  moreover have "bytes_to_hex bs = [] \<or> \<not> continuation_byte (hd (bytes_to_hex bs))"
    by (cases bs) (simp_all add: bytes_to_hex_def hex_digit_value nibbles)
  ultimately show ?case using Cons by (auto simp: bytes_to_hex_def)
qed (simp add: bytes_to_hex_def)

lemma bytes_to_hex_set: "c \<in> set (bytes_to_hex bs) \<Longrightarrow> c \<noteq> CHR ''/'' \<and> c \<noteq> CHR ''.''"
  using hex_digit_value(4,5) nibbles by (auto simp: bytes_to_hex_def)

lemma bytes_to_hex_length: "length (bytes_to_hex bs) = 2 * length bs"
  by (induction bs) (simp_all add: bytes_to_hex_def)

lemma parse_filename: "parse_cred_id_from_filename (get_filename cid ext) ext = Ok (Some cid)"
  by (simp add: parse_cred_id_from_filename_def get_filename_def ends_with_suffix suffix_def bytes_to_hex_length parse_pairs_hex)

lemma path_of_filename:
  assumes "CHR ''/'' \<notin> set ext" and "2 \<le> length ext"
  shows "path_of (get_filename cid ext) = [Normal (get_filename cid ext)]"
proof (rule path_of_name)
  show "CHR ''/'' \<notin> set (get_filename cid ext)" using assms(1) bytes_to_hex_set [of "CHR ''/''" cid] by (auto simp: get_filename_def)
  have "3 \<le> length (get_filename cid ext)" using assms(2) by (simp add: get_filename_def)
  then show "get_filename cid ext \<noteq> []" "get_filename cid ext \<noteq> ''.''" "get_filename cid ext \<noteq> ''..''" by auto
qed

text \<open>The information on a credential that the store works with.\<close>

definition info_ok :: "string \<Rightarrow> credential_path_info \<Rightarrow> bool" where
  "info_ok ext info \<longleftrightarrow> validated_rp_id (pi_rp_id info) = Ok (pi_rp_id info) \<and> pi_extension info = ext"

lemma to_path_eq:
  assumes "info_ok ext info" and "CHR ''/'' \<notin> set ext" and "2 \<le> length ext"
  shows "to_path base info = base @ [Normal (pi_rp_id info), Normal (get_filename (pi_cred_id info) ext)]"
proof -
  have "path_of (pi_rp_id info) = [Normal (pi_rp_id info)]" using assms(1) validated_rp_id_ok(2) by (auto simp: info_ok_def)
  with path_of_filename [OF assms(2,3)] assms(1) show ?thesis
    by (simp add: to_path_def get_credential_path_def path_join_def is_absolute_def info_ok_def)
qed

lemma from_to_path:
  assumes "info_ok ext info" and "CHR ''/'' \<notin> set ext" and "2 \<le> length ext"
  shows "from_path (to_path base info) ext = Ok (Some info)"
  using assms(1)
  by (simp add: to_path_eq [OF assms] from_path_def file_name_def parent_def parse_filename butlast_append info_ok_def)

lemma get_filename_inj: "get_filename a ext = get_filename b ext \<longleftrightarrow> a = b"
  by (metis parse_filename sum.inject(2) option.inject)

lemma to_path_inj:
  assumes "info_ok ext i" and "info_ok ext j" and "CHR ''/'' \<notin> set ext" and "2 \<le> length ext"
  shows "to_path base i = to_path base j \<longleftrightarrow> i = j"
  by (metis from_to_path [OF assms(1,3,4)] from_to_path [OF assms(2,3,4)] sum.inject(2) option.inject)

section \<open>The invariant of the indexes\<close>

text \<open>
  An index \<open>m\<close> from keys to credential identifiers groups \<open>ids\<close> by \<open>key\<close>: every identifier is listed under its own key, once,
  and no key has an empty list.
\<close>

definition grouped :: "(credential_path_info \<Rightarrow> 'k) \<Rightarrow> (bytes, credential_path_info) hashmap \<Rightarrow> ('k, bytes list) hashmap \<Rightarrow> bool" where
  "grouped key ids m \<longleftrightarrow> hm_wf m \<and>
     (\<forall>k. case hm_get m k of
        None \<Rightarrow> (\<forall>cid info. hm_get ids cid = Some info \<longrightarrow> key info \<noteq> k)
      | Some l \<Rightarrow> l \<noteq> [] \<and> distinct l \<and> (\<forall>cid. cid \<in> set l \<longleftrightarrow> (\<exists>info. hm_get ids cid = Some info \<and> key info = k)))"

definition index_ok :: "(bytes \<Rightarrow> bytes) \<Rightarrow> string \<Rightarrow> credential_indexes \<Rightarrow> bool" where
  "index_ok sha ext ix \<longleftrightarrow> hm_wf (ix_id ix) \<and>
     (\<forall>cid info. hm_get (ix_id ix) cid = Some info \<longrightarrow> pi_cred_id info = cid \<and> info_ok ext info) \<and>
     grouped pi_rp_id (ix_id ix) (ix_rp ix) \<and> grouped (rp_id_hash sha) (ix_id ix) (ix_rp_hash ix)"

lemma grouped_get:
  assumes "grouped key ids m"
  shows "cid \<in> set (case hm_get m k of None \<Rightarrow> [] | Some l \<Rightarrow> l) \<longleftrightarrow> (\<exists>info. hm_get ids cid = Some info \<and> key info = k)"
proof -
  from assms have "case hm_get m k of
      None \<Rightarrow> (\<forall>cid info. hm_get ids cid = Some info \<longrightarrow> key info \<noteq> k)
    | Some l \<Rightarrow> l \<noteq> [] \<and> distinct l \<and> (\<forall>cid. cid \<in> set l \<longleftrightarrow> (\<exists>info. hm_get ids cid = Some info \<and> key info = k))"
    unfolding grouped_def by blast
  then show ?thesis by (cases "hm_get m k") auto
qed

lemma grouped_distinct: "grouped key ids m \<Longrightarrow> distinct (case hm_get m k of None \<Rightarrow> [] | Some l \<Rightarrow> l)"
  by (auto simp: grouped_def split: option.splits)

lemma grouped_iff: "grouped key ids m \<longleftrightarrow> hm_wf m \<and> (\<forall>k. hm_get m k \<noteq> Some [] \<and> distinct (case hm_get m k of None \<Rightarrow> [] | Some l \<Rightarrow> l) \<and>
    (\<forall>cid. cid \<in> set (case hm_get m k of None \<Rightarrow> [] | Some l \<Rightarrow> l) \<longleftrightarrow> (\<exists>info. hm_get ids cid = Some info \<and> key info = k)))"
  by (auto simp: grouped_def split: option.splits)

lemma entry_push_get: "(case hm_get (entry_push k v m) k' of None \<Rightarrow> [] | Some l \<Rightarrow> l) =
    (case hm_get m k' of None \<Rightarrow> [] | Some l \<Rightarrow> l) @ (if k' = k then [v] else [])"
  by (simp add: entry_push_def)

lemma entry_retain_get: "(case hm_get (entry_retain k v m) k' of None \<Rightarrow> [] | Some l \<Rightarrow> l) =
    filter (\<lambda>x. k' = k \<longrightarrow> x \<noteq> v) (case hm_get m k' of None \<Rightarrow> [] | Some l \<Rightarrow> l)"
  by (auto simp: entry_retain_def Let_def split: option.split)

lemma grouped_push:
  assumes "grouped key ids m" and "hm_get ids (pi_cred_id info) = None"
  shows "grouped key (hm_insert (pi_cred_id info) info ids) (entry_push (key info) (pi_cred_id info) m)"
  unfolding grouped_iff entry_push_get
proof (intro conjI allI)
  fix k cid
  note get = grouped_get [OF assms(1), of _ k]
  show "hm_wf (entry_push (key info) (pi_cred_id info) m)" using assms(1) by (simp add: entry_push_def grouped_def)
  show "hm_get (entry_push (key info) (pi_cred_id info) m) k \<noteq> Some []"
    using assms(1) by (auto simp: entry_push_def grouped_iff)
  have "pi_cred_id info \<notin> set (case hm_get m k of None \<Rightarrow> [] | Some l \<Rightarrow> l)" unfolding get using assms(2) by simp
  with grouped_distinct [OF assms(1), of k]
  show "distinct ((case hm_get m k of None \<Rightarrow> [] | Some l \<Rightarrow> l) @ (if k = key info then [pi_cred_id info] else []))" by simp
  show "cid \<in> set ((case hm_get m k of None \<Rightarrow> [] | Some l \<Rightarrow> l) @ (if k = key info then [pi_cred_id info] else [])) \<longleftrightarrow>
      (\<exists>i. hm_get (hm_insert (pi_cred_id info) info ids) cid = Some i \<and> key i = k)"
    using get [of cid] assms(2) by auto
qed

lemma grouped_retain:
  assumes "grouped key ids m" and "hm_get ids cid = Some info"
  shows "grouped key (hm_remove cid ids) (entry_retain (key info) cid m)"
  unfolding grouped_iff entry_retain_get
proof (intro conjI allI)
  fix k cid'
  note get = grouped_get [OF assms(1), of _ k]
  show "hm_wf (entry_retain (key info) cid m)"
    using assms(1) by (simp add: entry_retain_def grouped_def Let_def split: option.split)
  show "hm_get (entry_retain (key info) cid m) k \<noteq> Some []"
    using assms(1) by (auto simp: entry_retain_def grouped_iff Let_def split: option.split)
  show "distinct (filter (\<lambda>x. k = key info \<longrightarrow> x \<noteq> cid) (case hm_get m k of None \<Rightarrow> [] | Some l \<Rightarrow> l))"
    using grouped_distinct [OF assms(1), of k] by (rule distinct_filter)
  show "cid' \<in> set (filter (\<lambda>x. k = key info \<longrightarrow> x \<noteq> cid) (case hm_get m k of None \<Rightarrow> [] | Some l \<Rightarrow> l)) \<longleftrightarrow>
      (\<exists>i. hm_get (hm_remove cid ids) cid' = Some i \<and> key i = k)"
    using get [of cid'] assms(2) by auto
qed

lemma grouped_same:
  assumes "grouped key ids m" and "hm_get ids cid = Some old" and "key old = key info"
  shows "grouped key (hm_insert cid info ids) m"
proof -
  have "(\<exists>i. hm_get (hm_insert cid info ids) cid' = Some i \<and> key i = k) \<longleftrightarrow> (\<exists>i. hm_get ids cid' = Some i \<and> key i = k)" for cid' k
    using assms(2,3) by auto
  with assms(1) show ?thesis unfolding grouped_iff by simp
qed

lemma empty_index_ok: "index_ok sha ext empty_indexes"
  by (simp add: index_ok_def empty_indexes_def grouped_def)

lemma index_insert_ok:
  assumes "index_ok sha ext ix" and "info_ok ext info" and "hm_get (ix_id ix) (pi_cred_id info) = None"
  shows "index_ok sha ext (index_insert sha info ix)"
  using assms by (auto simp: index_ok_def index_insert_def intro: grouped_push)

lemma on_write_ok:
  assumes "index_ok sha ext ix" and "info_ok ext info"
    and "\<forall>old. hm_get (ix_id ix) (pi_cred_id info) = Some old \<longrightarrow> pi_rp_id old = pi_rp_id info"
  shows "index_ok sha ext (update_indexes_on_write sha info ix)"
proof (cases "hm_get (ix_id ix) (pi_cred_id info)")
  case None
  with index_insert_ok [OF assms(1,2)] show ?thesis by (simp add: update_indexes_on_write_def)
next
  case (Some old)
  with assms(3) have "pi_rp_id old = pi_rp_id info" "rp_id_hash sha old = rp_id_hash sha info" by (simp_all add: rp_id_hash_def)
  with assms Some show ?thesis
    by (auto simp: update_indexes_on_write_def index_ok_def intro!: grouped_same [OF _ Some])
qed

lemma on_delete_ok:
  assumes "index_ok sha ext ix"
  shows "index_ok sha ext (update_indexes_on_delete sha cid ix)"
proof (cases "hm_get (ix_id ix) cid")
  case (Some info)
  with assms show ?thesis
    by (auto simp: update_indexes_on_delete_def index_ok_def intro!: grouped_retain split: if_splits)
qed (use assms in \<open>simp add: update_indexes_on_delete_def\<close>)

lemma resolve_by_rp:
  assumes "index_ok sha ext ix"
  shows "set (resolve_filter ix (ByRp rp) base) = to_path base ` {info. \<exists>cid. hm_get (ix_id ix) cid = Some info \<and> pi_rp_id info = rp}"
proof -
  have g: "grouped pi_rp_id (ix_id ix) (ix_rp ix)" using assms by (simp add: index_ok_def)
  have "resolve_filter ix (ByRp rp) base = List.map_filter (\<lambda>cid. map_option (to_path base) (hm_get (ix_id ix) cid))
      (case hm_get (ix_rp ix) rp of None \<Rightarrow> [] | Some l \<Rightarrow> l)"
    by (simp add: resolve_filter_def resolve_ids_def map_filter_def split: option.split)
  then show ?thesis using grouped_get [OF g, of _ rp] by (force simp: map_filter_def image_iff)
qed

end
