(* ===== verification/Local_Store.thy ===== *)
theory Local_Store
  imports Storage_Index
begin

text \<open>
  The credential store on the local file system, \<open>LocalStorageAdapter\<close> of \<open>cmd/passless/src/storage/local/mod.rs\<close>, with the stored form
  of credentials (\<open>storage/credential.rs\<close>) and the listing of relying parties that \<open>storage/mod.rs\<close> provides for every backend.
  The CBOR library and the key types of the CTAP library are parameters: what the library hands to the deserializers of
  \<open>credential.rs\<close> is a \<open>raw_credential\<close>, and these deserializers are modelled.  Whether the operating system carries out a write, a
  removal or a read is an argument of the operation (writes and removals are atomic; a read can fail at the opening of the file or later).
\<close>

section \<open>Credentials\<close>

datatype store_error = DoesNotExist | NoCredentials | OtherError

datatype backup_state = NotEligible | Eligible | BackedUp

record relying_party =
  party_id :: string
  party_name :: "string option"

record cred_user =
  us_id :: bytes
  us_name :: "string option"
  us_display_name :: "string option"

record cred_extensions =
  ce_cred_protect :: "u8 option"
  ce_hmac_secret :: "bool option"
  ce_cred_random :: "bytes option"

record credential_key =
  ck_provider :: bytes
  ck_format_version :: u16
  ck_material :: bytes

record soft_credential =
  sf_id :: bytes
  sf_rp :: relying_party
  sf_user :: cred_user
  sf_sign_count :: u32
  sf_alg :: u32
  sf_key :: credential_key
  sf_created :: u64
  sf_discoverable :: bool
  sf_backup_state :: backup_state
  sf_extensions :: cred_extensions

record stored_credential =
  cd_id :: bytes
  cd_rp :: relying_party
  cd_user :: cred_user
  cd_sign_count :: u32
  cd_alg :: u32
  cd_private_key :: bytes
  cd_key_provider :: "bytes option"
  cd_key_format_version :: "u16 option"
  cd_created :: u64
  cd_discoverable :: bool
  cd_backup_state :: backup_state
  cd_extensions :: cred_extensions

text \<open>
  What the CBOR library delivers for an \<open>OwnedCredential\<close>: the fields with a deserializer of their own as the CBOR value
  found (a byte string, an array of integers, a boolean or text, or something else), the others as read by the library.  An absent
  backup state is \<open>None\<close>.
\<close>

datatype raw_bytes = RawBytes bytes | RawSeq "int list" | RawNoBytes
datatype raw_backup = RawBool bool | RawText string | RawNoBackup

record raw_credential =
  rc_id :: raw_bytes
  rc_rp :: relying_party
  rc_user_id :: raw_bytes
  rc_user_name :: "string option"
  rc_user_display_name :: "string option"
  rc_sign_count :: u32
  rc_alg :: u32
  rc_private_key :: raw_bytes
  rc_key_provider :: "bytes option"
  rc_key_format_version :: "u16 option"
  rc_created :: u64
  rc_discoverable :: bool
  rc_backup_state :: "raw_backup option"
  rc_extensions :: cred_extensions

record store_env =
  se_sha :: "bytes \<Rightarrow> bytes"
  se_into_writer :: "stored_credential \<Rightarrow> bytes option"
  se_cbor :: "bytes \<Rightarrow> raw_credential option"
  se_default_backup :: backup_state
  se_is_software :: "bytes \<Rightarrow> bool"
  se_software :: "bytes \<Rightarrow> credential_key"

fun flexible_bytes :: "raw_bytes \<Rightarrow> bytes option" where
  "flexible_bytes (RawBytes b) = Some b"
| "flexible_bytes (RawSeq xs) = (if list_all (\<lambda>x. 0 \<le> x \<and> x < 256) xs then Some (map of_int xs) else None)"
| "flexible_bytes RawNoBytes = None"

fun flexible_backup_state :: "raw_backup \<Rightarrow> backup_state option" where
  "flexible_backup_state (RawBool b) = Some (if b then BackedUp else NotEligible)"
| "flexible_backup_state (RawText s) =
     (if s = ''notEligible'' then Some NotEligible
      else if s = ''eligible'' then Some Eligible
      else if s = ''backedUp'' then Some BackedUp
      else None)"
| "flexible_backup_state RawNoBackup = None"

definition owned_credential :: "store_env \<Rightarrow> raw_credential \<Rightarrow> stored_credential option" where
  "owned_credential v r =
     Option.bind (flexible_bytes (rc_id r)) (\<lambda>cid.
     Option.bind (flexible_bytes (rc_user_id r)) (\<lambda>uid.
     Option.bind (flexible_bytes (rc_private_key r)) (\<lambda>key.
     Option.bind (case rc_backup_state r of None \<Rightarrow> Some (se_default_backup v) | Some b \<Rightarrow> flexible_backup_state b) (\<lambda>backup.
       Some \<lparr>cd_id = cid, cd_rp = rc_rp r,
         cd_user = \<lparr>us_id = uid, us_name = rc_user_name r, us_display_name = rc_user_display_name r\<rparr>,
         cd_sign_count = rc_sign_count r, cd_alg = rc_alg r, cd_private_key = key, cd_key_provider = rc_key_provider r,
         cd_key_format_version = rc_key_format_version r, cd_created = rc_created r, cd_discoverable = rc_discoverable r,
         cd_backup_state = backup, cd_extensions = rc_extensions r\<rparr>))))"

definition from_bytes :: "store_env \<Rightarrow> bytes \<Rightarrow> store_error + stored_credential" where
  "from_bytes v data =
     (case Option.bind (se_cbor v data) (owned_credential v) of None \<Rightarrow> Err OtherError | Some c \<Rightarrow> Ok c)"

definition to_bytes :: "store_env \<Rightarrow> stored_credential \<Rightarrow> store_error + bytes" where
  "to_bytes v c = (case se_into_writer v c of None \<Rightarrow> Err OtherError | Some b \<Rightarrow> Ok b)"

text \<open>
  The storage format: byte vectors as arrays of integers and the backup state as camel-case text.  The codec hypothesis is
  that the library reads back what it wrote, in this form.
\<close>

fun backup_name :: "backup_state \<Rightarrow> string" where
  "backup_name NotEligible = ''notEligible''"
| "backup_name Eligible = ''eligible''"
| "backup_name BackedUp = ''backedUp''"

definition raw_of :: "stored_credential \<Rightarrow> raw_credential" where
  "raw_of c =
     \<lparr>rc_id = RawSeq (map uint (cd_id c)), rc_rp = cd_rp c, rc_user_id = RawSeq (map uint (us_id (cd_user c))),
      rc_user_name = us_name (cd_user c), rc_user_display_name = us_display_name (cd_user c), rc_sign_count = cd_sign_count c,
      rc_alg = cd_alg c, rc_private_key = RawSeq (map uint (cd_private_key c)), rc_key_provider = cd_key_provider c,
      rc_key_format_version = cd_key_format_version c, rc_created = cd_created c, rc_discoverable = cd_discoverable c,
      rc_backup_state = Some (RawText (backup_name (cd_backup_state c))), rc_extensions = cd_extensions c\<rparr>"

definition codec_ok :: "store_env \<Rightarrow> bool" where
  "codec_ok v \<longleftrightarrow> (\<forall>c b. se_into_writer v c = Some b \<longrightarrow> se_cbor v b = Some (raw_of c))"

lemma flexible_bytes_seq: "flexible_bytes (RawSeq (map uint (bs :: bytes))) = Some bs"
proof -
  have "0 \<le> uint b \<and> uint b < 256" for b :: u8 using uint_lt2p [of b] by simp
  then show ?thesis by (simp add: list_all_iff comp_def)
qed

lemma flexible_backup_name: "flexible_backup_state (RawText (backup_name st)) = Some st"
  by (cases st) simp_all

lemma owned_raw: "owned_credential v (raw_of c) = Some c"
  by (simp add: owned_credential_def raw_of_def flexible_bytes_seq flexible_backup_name del: flexible_bytes.simps flexible_backup_state.simps)

text \<open>Reading what was written gives the credential back.\<close>

lemma codec_reads: "codec_ok v \<Longrightarrow> se_into_writer v c = Some b \<Longrightarrow> from_bytes v b = Ok c"
  by (simp add: codec_ok_def from_bytes_def owned_raw)

definition from_soft_fido2 :: "store_env \<Rightarrow> soft_credential \<Rightarrow> stored_credential" where
  "from_soft_fido2 v c =
     (let is_software = se_is_software v (ck_provider (sf_key c)) in
      \<lparr>cd_id = sf_id c, cd_rp = sf_rp c, cd_user = sf_user c, cd_sign_count = sf_sign_count c, cd_alg = sf_alg c,
       cd_private_key = ck_material (sf_key c),
       cd_key_provider = (if is_software then None else Some (ck_provider (sf_key c))),
       cd_key_format_version = (if is_software then None else Some (ck_format_version (sf_key c))),
       cd_created = sf_created c, cd_discoverable = sf_discoverable c, cd_backup_state = sf_backup_state c,
       cd_extensions = sf_extensions c\<rparr>)"

definition to_soft_fido2 :: "store_env \<Rightarrow> stored_credential \<Rightarrow> soft_credential" where
  "to_soft_fido2 v s =
     (let key = (case (cd_key_provider s, cd_key_format_version s) of
          (Some provider, Some version) \<Rightarrow> \<lparr>ck_provider = provider, ck_format_version = version, ck_material = cd_private_key s\<rparr>
        | _ \<Rightarrow> se_software v (cd_private_key s)) in
      \<lparr>sf_id = cd_id s, sf_rp = cd_rp s, sf_user = cd_user s, sf_sign_count = cd_sign_count s, sf_alg = cd_alg s, sf_key = key,
       sf_created = cd_created s, sf_discoverable = cd_discoverable s, sf_backup_state = cd_backup_state s,
       sf_extensions = cd_extensions s\<rparr>)"

text \<open>A software key is the one that \<open>CredentialKey::software\<close> makes of its material.\<close>

definition key_ok :: "store_env \<Rightarrow> soft_credential \<Rightarrow> bool" where
  "key_ok v c \<longleftrightarrow> (se_is_software v (ck_provider (sf_key c)) \<longrightarrow> se_software v (ck_material (sf_key c)) = sf_key c)"

lemma soft_roundtrip: "key_ok v c \<Longrightarrow> to_soft_fido2 v (from_soft_fido2 v c) = c"
  by (simp add: to_soft_fido2_def from_soft_fido2_def key_ok_def Let_def)

section \<open>The adapter\<close>

record local_store =
  lo_files :: disk
  lo_indexes :: credential_indexes
  lo_iteration_index :: nat
  lo_iteration_files :: "path list"

definition BIN :: string where "BIN = ''bin''"

definition open_store :: "store_env \<Rightarrow> (path \<Rightarrow> bool) \<Rightarrow> path \<Rightarrow> disk \<Rightarrow> panic + local_store" where
  "open_store v listable storage_dir files =
     res_bind (load_credential_paths (se_sha v) listable files storage_dir BIN) (\<lambda>ix.
       Ok \<lparr>lo_files = files, lo_indexes = ix, lo_iteration_index = 0, lo_iteration_files = []\<rparr>)"

text \<open>How the operating system answers the reading of a file.\<close>

datatype read_io = ReadOk | OpenFails | ReadFails

definition load_credential_from_path :: "store_env \<Rightarrow> read_io \<Rightarrow> local_store \<Rightarrow> path \<Rightarrow> store_error + soft_credential" where
  "load_credential_from_path v io s p =
     (case hm_get (lo_files s) p of
        None \<Rightarrow> Err DoesNotExist
      | Some contents \<Rightarrow>
          if io = OpenFails then Err DoesNotExist
          else if io = ReadFails then Err OtherError
          else res_bind (from_bytes v contents) (\<lambda>c. Ok (to_soft_fido2 v c)))"

definition save_credential :: "store_env \<Rightarrow> path \<Rightarrow> bool \<Rightarrow> soft_credential \<Rightarrow> local_store \<Rightarrow> local_store \<times> (store_error + unit)" where
  "save_credential v storage_dir io cred s =
     (let our_cred = from_soft_fido2 v cred in
      case validated_rp_id (party_id (sf_rp cred)) of
        Inl _ \<Rightarrow> (s, Err OtherError)
      | Inr rp_id \<Rightarrow>
          (let info = \<lparr>pi_rp_id = rp_id, pi_cred_id = sf_id cred, pi_extension = BIN\<rparr>; p = to_path storage_dir info in
           if parent p = None then (s, Err OtherError)
           else case to_bytes v our_cred of
             Inl e \<Rightarrow> (s, Err e)
           | Inr content \<Rightarrow>
               if file_name p = None \<or> \<not> io then (s, Err OtherError)
               else (s\<lparr>lo_files := hm_insert p content (lo_files s),
                       lo_indexes := update_indexes_on_write (se_sha v) info (lo_indexes s)\<rparr>, Ok ())))"

definition store_find_next :: "store_env \<Rightarrow> read_io \<Rightarrow> local_store \<Rightarrow> local_store \<times> (store_error + soft_credential)" where
  "store_find_next v io s =
     (if length (lo_iteration_files s) \<le> lo_iteration_index s then (s, Err DoesNotExist)
      else (s\<lparr>lo_iteration_index := lo_iteration_index s + 1\<rparr>,
            load_credential_from_path v io s (lo_iteration_files s ! lo_iteration_index s)))"

definition read_first ::
    "store_env \<Rightarrow> path \<Rightarrow> read_io \<Rightarrow> credential_filter \<Rightarrow> local_store \<Rightarrow> local_store \<times> (store_error + soft_credential)" where
  "read_first v storage_dir io f s =
     store_find_next v io (s\<lparr>lo_iteration_index := 0, lo_iteration_files := resolve_filter (lo_indexes s) f storage_dir\<rparr>)"

definition read_next :: "store_env \<Rightarrow> read_io \<Rightarrow> local_store \<Rightarrow> local_store \<times> (store_error + soft_credential)" where
  "read_next v io s = store_find_next v io s"

definition store_read :: "store_env \<Rightarrow> path \<Rightarrow> read_io \<Rightarrow> bytes \<Rightarrow> local_store \<Rightarrow> store_error + soft_credential" where
  "store_read v storage_dir io cid s =
     (case hm_get (ix_id (lo_indexes s)) cid of
        None \<Rightarrow> Err DoesNotExist
      | Some info \<Rightarrow> load_credential_from_path v io s (to_path storage_dir info))"

definition store_write :: "store_env \<Rightarrow> path \<Rightarrow> bool \<Rightarrow> soft_credential \<Rightarrow> local_store \<Rightarrow> local_store \<times> (store_error + unit)" where
  "store_write v storage_dir io cred s = save_credential v storage_dir io cred s"

definition store_delete :: "store_env \<Rightarrow> path \<Rightarrow> bool \<Rightarrow> bytes \<Rightarrow> local_store \<Rightarrow> local_store \<times> (store_error + unit)" where
  "store_delete v storage_dir io cid s =
     (case hm_get (ix_id (lo_indexes s)) cid of
        None \<Rightarrow> (s, Err DoesNotExist)
      | Some info \<Rightarrow>
          (let p = to_path storage_dir info in
           if \<not> io \<or> hm_get (lo_files s) p = None then (s, Err OtherError)
           else (s\<lparr>lo_files := hm_remove p (lo_files s),
                   lo_indexes := update_indexes_on_delete (se_sha v) cid (lo_indexes s)\<rparr>, Ok ())))"

definition count_credentials :: "local_store \<Rightarrow> nat" where
  "count_credentials s = length (ix_id (lo_indexes s))"

section \<open>Listing\<close>

text \<open>The loop \<open>while let Ok(credential) = self.read_next()\<close>; \<open>ios n\<close> is the answer of the system to the read of the \<open>n\<close>-th file.\<close>

function read_rest :: "store_env \<Rightarrow> (nat \<Rightarrow> read_io) \<Rightarrow> local_store \<Rightarrow> local_store \<times> soft_credential list" where
  "read_rest v ios s =
     (case read_next v (ios (lo_iteration_index s)) s of
        (s', Inl _) \<Rightarrow> (s', [])
      | (s', Inr c) \<Rightarrow> (case read_rest v ios s' of (s'', cs) \<Rightarrow> (s'', c # cs)))"
  by pat_completeness auto
termination
  by (relation "measure (\<lambda>(v, ios, s). length (lo_iteration_files s) - lo_iteration_index s)")
    (auto simp: read_next_def store_find_next_def split: if_splits)

declare read_rest.simps [simp del]

definition read_all ::
    "store_env \<Rightarrow> path \<Rightarrow> (nat \<Rightarrow> read_io) \<Rightarrow> credential_filter \<Rightarrow> local_store \<Rightarrow> local_store \<times> soft_credential list" where
  "read_all v storage_dir ios f s =
     (case read_first v storage_dir (ios 0) f s of
        (s', Inl _) \<Rightarrow> (s', [])
      | (s', Inr c) \<Rightarrow> (case read_rest v ios s' of (s'', cs) \<Rightarrow> (s'', c # cs)))"

record relying_party_metadata =
  rm_id :: string
  rm_name :: "string option"
  rm_credential_count :: nat

definition count_party :: "soft_credential \<Rightarrow> (string, string option \<times> nat) hashmap \<Rightarrow> (string, string option \<times> nat) hashmap" where
  "count_party c m =
     (let k = party_id (sf_rp c); (name, n) = (case hm_get m k of None \<Rightarrow> (party_name (sf_rp c), 0) | Some e \<Rightarrow> e) in
      hm_insert k (name, n + 1) m)"

definition list_relying_parties :: "store_env \<Rightarrow> path \<Rightarrow> (nat \<Rightarrow> read_io) \<Rightarrow> local_store \<Rightarrow> local_store \<times> relying_party_metadata list" where
  "list_relying_parties v storage_dir ios s =
     (case read_all v storage_dir ios FilterNone s of (s', creds) \<Rightarrow>
        (s', map (\<lambda>(k, name, n). \<lparr>rm_id = k, rm_name = name, rm_credential_count = n\<rparr>)
               (sort_key fst (fold count_party creds []))))"

end
