(* ===== verification/Store_Refinement.thy ===== *)
theory Store_Refinement
  imports Local_Store
begin

text \<open>
  What the local credential store promises: it behaves like a map from identifiers to credentials, reading by relying
  party finds exactly the credentials of that relying party, and opening the directory again gives the same store.
\<close>

section \<open>The specification\<close>

datatype store_op = SWrite bool soft_credential | SRead read_io bytes | SDelete bool bytes | SCount

datatype store_out = OutUnit "store_error + unit" | OutCred "store_error + soft_credential" | OutCount nat

fun store_step :: "store_env \<Rightarrow> path \<Rightarrow> local_store \<Rightarrow> store_op \<Rightarrow> local_store \<times> store_out" where
  "store_step v dir s (SWrite io c) = (case store_write v dir io c s of (s', r) \<Rightarrow> (s', OutUnit r))"
| "store_step v dir s (SRead io cid) = (s, OutCred (store_read v dir io cid s))"
| "store_step v dir s (SDelete io cid) = (case store_delete v dir io cid s of (s', r) \<Rightarrow> (s', OutUnit r))"
| "store_step v dir s SCount = (s, OutCount (count_credentials s))"

text \<open>
  The same operations on a plain map from identifiers to credentials.  A credential whose file cannot be opened is
  answered like one that does not exist, a failure later in the read is reported as such; the map stays as it is.
\<close>

definition storable :: "store_env \<Rightarrow> soft_credential \<Rightarrow> bool" where
  "storable v c \<longleftrightarrow> is_ok (validated_rp_id (party_id (sf_rp c))) \<and> se_into_writer v (from_soft_fido2 v c) \<noteq> None"

fun read_outcome :: "read_io \<Rightarrow> soft_credential option \<Rightarrow> store_error + soft_credential" where
  "read_outcome io None = Err DoesNotExist"
| "read_outcome ReadOk (Some c) = Ok c"
| "read_outcome OpenFails (Some c) = Err DoesNotExist"
| "read_outcome ReadFails (Some c) = Err OtherError"

fun spec_step :: "store_env \<Rightarrow> (bytes, soft_credential) hashmap \<Rightarrow> store_op \<Rightarrow> (bytes, soft_credential) hashmap \<times> store_out" where
  "spec_step v m (SWrite io c) =
     (if storable v c \<and> io then (hm_insert (sf_id c) c m, OutUnit (Ok ())) else (m, OutUnit (Err OtherError)))"
| "spec_step v m (SRead io cid) = (m, OutCred (read_outcome io (hm_get m cid)))"
| "spec_step v m (SDelete io cid) =
     (if hm_get m cid = None then (m, OutUnit (Err DoesNotExist))
      else if io then (hm_remove cid m, OutUnit (Ok ())) else (m, OutUnit (Err OtherError)))"
| "spec_step v m SCount = (m, OutCount (length m))"

definition empty_store :: local_store where
  "empty_store = \<lparr>lo_files = [], lo_indexes = empty_indexes, lo_iteration_index = 0, lo_iteration_files = []\<rparr>"

text \<open>
  The operations considered: an identifier is not empty and is written with one relying party only (\<open>rp_of\<close>, up to surrounding
  blanks), and software keys are those the library makes.  What happens otherwise is the subject of \<open>rewrite_under_other_rp_misfiled\<close>.
\<close>

fun store_op_ok :: "store_env \<Rightarrow> (bytes \<Rightarrow> string) \<Rightarrow> store_op \<Rightarrow> bool" where
  "store_op_ok v rp_of (SWrite io c) \<longleftrightarrow> trim (party_id (sf_rp c)) = rp_of (sf_id c) \<and> key_ok v c \<and> sf_id c \<noteq> []"
| "store_op_ok v rp_of _ \<longleftrightarrow> True"

section \<open>The simulation\<close>

text \<open>The path information under which a credential is stored.\<close>

definition info_of :: "soft_credential \<Rightarrow> credential_path_info" where
  "info_of c = \<lparr>pi_rp_id = trim (party_id (sf_rp c)), pi_cred_id = sf_id c, pi_extension = BIN\<rparr>"

definition filed :: "store_env \<Rightarrow> path \<Rightarrow> disk \<Rightarrow> soft_credential \<Rightarrow> bool" where
  "filed v dir files c \<longleftrightarrow> key_ok v c \<and> is_ok (validated_rp_id (party_id (sf_rp c))) \<and>
     (\<exists>b. hm_get files (to_path dir (info_of c)) = Some b \<and> from_bytes v b = Ok (from_soft_fido2 v c))"

definition store_holds :: "store_env \<Rightarrow> path \<Rightarrow> (bytes \<Rightarrow> string) \<Rightarrow> local_store \<Rightarrow> (bytes, soft_credential) hashmap \<Rightarrow> bool" where
  "store_holds v dir rp_of s m \<longleftrightarrow> index_ok (se_sha v) BIN (lo_indexes s) \<and> hm_wf m \<and> hm_wf (lo_files s) \<and>
     (\<forall>cid c. hm_get m cid = Some c \<longrightarrow> sf_id c = cid \<and> cid \<noteq> [] \<and> pi_rp_id (info_of c) = rp_of cid \<and> filed v dir (lo_files s) c) \<and>
     (\<forall>cid. hm_get (ix_id (lo_indexes s)) cid = map_option info_of (hm_get m cid)) \<and>
     (\<forall>p. hm_get (lo_files s) p \<noteq> None \<longrightarrow> (\<exists>cid c. hm_get m cid = Some c \<and> p = to_path dir (info_of c)))"

lemma BIN_ok: "CHR ''/'' \<notin> set BIN" "2 \<le> length BIN"
  by (simp_all add: BIN_def)

lemma validated_info: "validated_rp_id (party_id (sf_rp c)) = Ok r \<Longrightarrow> r = pi_rp_id (info_of c) \<and> info_ok BIN (info_of c)"
  using validated_rp_id_ok(1,3) [of "party_id (sf_rp c)" r] by (simp add: info_of_def info_ok_def)

lemma filed_info: "filed v dir files c \<Longrightarrow> info_ok BIN (info_of c)"
  using validated_info [of c] by (auto simp: filed_def is_ok_iff)

lemma filed_load:
  assumes "filed v dir (lo_files s) c"
  shows "load_credential_from_path v io s (to_path dir (info_of c)) = read_outcome io (Some c)"
  using assms soft_roundtrip [of v c] by (cases io) (auto simp: filed_def load_credential_from_path_def)

lemma empty_rel: "store_holds v dir rp_of empty_store []"
  using empty_index_ok [of "se_sha v" BIN] by (simp add: store_holds_def empty_store_def) (simp add: empty_indexes_def)

lemma hm_length_eq: "hm_wf m \<Longrightarrow> hm_wf m' \<Longrightarrow> (\<And>k. hm_get m k = None \<longleftrightarrow> hm_get m' k = None) \<Longrightarrow> length m = length m'"
proof -
  assume w: "hm_wf m" "hm_wf m'" and e: "\<And>k. hm_get m k = None \<longleftrightarrow> hm_get m' k = None"
  have "fst ` set m = fst ` set m'" using e by (force simp: hm_get_def map_of_eq_None_iff)
  with w show ?thesis unfolding hm_wf_def by (metis distinct_card length_map list.set_map)
qed

lemma file_apart:
  assumes "filed v dir files c" and "info_ok BIN info" and "sf_id c \<noteq> pi_cred_id info"
  shows "to_path dir (info_of c) \<noteq> to_path dir info"
  using to_path_inj [OF filed_info [OF assms(1)] assms(2) BIN_ok] assms(3) by (auto simp: info_of_def)

lemma write_rel:
  assumes "store_holds v dir rp_of s m" and "codec_ok v" and "store_op_ok v rp_of (SWrite io c)"
    and "store_write v dir io c s = (s', r)"
  shows "store_holds v dir rp_of s' (fst (spec_step v m (SWrite io c))) \<and> OutUnit r = snd (spec_step v m (SWrite io c))"
proof (cases "storable v c \<and> io")
  case True
  then obtain rp b where rp: "validated_rp_id (party_id (sf_rp c)) = Ok rp" and b: "se_into_writer v (from_soft_fido2 v c) = Some b" and io
    by (auto simp: storable_def is_ok_iff)
  from validated_info [OF rp] have info: "\<lparr>pi_rp_id = rp, pi_cred_id = sf_id c, pi_extension = BIN\<rparr> = info_of c" "info_ok BIN (info_of c)"
    by (auto simp: info_of_def)
  let ?p = "to_path dir (info_of c)"
  have p: "parent ?p \<noteq> None" "file_name ?p \<noteq> None"
    using to_path_eq [OF info(2) BIN_ok] by (simp_all add: parent_def file_name_def)
  from assms(4) True rp b p have s': "s' = s\<lparr>lo_files := hm_insert ?p b (lo_files s),
      lo_indexes := update_indexes_on_write (se_sha v) (info_of c) (lo_indexes s)\<rparr>" and r: "r = Ok ()"
    by (auto simp: store_write_def save_credential_def to_bytes_def Let_def info)
  have old: "\<forall>old. hm_get (ix_id (lo_indexes s)) (pi_cred_id (info_of c)) = Some old \<longrightarrow> pi_rp_id old = pi_rp_id (info_of c)"
    using assms(1,3) by (auto simp: store_holds_def info_of_def)
  have ix: "index_ok (se_sha v) BIN (lo_indexes s')"
    using on_write_ok [OF _ info(2) old, of "se_sha v"] assms(1) by (simp add: store_holds_def s')
  have filed: "filed v dir (lo_files s') c'" if "filed v dir (lo_files s) c'" "sf_id c' \<noteq> sf_id c" for c'
    using file_apart [OF that(1) info(2)] that by (simp add: filed_def s' info_of_def)
  have new: "filed v dir (lo_files s') c"
    using assms(2,3) b rp codec_reads by (simp add: filed_def s')
  have "hm_get (ix_id (lo_indexes s')) cid = map_option info_of (hm_get (hm_insert (sf_id c) c m) cid)" for cid
    using assms(1) by (auto simp: s' update_indexes_on_write_def index_insert_def store_holds_def info_of_def)
  moreover have "\<exists>cid d. hm_get (hm_insert (sf_id c) c m) cid = Some d \<and> q = to_path dir (info_of d)" if "hm_get (lo_files s') q \<noteq> None" for q
  proof (cases "q = ?p")
    case False
    with that assms(1) obtain cid d where d: "hm_get m cid = Some d" "q = to_path dir (info_of d)"
      by (auto simp: s' store_holds_def)
    have "cid \<noteq> sf_id c"
    proof
      assume "cid = sf_id c"
      with assms(1,3) d(1) have "info_of d = info_of c" by (auto simp: store_holds_def info_of_def)
      with d(2) False show False by simp
    qed
    with d show ?thesis by auto
  qed auto
  ultimately have "store_holds v dir rp_of s' (hm_insert (sf_id c) c m)"
    using assms(1,3) ix filed new by (auto simp: store_holds_def info_of_def [of c] s')
  with True r show ?thesis by simp
next
  case False
  then have "s' = s \<and> r = Err OtherError"
    using assms(4) by (auto simp: store_write_def save_credential_def to_bytes_def storable_def Let_def is_ok_iff split: sum.splits option.splits if_splits)
  with False assms(1) show ?thesis by auto
qed

lemma delete_rel:
  assumes "store_holds v dir rp_of s m" and "store_delete v dir io cid s = (s', r)"
  shows "store_holds v dir rp_of s' (fst (spec_step v m (SDelete io cid))) \<and> OutUnit r = snd (spec_step v m (SDelete io cid))"
proof (cases "hm_get m cid")
  case None
  with assms show ?thesis by (auto simp: store_holds_def store_delete_def)
next
  case (Some c)
  with assms(1) have ix: "hm_get (ix_id (lo_indexes s)) cid = Some (info_of c)" and c: "filed v dir (lo_files s) c" "sf_id c = cid"
    by (auto simp: store_holds_def)
  let ?p = "to_path dir (info_of c)"
  have p: "hm_get (lo_files s) ?p \<noteq> None" using c(1) by (auto simp: filed_def)
  show ?thesis
  proof (cases io)
    case True
    with assms(2) ix p have s': "s' = s\<lparr>lo_files := hm_remove ?p (lo_files s),
        lo_indexes := update_indexes_on_delete (se_sha v) cid (lo_indexes s)\<rparr>" and r: "r = Ok ()"
      by (auto simp: store_delete_def Let_def)
    have "filed v dir (lo_files s') d" if "filed v dir (lo_files s) d" "sf_id d \<noteq> cid" for d
      using file_apart [OF that(1) filed_info [OF c(1)]] that c(2) by (simp add: filed_def s' info_of_def)
    moreover have "hm_get (ix_id (lo_indexes s')) k = map_option info_of (hm_get (hm_remove cid m) k)" for k
      using assms(1) ix by (auto simp: s' update_indexes_on_delete_def store_holds_def)
    moreover have "\<exists>k d. hm_get (hm_remove cid m) k = Some d \<and> q = to_path dir (info_of d)" if q: "hm_get (lo_files s') q \<noteq> None" for q
    proof -
      from q have "hm_get (lo_files s) q \<noteq> None" and ne: "q \<noteq> ?p" by (auto simp: s' split: if_splits)
      with assms(1) obtain k d where d: "hm_get m k = Some d" "q = to_path dir (info_of d)" by (auto simp: store_holds_def)
      with ne Some have "k \<noteq> cid" by auto
      with d show ?thesis by auto
    qed
    ultimately have "store_holds v dir rp_of s' (hm_remove cid m)"
      using assms(1) on_delete_ok [of "se_sha v" BIN "lo_indexes s" cid] by (auto simp: store_holds_def s' split: if_splits)
    with True Some r show ?thesis by simp
  next
    case False
    with assms Some ix show ?thesis by (auto simp: store_delete_def Let_def)
  qed
qed

lemma step_rel:
  assumes "store_holds v dir rp_of s m" and "codec_ok v" and "store_op_ok v rp_of x"
  shows "store_holds v dir rp_of (fst (store_step v dir s x)) (fst (spec_step v m x)) \<and> snd (store_step v dir s x) = snd (spec_step v m x)"
proof (cases x)
  case (SWrite io c)
  obtain s' r where "store_write v dir io c s = (s', r)" by fastforce
  with write_rel [OF assms(1,2) assms(3) [unfolded SWrite] this] SWrite show ?thesis by simp
next
  case (SRead io cid)
  show ?thesis
  proof (cases "hm_get m cid")
    case (Some c)
    with assms(1) have "hm_get (ix_id (lo_indexes s)) cid = Some (info_of c)" "filed v dir (lo_files s) c" by (auto simp: store_holds_def)
    with filed_load [of v dir s c io] Some SRead assms(1) show ?thesis by (simp add: store_read_def)
  qed (use SRead assms(1) in \<open>simp add: store_read_def store_holds_def\<close>)
next
  case (SDelete io cid)
  obtain s' r where "store_delete v dir io cid s = (s', r)" by fastforce
  with delete_rel [OF assms(1) this] SDelete show ?thesis by simp
next
  case SCount
  have "length (ix_id (lo_indexes s)) = length m"
    by (rule hm_length_eq) (use assms(1) in \<open>auto simp: store_holds_def index_ok_def\<close>)
  with SCount assms(1) show ?thesis by (simp add: count_credentials_def)
qed

lemma run_rel:
  assumes "store_holds v dir rp_of s m" and "codec_ok v" and "list_all (store_op_ok v rp_of) xs"
  shows "store_holds v dir rp_of (run_state (store_step v dir) s xs) (run_state (spec_step v) m xs) \<and>
    run_trace (store_step v dir) s xs = run_trace (spec_step v) m xs"
  using assms
proof (induction xs arbitrary: s m)
  case (Cons x xs)
  from step_rel [OF Cons.prems(1,2)] Cons.prems(3)
  have "store_holds v dir rp_of (fst (store_step v dir s x)) (fst (spec_step v m x))" "snd (store_step v dir s x) = snd (spec_step v m x)"
    by simp_all
  with Cons.IH [OF this(1) Cons.prems(2)] Cons.prems(3) show ?case by simp
qed simp

text \<open>C11. The credential store on disk refines a map: every sequence of writes, reads, removals and counts from an empty
  directory is answered as by a map from identifiers to credentials, in which a write or removal that the system refuses changes nothing
  and a read that the system refuses is answered by the error of the code (a file that cannot be opened like a missing
  credential).  This is so when every identifier written is not empty and always written with the same relying party (up to
  surrounding blanks), software keys are those the library makes, and the codec reads back what it wrote.\<close>

theorem local_store_refines_map:
  assumes "codec_ok v" and "list_all (store_op_ok v rp_of) xs"
  shows "run_trace (store_step v dir) empty_store xs = run_trace (spec_step v) [] xs"
  using run_rel [OF empty_rel assms] by blast

end
