(* ===== verification/Delegated_Storage.thy ===== *)
theory Delegated_Storage
  imports Store_Refinement Ids "HOL-Library.Monad_Syntax"
begin

text \<open>
  The views of a credential store that agent endpoints get, \<open>cmd/passless/src/agent/storage.rs\<close>: the scope of the
  ceremony in progress, the delegated view of the human's store and the scoped view of an isolated store.  Both
  views are generic in the store behind them, whose operations are the record \<open>storage_ops\<close>; what they rely
  on is the locale \<open>credential_backend\<close>, interpreted by the local store.  SHA-256, the hexadecimal printer and the
  printing of errors are parameters.  The mutexes make every method one transition; a poisoned lock of the store is the
  flag \<open>ds_poisoned\<close>.  A credential to be written is given in the owned form that \<open>to_owned\<close> of the CTAP
  library makes of the borrowed one.
\<close>

section \<open>The scope of a ceremony\<close>

datatype ceremony_action = CaRegister | CaAuthenticate credential_ref

record active_ceremony =
  ac_action :: ceremony_action
  ac_rp_id :: string
  ac_generation :: u64

record ceremony_scope =
  cs_generation :: u64
  cs_active :: "active_ceremony option"

datatype scope_activation_error = EmptyCredentialRef | EmptyRpId

definition new_scope :: ceremony_scope where
  "new_scope = \<lparr>cs_generation = 0, cs_active = None\<rparr>"

text \<open>The guard that \<open>activate\<close> hands out is the generation of the ceremony.\<close>

definition activate :: "ceremony_action \<Rightarrow> string \<Rightarrow> ceremony_scope \<Rightarrow> ceremony_scope \<times> (scope_activation_error + u64)" where
  "activate action rp_id sc =
    (let rp_id = normalize rp_id in
     if rp_id = [] then (sc, Err EmptyRpId)
     else if (case action of CaAuthenticate cref \<Rightarrow> list_all (\<lambda>b. b = 0) (cred_bytes cref) | CaRegister \<Rightarrow> False)
     then (sc, Err EmptyCredentialRef)
     else
       (let generation = cs_generation sc + 1 in
        (sc\<lparr>cs_generation := generation,
            cs_active := Some \<lparr>ac_action = action, ac_rp_id = rp_id, ac_generation = generation\<rparr>\<rparr>, Ok generation)))"

definition drop_guard :: "u64 \<Rightarrow> ceremony_scope \<Rightarrow> ceremony_scope" where
  "drop_guard generation sc = (case cs_active sc of
     Some c \<Rightarrow> if ac_generation c = generation then sc\<lparr>cs_active := None\<rparr> else sc
   | None \<Rightarrow> sc)"

definition active_action :: "ceremony_scope \<Rightarrow> ceremony_action option" where
  "active_action sc = map_option ac_action (cs_active sc)"

definition active_cred_ref :: "ceremony_scope \<Rightarrow> credential_ref option" where
  "active_cred_ref sc = (case cs_active sc of None \<Rightarrow> None
     | Some a \<Rightarrow> (case ac_action a of CaAuthenticate cref \<Rightarrow> Some cref | CaRegister \<Rightarrow> None))"

definition active_rp_id :: "ceremony_scope \<Rightarrow> string option" where
  "active_rp_id sc = map_option ac_rp_id (cs_active sc)"

section \<open>The store behind a view\<close>

record 's storage_ops =
  so_read_first :: "credential_filter \<Rightarrow> 's \<Rightarrow> 's \<times> (store_error + soft_credential)"
  so_read_next :: "'s \<Rightarrow> 's \<times> (store_error + soft_credential)"
  so_read :: "bytes \<Rightarrow> 's \<Rightarrow> 's \<times> (store_error + soft_credential)"
  so_write :: "soft_credential \<Rightarrow> 's \<Rightarrow> 's \<times> (store_error + unit)"
  so_cleanup :: "'s \<Rightarrow> 's"

datatype delegated_error =
    RpIdNotAllowed string
  | CredentialNotAllowed string
  | WriteDenied
  | DeleteDenied
  | RenameDenied
  | DiscoveryDenied
  | RegistrationDenied
  | ImmutableFieldViolation string
  | CounterNotMonotonic
  | UnsafeCredentialType
  | Internal string

text \<open>\<open>impl From<DelegatedError> for soft_fido2::Error\<close>, applied by \<open>?\<close> in the methods of the store.\<close>

definition fido_error :: "delegated_error \<Rightarrow> store_error" where
  "fido_error e = OtherError"

definition or_fido :: "delegated_error + 'a \<Rightarrow> store_error + 'a" where
  "or_fido r = (case r of Inl e \<Rightarrow> Err (fido_error e) | Inr a \<Rightarrow> Ok a)"

record delegated_env =
  de_sha :: "bytes \<Rightarrow> bytes"
  de_hex :: "bytes \<Rightarrow> string"
  de_display :: "store_error \<Rightarrow> string"

definition cred_ref_from_id :: "delegated_env \<Rightarrow> bytes \<Rightarrow> credential_ref" where
  "cred_ref_from_id v cid = with_default_domain (de_sha v) cid"

text \<open>
  The index from references to identifiers.  The loop over \<open>read_next\<close> ends when the store says so; not
  ending is \<open>None\<close>.  \<open>keep\<close> says which references enter the index, \<open>note\<close> builds the message of a failure.
\<close>

definition index_credential :: "delegated_env \<Rightarrow> (credential_ref \<Rightarrow> bool) \<Rightarrow> soft_credential \<Rightarrow>
    (credential_ref, bytes) hashmap \<Rightarrow> (credential_ref, bytes) hashmap" where
  "index_credential v keep c index =
    (let href = cred_ref_from_id v (sf_id c) in if keep href then hm_insert href (sf_id c) index else index)"

partial_function (option) index_loop :: "'s storage_ops \<Rightarrow> delegated_env \<Rightarrow> (credential_ref \<Rightarrow> bool) \<Rightarrow> (nat \<Rightarrow> store_error \<Rightarrow> string) \<Rightarrow>
    nat \<Rightarrow> (credential_ref, bytes) hashmap \<Rightarrow> 's \<Rightarrow> ('s \<times> (delegated_error + (credential_ref, bytes) hashmap)) option" where
  "index_loop ops v keep note count index s = (case so_read_next ops s of
     (s', Inr c) \<Rightarrow> index_loop ops v keep note (count + 1) (index_credential v keep c index) s'
   | (s', Inl e) \<Rightarrow>
       if e = DoesNotExist \<or> e = NoCredentials then Some (s', Ok index)
       else Some (s', Err (Internal (note (count + 1) e))))"

definition index_credentials :: "'s storage_ops \<Rightarrow> delegated_env \<Rightarrow> (credential_ref \<Rightarrow> bool) \<Rightarrow> (nat \<Rightarrow> store_error \<Rightarrow> string) \<Rightarrow>
    's \<Rightarrow> ('s \<times> (delegated_error + (credential_ref, bytes) hashmap)) option" where
  "index_credentials ops v keep note s = (case so_read_first ops FilterNone s of
     (s', Inl e) \<Rightarrow>
       if e = DoesNotExist \<or> e = NoCredentials then Some (s', Ok [])
       else Some (s', Err (Internal (''read_first: '' @ de_display v e)))
   | (s', Inr c) \<Rightarrow> index_loop ops v keep note 1 (index_credential v keep c []) s')"

text \<open>The fields that an update after an assertion must keep; the same function is written out in both views.\<close>

definition verify_immutable_fields :: "soft_credential \<Rightarrow> soft_credential \<Rightarrow> delegated_error + unit" where
  "verify_immutable_fields old new =
    (if sf_id old \<noteq> sf_id new then Err (ImmutableFieldViolation ''credential_id'')
     else if normalize (party_id (sf_rp old)) \<noteq> normalize (party_id (sf_rp new)) then Err (ImmutableFieldViolation ''rp_id'')
     else if us_id (sf_user old) \<noteq> us_id (sf_user new) then Err (ImmutableFieldViolation ''user_id'')
     else if us_name (sf_user old) \<noteq> us_name (sf_user new) then Err (ImmutableFieldViolation ''user_name'')
     else if us_display_name (sf_user old) \<noteq> us_display_name (sf_user new) then Err (ImmutableFieldViolation ''user_display_name'')
     else if sf_alg old \<noteq> sf_alg new then Err (ImmutableFieldViolation ''alg'')
     else if sf_created old \<noteq> sf_created new then Err (ImmutableFieldViolation ''created'')
     else if sf_discoverable old \<noteq> sf_discoverable new then Err (ImmutableFieldViolation ''discoverable'')
     else if ck_material (sf_key old) \<noteq> ck_material (sf_key new) then Err (ImmutableFieldViolation ''private_key'')
     else if ce_cred_protect (sf_extensions old) \<noteq> ce_cred_protect (sf_extensions new)
     then Err (ImmutableFieldViolation ''extensions.cred_protect'')
     else if ce_hmac_secret (sf_extensions old) \<noteq> ce_hmac_secret (sf_extensions new)
     then Err (ImmutableFieldViolation ''extensions.hmac_secret'')
     else if ce_cred_random (sf_extensions old) \<noteq> ce_cred_random (sf_extensions new)
     then Err (ImmutableFieldViolation ''extensions.cred_random'')
     else Ok ())"

text \<open>The borrowed credential does not carry \<open>hmac_secret\<close>: the value of the stored one is used in the comparison.\<close>

definition with_hmac_secret_of :: "soft_credential \<Rightarrow> soft_credential \<Rightarrow> soft_credential" where
  "with_hmac_secret_of latest c =
    c\<lparr>sf_extensions := (sf_extensions c)\<lparr>ce_hmac_secret := ce_hmac_secret (sf_extensions latest)\<rparr>\<rparr>"

section \<open>The delegated view of the human's store\<close>

record 's shared_delegated =
  ds_human :: 's
  ds_poisoned :: bool
  ds_allowed_rp_ids :: "string list"
  ds_allowed_cred_refs :: "credential_ref list"
  ds_index :: "(credential_ref, bytes) hashmap"
  ds_scope :: ceremony_scope
  ds_constant_counter :: bool
  ds_registration_allowed :: bool

definition new_delegated :: "'s \<Rightarrow> string list \<Rightarrow> credential_ref list \<Rightarrow> bool \<Rightarrow> bool \<Rightarrow> 's shared_delegated" where
  "new_delegated human rp_ids cred_refs constant_counter registration =
    \<lparr>ds_human = human, ds_poisoned = False, ds_allowed_rp_ids = map normalize rp_ids, ds_allowed_cred_refs = cred_refs,
     ds_index = [], ds_scope = new_scope, ds_constant_counter = constant_counter, ds_registration_allowed = registration\<rparr>"

definition dlg_build_index :: "'s storage_ops \<Rightarrow> delegated_env \<Rightarrow> 's shared_delegated \<Rightarrow>
    ('s shared_delegated \<times> (delegated_error + unit)) option" where
  "dlg_build_index ops v d =
    (if ds_poisoned d then Some (d, Err (Internal ''human lock poisoned: poisoned lock: another task failed inside''))
     else (case index_credentials ops v (\<lambda>r. r \<in> set (ds_allowed_cred_refs d))
             (\<lambda>n e. ''read_next at #'' @ show_nat n @ '': '' @ de_display v e) (ds_human d) of
        None \<Rightarrow> None
      | Some (s, Inl e) \<Rightarrow> Some (d\<lparr>ds_human := s\<rparr>, Err e)
      | Some (s, Inr index) \<Rightarrow> Some (d\<lparr>ds_human := s, ds_index := index\<rparr>, Ok ())))"

definition dlg_rp_allowed :: "'s shared_delegated \<Rightarrow> string \<Rightarrow> bool" where
  "dlg_rp_allowed d rp_id = (normalize rp_id \<in> set (ds_allowed_rp_ids d))"

definition dlg_resolve_raw_id :: "delegated_env \<Rightarrow> 's shared_delegated \<Rightarrow> credential_ref \<Rightarrow> delegated_error + bytes" where
  "dlg_resolve_raw_id v d cref = (case hm_get (ds_index d) cref of
     Some raw \<Rightarrow> Ok raw | None \<Rightarrow> Err (CredentialNotAllowed (cred_to_hex (de_hex v) cref)))"

definition require_active_ceremony :: "'s shared_delegated \<Rightarrow> store_error + unit" where
  "require_active_ceremony d = (case active_action (ds_scope d) of
     Some (CaAuthenticate _) \<Rightarrow> Ok ()
   | Some CaRegister \<Rightarrow> if ds_registration_allowed d then Ok () else Err DoesNotExist
   | None \<Rightarrow> Err DoesNotExist)"

definition require_ceremony_cred :: "'s shared_delegated \<Rightarrow> credential_ref \<Rightarrow> store_error + unit" where
  "require_ceremony_cred d cref =
    (if active_cred_ref (ds_scope d) = Some cref then Ok () else Err DoesNotExist)"

definition require_ceremony_rp :: "ceremony_scope \<Rightarrow> string \<Rightarrow> store_error + unit" where
  "require_ceremony_rp sc rp_id = (if active_rp_id sc = Some (normalize rp_id) then Ok () else Err DoesNotExist)"

definition verify_counter :: "'s shared_delegated \<Rightarrow> soft_credential \<Rightarrow> soft_credential \<Rightarrow> delegated_error + unit" where
  "verify_counter d old new =
    (if ds_constant_counter d then
       if sf_sign_count new \<noteq> sf_sign_count old then Err CounterNotMonotonic else Ok ()
     else if sf_sign_count new \<le> sf_sign_count old then Err CounterNotMonotonic
     else Ok ())"

text \<open>The steps that the readers share: resolve the reference, read under the lock, check the relying party.\<close>

definition dlg_fetch :: "'s storage_ops \<Rightarrow> delegated_env \<Rightarrow> 's shared_delegated \<Rightarrow> credential_ref \<Rightarrow>
    's shared_delegated \<times> (store_error + soft_credential)" where
  "dlg_fetch ops v d cref = (case dlg_resolve_raw_id v d cref of
     Inl _ \<Rightarrow> (d, Err DoesNotExist)
   | Inr raw_id \<Rightarrow>
       if ds_poisoned d then (d, Err OtherError)
       else (case so_read ops raw_id (ds_human d) of
          (s, Inl e) \<Rightarrow> (d\<lparr>ds_human := s\<rparr>, Err e)
        | (s, Inr cred) \<Rightarrow>
            (d\<lparr>ds_human := s\<rparr>,
             if \<not> dlg_rp_allowed d (party_id (sf_rp cred)) \<or> \<not> is_ok (require_ceremony_rp (ds_scope d) (party_id (sf_rp cred)))
             then Err DoesNotExist else Ok cred)))"

definition dlg_read_first :: "'s storage_ops \<Rightarrow> delegated_env \<Rightarrow> credential_filter \<Rightarrow> 's shared_delegated \<Rightarrow>
    's shared_delegated \<times> (store_error + soft_credential)" where
  "dlg_read_first ops v flt d = (case require_active_ceremony d of
     Inl e \<Rightarrow> (d, Err e)
   | Inr _ \<Rightarrow> (case active_cred_ref (ds_scope d) of
       None \<Rightarrow> (d, Err DoesNotExist)
     | Some active_ref \<Rightarrow> (case flt of
         ByRp rp_id \<Rightarrow>
           if \<not> dlg_rp_allowed d rp_id \<or> \<not> is_ok (require_ceremony_rp (ds_scope d) rp_id) then (d, Err DoesNotExist)
           else dlg_fetch ops v d active_ref
       | ById cred_id \<Rightarrow>
           (let href = cred_ref_from_id v cred_id in
            if href \<notin> set (ds_allowed_cred_refs d) then (d, Err DoesNotExist)
            else (case require_ceremony_cred d href of Inl e \<Rightarrow> (d, Err e) | Inr _ \<Rightarrow> dlg_fetch ops v d href))
       | FilterNone \<Rightarrow> dlg_fetch ops v d active_ref
       | ByHash _ \<Rightarrow> (d, Err DoesNotExist))))"

definition dlg_read_next :: "'s shared_delegated \<Rightarrow> 's shared_delegated \<times> (store_error + soft_credential)" where
  "dlg_read_next d = (case require_active_ceremony d of Inl e \<Rightarrow> (d, Err e) | Inr _ \<Rightarrow> (d, Err DoesNotExist))"

definition dlg_read :: "'s storage_ops \<Rightarrow> delegated_env \<Rightarrow> bytes \<Rightarrow> 's shared_delegated \<Rightarrow>
    's shared_delegated \<times> (store_error + soft_credential)" where
  "dlg_read ops v cid d = (case require_active_ceremony d of
     Inl e \<Rightarrow> (d, Err e)
   | Inr _ \<Rightarrow>
       (let href = cred_ref_from_id v cid in
        (case require_ceremony_cred d href of
           Inl e \<Rightarrow> (d, Err e)
         | Inr _ \<Rightarrow> if href \<notin> set (ds_allowed_cred_refs d) then (d, Err DoesNotExist) else dlg_fetch ops v d href)))"

definition dlg_write :: "'s storage_ops \<Rightarrow> delegated_env \<Rightarrow> soft_credential \<Rightarrow> 's shared_delegated \<Rightarrow>
    's shared_delegated \<times> (store_error + unit)" where
  "dlg_write ops v cred d = (case require_active_ceremony d of
     Inl e \<Rightarrow> (d, Err e)
   | Inr _ \<Rightarrow> (case active_rp_id (ds_scope d) of
       None \<Rightarrow> (d, Err (fido_error WriteDenied))
     | Some rp \<Rightarrow>
         if active_action (ds_scope d) = Some CaRegister then
           (let credential_rp = normalize (party_id (sf_rp cred)) in
            if \<not> ds_registration_allowed d \<or> \<not> dlg_rp_allowed d credential_rp \<or> credential_rp \<noteq> rp
            then (d, Err (fido_error WriteDenied))
            else if ds_poisoned d then (d, Err OtherError)
            else (case so_write ops cred (ds_human d) of (s, r) \<Rightarrow> (d\<lparr>ds_human := s\<rparr>, r)))
         else
           (let href = cred_ref_from_id v (sf_id cred) in
            (case require_ceremony_cred d href of
               Inl e \<Rightarrow> (d, Err e)
             | Inr _ \<Rightarrow>
                 if href \<notin> set (ds_allowed_cred_refs d) then (d, Err (fido_error WriteDenied))
                 else (case dlg_resolve_raw_id v d href of
                    Inl _ \<Rightarrow> (d, Err (fido_error WriteDenied))
                  | Inr raw_id \<Rightarrow>
                      if ds_poisoned d then (d, Err OtherError)
                      else (case so_read ops raw_id (ds_human d) of
                         (s, Inl e) \<Rightarrow> (d\<lparr>ds_human := s\<rparr>, Err e)
                       | (s, Inr latest) \<Rightarrow>
                           (let d = d\<lparr>ds_human := s\<rparr>; latest_rp = normalize (party_id (sf_rp latest)) in
                            if \<not> dlg_rp_allowed d (party_id (sf_rp latest)) \<or> latest_rp \<noteq> rp
                            then (d, Err (fido_error (RpIdNotAllowed latest_rp)))
                            else (case or_fido (res_bind (verify_immutable_fields latest (with_hmac_secret_of latest cred))
                                      (\<lambda>_. verify_counter d latest (with_hmac_secret_of latest cred))) of
                               Inl e \<Rightarrow> (d, Err e)
                             | Inr _ \<Rightarrow> (case so_write ops cred (ds_human d) of (s, r) \<Rightarrow> (d\<lparr>ds_human := s\<rparr>, r))))))))))"

definition dlg_delete :: "bytes \<Rightarrow> 's shared_delegated \<Rightarrow> 's shared_delegated \<times> (store_error + unit)" where
  "dlg_delete cid d = (d, Err (fido_error DeleteDenied))"

definition dlg_count :: "'s shared_delegated \<Rightarrow> nat" where
  "dlg_count d = (case active_cred_ref (ds_scope d) of
     Some active_ref \<Rightarrow> if hm_get (ds_index d) active_ref \<noteq> None then 1 else 0
   | None \<Rightarrow> 0)"

definition dlg_cleanup :: "'s storage_ops \<Rightarrow> 's shared_delegated \<Rightarrow> 's shared_delegated" where
  "dlg_cleanup ops d = (if ds_poisoned d then d else d\<lparr>ds_human := so_cleanup ops (ds_human d)\<rparr>)"

section \<open>The scoped view of an isolated store\<close>

record 's isolated_scoped =
  is_backend :: 's
  is_scope :: ceremony_scope
  is_allowed_rp_ids :: "string list"
  is_registration_allowed :: bool
  is_index :: "(credential_ref, bytes) hashmap"

definition new_isolated :: "'s \<Rightarrow> ceremony_scope \<Rightarrow> string list \<Rightarrow> bool \<Rightarrow> 's isolated_scoped" where
  "new_isolated backend sc rp_ids registration =
    \<lparr>is_backend = backend, is_scope = sc, is_allowed_rp_ids = map normalize rp_ids, is_registration_allowed = registration, is_index = []\<rparr>"

definition iso_build_index :: "'s storage_ops \<Rightarrow> delegated_env \<Rightarrow> 's isolated_scoped \<Rightarrow>
    ('s isolated_scoped \<times> (delegated_error + unit)) option" where
  "iso_build_index ops v d =
    (case index_credentials ops v (\<lambda>_. True) (\<lambda>n e. ''read_next: '' @ de_display v e) (is_backend d) of
       None \<Rightarrow> None
     | Some (s, Inl e) \<Rightarrow> Some (d\<lparr>is_backend := s\<rparr>, Err e)
     | Some (s, Inr index) \<Rightarrow> Some (d\<lparr>is_backend := s, is_index := index\<rparr>, Ok ()))"

definition iso_resolve_raw_id :: "delegated_env \<Rightarrow> 's isolated_scoped \<Rightarrow> credential_ref \<Rightarrow> delegated_error + bytes" where
  "iso_resolve_raw_id v d cref = (case hm_get (is_index d) cref of
     Some raw \<Rightarrow> Ok raw | None \<Rightarrow> Err (CredentialNotAllowed (cred_to_hex (de_hex v) cref)))"

definition iso_rp_allowed :: "'s isolated_scoped \<Rightarrow> string \<Rightarrow> bool" where
  "iso_rp_allowed d rp_id = (normalize rp_id \<in> set (is_allowed_rp_ids d))"

definition require_auth_scope :: "'s isolated_scoped \<Rightarrow> store_error + credential_ref" where
  "require_auth_scope d = (case active_action (is_scope d) of Some (CaAuthenticate cref) \<Rightarrow> Ok cref | _ \<Rightarrow> Err DoesNotExist)"

definition iso_fetch :: "'s storage_ops \<Rightarrow> delegated_env \<Rightarrow> 's isolated_scoped \<Rightarrow> credential_ref \<Rightarrow>
    's isolated_scoped \<times> (store_error + soft_credential)" where
  "iso_fetch ops v d cref = (case iso_resolve_raw_id v d cref of
     Inl _ \<Rightarrow> (d, Err DoesNotExist)
   | Inr raw_id \<Rightarrow> (case so_read ops raw_id (is_backend d) of
       (s, Inl e) \<Rightarrow> (d\<lparr>is_backend := s\<rparr>, Err e)
     | (s, Inr cred) \<Rightarrow>
         (d\<lparr>is_backend := s\<rparr>,
          if \<not> iso_rp_allowed d (party_id (sf_rp cred)) \<or> \<not> is_ok (require_ceremony_rp (is_scope d) (party_id (sf_rp cred)))
          then Err DoesNotExist else Ok cred)))"

definition iso_read_first :: "'s storage_ops \<Rightarrow> delegated_env \<Rightarrow> credential_filter \<Rightarrow> 's isolated_scoped \<Rightarrow>
    's isolated_scoped \<times> (store_error + soft_credential)" where
  "iso_read_first ops v flt d = (case require_auth_scope d of
     Inl e \<Rightarrow> (d, Err e)
   | Inr auth_ref \<Rightarrow>
       if (case flt of
             ByRp rp_id \<Rightarrow> \<not> iso_rp_allowed d rp_id \<or> \<not> is_ok (require_ceremony_rp (is_scope d) rp_id)
           | ById cred_id \<Rightarrow> cred_ref_from_id v cred_id \<noteq> auth_ref
           | FilterNone \<Rightarrow> False
           | ByHash _ \<Rightarrow> True)
       then (d, Err DoesNotExist)
       else iso_fetch ops v d auth_ref)"

definition iso_read_next :: "'s isolated_scoped \<Rightarrow> 's isolated_scoped \<times> (store_error + soft_credential)" where
  "iso_read_next d = (case require_auth_scope d of Inl e \<Rightarrow> (d, Err e) | Inr _ \<Rightarrow> (d, Err DoesNotExist))"

definition iso_read :: "'s storage_ops \<Rightarrow> delegated_env \<Rightarrow> bytes \<Rightarrow> 's isolated_scoped \<Rightarrow>
    's isolated_scoped \<times> (store_error + soft_credential)" where
  "iso_read ops v cid d = (case require_auth_scope d of
     Inl e \<Rightarrow> (d, Err e)
   | Inr auth_ref \<Rightarrow>
       if cred_ref_from_id v cid \<noteq> auth_ref then (d, Err DoesNotExist) else iso_fetch ops v d auth_ref)"

definition iso_write :: "'s storage_ops \<Rightarrow> delegated_env \<Rightarrow> soft_credential \<Rightarrow> 's isolated_scoped \<Rightarrow>
    's isolated_scoped \<times> (store_error + unit)" where
  "iso_write ops v cred d = (case active_action (is_scope d) of
     Some CaRegister \<Rightarrow> (case active_rp_id (is_scope d) of
         None \<Rightarrow> (d, Err (fido_error WriteDenied))
       | Some rp \<Rightarrow>
           if \<not> is_registration_allowed d then (d, Err (fido_error RegistrationDenied))
           else if \<not> iso_rp_allowed d (party_id (sf_rp cred)) \<or> normalize (party_id (sf_rp cred)) \<noteq> rp
           then (d, Err (fido_error (RpIdNotAllowed (normalize (party_id (sf_rp cred))))))
           else (case so_write ops cred (is_backend d) of (s, r) \<Rightarrow> (d\<lparr>is_backend := s\<rparr>, r)))
   | Some (CaAuthenticate active_ref) \<Rightarrow> (case active_rp_id (is_scope d) of
         None \<Rightarrow> (d, Err (fido_error WriteDenied))
       | Some rp \<Rightarrow>
           if cred_ref_from_id v (sf_id cred) \<noteq> active_ref then (d, Err (fido_error WriteDenied))
           else (case iso_resolve_raw_id v d active_ref of
              Inl _ \<Rightarrow> (d, Err (fido_error WriteDenied))
            | Inr raw_id \<Rightarrow> (case so_read ops raw_id (is_backend d) of
                (s, Inl e) \<Rightarrow> (d\<lparr>is_backend := s\<rparr>, Err e)
              | (s, Inr latest) \<Rightarrow>
                  (let d = d\<lparr>is_backend := s\<rparr>; latest_rp = normalize (party_id (sf_rp latest)) in
                   if \<not> iso_rp_allowed d (party_id (sf_rp latest)) \<or> latest_rp \<noteq> rp
                   then (d, Err (fido_error (RpIdNotAllowed latest_rp)))
                   else (case or_fido (verify_immutable_fields latest (with_hmac_secret_of latest cred)) of
                      Inl e \<Rightarrow> (d, Err e)
                    | Inr _ \<Rightarrow>
                        if sf_sign_count (with_hmac_secret_of latest cred) \<le> sf_sign_count latest
                        then (d, Err (fido_error CounterNotMonotonic))
                        else (case so_write ops cred (is_backend d) of (s, r) \<Rightarrow> (d\<lparr>is_backend := s\<rparr>, r)))))))
   | None \<Rightarrow> (d, Err (fido_error WriteDenied)))"

definition iso_delete :: "bytes \<Rightarrow> 's isolated_scoped \<Rightarrow> 's isolated_scoped \<times> (store_error + unit)" where
  "iso_delete cid d = (d, Err (fido_error DeleteDenied))"

definition iso_count :: "'s isolated_scoped \<Rightarrow> nat" where
  "iso_count d = (case active_action (is_scope d) of Some (CaAuthenticate _) \<Rightarrow> 1 | _ \<Rightarrow> 0)"

definition iso_cleanup :: "'s storage_ops \<Rightarrow> 's isolated_scoped \<Rightarrow> 's isolated_scoped" where
  "iso_cleanup ops d = d\<lparr>is_backend := so_cleanup ops (is_backend d)\<rparr>"

declare require_active_ceremony_def [guard_defs]
  and require_ceremony_cred_def [guard_defs]
  and require_ceremony_rp_def [guard_defs]
  and require_auth_scope_def [guard_defs]
  and dlg_rp_allowed_def [guard_defs]
  and dlg_resolve_raw_id_def [guard_defs]
  and iso_rp_allowed_def [guard_defs]
  and iso_resolve_raw_id_def [guard_defs]
  and or_fido_def [guard_defs]
  and res_bind_def [guard_defs]
  and Let_def [guard_defs]

section \<open>What the views rely on\<close>

text \<open>
  A store that holds a map from identifiers to credentials: reading gives what the map has, writing inserts or
  fails, and nothing else changes the map.  \<open>writable\<close> are the credentials for which this is promised.
\<close>

locale credential_backend =
  fixes ops :: "'s storage_ops"
    and holds :: "'s \<Rightarrow> (bytes, soft_credential) hashmap \<Rightarrow> bool"
    and writable :: "soft_credential \<Rightarrow> bool"
  assumes read_law: "holds s m \<Longrightarrow> so_read ops cid s = (s', r) \<Longrightarrow>
      holds s' m \<and> (\<forall>c. r = Ok c \<longrightarrow> hm_get m cid = Some c)"
    and holds_id: "holds s m \<Longrightarrow> hm_get m cid = Some c \<Longrightarrow> sf_id c = cid"
    and write_law: "holds s m \<Longrightarrow> writable c \<Longrightarrow> so_write ops c s = (s', w) \<Longrightarrow>
      w = Ok () \<and> holds s' (hm_insert (sf_id c) c m) \<or> w \<noteq> Ok () \<and> holds s' m"
    and first_law: "holds s m \<Longrightarrow> so_read_first ops f s = (s', r) \<Longrightarrow> holds s' m"
    and next_law: "holds s m \<Longrightarrow> so_read_next ops s = (s', r) \<Longrightarrow> holds s' m"
    and cleanup_law: "holds s m \<Longrightarrow> holds (so_cleanup ops s) m"
begin

lemma read_some:
  assumes "holds s m" and "so_read ops cid s = (s', Inr c)"
  shows "hm_get m cid = Some c" and "sf_id c = cid" and "holds s' m"
  using read_law [OF assms] holds_id [OF assms(1)] by auto

lemma read_holds: "holds s m \<Longrightarrow> so_read ops cid s = (s', r) \<Longrightarrow> holds s' m"
  using read_law by blast

end

section \<open>The views as automata\<close>

datatype view_op =
    VActivate ceremony_action string
  | VDropGuard u64
  | VReadFirst credential_filter
  | VReadNext
  | VRead bytes
  | VWrite soft_credential
  | VDelete bytes
  | VCount
  | VCleanup

datatype view_out =
    VoGuard "scope_activation_error + u64"
  | VoCred "store_error + soft_credential"
  | VoUnit "store_error + unit"
  | VoCount nat
  | VoNothing

fun dlg_step :: "'s storage_ops \<Rightarrow> delegated_env \<Rightarrow> 's shared_delegated \<Rightarrow> view_op \<Rightarrow> 's shared_delegated \<times> view_out" where
  "dlg_step ops v d (VActivate a rp) = (case activate a rp (ds_scope d) of (sc, r) \<Rightarrow> (d\<lparr>ds_scope := sc\<rparr>, VoGuard r))"
| "dlg_step ops v d (VDropGuard g) = (d\<lparr>ds_scope := drop_guard g (ds_scope d)\<rparr>, VoNothing)"
| "dlg_step ops v d (VReadFirst f) = apsnd VoCred (dlg_read_first ops v f d)"
| "dlg_step ops v d VReadNext = apsnd VoCred (dlg_read_next d)"
| "dlg_step ops v d (VRead cid) = apsnd VoCred (dlg_read ops v cid d)"
| "dlg_step ops v d (VWrite c) = apsnd VoUnit (dlg_write ops v c d)"
| "dlg_step ops v d (VDelete cid) = apsnd VoUnit (dlg_delete cid d)"
| "dlg_step ops v d VCount = (d, VoCount (dlg_count d))"
| "dlg_step ops v d VCleanup = (dlg_cleanup ops d, VoNothing)"

fun iso_step :: "'s storage_ops \<Rightarrow> delegated_env \<Rightarrow> 's isolated_scoped \<Rightarrow> view_op \<Rightarrow> 's isolated_scoped \<times> view_out" where
  "iso_step ops v d (VActivate a rp) = (case activate a rp (is_scope d) of (sc, r) \<Rightarrow> (d\<lparr>is_scope := sc\<rparr>, VoGuard r))"
| "iso_step ops v d (VDropGuard g) = (d\<lparr>is_scope := drop_guard g (is_scope d)\<rparr>, VoNothing)"
| "iso_step ops v d (VReadFirst f) = apsnd VoCred (iso_read_first ops v f d)"
| "iso_step ops v d VReadNext = apsnd VoCred (iso_read_next d)"
| "iso_step ops v d (VRead cid) = apsnd VoCred (iso_read ops v cid d)"
| "iso_step ops v d (VWrite c) = apsnd VoUnit (iso_write ops v c d)"
| "iso_step ops v d (VDelete cid) = apsnd VoUnit (iso_delete cid d)"
| "iso_step ops v d VCount = (d, VoCount (iso_count d))"
| "iso_step ops v d VCleanup = (iso_cleanup ops d, VoNothing)"

text \<open>
  What an update keeps of a credential: what \<open>verify_immutable_fields\<close> and \<open>verify_counter\<close> compare, without the flag \<open>hmac_secret\<close>, which
  is copied from the stored credential before the comparison but not into what is written.
\<close>

definition kept :: "soft_credential \<Rightarrow> soft_credential \<Rightarrow> bool" where
  "kept old new = (sf_id new = sf_id old \<and> normalize (party_id (sf_rp new)) = normalize (party_id (sf_rp old)) \<and>
     sf_user new = sf_user old \<and> sf_alg new = sf_alg old \<and> sf_created new = sf_created old \<and>
     sf_discoverable new = sf_discoverable old \<and> ck_material (sf_key new) = ck_material (sf_key old) \<and>
     ce_cred_protect (sf_extensions new) = ce_cred_protect (sf_extensions old) \<and>
     ce_cred_random (sf_extensions new) = ce_cred_random (sf_extensions old) \<and>
     sf_sign_count old \<le> sf_sign_count new)"

lemma kept_refl [simp]: "kept c c"
  by (simp add: kept_def)

lemma kept_trans: "kept a b \<Longrightarrow> kept b c \<Longrightarrow> kept a c"
  by (auto simp: kept_def)

lemma verify_kept:
  assumes "verify_immutable_fields old (with_hmac_secret_of old new) = Ok ()" and "sf_sign_count old \<le> sf_sign_count new"
  shows "kept old new"
  using assms by (auto simp: verify_immutable_fields_def with_hmac_secret_of_def kept_def split: if_splits intro: cred_user.equality)

text \<open>The checks of an update pass or fail whatever flag \<open>hmac_secret\<close> the written credential has, and the written one is stored.\<close>

lemma update_replaces_hmac_secret:
  fixes c :: soft_credential and b :: "bool option"
  defines "c' \<equiv> c\<lparr>sf_extensions := (sf_extensions c)\<lparr>ce_hmac_secret := b\<rparr>\<rparr>"
  shows "verify_immutable_fields old (with_hmac_secret_of old c') = verify_immutable_fields old (with_hmac_secret_of old c)"
    and "verify_counter d old (with_hmac_secret_of old c') = verify_counter d old (with_hmac_secret_of old c)"
  by (simp_all add: c'_def with_hmac_secret_of_def)

text \<open>The index of a view is sound.\<close>

definition index_sound :: "delegated_env \<Rightarrow> (credential_ref \<Rightarrow> bool) \<Rightarrow> (credential_ref, bytes) hashmap \<Rightarrow> bool" where
  "index_sound v keep index = (\<forall>r raw. hm_get index r = Some raw \<longrightarrow> r = cred_ref_from_id v raw \<and> keep r)"

lemma index_sound_empty [simp]: "index_sound v keep []"
  by (simp add: index_sound_def)

lemma index_sound_insert: "index_sound v keep index \<Longrightarrow> index_sound v keep (index_credential v keep c index)"
  by (auto simp: index_sound_def index_credential_def Let_def)

text \<open>The rights of a view do not change; the credentials outside the given references are left alone.\<close>

definition same_rights :: "'s shared_delegated \<Rightarrow> 's shared_delegated \<Rightarrow> bool" where
  "same_rights d d' = (ds_allowed_rp_ids d' = ds_allowed_rp_ids d \<and> ds_allowed_cred_refs d' = ds_allowed_cred_refs d \<and>
     ds_registration_allowed d' = ds_registration_allowed d)"

definition confined :: "delegated_env \<Rightarrow> credential_ref list \<Rightarrow> (bytes, soft_credential) hashmap \<Rightarrow> (bytes, soft_credential) hashmap \<Rightarrow> bool" where
  "confined v refs m m' = (\<forall>cid. case hm_get m cid of
      None \<Rightarrow> hm_get m' cid = None
    | Some old \<Rightarrow> \<exists>new. hm_get m' cid = Some new \<and> kept old new \<and> (cred_ref_from_id v cid \<in> set refs \<or> new = old))"

lemma confined_refl: "confined v refs m m"
  by (simp add: confined_def split: option.split)

lemma confined_trans:
  assumes "confined v refs m m'" and "confined v refs m' m''"
  shows "confined v refs m m''"
  unfolding confined_def
proof
  fix cid
  note a = assms(1) [unfolded confined_def, rule_format, of cid] and b = assms(2) [unfolded confined_def, rule_format, of cid]
  show "case hm_get m cid of None \<Rightarrow> hm_get m'' cid = None
    | Some old \<Rightarrow> \<exists>new. hm_get m'' cid = Some new \<and> kept old new \<and> (cred_ref_from_id v cid \<in> set refs \<or> new = old)"
  proof (cases "hm_get m cid")
    case (Some old)
    with a obtain mid where mid: "hm_get m' cid = Some mid" "kept old mid" "cred_ref_from_id v cid \<in> set refs \<or> mid = old" by auto
    with b obtain new where "hm_get m'' cid = Some new" "kept mid new" "cred_ref_from_id v cid \<in> set refs \<or> new = mid" by auto
    with Some mid(2,3) show ?thesis using kept_trans [of old mid new] by auto
  qed (use a b in simp)
qed

lemma confined_insert:
  "hm_get m (sf_id c) = Some old \<Longrightarrow> kept old c \<Longrightarrow> cred_ref_from_id v (sf_id c) \<in> set refs \<Longrightarrow>
   confined v refs m (hm_insert (sf_id c) c m)"
  by (auto simp: confined_def split: option.splits)

section \<open>Building the index\<close>

lemma index_loop_sound:
  assumes "index_loop ops v keep note n index s = Some (s', r)"
  shows "index_sound v keep index \<Longrightarrow> r = Ok index' \<Longrightarrow> index_sound v keep index'"
  by (rule index_loop.raw_induct [of "\<lambda>ops v keep note n index s q. index_sound v keep index \<longrightarrow>
        (\<forall>s' index'. q = (s', Ok index') \<longrightarrow> index_sound v keep index')", rule_format, OF _ assms])
    (auto simp: index_sound_insert split: prod.splits sum.splits if_splits)

lemma index_credentials_sound:
  "index_credentials ops v keep note s = Some (s', Ok index) \<Longrightarrow> index_sound v keep index"
  by (auto simp: index_credentials_def index_sound_insert dest!: index_loop_sound split: prod.splits sum.splits if_splits)

context credential_backend
begin

lemma index_loop_holds:
  assumes "index_loop ops v keep note n index s = Some (s', r)" and "holds s m"
  shows "holds s' m"
proof -
  have "\<And>o' v keep note n index s q. index_loop o' v keep note n index s = Some q \<Longrightarrow> o' = ops \<longrightarrow> holds s m \<longrightarrow> holds (fst q) m"
    by (erule index_loop.raw_induct [rotated]) (auto dest: next_law split: prod.splits sum.splits if_splits)
  from this [OF assms(1)] assms(2) show ?thesis by simp
qed

lemma index_credentials_holds:
  assumes "index_credentials ops v keep note s = Some (s', r)" and "holds s m"
  shows "holds s' m"
  using assms by (auto simp: index_credentials_def dest: first_law index_loop_holds split: prod.splits sum.splits if_splits)

text \<open>The delegated view is confined.\<close>

lemma dlg_fetch_effect:
  assumes "holds (ds_human d) m" and "index_sound v (\<lambda>r. r \<in> set (ds_allowed_cred_refs d)) (ds_index d)"
    and "dlg_fetch ops v d r = (d', res)"
  shows "\<exists>s. d' = d\<lparr>ds_human := s\<rparr> \<and> holds s m"
    and "res = Ok c \<Longrightarrow> cred_ref_from_id v (sf_id c) = r \<and> r \<in> set (ds_allowed_cred_refs d) \<and> hm_get m (sf_id c) = Some c \<and>
      dlg_rp_allowed d (party_id (sf_rp c)) \<and> active_rp_id (ds_scope d) = Some (normalize (party_id (sf_rp c)))"
proof -
  have "\<exists>s. d = d\<lparr>ds_human := s\<rparr> \<and> holds s m" using assms(1) by (intro exI [of _ "ds_human d"]) simp
  then show "\<exists>s. d' = d\<lparr>ds_human := s\<rparr> \<and> holds s m"
    using assms(1,3) read_holds by (auto simp: dlg_fetch_def split: sum.splits if_splits prod.splits)
  assume "res = Ok c"
  then obtain raw s where "hm_get (ds_index d) r = Some raw" "so_read ops raw (ds_human d) = (s, Inr c)"
    "dlg_rp_allowed d (party_id (sf_rp c))" "is_ok (require_ceremony_rp (ds_scope d) (party_id (sf_rp c)))"
    using assms(3) by (auto simp: dlg_fetch_def dlg_resolve_raw_id_def split: sum.splits if_splits prod.splits option.splits)
  with read_some [OF assms(1)] assms(2) show "cred_ref_from_id v (sf_id c) = r \<and> r \<in> set (ds_allowed_cred_refs d) \<and>
      hm_get m (sf_id c) = Some c \<and> dlg_rp_allowed d (party_id (sf_rp c)) \<and>
      active_rp_id (ds_scope d) = Some (normalize (party_id (sf_rp c)))"
    by (auto simp: index_sound_def require_ceremony_rp_def split: if_splits)
qed

lemma dlg_readers:
  assumes "holds (ds_human d) m" and "index_sound v (\<lambda>r. r \<in> set (ds_allowed_cred_refs d)) (ds_index d)"
    and "dlg_read_first ops v f d = (d', res) \<or> dlg_read ops v cid d = (d', res)"
  shows "\<exists>s. d' = d\<lparr>ds_human := s\<rparr> \<and> holds s m"
    and "res = Ok c \<Longrightarrow> active_cred_ref (ds_scope d) = Some (cred_ref_from_id v (sf_id c)) \<and>
      cred_ref_from_id v (sf_id c) \<in> set (ds_allowed_cred_refs d) \<and> hm_get m (sf_id c) = Some c \<and>
      dlg_rp_allowed d (party_id (sf_rp c)) \<and> active_rp_id (ds_scope d) = Some (normalize (party_id (sf_rp c)))"
proof -
  from assms(3) have k: "d' = d \<and> (\<exists>e. res = Err e) \<or>
      (\<exists>r. active_cred_ref (ds_scope d) = Some r \<and> dlg_fetch ops v d r = (d', res))"
    by (auto simp: dlg_read_first_def dlg_read_def require_ceremony_cred_def Let_def
        split: sum.splits option.splits credential_filter.splits if_splits)
  then show "\<exists>s. d' = d\<lparr>ds_human := s\<rparr> \<and> holds s m"
  proof
    assume "d' = d \<and> (\<exists>e. res = Err e)"
    with assms(1) show ?thesis by (intro exI [of _ "ds_human d"]) simp
  qed (use dlg_fetch_effect(1) [OF assms(1,2)] in blast)
  assume "res = Ok c"
  with k obtain r where r: "active_cred_ref (ds_scope d) = Some r" "dlg_fetch ops v d r = (d', res)" by auto
  from dlg_fetch_effect(2) [OF assms(1,2) r(2) \<open>res = Ok c\<close>] r(1)
  show "active_cred_ref (ds_scope d) = Some (cred_ref_from_id v (sf_id c)) \<and>
      cred_ref_from_id v (sf_id c) \<in> set (ds_allowed_cred_refs d) \<and> hm_get m (sf_id c) = Some c \<and>
      dlg_rp_allowed d (party_id (sf_rp c)) \<and> active_rp_id (ds_scope d) = Some (normalize (party_id (sf_rp c)))" by simp
qed

text \<open>What a write may do: in a registration insert a credential of the relying party, otherwise update the one
  credential of the ceremony.\<close>

lemma dlg_write_effect:
  assumes "holds (ds_human d) m" and "index_sound v (\<lambda>r. r \<in> set (ds_allowed_cred_refs d)) (ds_index d)"
    and "writable c" and "dlg_write ops v c d = (d', res)"
  shows "\<exists>s. d' = d\<lparr>ds_human := s\<rparr> \<and> (holds s m \<or> holds s (hm_insert (sf_id c) c m) \<and>
    (ds_registration_allowed d \<and> active_rp_id (ds_scope d) = Some (normalize (party_id (sf_rp c))) \<or>
     (\<exists>old. active_cred_ref (ds_scope d) = Some (cred_ref_from_id v (sf_id c)) \<and>
       cred_ref_from_id v (sf_id c) \<in> set (ds_allowed_cred_refs d) \<and> hm_get m (sf_id c) = Some old \<and> kept old c)))"
proof -
  have same: "\<exists>s. d' = d\<lparr>ds_human := s\<rparr> \<and> (holds s m \<or> P s)" if "d' = d" for P
    using that assms(1) by (intro exI [of _ "ds_human d"]) simp
  let ?r = "cred_ref_from_id v (sf_id c)"
  show ?thesis
  proof (cases "active_action (ds_scope d) = Some CaRegister")
    case True
    obtain s w where w: "so_write ops c (ds_human d) = (s, w)" by (cases "so_write ops c (ds_human d)")
    from assms(4) True w have "d' = d \<or> d' = d\<lparr>ds_human := s\<rparr> \<and> ds_registration_allowed d \<and>
        active_rp_id (ds_scope d) = Some (normalize (party_id (sf_rp c)))"
      by (auto simp: dlg_write_def Let_def split: sum.splits option.splits if_splits)
    with same write_law [OF assms(1,3) w] show ?thesis by blast
  next
    case False
    show ?thesis
    proof (cases "\<exists>raw s latest. active_cred_ref (ds_scope d) = Some ?r \<and> ?r \<in> set (ds_allowed_cred_refs d) \<and>
        hm_get (ds_index d) ?r = Some raw \<and> so_read ops raw (ds_human d) = (s, Inr latest) \<and>
        verify_immutable_fields latest (with_hmac_secret_of latest c) = Ok () \<and>
        verify_counter d latest (with_hmac_secret_of latest c) = Ok ()")
      case True
      then obtain raw s latest where f: "active_cred_ref (ds_scope d) = Some ?r" "?r \<in> set (ds_allowed_cred_refs d)"
        "hm_get (ds_index d) ?r = Some raw" "so_read ops raw (ds_human d) = (s, Inr latest)"
        "verify_immutable_fields latest (with_hmac_secret_of latest c) = Ok ()"
        "verify_counter d latest (with_hmac_secret_of latest c) = Ok ()" by blast
      note rd = read_some [OF assms(1) f(4)]
      have "sf_sign_count latest \<le> sf_sign_count c"
        using f(6) by (auto simp: verify_counter_def with_hmac_secret_of_def split: if_splits)
      with verify_kept f(5) have k: "kept latest c" by blast
      with rd have m: "hm_get m (sf_id c) = Some latest" by (simp add: kept_def)
      obtain t w where w: "so_write ops c s = (t, w)" by (cases "so_write ops c s")
      from assms(4) False w f have "d' = d \<or> d' = d\<lparr>ds_human := s\<rparr> \<or> d' = d\<lparr>ds_human := t\<rparr>"
        by (auto simp: dlg_write_def dlg_resolve_raw_id_def Let_def split: sum.splits option.splits if_splits)
      with same rd(3) write_law [OF rd(3) assms(3) w] f(1,2) m k show ?thesis by blast
    next
      case no: False
      obtain rds where rds: "rds = (\<lambda>e. \<exists>raw s y. so_read ops raw (ds_human d) = (s, y) \<and> e = d\<lparr>ds_human := s\<rparr>)" by blast
      have rdsI: "rds (d\<lparr>ds_human := s\<rparr>)" if "so_read ops raw (ds_human d) = (s, y)" for raw s y
        unfolding rds using that by blast
      have "d' = d \<or> rds d'"
        using assms(4) False no
        by (auto simp: dlg_write_def dlg_resolve_raw_id_def require_ceremony_cred_def or_fido_def res_bind_def Let_def verify_counter_def
            intro: rdsI split: sum.splits option.splits if_splits prod.splits)
      with same read_holds [OF assms(1)] rds show ?thesis by blast
    qed
  qed
qed

definition view_ok where
  "view_ok v d m = (holds (ds_human d) m \<and> index_sound v (\<lambda>r. r \<in> set (ds_allowed_cred_refs d)) (ds_index d))"

lemma dlg_step_effect:
  assumes "view_ok v d m" and "\<forall>c. x = VWrite c \<longrightarrow> writable c" and "dlg_step ops v d x = (d', out)"
  shows "same_rights d d' \<and> (\<exists>m'. view_ok v d' m' \<and>
    (m' = m \<or> (\<exists>c. x = VWrite c \<and> m' = hm_insert (sf_id c) c m \<and> (ds_registration_allowed d \<or>
      (\<exists>old. cred_ref_from_id v (sf_id c) \<in> set (ds_allowed_cred_refs d) \<and> hm_get m (sf_id c) = Some old \<and> kept old c)))))"
proof -
  have keep: ?thesis if "d' = d\<lparr>ds_human := s\<rparr>" and "holds s m" for s
    using that assms(1) by (auto simp: view_ok_def same_rights_def)
  note h = assms(1) [unfolded view_ok_def, THEN conjunct1] assms(1) [unfolded view_ok_def, THEN conjunct2]
  show ?thesis
  proof (cases x)
    case (VWrite c)
    obtain r where "dlg_write ops v c d = (d', r)" using assms(3) VWrite by (cases "dlg_write ops v c d") simp
    from dlg_write_effect [OF h _ this] assms(2) VWrite obtain s where s: "d' = d\<lparr>ds_human := s\<rparr>"
      and c: "holds s m \<or> holds s (hm_insert (sf_id c) c m) \<and> (ds_registration_allowed d \<or>
        (\<exists>old. cred_ref_from_id v (sf_id c) \<in> set (ds_allowed_cred_refs d) \<and> hm_get m (sf_id c) = Some old \<and> kept old c))" by blast
    from c show ?thesis
    proof
      assume "holds s m" with s show ?thesis by (rule keep)
    next
      assume w: "holds s (hm_insert (sf_id c) c m) \<and> (ds_registration_allowed d \<or>
        (\<exists>old. cred_ref_from_id v (sf_id c) \<in> set (ds_allowed_cred_refs d) \<and> hm_get m (sf_id c) = Some old \<and> kept old c))"
      with s h(2) have "view_ok v d' (hm_insert (sf_id c) c m)" by (simp add: view_ok_def)
      moreover from s have "same_rights d d'" by (simp add: same_rights_def)
      ultimately show ?thesis using w VWrite by blast
    qed
  next
    case (VReadFirst f)
    obtain r where "dlg_read_first ops v f d = (d', r)" using assms(3) VReadFirst by (cases "dlg_read_first ops v f d") simp
    with dlg_readers(1) [OF h] keep show ?thesis by blast
  next
    case (VRead cid)
    obtain r where "dlg_read ops v cid d = (d', r)" using assms(3) VRead by (cases "dlg_read ops v cid d") simp
    with dlg_readers(1) [OF h] keep show ?thesis by blast
  qed (use assms(1,3) h cleanup_law in \<open>auto simp: view_ok_def same_rights_def dlg_read_next_def dlg_delete_def dlg_cleanup_def
      split: prod.splits sum.splits if_splits\<close>)
qed

text \<open>Without the right to register, a step changes only the credentials the view was given, and keeps their identity.\<close>

lemma dlg_step_confined:
  assumes "view_ok v d m" and "\<forall>c. x = VWrite c \<longrightarrow> writable c"
  shows "same_rights d (fst (dlg_step ops v d x)) \<and> (\<exists>m'. view_ok v (fst (dlg_step ops v d x)) m' \<and>
    (\<not> ds_registration_allowed d \<longrightarrow> confined v (ds_allowed_cred_refs d) m m') \<and>
    (\<forall>cid c. hm_get m' cid = Some c \<longrightarrow> hm_get m cid = Some c \<or> x = VWrite c))"
proof -
  obtain d' out where st: "dlg_step ops v d x = (d', out)" by (cases "dlg_step ops v d x")
  from dlg_step_effect [OF assms st] obtain m' where r: "same_rights d d'" and ok: "view_ok v d' m'" and
    m': "m' = m \<or> (\<exists>c. x = VWrite c \<and> m' = hm_insert (sf_id c) c m \<and> (ds_registration_allowed d \<or>
      (\<exists>old. cred_ref_from_id v (sf_id c) \<in> set (ds_allowed_cred_refs d) \<and> hm_get m (sf_id c) = Some old \<and> kept old c)))" by auto
  from m' have "\<forall>cid c. hm_get m' cid = Some c \<longrightarrow> hm_get m cid = Some c \<or> x = VWrite c" by (auto split: if_splits)
  moreover from m' have "\<not> ds_registration_allowed d \<longrightarrow> confined v (ds_allowed_cred_refs d) m m'"
    by (auto intro: confined_refl confined_insert)
  ultimately show ?thesis using r ok st by auto
qed

lemma dlg_index_ok:
  assumes "dlg_build_index ops v (new_delegated s rps refs const reg) = Some (d, Ok ())" and "holds s m"
  shows "view_ok v d m \<and> same_rights (new_delegated s rps refs const reg) d"
  using assms
  by (auto simp: dlg_build_index_def new_delegated_def view_ok_def same_rights_def dest: index_credentials_sound index_credentials_holds
      split: option.splits prod.splits sum.splits if_splits)

end

end
