(* ===== verification/Store_Properties.thy ===== *)
theory Store_Properties
  imports Store_Refinement
begin

text \<open>
  Reading by relying party, opening the store again, the confinement of credential files to the storage directory, and where
  the index and the parser of file names go wrong.
\<close>

section \<open>Reading by relying party\<close>

abbreviation no_faults :: "nat \<Rightarrow> read_io" where "no_faults \<equiv> \<lambda>_. ReadOk"

lemma read_rest_all:
  assumes "\<forall>p \<in> set (drop (lo_iteration_index s) (lo_iteration_files s)). is_ok (load_credential_from_path v ReadOk s p)"
  shows "map Inr (snd (read_rest v no_faults s)) = map (load_credential_from_path v ReadOk s) (drop (lo_iteration_index s) (lo_iteration_files s))"
  using assms
proof (induction v no_faults s rule: read_rest.induct)
  case (1 v s)
  show ?case
  proof (cases "length (lo_iteration_files s) \<le> lo_iteration_index s")
    case True
    then show ?thesis by (subst read_rest.simps) (simp add: read_next_def store_find_next_def)
  next
    case False
    let ?s = "s\<lparr>lo_iteration_index := lo_iteration_index s + 1\<rparr>" and ?p = "lo_iteration_files s ! lo_iteration_index s"
    have d: "drop (lo_iteration_index s) (lo_iteration_files s) = ?p # drop (lo_iteration_index ?s) (lo_iteration_files ?s)"
      using False by (simp add: Cons_nth_drop_Suc)
    with 1(2) obtain c where c: "load_credential_from_path v ReadOk s ?p = Ok c" by (auto simp: is_ok_iff)
    have nx: "read_next v ReadOk s = (?s, Ok c)" using False c by (simp add: read_next_def store_find_next_def)
    have eq: "load_credential_from_path v ReadOk ?s = load_credential_from_path v ReadOk s"
      by (rule ext) (simp add: load_credential_from_path_def)
    have "map Inr (snd (read_rest v no_faults ?s)) =
        map (load_credential_from_path v ReadOk ?s) (drop (lo_iteration_index ?s) (lo_iteration_files ?s))"
      by (rule 1(1) [OF nx [symmetric] refl]) (use 1(2) d eq in auto)
    with nx c d eq show ?thesis by (subst read_rest.simps) (simp add: case_prod_beta)
  qed
qed

lemma read_all_rest:
  "read_all v dir ios f s = read_rest v ios (s\<lparr>lo_iteration_index := 0, lo_iteration_files := resolve_filter (lo_indexes s) f dir\<rparr>)"
  by (subst read_rest.simps) (simp add: read_all_def read_first_def read_next_def)

lemma read_all_paths:
  assumes "\<forall>p \<in> set (resolve_filter (lo_indexes s) f dir). is_ok (load_credential_from_path v ReadOk s p)"
  shows "map Inr (snd (read_all v dir no_faults f s)) = map (load_credential_from_path v ReadOk s) (resolve_filter (lo_indexes s) f dir)"
proof -
  let ?s = "s\<lparr>lo_iteration_index := 0, lo_iteration_files := resolve_filter (lo_indexes s) f dir\<rparr>"
  have eq: "load_credential_from_path v ReadOk ?s = load_credential_from_path v ReadOk s"
    by (rule ext) (simp add: load_credential_from_path_def)
  with read_rest_all [of ?s v] assms show ?thesis by (simp add: read_all_rest)
qed

text \<open>A read that fails ends the enumeration: what was found before is the beginning of what is found without failures.\<close>

lemma load_faulty: "load_credential_from_path v io s p = Ok c \<Longrightarrow> load_credential_from_path v ReadOk s p = Ok c"
  by (simp add: load_credential_from_path_def split: option.splits if_splits)

lemma read_rest_prefix: "prefix (snd (read_rest v ios s)) (snd (read_rest v no_faults s))"
proof (induction v ios s rule: read_rest.induct)
  case (1 v ios s)
  obtain s' r where nx: "read_next v (ios (lo_iteration_index s)) s = (s', r)" by fastforce
  show ?case
  proof (cases r)
    case (Inl e)
    with nx show ?thesis by (subst read_rest.simps) simp
  next
    case (Inr c)
    then have "read_next v ReadOk s = (s', Ok c)"
      using nx load_faulty by (auto simp: read_next_def store_find_next_def split: if_splits)
    with 1 [OF nx [symmetric] Inr] nx Inr show ?thesis
      by (subst read_rest.simps, subst (2) read_rest.simps) (simp add: case_prod_beta)
  qed
qed

lemma read_all_prefix: "prefix (snd (read_all v dir ios f s)) (snd (read_all v dir no_faults f s))"
  by (simp add: read_all_rest read_rest_prefix)

lemma read_by_rp:
  assumes "store_holds v dir rp_of s m"
  shows "distinct (map sf_id (snd (read_all v dir no_faults (ByRp rp) s)))"
    and "set (snd (read_all v dir no_faults (ByRp rp) s)) = {c. hm_get m (sf_id c) = Some c \<and> trim (party_id (sf_rp c)) = rp}"
proof -
  note h = assms
  then have g: "grouped pi_rp_id (ix_id (lo_indexes s)) (ix_rp (lo_indexes s))" by (simp add: store_holds_def index_ok_def)
  define l where "l = (case hm_get (ix_rp (lo_indexes s)) rp of None \<Rightarrow> [] | Some l \<Rightarrow> l)"
  have l: "distinct l" "\<And>cid. cid \<in> set l \<longleftrightarrow> (\<exists>c. hm_get m cid = Some c \<and> trim (party_id (sf_rp c)) = rp)"
    using grouped_distinct [OF g, of rp] grouped_get [OF g, of _ rp] h by (auto simp: l_def store_holds_def info_of_def)
  have "resolve_filter (lo_indexes s) (ByRp rp) dir =
      List.map_filter (\<lambda>cid. map_option (to_path dir) (hm_get (ix_id (lo_indexes s)) cid)) l"
    by (simp add: resolve_filter_def resolve_ids_def l_def map_filter_def split: option.split)
  also have "\<dots> = map (\<lambda>cid. to_path dir (info_of (the (hm_get m cid)))) l"
    unfolding map_filter_def using l(2) h by (subst filter_True) (auto simp: store_holds_def)
  finally have paths: "resolve_filter (lo_indexes s) (ByRp rp) dir = map (\<lambda>cid. to_path dir (info_of (the (hm_get m cid)))) l" .
  have load: "load_credential_from_path v ReadOk s (to_path dir (info_of (the (hm_get m cid)))) = Ok (the (hm_get m cid))"
    "sf_id (the (hm_get m cid)) = cid" if "cid \<in> set l" for cid
    using l(2) [of cid] that h filed_load [of v dir s] by (auto simp: store_holds_def)
  have "map Inr (snd (read_all v dir no_faults (ByRp rp) s)) =
      map (load_credential_from_path v ReadOk s) (resolve_filter (lo_indexes s) (ByRp rp) dir)"
    by (rule read_all_paths) (use load(1) in \<open>auto simp: paths\<close>)
  also have "\<dots> = map Inr (map (\<lambda>cid. the (hm_get m cid)) l)" using load(1) by (simp add: paths)
  finally have eq: "snd (read_all v dir no_faults (ByRp rp) s) = map (\<lambda>cid. the (hm_get m cid)) l"
    by (rule map_injective) (simp add: inj_on_def)
  have "map sf_id (map (\<lambda>cid. the (hm_get m cid)) l) = l" using load(2) by (simp add: map_idI)
  with l(1) show "distinct (map sf_id (snd (read_all v dir no_faults (ByRp rp) s)))" by (simp only: eq)
  have "set (map (\<lambda>cid. the (hm_get m cid)) l) = {c. hm_get m (sf_id c) = Some c \<and> trim (party_id (sf_rp c)) = rp}"
    using l(2) load(2) by force
  then show "set (snd (read_all v dir no_faults (ByRp rp) s)) = {c. hm_get m (sf_id c) = Some c \<and> trim (party_id (sf_rp c)) = rp}"
    by (simp only: eq)
qed

text \<open>C26. Reading by relying party is exact: \<open>read_first\<close> with a relying party and \<open>read_next\<close> until it fails give every stored
  credential of that relying party, once, and no other; when a read of a file fails, they give some of these, each once.  The store is one
  reached from an empty directory by operations in which every identifier written is not empty and always written with the same relying
  party (up to surrounding blanks), software keys are those the library makes, and the codec reads back what it wrote.\<close>

theorem rp_enumeration_exact:
  assumes "codec_ok v" and "list_all (store_op_ok v rp_of) xs" and "s = run_state (store_step v dir) empty_store xs"
    and "m = run_state (spec_step v) [] xs"
  shows "distinct (map sf_id (snd (read_all v dir ios (ByRp rp) s))) \<and>
    set (snd (read_all v dir ios (ByRp rp) s)) \<subseteq> {c. hm_get m (sf_id c) = Some c \<and> trim (party_id (sf_rp c)) = rp} \<and>
    set (snd (read_all v dir no_faults (ByRp rp) s)) = {c. hm_get m (sf_id c) = Some c \<and> trim (party_id (sf_rp c)) = rp}"
proof -
  have "store_holds v dir rp_of s m" using run_rel [OF empty_rel assms(1,2)] assms(3,4) by blast
  note all = read_by_rp [OF this, of rp]
  from read_all_prefix [of v dir ios "ByRp rp" s] obtain cs where
    "snd (read_all v dir no_faults (ByRp rp) s) = snd (read_all v dir ios (ByRp rp) s) @ cs" by (auto simp: prefix_def)
  with all show ?thesis by auto
qed

section \<open>Opening the store again\<close>

lemma load_files_ok:
  assumes "index_ok sha BIN ix" and "\<forall>i \<in> set infos. info_ok BIN i" and "distinct (map pi_cred_id infos)"
    and "\<forall>i \<in> set infos. hm_get (ix_id ix) (pi_cred_id i) = None"
  shows "\<exists>ix'. load_files sha BIN (map (to_path dir) infos) ix = Ok ix' \<and> index_ok sha BIN ix' \<and>
    (\<forall>cid info. hm_get (ix_id ix') cid = Some info \<longleftrightarrow> hm_get (ix_id ix) cid = Some info \<or> info \<in> set infos \<and> pi_cred_id info = cid)"
  using assms
proof (induction infos arbitrary: ix)
  case (Cons i infos)
  have ok: "info_ok BIN i" "hm_get (ix_id ix) (pi_cred_id i) = None" using Cons.prems by simp_all
  have "\<exists>ix'. load_files sha BIN (map (to_path dir) infos) (index_insert sha i ix) = Ok ix' \<and> index_ok sha BIN ix' \<and>
    (\<forall>cid info. hm_get (ix_id ix') cid = Some info \<longleftrightarrow> hm_get (ix_id (index_insert sha i ix)) cid = Some info \<or> info \<in> set infos \<and> pi_cred_id info = cid)"
  proof (rule Cons.IH)
    show "index_ok sha BIN (index_insert sha i ix)" by (rule index_insert_ok [OF Cons.prems(1) ok])
    have "pi_cred_id j \<noteq> pi_cred_id i" if "j \<in> set infos" for j
    proof -
      have "pi_cred_id i \<notin> pi_cred_id ` set infos" using Cons.prems(3) by simp
      with that show ?thesis by (metis imageI)
    qed
    with Cons.prems(4) show "\<forall>j \<in> set infos. hm_get (ix_id (index_insert sha i ix)) (pi_cred_id j) = None"
      by (simp add: index_insert_def)
  qed (use Cons.prems in simp_all)
  then obtain ix' where "load_files sha BIN (map (to_path dir) infos) (index_insert sha i ix) = Ok ix'" "index_ok sha BIN ix'"
    "\<And>cid info. hm_get (ix_id ix') cid = Some info \<longleftrightarrow> hm_get (ix_id (index_insert sha i ix)) cid = Some info \<or> info \<in> set infos \<and> pi_cred_id info = cid"
    by blast
  with ok from_to_path [OF ok(1) BIN_ok, of dir] show ?case by (auto simp: index_insert_def)
qed simp

lemma distinct_concat_map:
  assumes "distinct ds" and "\<And>d. distinct (f d)" and "\<And>d p. p \<in> set (f d) \<Longrightarrow> key p = d"
  shows "distinct (concat (map f ds))"
  using assms(1)
proof (induction ds)
  case (Cons d ds)
  have "d \<notin> set ds" using Cons.prems by simp
  then have "set (f d) \<inter> (\<Union>x\<in>set ds. set (f x)) = {}" by (auto dest!: assms(3))
  with Cons assms(2) show ?case by simp
qed simp

text \<open>A directory whose files are all in the directories of relying parties.\<close>

definition two_levels :: "path \<Rightarrow> disk \<Rightarrow> bool" where
  "two_levels dir files \<longleftrightarrow> (\<forall>p \<in> fst ` set files. \<exists>a b. p = dir @ [Normal a, Normal b])"

lemma in_map_filter: "n \<in> set (List.map_filter f xs) \<longleftrightarrow> (\<exists>x \<in> set xs. f x = Some n)"
  by (force simp: map_filter_def)

lemma in_read_dir:
  "n \<in> set (read_dir files d) \<longleftrightarrow> (\<exists>p \<in> fst ` set files. path_starts_with p d \<and> length d < length p \<and> p ! length d = Normal n)"
  unfolding read_dir_def set_remdups in_map_filter set_map
  by (intro bex_cong) (auto split: path_component.splits)

lemma read_dir_levels:
  assumes "two_levels dir files"
  shows "a \<in> set (read_dir files dir) \<longleftrightarrow> (\<exists>b. dir @ [Normal a, Normal b] \<in> fst ` set files)"
    and "b \<in> set (read_dir files (dir @ [Normal a])) \<longleftrightarrow> dir @ [Normal a, Normal b] \<in> fst ` set files"
proof -
  have p: "\<exists>a b. p = dir @ [Normal a, Normal b]" if "p \<in> fst ` set files" for p using assms that by (auto simp: two_levels_def)
  show "a \<in> set (read_dir files dir) \<longleftrightarrow> (\<exists>b. dir @ [Normal a, Normal b] \<in> fst ` set files)"
    unfolding in_read_dir
  proof (intro iffI)
    assume "\<exists>p \<in> fst ` set files. path_starts_with p dir \<and> length dir < length p \<and> p ! length dir = Normal a"
    then obtain q x y where q: "q \<in> fst ` set files" "q ! length dir = Normal a" "q = dir @ [Normal x, Normal y]" using p by blast
    then have "x = a" by (simp add: nth_append)
    show "\<exists>b. dir @ [Normal a, Normal b] \<in> fst ` set files" using q(1) unfolding q(3) \<open>x = a\<close> by (rule exI)
  next
    assume "\<exists>b. dir @ [Normal a, Normal b] \<in> fst ` set files"
    then obtain b where "dir @ [Normal a, Normal b] \<in> fst ` set files" ..
    then show "\<exists>p \<in> fst ` set files. path_starts_with p dir \<and> length dir < length p \<and> p ! length dir = Normal a"
      by (rule bexI [rotated]) (simp add: path_starts_with_def nth_append)
  qed
  show "b \<in> set (read_dir files (dir @ [Normal a])) \<longleftrightarrow> dir @ [Normal a, Normal b] \<in> fst ` set files"
    unfolding in_read_dir
  proof (intro iffI)
    assume "\<exists>p \<in> fst ` set files. path_starts_with p (dir @ [Normal a]) \<and> length (dir @ [Normal a]) < length p \<and> p ! length (dir @ [Normal a]) = Normal b"
    then obtain q x y where q: "q \<in> fst ` set files" "q ! Suc (length dir) = Normal b" "path_starts_with q (dir @ [Normal a])"
      "q = dir @ [Normal x, Normal y]" using p by (metis length_append_singleton)
    then have xy: "x = a" "y = b" by (simp_all add: nth_append path_starts_with_def)
    show "dir @ [Normal a, Normal b] \<in> fst ` set files" using q(1) unfolding q(4) xy .
  next
    assume "dir @ [Normal a, Normal b] \<in> fst ` set files"
    then show "\<exists>p \<in> fst ` set files. path_starts_with p (dir @ [Normal a]) \<and> length (dir @ [Normal a]) < length p \<and> p ! length (dir @ [Normal a]) = Normal b"
      by (rule bexI [rotated]) (simp add: path_starts_with_def nth_append)
  qed
qed

lemma in_credential_files:
  "p \<in> set (credential_files (\<lambda>_. True) files dir ext) \<longleftrightarrow> (\<exists>a b. a \<in> set (read_dir files dir) \<and> is_dir files (dir @ [Normal a]) \<and>
     \<not> starts_with a ''.'' \<and> b \<in> set (read_dir files (dir @ [Normal a])) \<and> p = dir @ [Normal a, Normal b] \<and> path_extension p = Some ext)"
  by (auto simp: credential_files_def list_dir_def)

lemma credential_files_all:
  assumes "two_levels dir files"
    and "\<And>a b. dir @ [Normal a, Normal b] \<in> fst ` set files \<Longrightarrow> \<not> starts_with a ''.'' \<and> path_extension (dir @ [Normal a, Normal b]) = Some ext"
  shows "distinct (credential_files (\<lambda>_. True) files dir ext)" and "set (credential_files (\<lambda>_. True) files dir ext) = fst ` set files"
proof -
  let ?f = "\<lambda>d. filter (\<lambda>p. path_extension p = Some ext)
    (map (\<lambda>n. dir @ [Normal d, Normal n]) (read_dir files (dir @ [Normal d])))"
  have "distinct (?f d)" for d by (simp add: distinct_map inj_on_def read_dir_def)
  then show "distinct (credential_files (\<lambda>_. True) files dir ext)"
    unfolding credential_files_def list_dir_def if_True
    by (intro distinct_concat_map [where key = "\<lambda>p. case p ! length dir of Normal d \<Rightarrow> d"])
      (auto simp: nth_append read_dir_def)
  have dir: "is_dir files (dir @ [Normal a])" if "dir @ [Normal a, Normal b] \<in> fst ` set files" for a b
    using that unfolding is_dir_def list_ex_iff set_map
    by (intro bexI [where x = "dir @ [Normal a, Normal b]"]) (auto simp: path_starts_with_def)
  show "set (credential_files (\<lambda>_. True) files dir ext) = fst ` set files"
  proof (intro set_eqI iffI)
    fix p
    assume p: "p \<in> fst ` set files"
    then obtain a b where ab: "p = dir @ [Normal a, Normal b]" using assms(1) by (auto simp: two_levels_def)
    with p have k: "dir @ [Normal a, Normal b] \<in> fst ` set files" by simp
    with assms(2) [OF k] dir [OF k] ab show "p \<in> set (credential_files (\<lambda>_. True) files dir ext)"
      unfolding in_credential_files read_dir_levels [OF assms(1)] by blast
  next
    fix p
    assume "p \<in> set (credential_files (\<lambda>_. True) files dir ext)"
    then show "p \<in> fst ` set files" unfolding in_credential_files read_dir_levels [OF assms(1)] by blast
  qed
qed

lemma filename_extension:
  assumes "cid \<noteq> []"
  shows "path_extension (p @ [Normal (get_filename cid BIN)]) = Some BIN"
proof -
  have "takeWhile (\<lambda>c. c \<noteq> CHR ''.'') (rev (get_filename cid BIN)) = rev BIN" by (simp add: get_filename_def BIN_def)
  moreover have "length (bytes_to_hex cid) \<noteq> 0" using assms by (simp add: bytes_to_hex_length)
  ultimately show ?thesis by (simp add: path_extension_def file_name_def Let_def) (simp add: get_filename_def BIN_def)
qed

lemma reopen_rel:
  assumes "store_holds v dir rp_of s m"
  shows "\<exists>s'. open_store v (\<lambda>_. True) dir (lo_files s) = Ok s' \<and> lo_files s' = lo_files s \<and> store_holds v dir rp_of s' m"
proof -
  let ?I = "{info. \<exists>cid. hm_get (ix_id (lo_indexes s)) cid = Some info}" and ?K = "fst ` set (lo_files s)"
  have I: "info_ok BIN i" "pi_cred_id i \<noteq> []" "hm_get (ix_id (lo_indexes s)) (pi_cred_id i) = Some i" if "i \<in> ?I" for i
  proof -
    from that obtain cid where cid: "hm_get (ix_id (lo_indexes s)) cid = Some i" by blast
    with assms show ok: "info_ok BIN i" "hm_get (ix_id (lo_indexes s)) (pi_cred_id i) = Some i" by (auto simp: store_holds_def index_ok_def)
    from cid assms obtain c where "hm_get m cid = Some c" and i: "i = info_of c" by (auto simp: store_holds_def)
    with assms have "sf_id c \<noteq> []" by (auto simp: store_holds_def)
    then show "pi_cred_id i \<noteq> []" by (simp add: i info_of_def)
  qed
  have path: "to_path dir i = dir @ [Normal (pi_rp_id i), Normal (get_filename (pi_cred_id i) BIN)]" if "i \<in> ?I" for i
    using to_path_eq [OF I(1) [OF that] BIN_ok] .
  have K: "?K = to_path dir ` ?I"
  proof (intro set_eqI iffI)
    fix p
    assume "p \<in> ?K"
    then have "hm_get (lo_files s) p \<noteq> None" by (auto simp: hm_get_def map_of_eq_None_iff)
    with assms obtain cid c where "hm_get m cid = Some c" "p = to_path dir (info_of c)" by (auto simp: store_holds_def)
    with assms show "p \<in> to_path dir ` ?I" by (auto simp: store_holds_def)
  next
    fix p
    assume "p \<in> to_path dir ` ?I"
    then obtain cid c where "hm_get m cid = Some c" "p = to_path dir (info_of c)" using assms by (auto simp: store_holds_def)
    with assms have "filed v dir (lo_files s) c" by (auto simp: store_holds_def)
    with \<open>p = to_path dir (info_of c)\<close> have "hm_get (lo_files s) p \<noteq> None" by (auto simp: filed_def)
    then show "p \<in> ?K" by (auto simp: hm_get_def map_of_eq_None_iff)
  qed
  have two: "two_levels dir (lo_files s)" unfolding two_levels_def K using path by blast
  have ext: "\<not> starts_with x ''.'' \<and> path_extension (dir @ [Normal x, Normal y]) = Some BIN" if "dir @ [Normal x, Normal y] \<in> ?K" for x y
  proof -
    from that obtain i where i: "i \<in> ?I" "dir @ [Normal x, Normal y] = to_path dir i" unfolding K by blast
    with path [OF i(1)] have "x = pi_rp_id i" "y = get_filename (pi_cred_id i) BIN" by simp_all
    with I [OF i(1)] filename_extension [of "pi_cred_id i" "dir @ [Normal x]"] validated_rp_id_ok(5) show ?thesis
      by (auto simp: info_ok_def)
  qed
  let ?ps = "credential_files (\<lambda>_. True) (lo_files s) dir BIN"
  note all = credential_files_all [OF two ext]
  define infos where "infos = map (\<lambda>p. the (projr (from_path p BIN))) ?ps"
  have reads: "the (projr (from_path (to_path dir i) BIN)) = i" if "i \<in> ?I" for i
    using from_to_path [OF I(1) [OF that] BIN_ok] by simp
  have paths: "set ?ps = to_path dir ` ?I" using all(2) unfolding K .
  then have infos: "set infos = ?I" using reads unfolding infos_def set_map by (auto simp: image_image)
  have ps: "?ps = map (to_path dir) infos"
    unfolding infos_def map_map
  proof (rule sym, rule map_idI)
    fix p
    assume "p \<in> set ?ps"
    with paths obtain i where "i \<in> ?I" "p = to_path dir i" by blast
    with reads [of i] show "(to_path dir \<circ> (\<lambda>p. the (projr (from_path p BIN)))) p = p" by simp
  qed
  have "distinct infos" using all(1) ps by (metis distinct_map)
  then have dist: "distinct (map pi_cred_id infos)"
    unfolding distinct_map using infos I(3) by (auto simp: inj_on_def) (metis option.inject)
  from load_files_ok [OF empty_index_ok, of infos "se_sha v" dir] I(1) infos dist obtain ix where
    ix: "load_files (se_sha v) BIN ?ps empty_indexes = Ok ix" "index_ok (se_sha v) BIN ix"
      "\<And>cid info. hm_get (ix_id ix) cid = Some info \<longleftrightarrow> info \<in> ?I \<and> pi_cred_id info = cid"
    unfolding ps infos by (auto simp: empty_indexes_def)
  let ?s = "\<lparr>lo_files = lo_files s, lo_indexes = ix, lo_iteration_index = 0, lo_iteration_files = []\<rparr>"
  have same: "hm_get (ix_id ix) cid = Some info \<longleftrightarrow> hm_get (ix_id (lo_indexes s)) cid = Some info" for cid info
    unfolding ix(3) using I(3) assms by (auto simp: store_holds_def index_ok_def)
  have "hm_get (ix_id ix) cid = hm_get (ix_id (lo_indexes s)) cid" for cid
  proof (cases "hm_get (ix_id (lo_indexes s)) cid")
    case None
    then have "hm_get (ix_id ix) cid \<noteq> Some i" for i using same [of cid i] by simp
    then have "hm_get (ix_id ix) cid = None" by (metis not_None_eq)
    with None show ?thesis by simp
  next
    case (Some i)
    with same [of cid i] show ?thesis by simp
  qed
  with ix(2) assms have "store_holds v dir rp_of ?s m" by (simp add: store_holds_def)
  with ix(1) show ?thesis by (simp add: open_store_def load_credential_paths_def)
qed

text \<open>C27. A restart is invisible: after any sequence of operations from an empty directory, opening the storage directory again,
  when its directories can be listed, succeeds, and the reopened store answers every further sequence as the map does, failing system
  calls included.  In both sequences every identifier written is not empty and always written with the same relying party (up to
  surrounding blanks), software keys are those the library makes, and the codec reads back what it wrote.\<close>

theorem reopened_store_equivalent:
  assumes "codec_ok v" and "list_all (store_op_ok v rp_of) (xs @ ys)"
  shows "\<exists>s'. open_store v (\<lambda>_. True) dir (lo_files (run_state (store_step v dir) empty_store xs)) = Ok s' \<and>
    run_trace (store_step v dir) s' ys = run_trace (spec_step v) (run_state (spec_step v) [] xs) ys"
proof -
  have "store_holds v dir rp_of (run_state (store_step v dir) empty_store xs) (run_state (spec_step v) [] xs)"
    using run_rel [OF empty_rel assms(1)] assms(2) by simp
  from reopen_rel [OF this] obtain s' where "open_store v (\<lambda>_. True) dir (lo_files (run_state (store_step v dir) empty_store xs)) = Ok s'"
    "store_holds v dir rp_of s' (run_state (spec_step v) [] xs)" by blast
  with run_rel [OF this(2) assms(1)] assms(2) show ?thesis by auto
qed

section \<open>Files stay in the storage directory\<close>

text \<open>C28. The path of a credential is confined and reversible: for every relying-party identifier that validation accepts, the file
  lies exactly two levels below the storage directory, in a directory named after the relying party, and the path determines relying
  party and credential.\<close>

theorem credential_path_confined:
  assumes "validated_rp_id raw = Ok rp" and "info = \<lparr>pi_rp_id = rp, pi_cred_id = cid, pi_extension = BIN\<rparr>"
  shows "to_path dir info = dir @ [Normal rp, Normal (get_filename cid BIN)] \<and> from_path (to_path dir info) BIN = Ok (Some info)"
proof -
  have "info_ok BIN info" using validated_rp_id_ok(3) [OF assms(1)] by (simp add: info_ok_def assms(2))
  from to_path_eq [OF this BIN_ok, of dir] from_to_path [OF this BIN_ok, of dir] show ?thesis by (simp add: assms(2))
qed

theorem credential_path_confined_witness:
  "to_path [RootDir, Normal ''s''] \<lparr>pi_rp_id = ''a.b'', pi_cred_id = [171], pi_extension = BIN\<rparr> =
     [RootDir, Normal ''s'', Normal ''a.b'', Normal ''ab.bin'']"
proof -
  have "validated_rp_id ''a.b'' = Ok ''a.b''" "get_filename [171] BIN = ''ab.bin''" by code_simp+
  with credential_path_confined [of "''a.b''" "''a.b''" _ "[171]" "[RootDir, Normal ''s'']"] show ?thesis by simp
qed

section \<open>Where the index goes wrong\<close>

lemma write_run:
  assumes "storable v c"
  shows "\<exists>b. se_into_writer v (from_soft_fido2 v c) = Some b \<and> store_write v dir True c s =
    (s\<lparr>lo_files := hm_insert (to_path dir (info_of c)) b (lo_files s),
       lo_indexes := update_indexes_on_write (se_sha v) (info_of c) (lo_indexes s)\<rparr>, Ok ()) \<and> info_ok BIN (info_of c)"
proof -
  from assms obtain rp b where rp: "validated_rp_id (party_id (sf_rp c)) = Ok rp" and b: "se_into_writer v (from_soft_fido2 v c) = Some b"
    by (auto simp: storable_def is_ok_iff)
  from validated_info [OF rp] have info: "\<lparr>pi_rp_id = rp, pi_cred_id = sf_id c, pi_extension = BIN\<rparr> = info_of c" "info_ok BIN (info_of c)"
    by (auto simp: info_of_def)
  have "parent (to_path dir (info_of c)) \<noteq> None" "file_name (to_path dir (info_of c)) \<noteq> None"
    using to_path_eq [OF info(2) BIN_ok] by (simp_all add: parent_def file_name_def)
  with rp b info show ?thesis by (auto simp: store_write_def save_credential_def to_bytes_def Let_def)
qed

text \<open>C29. Storing a credential again under another relying party misfiles it: the index by relying party is not updated, so reading
  by the old relying party returns the credential of the new one, reading by the new one finds nothing, and the old file stays.\<close>

theorem rewrite_under_other_rp_misfiled:
  assumes "codec_ok v" and "storable v c" and "storable v c'" and "key_ok v c'" and "sf_id c' = sf_id c"
    and "trim (party_id (sf_rp c')) \<noteq> trim (party_id (sf_rp c))"
    and "s = run_state (store_step v dir) empty_store [SWrite True c, SWrite True c']"
  shows "snd (read_all v dir no_faults (ByRp (trim (party_id (sf_rp c)))) s) = [c'] \<and> snd (read_all v dir no_faults (ByRp (trim (party_id (sf_rp c')))) s) = [] \<and>
    hm_get (lo_files s) (to_path dir (info_of c)) \<noteq> None"
proof -
  obtain b where b: "store_write v dir True c empty_store = (empty_store
      \<lparr>lo_files := hm_insert (to_path dir (info_of c)) b [], lo_indexes := update_indexes_on_write (se_sha v) (info_of c) empty_indexes\<rparr>, Ok ())"
    "info_ok BIN (info_of c)" using write_run [OF assms(2), of dir empty_store] by (auto simp: empty_store_def)
  let ?s = "fst (store_write v dir True c empty_store)"
  obtain b' where b': "se_into_writer v (from_soft_fido2 v c') = Some b'" "store_write v dir True c' ?s = (?s
      \<lparr>lo_files := hm_insert (to_path dir (info_of c')) b' (lo_files ?s),
       lo_indexes := update_indexes_on_write (se_sha v) (info_of c') (lo_indexes ?s)\<rparr>, Ok ())" "info_ok BIN (info_of c')"
    using write_run [OF assms(3), of dir ?s] by blast
  have s: "s = fst (store_write v dir True c' ?s)" using assms(7) by (simp add: case_prod_beta)
  have ix: "lo_indexes s = \<lparr>ix_id = [(sf_id c, info_of c')], ix_rp = [(trim (party_id (sf_rp c)), [sf_id c])],
      ix_rp_hash = [(rp_id_hash (se_sha v) (info_of c), [sf_id c])]\<rparr>"
  proof -
    have "lo_indexes s = update_indexes_on_write (se_sha v) (info_of c') (lo_indexes ?s)" unfolding s b'(2) by simp
    also have "lo_indexes ?s = update_indexes_on_write (se_sha v) (info_of c) empty_indexes" by (simp add: b(1))
    finally show ?thesis
      using assms(5) by (simp add: update_indexes_on_write_def index_insert_def empty_indexes_def entry_push_def hm_get_def hm_insert_def info_of_def)
  qed
  have files: "lo_files s = hm_insert (to_path dir (info_of c')) b' (hm_insert (to_path dir (info_of c)) b [])"
    unfolding s b'(2) by (simp add: b(1))
  have load: "load_credential_from_path v ReadOk s (to_path dir (info_of c')) = Ok c'"
    using codec_reads [OF assms(1) b'(1)] assms(4) soft_roundtrip [of v c'] by (simp add: load_credential_from_path_def files)
  have old: "resolve_filter (lo_indexes s) (ByRp (trim (party_id (sf_rp c)))) dir = [to_path dir (info_of c')]"
    and new: "resolve_filter (lo_indexes s) (ByRp (trim (party_id (sf_rp c')))) dir = []"
    using assms(6) by (simp_all add: ix resolve_filter_def resolve_ids_def map_filter_def hm_get_def)
  have "map Inr (snd (read_all v dir no_faults (ByRp (trim (party_id (sf_rp c)))) s)) = [Ok c' :: store_error + soft_credential]"
    using read_all_paths [of s "ByRp (trim (party_id (sf_rp c)))" dir v] old load by simp
  moreover have "map Inr (snd (read_all v dir no_faults (ByRp (trim (party_id (sf_rp c')))) s)) = ([] :: (store_error + soft_credential) list)"
    using read_all_paths [of s "ByRp (trim (party_id (sf_rp c')))" dir v] new by simp
  ultimately show ?thesis by (auto simp: files)
qed

text \<open>A file name can stop the daemon: when a directory of a relying party holds a file whose name splits a multi-byte character at
  an even offset, opening the store panics.\<close>

theorem multibyte_name_panics:
  "open_store v (\<lambda>_. True) dir [(dir @ [Normal ''example.com'', Normal [CHR ''a'', CHR 0xE2, CHR 0x82, CHR 0xAC, CHR ''.'', CHR ''b'', CHR ''i'', CHR ''n'']], contents)] = Err Panic"
proof -
  let ?n = "[CHR ''a'', CHR 0xE2, CHR 0x82, CHR 0xAC, CHR ''.'', CHR ''b'', CHR ''i'', CHR ''n'']"
  have "read_dir [(dir @ [Normal ''example.com'', Normal ?n], contents)] dir = [''example.com'']"
    "read_dir [(dir @ [Normal ''example.com'', Normal ?n], contents)] (dir @ [Normal ''example.com'']) = [?n]"
    "is_dir [(dir @ [Normal ''example.com'', Normal ?n], contents)] (dir @ [Normal ''example.com''])"
    by (simp_all add: read_dir_def map_filter_def path_starts_with_def nth_append is_dir_def)
  moreover have "path_extension (dir @ [Normal ''example.com'', Normal ?n]) = Some BIN"
    by (simp add: path_extension_def file_name_def BIN_def)
  moreover have "parse_cred_id_from_filename ?n BIN = Err Panic" by code_simp
  moreover have "\<not> starts_with ''example.com'' ''.''" by code_simp
  ultimately show ?thesis
    by (simp add: open_store_def load_credential_paths_def credential_files_def list_dir_def from_path_def file_name_def)
qed

section \<open>A store with one credential\<close>

definition sample_credential :: "string \<Rightarrow> soft_credential" where
  "sample_credential rp =
     \<lparr>sf_id = [171], sf_rp = \<lparr>party_id = rp, party_name = None\<rparr>, sf_user = \<lparr>us_id = [1], us_name = None, us_display_name = None\<rparr>,
      sf_sign_count = 0, sf_alg = 7, sf_key = \<lparr>ck_provider = [2], ck_format_version = 1, ck_material = [9]\<rparr>, sf_created = 5,
      sf_discoverable = True, sf_backup_state = NotEligible,
      sf_extensions = \<lparr>ce_cred_protect = None, ce_hmac_secret = None, ce_cred_random = None\<rparr>\<rparr>"

text \<open>A codec for such credentials: it writes the relying party, the rest is known.\<close>

definition sample_stored :: "string \<Rightarrow> stored_credential" where
  "sample_stored rp =
     \<lparr>cd_id = [171], cd_rp = \<lparr>party_id = rp, party_name = None\<rparr>, cd_user = \<lparr>us_id = [1], us_name = None, us_display_name = None\<rparr>,
      cd_sign_count = 0, cd_alg = 7, cd_private_key = [9], cd_key_provider = Some [2], cd_key_format_version = Some 1, cd_created = 5,
      cd_discoverable = True, cd_backup_state = NotEligible,
      cd_extensions = \<lparr>ce_cred_protect = None, ce_hmac_secret = None, ce_cred_random = None\<rparr>\<rparr>"

definition sample_store_env :: store_env where
  "sample_store_env =
     \<lparr>se_sha = (\<lambda>x. x),
      se_into_writer = (\<lambda>c. if c = sample_stored (party_id (cd_rp c)) then Some (as_bytes (party_id (cd_rp c))) else None),
      se_cbor = (\<lambda>b. Some (raw_of (sample_stored (map byte_char b)))), se_default_backup = NotEligible,
      se_is_software = (\<lambda>_. False), se_software = (\<lambda>m. \<lparr>ck_provider = [], ck_format_version = 0, ck_material = m\<rparr>)\<rparr>"

lemma sample_codec: "codec_ok sample_store_env"
  by (auto simp: codec_ok_def sample_store_env_def split: if_splits)

lemma sample_key: "key_ok sample_store_env (sample_credential rp)"
  by (simp add: key_ok_def sample_store_env_def)

lemma sample_store_rps: "validated_rp_id ''a.b'' = Ok ''a.b''" "validated_rp_id ''c.d'' = Ok ''c.d''" "trim ''a.b'' = ''a.b''" "trim ''c.d'' = ''c.d''"
  by code_simp+

lemma sample_storable: "validated_rp_id rp = Ok rp \<Longrightarrow> storable sample_store_env (sample_credential rp)"
  by (simp add: storable_def sample_store_env_def from_soft_fido2_def sample_credential_def sample_stored_def)

lemma sample_fields: "sf_id (sample_credential rp) = [171]" "party_id (sf_rp (sample_credential rp)) = rp"
  by (simp_all add: sample_credential_def)

definition sample_store_ops :: "store_op list" where
  "sample_store_ops = [SWrite True (sample_credential ''a.b''), SRead ReadOk [171], SRead OpenFails [171], SDelete False [171], SCount, SDelete True [171],
     SRead ReadOk [171]]"

lemma sample_store_ops_ok: "list_all (store_op_ok sample_store_env (\<lambda>_. ''a.b'')) sample_store_ops"
  using sample_key sample_store_rps(3) by (simp add: sample_store_ops_def sample_fields)

theorem local_store_refines_map_witness:
  "map snd (run_trace (store_step sample_store_env [RootDir]) empty_store sample_store_ops) =
     [OutUnit (Ok ()), OutCred (Ok (sample_credential ''a.b'')), OutCred (Err DoesNotExist), OutUnit (Err OtherError), OutCount 1, OutUnit (Ok ()), OutCred (Err DoesNotExist)]"
  using local_store_refines_map [OF sample_codec sample_store_ops_ok, of "[RootDir]"] sample_storable [OF sample_store_rps(1)]
  by (simp add: sample_store_ops_def sample_fields hm_insert_def hm_remove_def hm_get_def)

theorem rp_enumeration_exact_witness:
  "set (snd (read_all sample_store_env [RootDir] no_faults (ByRp ''a.b'')
     (run_state (store_step sample_store_env [RootDir]) empty_store (take 1 sample_store_ops)))) = {sample_credential ''a.b''}"
proof -
  have ops: "list_all (store_op_ok sample_store_env (\<lambda>_. ''a.b'')) (take 1 sample_store_ops)"
    using sample_store_ops_ok by (simp add: sample_store_ops_def)
  have m: "run_state (spec_step sample_store_env) [] (take 1 sample_store_ops) = [([171], sample_credential ''a.b'')]"
    using sample_storable [OF sample_store_rps(1)] by (simp add: sample_store_ops_def sample_fields hm_insert_def)
  have "{c. hm_get [([171], sample_credential ''a.b'')] (sf_id c) = Some c \<and> trim (party_id (sf_rp c)) = ''a.b''} = {sample_credential ''a.b''}"
    using sample_store_rps(3) sample_fields by (auto simp: hm_get_def split: if_splits)
  with rp_enumeration_exact [OF sample_codec ops refl refl, of "[RootDir]" no_faults "''a.b''"] show ?thesis unfolding m by blast
qed

theorem reopened_store_equivalent_witness:
  "\<exists>s'. open_store sample_store_env (\<lambda>_. True) [RootDir] (lo_files (run_state (store_step sample_store_env [RootDir]) empty_store sample_store_ops)) = Ok s' \<and>
    map snd (run_trace (store_step sample_store_env [RootDir]) s' [SCount]) = [OutCount 0]"
proof -
  have ops: "list_all (store_op_ok sample_store_env (\<lambda>_. ''a.b'')) (sample_store_ops @ [SCount])" using sample_store_ops_ok by simp
  have m: "run_state (spec_step sample_store_env) [] sample_store_ops = []"
    using sample_storable [OF sample_store_rps(1)]
    by (simp add: sample_store_ops_def sample_fields hm_insert_def hm_remove_def hm_get_def)
  from reopened_store_equivalent [OF sample_codec ops, of "[RootDir]"] obtain s' where
    o: "open_store sample_store_env (\<lambda>_. True) [RootDir] (lo_files (run_state (store_step sample_store_env [RootDir]) empty_store sample_store_ops)) = Ok s'"
    and t: "run_trace (store_step sample_store_env [RootDir]) s' [SCount] =
      run_trace (spec_step sample_store_env) (run_state (spec_step sample_store_env) [] sample_store_ops) [SCount]" by blast
  have "map snd (run_trace (store_step sample_store_env [RootDir]) s' [SCount]) = [OutCount 0]" unfolding t m by simp
  with o show ?thesis by (intro exI [where x = s'] conjI)
qed

theorem rewrite_under_other_rp_misfiled_witness:
  "snd (read_all sample_store_env [RootDir] no_faults (ByRp ''a.b'') (run_state (store_step sample_store_env [RootDir]) empty_store
     [SWrite True (sample_credential ''a.b''), SWrite True (sample_credential ''c.d'')])) = [sample_credential ''c.d'']"
  using rewrite_under_other_rp_misfiled [OF sample_codec sample_storable [OF sample_store_rps(1)] sample_storable [OF sample_store_rps(2)]
    sample_key _ _ refl, of "[RootDir]"] sample_store_rps(3,4)
  by (simp add: sample_fields)

end
