(* ===== verification/Delegated_Views.thy ===== *)
theory Delegated_Views
  imports Delegated_Storage Store_Properties
begin

text \<open>
  What the views of agent endpoints promise over the local credential store: which credentials a delegated endpoint
  is served, what it can change in the human's store, that building the index ends, and what an isolated
  endpoint does not see.
\<close>

section \<open>The local store behind a view\<close>

text \<open>\<open>io\<close> says which writes the file system carries out, \<open>rd\<close> how it answers the reads.\<close>

definition local_ops ::
    "store_env \<Rightarrow> path \<Rightarrow> (soft_credential \<Rightarrow> local_store \<Rightarrow> bool) \<Rightarrow> (local_store \<Rightarrow> read_io) \<Rightarrow> local_store storage_ops" where
  "local_ops e dir io rd =
    \<lparr>so_read_first = (\<lambda>f s. read_first e dir (rd s) f s), so_read_next = (\<lambda>s. read_next e (rd s) s),
     so_read = (\<lambda>cid s. (s, store_read e dir (rd s) cid s)), so_write = (\<lambda>c s. store_write e dir (io c s) c s), so_cleanup = (\<lambda>s. s)\<rparr>"

abbreviation reads_ok :: "local_store \<Rightarrow> read_io" where "reads_ok \<equiv> \<lambda>_. ReadOk"

lemma local_ops_simps [simp]:
  "so_read_first (local_ops e dir io rd) f s = read_first e dir (rd s) f s" "so_read_next (local_ops e dir io rd) s = read_next e (rd s) s"
  "so_read (local_ops e dir io rd) cid s = (s, store_read e dir (rd s) cid s)"
  "so_write (local_ops e dir io rd) c s = store_write e dir (io c s) c s" "so_cleanup (local_ops e dir io rd) s = s"
  by (simp_all add: local_ops_def)

definition local_holds :: "store_env \<Rightarrow> path \<Rightarrow> (bytes \<Rightarrow> string) \<Rightarrow> local_store \<Rightarrow> (bytes, soft_credential) hashmap \<Rightarrow> bool" where
  "local_holds e dir rp_of s m = (codec_ok e \<and> store_holds e dir rp_of s m)"

text \<open>The iteration cursor is no part of what the store holds.\<close>

lemma cursor_holds [simp]: "store_holds e dir rp_of (s\<lparr>lo_iteration_index := n\<rparr>) m = store_holds e dir rp_of s m"
  "store_holds e dir rp_of (s\<lparr>lo_iteration_index := n, lo_iteration_files := fs\<rparr>) m = store_holds e dir rp_of s m"
  by (simp_all add: store_holds_def)

lemma find_next_holds: "store_holds e dir rp_of s m \<Longrightarrow> store_find_next e io s = (s', r) \<Longrightarrow> store_holds e dir rp_of s' m"
  by (auto simp: store_find_next_def split: if_splits)

lemma store_read_any: "local_holds e dir rp_of s m \<Longrightarrow> store_read e dir io cid s = read_outcome io (hm_get m cid)"
  using step_rel [of e dir rp_of s m "SRead io cid"] by (simp add: local_holds_def)

lemma store_read_held:
  "local_holds e dir rp_of s m \<Longrightarrow> store_read e dir ReadOk cid s = (case hm_get m cid of None \<Rightarrow> Err DoesNotExist | Some c \<Rightarrow> Ok c)"
  by (simp add: store_read_any split: option.split)

lemma read_outcome_ok: "read_outcome io x = Ok c \<Longrightarrow> x = Some c"
  by (cases "(io, x)" rule: read_outcome.cases) auto

interpretation lstore: credential_backend "local_ops e dir io rd" "local_holds e dir rp_of" "\<lambda>c. store_op_ok e rp_of (SWrite True c)"
  for e dir io rd rp_of
proof (unfold_locales, goal_cases)
  case (3 s m c s' w)
  then have "store_op_ok e rp_of (SWrite (io c s) c)" by simp
  from write_rel [OF _ _ this, of dir s m s' w] 3(1,3) show ?case by (auto simp: local_holds_def split: if_splits)
next
  case (4 s m f s' r)
  then show ?case by (auto simp: local_holds_def read_first_def dest: find_next_holds [rotated])
next
  case (5 s m s' r)
  then show ?case by (auto simp: local_holds_def read_next_def dest: find_next_holds)
next
  case (1 s m cid s' r)
  then show ?case using store_read_any [OF 1(1), of "rd s" cid] by (auto intro: read_outcome_ok)
qed (auto simp: local_holds_def store_holds_def)

section \<open>Building the index over the local store\<close>

lemma local_index_loop:
  assumes "\<forall>p \<in> set (drop (lo_iteration_index s) (lo_iteration_files s)). is_ok (load_credential_from_path e ReadOk s p)"
  shows "index_loop (local_ops e dir io reads_ok) v keep note n index s =
    Some (fst (read_rest e no_faults s), Ok (fold (index_credential v keep) (snd (read_rest e no_faults s)) index))"
  using assms
proof (induction e no_faults s arbitrary: n index rule: read_rest.induct)
  case (1 e s)
  show ?case
  proof (cases "length (lo_iteration_files s) \<le> lo_iteration_index s")
    case True
    then show ?thesis by (subst read_rest.simps, subst read_rest.simps, subst index_loop.simps) (simp add: read_next_def store_find_next_def)
  next
    case False
    let ?s = "s\<lparr>lo_iteration_index := lo_iteration_index s + 1\<rparr>" and ?p = "lo_iteration_files s ! lo_iteration_index s"
    have d: "drop (lo_iteration_index s) (lo_iteration_files s) = ?p # drop (lo_iteration_index ?s) (lo_iteration_files ?s)"
      using False by (simp add: Cons_nth_drop_Suc)
    with 1(2) obtain c where c: "load_credential_from_path e ReadOk s ?p = Ok c" by (auto simp: is_ok_iff)
    have nx: "read_next e ReadOk s = (?s, Ok c)" using False c by (simp add: read_next_def store_find_next_def)
    have eq: "load_credential_from_path e ReadOk ?s = load_credential_from_path e ReadOk s" by (rule ext) (simp add: load_credential_from_path_def)
    have "index_loop (local_ops e dir io reads_ok) v keep note (n + 1) (index_credential v keep c index) ?s =
        Some (fst (read_rest e no_faults ?s), Ok (fold (index_credential v keep) (snd (read_rest e no_faults ?s)) (index_credential v keep c index)))"
      by (rule 1(1) [OF nx [symmetric] refl]) (use 1(2) d eq in auto)
    with nx show ?thesis by (subst read_rest.simps, subst read_rest.simps, subst index_loop.simps) (simp add: case_prod_beta)
  qed
qed

text \<open>Building the index ends for every state of the store, whatever the files contain.\<close>

lemma local_index_loop_ends: "\<exists>r. index_loop (local_ops e dir io rd) v keep note n index s = Some r"
proof (induction "length (lo_iteration_files s) - lo_iteration_index s" arbitrary: n index s rule: less_induct)
  case less
  obtain s' r where nx: "read_next e (rd s) s = (s', r)" by fastforce
  show ?case
  proof (cases r)
    case (Inr c)
    with nx have "length (lo_iteration_files s') - lo_iteration_index s' < length (lo_iteration_files s) - lo_iteration_index s"
      by (auto simp: read_next_def store_find_next_def split: if_splits)
    from less [OF this] nx Inr show ?thesis by (subst index_loop.simps) simp
  qed (use nx in \<open>subst index_loop.simps, simp\<close>)
qed

lemma index_fold:
  assumes "inj_on (cred_ref_from_id v) (sf_id ` set cs)" and "c \<in> set cs" and "keep (cred_ref_from_id v (sf_id c))"
  shows "hm_get (fold (index_credential v keep) cs []) (cred_ref_from_id v (sf_id c)) = Some (sf_id c)"
  using assms
proof (induction cs rule: rev_induct)
  case (snoc x cs)
  show ?case
  proof (cases "sf_id x = sf_id c")
    case True
    with snoc.prems(3) show ?thesis by (simp add: index_credential_def Let_def)
  next
    case False
    with snoc.prems have "cred_ref_from_id v (sf_id x) \<noteq> cred_ref_from_id v (sf_id c)" "c \<in> set cs"
      by (auto dest: inj_onD)
    moreover have "inj_on (cred_ref_from_id v) (sf_id ` set cs)" using snoc.prems(1) by (auto intro: inj_on_subset)
    ultimately show ?thesis using snoc.IH snoc.prems(3) by (simp add: index_credential_def Let_def)
  qed
qed simp

lemma all_held:
  assumes "local_holds e dir rp_of s m"
  shows "\<forall>p \<in> set (resolve_filter (lo_indexes s) FilterNone dir). is_ok (load_credential_from_path e ReadOk s p)"
    and "set (snd (read_all e dir no_faults FilterNone s)) = {c. hm_get m (sf_id c) = Some c}"
proof -
  have h: "store_holds e dir rp_of s m" using assms by (simp add: local_holds_def)
  then have wf: "hm_wf (ix_id (lo_indexes s))" by (simp add: store_holds_def index_ok_def)
  have ident: "sf_id c = cid" if "hm_get m cid = Some c" for cid c using that h by (auto simp: store_holds_def)
  have "info \<in> set (hm_values (ix_id (lo_indexes s))) \<longleftrightarrow> info \<in> info_of ` {c. hm_get m (sf_id c) = Some c}" for info
  proof -
    have "info \<in> set (hm_values (ix_id (lo_indexes s))) \<longleftrightarrow> (\<exists>cid. map_option info_of (hm_get m cid) = Some info)"
      using h by (simp add: hm_values_iff [OF wf] store_holds_def)
    also have "\<dots> \<longleftrightarrow> info \<in> info_of ` {c. hm_get m (sf_id c) = Some c}"
      by (auto simp: map_option_eq_Some dest: ident)
    finally show ?thesis .
  qed
  then have "set (hm_values (ix_id (lo_indexes s))) = info_of ` {c. hm_get m (sf_id c) = Some c}" by blast
  then have vals: "set (resolve_filter (lo_indexes s) FilterNone dir) = (\<lambda>c. to_path dir (info_of c)) ` {c. hm_get m (sf_id c) = Some c}"
    by (simp add: resolve_filter_def image_image)
  have load: "load_credential_from_path e ReadOk s (to_path dir (info_of c)) = Ok c" if "hm_get m (sf_id c) = Some c" for c
    using that h filed_load [of e dir s c] by (auto simp: store_holds_def)
  show all: "\<forall>p \<in> set (resolve_filter (lo_indexes s) FilterNone dir). is_ok (load_credential_from_path e ReadOk s p)"
    using load by (auto simp: vals)
  have "Inr ` set (snd (read_all e dir no_faults FilterNone s)) =
      (\<lambda>c. load_credential_from_path e ReadOk s (to_path dir (info_of c))) ` {c. hm_get m (sf_id c) = Some c}"
    using arg_cong [OF read_all_paths [OF all], of set] by (simp add: vals image_image)
  also have "\<dots> = Inr ` {c. hm_get m (sf_id c) = Some c}" by (rule image_cong) (simp_all add: load)
  finally show "set (snd (read_all e dir no_faults FilterNone s)) = {c. hm_get m (sf_id c) = Some c}" by (simp add: inj_image_eq_iff)
qed

lemma local_index_credentials:
  assumes "local_holds e dir rp_of s m"
  shows "index_credentials (local_ops e dir io reads_ok) v keep note s =
    Some (fst (read_all e dir no_faults FilterNone s), Ok (fold (index_credential v keep) (snd (read_all e dir no_faults FilterNone s)) []))"
proof -
  let ?s = "s\<lparr>lo_iteration_index := 0, lo_iteration_files := resolve_filter (lo_indexes s) FilterNone dir\<rparr>"
  have eq: "load_credential_from_path e ReadOk ?s = load_credential_from_path e ReadOk s" by (rule ext) (simp add: load_credential_from_path_def)
  note ok = all_held(1) [OF assms]
  then have first: "\<exists>c. load_credential_from_path e ReadOk s (resolve_filter (lo_indexes s) FilterNone dir ! 0) = Ok c"
    if "resolve_filter (lo_indexes s) FilterNone dir \<noteq> []" using that by (auto simp: is_ok_iff)
  have "index_loop (local_ops e dir io reads_ok) v keep note 0 [] ?s =
      Some (fst (read_rest e no_faults ?s), Ok (fold (index_credential v keep) (snd (read_rest e no_faults ?s)) []))"
    by (rule local_index_loop) (use ok eq in simp)
  moreover have "read_all e dir no_faults FilterNone s = read_rest e no_faults ?s"
    by (subst read_rest.simps) (simp add: read_all_def read_first_def read_next_def)
  moreover have "index_credentials (local_ops e dir io reads_ok) v keep note s = index_loop (local_ops e dir io reads_ok) v keep note 0 [] ?s"
    using first by (subst index_loop.simps)
      (auto simp: index_credentials_def read_first_def read_next_def store_find_next_def eq is_ok_iff split: prod.splits sum.splits)
  ultimately show ?thesis by simp
qed

lemma local_build_index:
  assumes "local_holds e dir rp_of s m"
  shows "dlg_build_index (local_ops e dir io reads_ok) v (new_delegated s rps refs const reg) =
    Some ((new_delegated s rps refs const reg)\<lparr>ds_human := fst (read_all e dir no_faults FilterNone s),
      ds_index := fold (index_credential v (\<lambda>r. r \<in> set refs)) (snd (read_all e dir no_faults FilterNone s)) []\<rparr>, Ok ())"
  by (simp add: dlg_build_index_def local_index_credentials [OF assms]) (simp add: new_delegated_def local_index_credentials [OF assms])

section \<open>The delegated view\<close>

text \<open>The writes considered are those the store is considered for.\<close>

definition view_op_ok :: "store_env \<Rightarrow> (bytes \<Rightarrow> string) \<Rightarrow> view_op \<Rightarrow> bool" where
  "view_op_ok e rp_of x = (case x of VWrite c \<Rightarrow> store_op_ok e rp_of (SWrite True c) | _ \<Rightarrow> True)"

text \<open>A step of the view in which the file system may refuse the write and the read: a step makes at most one of each.\<close>

fun faulty_step :: "store_env \<Rightarrow> path \<Rightarrow> delegated_env \<Rightarrow> local_store shared_delegated \<Rightarrow> (bool \<times> read_io) \<times> view_op \<Rightarrow>
    local_store shared_delegated \<times> view_out" where
  "faulty_step e dir v d ((io, rd), x) = dlg_step (local_ops e dir (\<lambda>_ _. io) (\<lambda>_. rd)) v d x"

lemma view_ok_ops: "lstore.view_ok e dir rp_of v d m \<longleftrightarrow>
    local_holds e dir rp_of (ds_human d) m \<and> index_sound v (\<lambda>r. r \<in> set (ds_allowed_cred_refs d)) (ds_index d)"
  by (simp add: lstore.view_ok_def)

text \<open>What a run of such steps leaves: the rights, and the store up to updates of the credentials that were given.\<close>

lemma faulty_run_confined:
  assumes "lstore.view_ok e dir rp_of v d m" and "list_all (\<lambda>(f, x). view_op_ok e rp_of x) xs"
  shows "same_rights d (run_state (faulty_step e dir v) d xs) \<and> (\<exists>m'. lstore.view_ok e dir rp_of v (run_state (faulty_step e dir v) d xs) m' \<and>
    (\<not> ds_registration_allowed d \<longrightarrow> confined v (ds_allowed_cred_refs d) m m') \<and>
    (\<forall>cid c. hm_get m' cid = Some c \<longrightarrow> hm_get m cid = Some c \<or> VWrite c \<in> snd ` set xs))"
  using assms
proof (induction xs arbitrary: d m)
  case (Cons y xs)
  obtain io rd x where y: "y = ((io, rd), x)" by (metis surj_pair)
  let ?d = "fst (faulty_step e dir v d y)"
  have "\<forall>c. x = VWrite c \<longrightarrow> store_op_ok e rp_of (SWrite True c)" using Cons.prems(2) by (auto simp: y view_op_ok_def)
  from lstore.dlg_step_confined [OF Cons.prems(1) this, of "\<lambda>_ _. io" "\<lambda>_. rd"] obtain m' where
    r: "same_rights d ?d" and ok: "lstore.view_ok e dir rp_of v ?d m'" and
    c: "\<not> ds_registration_allowed d \<longrightarrow> confined v (ds_allowed_cred_refs d) m m'" and
    w: "\<And>cid c. hm_get m' cid = Some c \<Longrightarrow> hm_get m cid = Some c \<or> x = VWrite c" by (auto simp: y)
  from Cons.IH [OF ok] Cons.prems(2) obtain m'' where
    "same_rights ?d (run_state (faulty_step e dir v) ?d xs)" "lstore.view_ok e dir rp_of v (run_state (faulty_step e dir v) ?d xs) m''"
    "\<not> ds_registration_allowed ?d \<longrightarrow> confined v (ds_allowed_cred_refs ?d) m' m''"
    "\<And>cid c. hm_get m'' cid = Some c \<Longrightarrow> hm_get m' cid = Some c \<or> VWrite c \<in> snd ` set xs" by auto
  moreover from this(4) w have "\<forall>cid c. hm_get m'' cid = Some c \<longrightarrow> hm_get m cid = Some c \<or> VWrite c \<in> snd ` set (y # xs)"
    unfolding y by fastforce
  ultimately show ?case
    using r c by (intro conjI exI [of _ m'']) (auto simp: same_rights_def simp del: faulty_step.simps intro: confined_trans)
qed (auto simp: same_rights_def intro: confined_refl)

lemma stored_holds:
  assumes "codec_ok e" and "list_all (store_op_ok e rp_of) ops" and "s = run_state (store_step e dir) empty_store ops"
  obtains m where "local_holds e dir rp_of s m"
  using run_rel [OF empty_rel assms(1,2)] assms(1,3) that by (auto simp: local_holds_def)

lemma activated_view:
  assumes "normalize rp \<noteq> []" and "\<not> list_all (\<lambda>b. b = 0) (cred_bytes r)" and "d' = fst (dlg_step ops v d (VActivate (CaAuthenticate r) rp))"
  shows "active_action (ds_scope d') = Some (CaAuthenticate r) \<and> active_cred_ref (ds_scope d') = Some r \<and>
    active_rp_id (ds_scope d') = Some (normalize rp)" "ds_human d' = ds_human d" "ds_index d' = ds_index d"
    "ds_allowed_cred_refs d' = ds_allowed_cred_refs d" "ds_allowed_rp_ids d' = ds_allowed_rp_ids d" "ds_poisoned d' = ds_poisoned d"
  using assms by (simp_all add: activate_def active_action_def active_cred_ref_def active_rp_id_def Let_def)

lemma read_in_ceremony:
  assumes "active_action (ds_scope d) = Some (CaAuthenticate r) \<and> active_cred_ref (ds_scope d) = Some r \<and> active_rp_id (ds_scope d) = Some q"
    and "\<not> ds_poisoned d"
  shows "snd (dlg_step (local_ops e dir io reads_ok) v d (VRead cid)) = VoCred (Ok c) \<longleftrightarrow> r = cred_ref_from_id v cid \<and> r \<in> set (ds_allowed_cred_refs d) \<and>
    (\<exists>raw. hm_get (ds_index d) r = Some raw \<and> store_read e dir ReadOk raw (ds_human d) = Ok c) \<and>
    normalize (party_id (sf_rp c)) \<in> set (ds_allowed_rp_ids d) \<and> normalize (party_id (sf_rp c)) = q"
  using assms
  by (auto simp: dlg_read_def dlg_fetch_def guard_defs split: option.splits sum.splits)

text \<open>The index over the local store has every credential whose reference was given, and only those.\<close>

lemma local_index_exact:
  assumes "local_holds e dir rp_of s m" and "inj_on (cred_ref_from_id v) (insert cid {i. is_ok (store_read e dir ReadOk i s)})"
    and "index = fold (index_credential v keep) (snd (read_all e dir no_faults FilterNone s)) []"
  shows "hm_get index (cred_ref_from_id v cid) = Some raw \<and> store_read e dir ReadOk raw s = Ok c \<longleftrightarrow>
    raw = cid \<and> keep (cred_ref_from_id v cid) \<and> store_read e dir ReadOk cid s = Ok c"
proof -
  have held: "hm_get m i = Some x \<longleftrightarrow> store_read e dir ReadOk i s = Ok x" for i x
    using store_read_held [OF assms(1), of i] by (auto split: option.splits)
  have ids: "sf_id ` set (snd (read_all e dir no_faults FilterNone s)) \<subseteq> insert cid {i. is_ok (store_read e dir ReadOk i s)}"
    using held by (auto simp: all_held(2) [OF assms(1)] is_ok_iff)
  have sound: "index_sound v keep index" unfolding assms(3)
    by (rule index_credentials_sound [OF local_index_credentials [OF assms(1)]])
  have a: "hm_get index (cred_ref_from_id v cid) = Some cid" if "store_read e dir ReadOk cid s = Ok x" and "keep (cred_ref_from_id v cid)" for x
  proof -
    from that held lstore.holds_id [OF assms(1)] have "hm_get m cid = Some x" "sf_id x = cid" by blast+
    then have "x \<in> set (snd (read_all e dir no_faults FilterNone s))" by (simp add: all_held(2) [OF assms(1)])
    from index_fold [OF inj_on_subset [OF assms(2) ids] this, of keep] that \<open>sf_id x = cid\<close> assms(3) show ?thesis by simp
  qed
  have b: "i = cid \<and> keep (cred_ref_from_id v cid)" if "hm_get index (cred_ref_from_id v cid) = Some i" and "store_read e dir ReadOk i s = Ok x" for i x
  proof -
    from that(1) sound have r: "cred_ref_from_id v cid = cred_ref_from_id v i" "keep (cred_ref_from_id v cid)"
      unfolding index_sound_def by blast+
    have "cid = i" by (rule inj_onD [OF assms(2) r(1)]) (use that(2) in simp_all)
    with r(2) show ?thesis by simp
  qed
  show ?thesis using a [of c] b [of raw c] by auto
qed

text \<open>C14. A delegated endpoint reads only what it was given: whatever it did before, and whatever writes and reads the file system
  refused meanwhile, a credential that a read returns is the one of the ceremony in progress, is among the references and relying parties
  the endpoint was created with, belongs to the relying party of the ceremony, and is what the human's store holds under its identifier.
  The credentials stored and written are those the store is considered for (one relying party for each identifier, which is not empty, and
  software keys as the library makes them), and the codec reads back what it wrote.\<close>

theorem delegated_reads_confined:
  assumes "codec_ok e" and "list_all (store_op_ok e rp_of) ops" and "s = run_state (store_step e dir) empty_store ops"
    and "dlg_build_index (local_ops e dir io rd) v (new_delegated s rps refs const reg) = Some (d0, Ok ())"
    and "list_all (\<lambda>(f, x). view_op_ok e rp_of x) xs" and "d = run_state (faulty_step e dir v) d0 xs"
    and "snd (faulty_step e dir v d (f, x)) = VoCred (Ok c)"
  shows "active_cred_ref (ds_scope d) = Some (cred_ref_from_id v (sf_id c)) \<and> cred_ref_from_id v (sf_id c) \<in> set refs \<and>
    active_rp_id (ds_scope d) = Some (normalize (party_id (sf_rp c))) \<and> normalize (party_id (sf_rp c)) \<in> normalize ` set rps \<and>
    store_read e dir ReadOk (sf_id c) (ds_human d) = Ok c"
proof -
  obtain m0 where "local_holds e dir rp_of s m0" using assms(1-3) by (rule stored_holds)
  from lstore.dlg_index_ok [OF assms(4) this]
  have ok: "lstore.view_ok e dir rp_of v d0 m0" and r0: "same_rights (new_delegated s rps refs const reg) d0" by simp_all
  from faulty_run_confined [OF ok assms(5)] assms(6) obtain m where
    r: "same_rights d0 d" and m: "lstore.view_ok e dir rp_of v d m" by auto
  note h = m [unfolded view_ok_ops, THEN conjunct1] m [unfolded view_ok_ops, THEN conjunct2]
  obtain wio rio where f: "f = (wio, rio)" by fastforce
  let ?ops = "local_ops e dir (\<lambda>_ _. wio) (\<lambda>_. rio)"
  from assms(7) obtain g cid d' where "dlg_read_first ?ops v g d = (d', Ok c) \<or> dlg_read ?ops v cid d = (d', Ok c)"
    by (cases x) (auto simp: f apsnd_def map_prod_def dlg_read_next_def split: prod.splits sum.splits)
  from lstore.dlg_readers(2) [OF h this refl] r0 r store_read_held [OF h(1), of "sf_id c"] show ?thesis
    by (auto simp: same_rights_def new_delegated_def dlg_rp_allowed_def)
qed

text \<open>C13. A delegated endpoint without the right to register changes the human's store only by updates of the credentials it was
  given: whatever it does, and whatever writes and reads the file system refuses meanwhile, no credential appears or disappears, the
  credentials it was not given stay as they are, and one it was given is as before or one of the credentials the endpoint wrote, with the
  same identifier, normalised relying party, user, algorithm, creation time, discoverability, key material, credential protection and credential
  random, and a counter that is not smaller.  The flag \<open>hmac_secret\<close>, the provider and format of the key, the backup state and the name of
  the relying party are as written; the flag is not kept (\<open>update_replaces_hmac_secret\<close>).  The credentials stored and written are those the store is
  considered for (one relying party for each identifier, up to surrounding blanks only, an identifier that is not empty, software keys as the
  library makes them), and the codec reads back what it wrote.\<close>

theorem delegated_writes_confined:
  assumes "codec_ok e" and "list_all (store_op_ok e rp_of) ops" and "s = run_state (store_step e dir) empty_store ops"
    and "dlg_build_index (local_ops e dir io rd) v (new_delegated s rps refs const False) = Some (d0, Ok ())"
    and "list_all (\<lambda>(f, x). view_op_ok e rp_of x) xs" and "d = run_state (faulty_step e dir v) d0 xs"
  shows "case store_read e dir ReadOk cid s of
      Inl err \<Rightarrow> store_read e dir ReadOk cid (ds_human d) = Err err
    | Inr old \<Rightarrow> (\<exists>new. store_read e dir ReadOk cid (ds_human d) = Ok new \<and> kept old new \<and>
        (new = old \<or> cred_ref_from_id v cid \<in> set refs \<and> VWrite new \<in> snd ` set xs))"
proof -
  obtain m0 where m0: "local_holds e dir rp_of s m0" using assms(1-3) by (rule stored_holds)
  from lstore.dlg_index_ok [OF assms(4) this]
  have ok: "lstore.view_ok e dir rp_of v d0 m0" and r0: "same_rights (new_delegated s rps refs const False) d0" by simp_all
  from faulty_run_confined [OF ok assms(5)] assms(6) r0 obtain m where
    m: "lstore.view_ok e dir rp_of v d m" and c: "confined v refs m0 m"
    and w: "\<And>cid c. hm_get m cid = Some c \<Longrightarrow> hm_get m0 cid = Some c \<or> VWrite c \<in> snd ` set xs"
    by (auto simp: same_rights_def new_delegated_def)
  from m have "local_holds e dir rp_of (ds_human d) m" by (simp add: view_ok_ops)
  note reads = store_read_held [OF m0, of cid] store_read_held [OF this, of cid]
  show ?thesis
  proof (cases "hm_get m0 cid")
    case None
    with c [unfolded confined_def, rule_format, of cid] show ?thesis by (simp add: reads)
  next
    case (Some old)
    with c [unfolded confined_def, rule_format, of cid] obtain new where "hm_get m cid = Some new" "kept old new"
      "cred_ref_from_id v cid \<in> set refs \<or> new = old" by auto
    with w [of cid new] Some show ?thesis by (auto simp: reads)
  qed
qed

lemma local_view_serves:
  assumes "local_holds e dir rp_of s m" and "inj_on (cred_ref_from_id v) (insert cid {i. is_ok (store_read e dir ReadOk i s)})"
    and "normalize rp \<noteq> []" and "\<not> list_all (\<lambda>b. b = 0) (cred_bytes r)"
  shows "\<exists>d. dlg_build_index (local_ops e dir io reads_ok) v (new_delegated s rps refs const reg) = Some (d, Ok ()) \<and>
    (snd (dlg_step (local_ops e dir io reads_ok) v (fst (dlg_step (local_ops e dir io reads_ok) v d (VActivate (CaAuthenticate r) rp))) (VRead cid)) =
      VoCred (Ok c) \<longleftrightarrow>
     store_read e dir ReadOk cid s = Ok c \<and> r = cred_ref_from_id v cid \<and> r \<in> set refs \<and>
     normalize (party_id (sf_rp c)) \<in> normalize ` set rps \<and> normalize (party_id (sf_rp c)) = normalize rp)"
proof -
  let ?all = "read_all e dir no_faults FilterNone s" and ?keep = "\<lambda>r. r \<in> set refs"
  let ?d = "(new_delegated s rps refs const reg)\<lparr>ds_human := fst ?all, ds_index := fold (index_credential v ?keep) (snd ?all) []\<rparr>"
  note build = local_build_index [OF assms(1), of io v rps refs const reg]
  from lstore.dlg_index_ok [OF build assms(1)] have "local_holds e dir rp_of (fst ?all) m" by (simp add: lstore.view_ok_def new_delegated_def)
  then have reads: "store_read e dir ReadOk i (fst ?all) = store_read e dir ReadOk i s" for i
    using store_read_held [OF assms(1), of i] store_read_held [of e dir rp_of "fst ?all" m i] by simp
  define d where "d = ?d"
  have d: "ds_human d = fst ?all" "ds_index d = fold (index_credential v ?keep) (snd ?all) []" "ds_allowed_cred_refs d = refs"
    "ds_allowed_rp_ids d = map normalize rps" "ds_poisoned d = False" by (simp_all add: d_def new_delegated_def)
  define d' where "d' = fst (dlg_step (local_ops e dir io reads_ok) v d (VActivate (CaAuthenticate r) rp))"
  note act = activated_view [OF assms(3,4) d'_def]
  from read_in_ceremony [OF act(1), of e dir io v cid c] local_index_exact [OF assms(1) assms(2) d(2), of _ c]
  have "snd (dlg_step (local_ops e dir io reads_ok) v d' (VRead cid)) = VoCred (Ok c) \<longleftrightarrow>
     store_read e dir ReadOk cid s = Ok c \<and> r = cred_ref_from_id v cid \<and> r \<in> set refs \<and>
     normalize (party_id (sf_rp c)) \<in> normalize ` set rps \<and> normalize (party_id (sf_rp c)) = normalize rp"
    by (auto simp: act(2-6) d(1,3-5) reads)
  with build show ?thesis unfolding d'_def d_def [symmetric] by blast
qed

text \<open>C15. A delegated endpoint is served what it was given: building the index over the human's store succeeds, and in an authentication
  ceremony for a reference and a relying party a read by identifier returns a credential exactly if the store holds it, the reference
  is the one of the identifier and was given to the endpoint, and the relying party of the credential was given to it and is the one
  of the ceremony.  (The references of the identifiers involved do not collide.)\<close>

theorem delegated_serves_exactly:
  assumes "codec_ok e" and "list_all (store_op_ok e rp_of) ops" and "s = run_state (store_step e dir) empty_store ops"
    and "inj_on (cred_ref_from_id v) (insert cid {i. is_ok (store_read e dir ReadOk i s)})"
    and "normalize rp \<noteq> []" and "\<not> list_all (\<lambda>b. b = 0) (cred_bytes r)"
  shows "\<exists>d. dlg_build_index (local_ops e dir io reads_ok) v (new_delegated s rps refs const reg) = Some (d, Ok ()) \<and>
    (snd (dlg_step (local_ops e dir io reads_ok) v (fst (dlg_step (local_ops e dir io reads_ok) v d (VActivate (CaAuthenticate r) rp))) (VRead cid)) =
      VoCred (Ok c) \<longleftrightarrow>
     store_read e dir ReadOk cid s = Ok c \<and> r = cred_ref_from_id v cid \<and> r \<in> set refs \<and>
     normalize (party_id (sf_rp c)) \<in> normalize ` set rps \<and> normalize (party_id (sf_rp c)) = normalize rp)"
proof -
  obtain m where "local_holds e dir rp_of s m" using assms(1-3) by (rule stored_holds)
  then show ?thesis using assms(4-6) by (rule local_view_serves)
qed

section \<open>The isolated view\<close>

lemma iso_index_fixed [simp]: "is_index (fst (iso_step ops v d x)) = is_index d"
  by (cases x) (auto simp: iso_read_first_def iso_read_next_def iso_read_def iso_fetch_def iso_write_def iso_delete_def iso_cleanup_def Let_def
      split: prod.splits sum.splits option.splits if_splits ceremony_action.splits)

lemma iso_index_run: "is_index (run_state (iso_step ops v) d xs) = is_index d"
  by (induction xs arbitrary: d) simp_all

text \<open>The index of an isolated endpoint is the one built when the endpoint was created: a credential that is not in it is not served, even
  if it was registered through the same endpoint in the meantime.\<close>

theorem registered_credential_not_served:
  assumes "hm_get (is_index d) (cred_ref_from_id v cid) = None"
  shows "snd (iso_step ops v (run_state (iso_step ops v) d xs) (VRead cid)) = VoCred (Err DoesNotExist)"
  using assms
  by (auto simp: iso_read_def iso_fetch_def iso_index_run guard_defs split: option.splits sum.splits ceremony_action.splits)

section \<open>A view of a store with one credential\<close>

definition sample_view_env :: delegated_env where
  "sample_view_env = \<lparr>de_sha = (\<lambda>x. x), de_hex = (\<lambda>_. []), de_display = (\<lambda>_. [])\<rparr>"

lemma sample_view_inj: "inj (cred_ref_from_id sample_view_env)"
  by (simp add: inj_def cred_ref_from_id_def with_default_domain_def credential_ref_new_def sample_view_env_def)

definition sample_view_ops :: "local_store storage_ops" where
  "sample_view_ops = local_ops sample_store_env [RootDir] (\<lambda>_ _. True) reads_ok"

definition sample_view_store :: local_store where
  "sample_view_store = run_state (store_step sample_store_env [RootDir]) empty_store [SWrite True (sample_credential ''a.b'')]"

lemma sample_view_ops_ok: "list_all (store_op_ok sample_store_env (\<lambda>_. ''a.b'')) [SWrite True (sample_credential ''a.b'')]"
  using sample_key sample_store_rps(3) by (simp add: sample_fields)

lemma sample_held: "local_holds sample_store_env [RootDir] (\<lambda>_. ''a.b'') sample_view_store [([171], sample_credential ''a.b'')]"
proof -
  have m: "run_state (spec_step sample_store_env) [] [SWrite True (sample_credential ''a.b'')] = [([171], sample_credential ''a.b'')]"
    using sample_storable [OF sample_store_rps(1)] by (simp add: sample_fields hm_insert_def)
  from run_rel [OF empty_rel sample_codec sample_view_ops_ok] show ?thesis unfolding m by (simp only: local_holds_def sample_view_store_def sample_codec)
qed

lemma sample_view_ref: "\<not> list_all (\<lambda>b. b = 0) (cred_bytes (cred_ref_from_id sample_view_env [171]))" "normalize ''a.b'' \<noteq> []"
  by code_simp+

theorem delegated_serves_exactly_witness:
  "\<exists>d. dlg_build_index sample_view_ops sample_view_env
      (new_delegated sample_view_store [''a.b''] [cred_ref_from_id sample_view_env [171]] False False) = Some (d, Ok ()) \<and>
    snd (dlg_step sample_view_ops sample_view_env
      (fst (dlg_step sample_view_ops sample_view_env d (VActivate (CaAuthenticate (cred_ref_from_id sample_view_env [171])) ''a.b''))) (VRead [171])) =
    VoCred (Ok (sample_credential ''a.b''))"
  using delegated_serves_exactly [OF sample_codec sample_view_ops_ok sample_view_store_def inj_on_subset [OF sample_view_inj subset_UNIV]
      sample_view_ref(2,1), of "\<lambda>_ _. True" "[''a.b'']" "[cred_ref_from_id sample_view_env [171]]" False False "[171]" "sample_credential ''a.b''"]
    store_read_held [OF sample_held, of "[171]"]
  by (simp add: sample_view_ops_def sample_fields hm_get_def)

theorem delegated_reads_confined_witness:
  "\<exists>d :: local_store shared_delegated. active_cred_ref (ds_scope d) = Some (cred_ref_from_id sample_view_env [171]) \<and>
    store_read sample_store_env [RootDir] ReadOk [171] (ds_human d) = Ok (sample_credential ''a.b'')"
proof -
  let ?r = "cred_ref_from_id sample_view_env [171]" and ?c = "sample_credential ''a.b''"
  let ?ops = "local_ops sample_store_env [RootDir] (\<lambda>_ _. True) reads_ok" and ?f = "(True, ReadOk)"
  let ?step = "faulty_step sample_store_env [RootDir] sample_view_env"
  from local_view_serves [OF sample_held inj_on_subset [OF sample_view_inj subset_UNIV] sample_view_ref(2,1),
      of "\<lambda>_ _. True" "[''a.b'']" "[?r]" False False "[171]" ?c] store_read_held [OF sample_held, of "[171]"]
  obtain d where d: "dlg_build_index ?ops sample_view_env (new_delegated sample_view_store [''a.b''] [?r] False False) = Some (d, Ok ())"
    and c: "snd (?step (run_state ?step d [(?f, VActivate (CaAuthenticate ?r) ''a.b'')]) (?f, VRead [171])) = VoCred (Ok ?c)"
    by (auto simp: sample_fields hm_get_def simp del: dlg_step.simps)
  have "list_all (\<lambda>(f, x). view_op_ok sample_store_env (\<lambda>_. ''a.b'') x) [(?f, VActivate (CaAuthenticate ?r) ''a.b'')]"
    by (simp add: view_op_ok_def)
  from delegated_reads_confined [OF sample_codec sample_view_ops_ok sample_view_store_def d this refl c] show ?thesis
    unfolding sample_fields by blast
qed

text \<open>An update that the file system refuses, the same update, and a deletion, which the endpoint may not make.\<close>

theorem delegated_writes_confined_witness:
  "\<exists>d new. dlg_build_index sample_view_ops sample_view_env
      (new_delegated sample_view_store [''a.b''] [cred_ref_from_id sample_view_env [171]] True False) = Some (d, Ok ()) \<and>
    store_read sample_store_env [RootDir] ReadOk [171] (ds_human (run_state (faulty_step sample_store_env [RootDir] sample_view_env) d
      [((True, ReadOk), VActivate (CaAuthenticate (cred_ref_from_id sample_view_env [171])) ''a.b''),
       ((False, ReadOk), VWrite (sample_credential ''a.b'')), ((True, ReadOk), VWrite (sample_credential ''a.b'')),
       ((True, OpenFails), VDelete [171])])) = Ok new \<and>
    kept (sample_credential ''a.b'') new"
proof -
  let ?r = "cred_ref_from_id sample_view_env [171]" and ?c = "sample_credential ''a.b''"
  let ?xs = "[((True, ReadOk), VActivate (CaAuthenticate ?r) ''a.b''), ((False, ReadOk), VWrite ?c), ((True, ReadOk), VWrite ?c),
    ((True, OpenFails), VDelete [171])]"
  from local_build_index [OF sample_held] obtain d where
    d: "dlg_build_index sample_view_ops sample_view_env (new_delegated sample_view_store [''a.b''] [?r] True False) = Some (d, Ok ())"
    unfolding sample_view_ops_def by blast
  have "list_all (\<lambda>(f, x). view_op_ok sample_store_env (\<lambda>_. ''a.b'') x) ?xs" using sample_view_ops_ok by (simp add: view_op_ok_def)
  from delegated_writes_confined [OF sample_codec sample_view_ops_ok sample_view_store_def d [unfolded sample_view_ops_def] this refl, of "[171]"]
    store_read_held [OF sample_held, of "[171]"] d
  show ?thesis unfolding sample_view_ops_def by (auto simp: hm_get_def simp del: run_state.simps)
qed

lemma sample_write: "store_write sample_store_env [RootDir] True (sample_credential ''a.b'') empty_store = (sample_view_store, Ok ())"
proof -
  have ok: "store_op_ok sample_store_env (\<lambda>_. ''a.b'') (SWrite True (sample_credential ''a.b''))" using sample_view_ops_ok by simp
  obtain s r where w: "store_write sample_store_env [RootDir] True (sample_credential ''a.b'') empty_store = (s, r)"
    by (cases "store_write sample_store_env [RootDir] True (sample_credential ''a.b'') empty_store")
  from write_rel [OF empty_rel sample_codec ok w] sample_storable [OF sample_store_rps(1)] w show ?thesis
    by (simp add: sample_view_store_def)
qed

text \<open>An isolated endpoint that registers a credential and then authenticates with it.\<close>

definition sample_isolated_run :: "view_op list" where
  "sample_isolated_run = [VActivate CaRegister ''a.b'', VWrite (sample_credential ''a.b''), VDropGuard 1,
     VActivate (CaAuthenticate (cred_ref_from_id sample_view_env [171])) ''a.b'']"

theorem registered_credential_not_served_witness:
  "let d = run_state (iso_step sample_view_ops sample_view_env) (new_isolated empty_store new_scope [''a.b''] True) sample_isolated_run in
     store_read sample_store_env [RootDir] ReadOk [171] (is_backend d) = Ok (sample_credential ''a.b'') \<and>
     active_cred_ref (is_scope d) = Some (cred_ref_from_id sample_view_env [171]) \<and>
     snd (iso_step sample_view_ops sample_view_env d (VRead [171])) = VoCred (Err DoesNotExist)"
proof -
  let ?d0 = "new_isolated empty_store new_scope [''a.b''] True"
  let ?d = "run_state (iso_step sample_view_ops sample_view_env) ?d0 sample_isolated_run"
  have n: "normalize ''a.b'' = ''a.b''" by code_simp
  have "is_backend ?d = sample_view_store \<and> active_cred_ref (is_scope ?d) = Some (cred_ref_from_id sample_view_env [171])"
    using sample_view_ref(1)
    by (simp add: sample_isolated_run_def sample_view_ops_def new_isolated_def new_scope_def activate_def drop_guard_def iso_write_def
        iso_rp_allowed_def active_action_def active_rp_id_def active_cred_ref_def sample_write sample_fields n Let_def)
  moreover have "snd (iso_step sample_view_ops sample_view_env ?d (VRead [171])) = VoCred (Err DoesNotExist)"
    by (rule registered_credential_not_served) (simp add: new_isolated_def)
  ultimately show ?thesis using store_read_held [OF sample_held, of "[171]"] by (simp add: hm_get_def Let_def del: iso_step.simps)
qed

end
