(* ===== verification/Endpoint_Registry.thy ===== *)
theory Endpoint_Registry
  imports Ids Rp_Rules
begin

text \<open>
  The registry of endpoints, \<open>EndpointRegistry\<close> of \<open>cmd/passless/src/agent/device.rs\<close>: the life cycle of an endpoint, handles with
  generations, the limit on live endpoints and the shutdown.  The lock makes every method one transition.
  The random identifier of a new endpoint is an argument; generations are 64-bit words, whose addition wraps
  around in the release build.
\<close>

section \<open>Data\<close>

record endpoint_handle =
  eh_id :: endpoint_id
  eh_generation :: u64

datatype endpoint_state = EpCreating | EpReady | EpActive | EpDraining | EpDestroyed | EpFailed string

definition ep_is_terminal :: "endpoint_state \<Rightarrow> bool" where
  "ep_is_terminal s = (case s of EpDestroyed \<Rightarrow> True | EpFailed _ \<Rightarrow> True | _ \<Rightarrow> False)"

record endpoint_binding =
  eb_profile_id :: profile_id
  eb_mode :: agent_mode

record endpoint_snapshot =
  es_handle :: endpoint_handle
  es_state :: endpoint_state
  es_binding :: endpoint_binding

datatype create_error = CapacityExceeded nat nat | CrShutdown

definition create_error_display :: "create_error \<Rightarrow> string" where
  "create_error_display e = (case e of
     CapacityExceeded mx current \<Rightarrow>
       ''endpoint capacity exceeded: '' @ show_nat current @ ''/'' @ show_nat mx @ '' active endpoints''
   | CrShutdown \<Rightarrow> ''registry is shutting down'')"

datatype create_outcome = Created endpoint_snapshot | CrRejected create_error

datatype transition_error =
    InvalidTransition endpoint_state endpoint_state
  | StaleHandle u64 u64
  | TrNotFound

datatype transition_outcome = Transitioned endpoint_state endpoint_state | TrRejected transition_error

record endpoint_entry =
  ee_handle :: endpoint_handle
  ee_state :: endpoint_state
  ee_binding :: endpoint_binding

record endpoint_registry =
  er_endpoints :: "(endpoint_id, endpoint_entry) hashmap"
  er_next_generation :: u64
  er_shutdown :: bool
  er_max_endpoints :: nat

fun is_valid_transition :: "endpoint_state \<Rightarrow> endpoint_state \<Rightarrow> bool" where
  "is_valid_transition EpCreating EpReady = True"
| "is_valid_transition EpReady EpActive = True"
| "is_valid_transition EpActive EpDraining = True"
| "is_valid_transition EpDraining EpDestroyed = True"
| "is_valid_transition EpCreating (EpFailed _) = True"
| "is_valid_transition EpReady (EpFailed _) = True"
| "is_valid_transition EpActive (EpFailed _) = True"
| "is_valid_transition EpDraining (EpFailed _) = True"
| "is_valid_transition _ _ = False"

section \<open>Operations\<close>

definition new_registry :: "nat \<Rightarrow> endpoint_registry" where
  "new_registry mx = \<lparr>er_endpoints = [], er_next_generation = 1, er_shutdown = False, er_max_endpoints = mx\<rparr>"

definition live_count :: "endpoint_registry \<Rightarrow> nat" where
  "live_count r = hm_count (\<lambda>e. \<not> ep_is_terminal (ee_state e)) (er_endpoints r)"

definition create_endpoint :: "endpoint_registry \<Rightarrow> endpoint_id \<Rightarrow> endpoint_binding \<Rightarrow> endpoint_registry \<times> create_outcome" where
  "create_endpoint r eid binding =
    (if er_shutdown r then (r, CrRejected CrShutdown)
     else
       (let active_count = live_count r in
        if active_count \<ge> er_max_endpoints r then (r, CrRejected (CapacityExceeded (er_max_endpoints r) active_count))
        else
          (let handle = \<lparr>eh_id = eid, eh_generation = er_next_generation r\<rparr> in
           (r\<lparr>er_next_generation := er_next_generation r + 1,
              er_endpoints := hm_insert eid \<lparr>ee_handle = handle, ee_state = EpCreating, ee_binding = binding\<rparr> (er_endpoints r)\<rparr>,
            Created \<lparr>es_handle = handle, es_state = EpCreating, es_binding = binding\<rparr>))))"

definition transition_inner :: "endpoint_registry \<Rightarrow> endpoint_handle \<Rightarrow> endpoint_state \<Rightarrow> endpoint_registry \<times> transition_outcome" where
  "transition_inner r handle target =
    (case hm_get (er_endpoints r) (eh_id handle) of
       None \<Rightarrow> (r, TrRejected TrNotFound)
     | Some entry \<Rightarrow>
         if eh_generation (ee_handle entry) \<noteq> eh_generation handle
         then (r, TrRejected (StaleHandle (eh_generation (ee_handle entry)) (eh_generation handle)))
         else if \<not> is_valid_transition (ee_state entry) target
         then (r, TrRejected (InvalidTransition (ee_state entry) target))
         else
           (let previous = ee_state entry; entry = entry\<lparr>ee_state := target\<rparr>;
                entry = (if target = EpDestroyed
                  then entry\<lparr>ee_handle := (ee_handle entry)\<lparr>eh_generation := eh_generation (ee_handle entry) + 1\<rparr>\<rparr>
                  else entry) in
            (r\<lparr>er_endpoints := hm_insert (eh_id handle) entry (er_endpoints r)\<rparr>, Transitioned previous target)))"

definition mark_ready :: "endpoint_registry \<Rightarrow> endpoint_handle \<Rightarrow> endpoint_registry \<times> transition_outcome" where
  "mark_ready r handle = transition_inner r handle EpReady"

definition mark_active :: "endpoint_registry \<Rightarrow> endpoint_handle \<Rightarrow> endpoint_registry \<times> transition_outcome" where
  "mark_active r handle = transition_inner r handle EpActive"

definition mark_draining :: "endpoint_registry \<Rightarrow> endpoint_handle \<Rightarrow> endpoint_registry \<times> transition_outcome" where
  "mark_draining r handle = transition_inner r handle EpDraining"

definition mark_destroyed :: "endpoint_registry \<Rightarrow> endpoint_handle \<Rightarrow> endpoint_registry \<times> transition_outcome" where
  "mark_destroyed r handle = transition_inner r handle EpDestroyed"

definition mark_failed :: "endpoint_registry \<Rightarrow> endpoint_handle \<Rightarrow> string \<Rightarrow> endpoint_registry \<times> transition_outcome" where
  "mark_failed r handle reason = transition_inner r handle (EpFailed reason)"

lemmas mark_defs = mark_ready_def mark_active_def mark_draining_def mark_destroyed_def mark_failed_def

definition list_endpoints :: "endpoint_registry \<Rightarrow> endpoint_snapshot list" where
  "list_endpoints r = map (\<lambda>e. \<lparr>es_handle = ee_handle e, es_state = ee_state e, es_binding = ee_binding e\<rparr>)
     (hm_values (er_endpoints r))"

definition shutdown_registry :: "endpoint_registry \<Rightarrow> endpoint_registry \<times> endpoint_snapshot list" where
  "shutdown_registry r = (r\<lparr>er_shutdown := True\<rparr>, list_endpoints r)"

section \<open>The life cycle\<close>

text \<open>The state of an endpoint, as far as there is one.\<close>

definition ep_state :: "endpoint_registry \<Rightarrow> endpoint_id \<Rightarrow> endpoint_state option" where
  "ep_state r k = map_option ee_state (hm_get (er_endpoints r) k)"

definition ep_generation :: "endpoint_registry \<Rightarrow> endpoint_id \<Rightarrow> u64 option" where
  "ep_generation r k = map_option (\<lambda>e. eh_generation (ee_handle e)) (hm_get (er_endpoints r) k)"

definition endpoints_ok :: "endpoint_registry \<Rightarrow> bool" where
  "endpoints_ok r = (hm_wf (er_endpoints r) \<and> live_count r \<le> er_max_endpoints r)"

lemma ep_terminal_final: "ep_is_terminal s \<Longrightarrow> \<not> is_valid_transition s t"
  by (cases s; cases t) (auto simp: ep_is_terminal_def)

lemma transition_max [simp]: "er_max_endpoints (fst (transition_inner r h t)) = er_max_endpoints r"
  by (simp add: transition_inner_def Let_def split: option.split)

lemma transition_shutdown [simp]: "er_shutdown (fst (transition_inner r h t)) = er_shutdown r"
  by (simp add: transition_inner_def Let_def split: option.split)

lemma transition_other [simp]:
  assumes "k \<noteq> eh_id h"
  shows "ep_state (fst (transition_inner r h t)) k = ep_state r k" "ep_generation (fst (transition_inner r h t)) k = ep_generation r k"
  using assms by (simp_all add: transition_inner_def ep_state_def ep_generation_def Let_def split: option.split)

lemma transition_done:
  assumes "ep_state r (eh_id h) = Some s" and "ep_generation r (eh_id h) = Some (eh_generation h)" and "is_valid_transition s t"
  shows "snd (transition_inner r h t) = Transitioned s t" and "ep_state (fst (transition_inner r h t)) (eh_id h) = Some t"
    and "ep_generation (fst (transition_inner r h t)) (eh_id h) =
      Some (if t = EpDestroyed then eh_generation h + 1 else eh_generation h)"
  using assms by (auto simp: transition_inner_def ep_state_def ep_generation_def Let_def)

lemma transition_refused:
  assumes "ep_state r (eh_id h) = Some s" and "\<not> is_valid_transition s t"
  shows "fst (transition_inner r h t) = r" and "\<exists>e. snd (transition_inner r h t) = TrRejected e"
  using assms by (auto simp: transition_inner_def ep_state_def)

lemma transition_keeps_ok:
  assumes "endpoints_ok r"
  shows "endpoints_ok (fst (transition_inner r h t))"
proof (cases "\<exists>s. snd (transition_inner r h t) = Transitioned s t")
  case True
  then obtain e where e: "hm_get (er_endpoints r) (eh_id h) = Some e" and v: "is_valid_transition (ee_state e) t"
    by (auto simp: transition_inner_def Let_def split: option.splits if_splits)
  have "\<not> ep_is_terminal (ee_state e)" using v ep_terminal_final by blast
  then have "live_count (fst (transition_inner r h t)) \<le> live_count r"
    using e hm_count_insert_same [of "er_endpoints r" "eh_id h" e "\<lambda>e. \<not> ep_is_terminal (ee_state e)"]
    by (simp add: live_count_def transition_inner_def Let_def split: option.split)
  with assms show ?thesis
    by (auto simp: endpoints_ok_def) (simp add: transition_inner_def Let_def split: option.split)
next
  case False
  then have "fst (transition_inner r h t) = r"
    by (auto simp: transition_inner_def Let_def split: option.splits if_splits)
  with assms show ?thesis by simp
qed

lemma create_keeps_ok: "endpoints_ok r \<Longrightarrow> endpoints_ok (fst (create_endpoint r eid b))"
  using hm_count_insert_le [of "\<lambda>e. \<not> ep_is_terminal (ee_state e)" eid _ "er_endpoints r"]
  by (auto simp: endpoints_ok_def create_endpoint_def live_count_def Let_def not_le intro: order_trans [OF hm_count_insert_le])

end
