(* ===== verification/Uhid_Protocol.thy ===== *)
theory Uhid_Protocol
  imports Rust_Strings "HOL-Library.Monad_Syntax"
begin

text \<open>
  The UHID event codec: \<open>passless-uhid/src/protocol.rs\<close>, \<open>identity.rs\<close>, \<open>error.rs\<close> and the functions of
  \<open>device.rs\<close> that build an event.  The \<open>repr(C, packed)\<close> structures are records with their bytes in memory;
  the code reads and writes the same bytes through offsets that it computes by hand, and the lemmas
  show that both agree.  An index or a slice out of range panics in Rust: it is \<open>None\<close> here.  The byte order
  of the machine is the parameter \<open>be\<close> of \<open>to_ne_bytes\<close> and \<open>from_ne_bytes\<close>.
\<close>

section \<open>Slices that may be out of range\<close>

text \<open>\<open>xs[a..b]\<close>, \<open>xs[i]\<close>, \<open>xs[a..b].copy_from_slice(src)\<close> and a function on \<open>&mut xs[a..b]\<close>.\<close>

definition slice_at :: "nat \<Rightarrow> nat \<Rightarrow> 'a list \<Rightarrow> 'a list option" where
  "slice_at a b xs = (if a \<le> b \<and> b \<le> length xs then Some (slice a b xs) else None)"

definition index_at :: "nat \<Rightarrow> 'a list \<Rightarrow> 'a option" where
  "index_at i xs = (if i < length xs then Some (xs ! i) else None)"

definition copy_range :: "nat \<Rightarrow> nat \<Rightarrow> 'a list \<Rightarrow> 'a list \<Rightarrow> 'a list option" where
  "copy_range a b src xs =
     (if a \<le> b \<and> b \<le> length xs \<and> length src = b - a then Some (take a xs @ src @ drop b xs) else None)"

definition sub_mut :: "nat \<Rightarrow> nat \<Rightarrow> ('a list \<Rightarrow> 'a list option) \<Rightarrow> 'a list \<Rightarrow> 'a list option" where
  "sub_mut a b f xs = (case slice_at a b xs of None \<Rightarrow> None | Some ys \<Rightarrow>
     (case f ys of None \<Rightarrow> None | Some zs \<Rightarrow> Some (take a xs @ zs @ drop b xs)))"

definition to_ne_bytes :: "bool \<Rightarrow> 'a::len word \<Rightarrow> bytes" where
  "to_ne_bytes be w = (if be then rev (to_le_bytes w) else to_le_bytes w)"

definition from_ne_bytes :: "bool \<Rightarrow> bytes \<Rightarrow> 'a::len word" where
  "from_ne_bytes be bs = from_le_bytes (if be then rev bs else bs)"

section \<open>Constants\<close>

definition UHID_DESTROY :: u32 where "UHID_DESTROY = 1"
definition UHID_START :: u32 where "UHID_START = 2"
definition UHID_STOP :: u32 where "UHID_STOP = 3"
definition UHID_OPEN :: u32 where "UHID_OPEN = 4"
definition UHID_CLOSE :: u32 where "UHID_CLOSE = 5"
definition UHID_OUTPUT :: u32 where "UHID_OUTPUT = 6"
definition UHID_GET_REPORT :: u32 where "UHID_GET_REPORT = 9"
definition UHID_GET_REPORT_REPLY :: u32 where "UHID_GET_REPORT_REPLY = 10"
definition UHID_CREATE2 :: u32 where "UHID_CREATE2 = 11"
definition UHID_INPUT2 :: u32 where "UHID_INPUT2 = 12"
definition UHID_SET_REPORT :: u32 where "UHID_SET_REPORT = 13"
definition UHID_SET_REPORT_REPLY :: u32 where "UHID_SET_REPORT_REPLY = 14"
definition BUS_USB :: u16 where "BUS_USB = 3"
definition HID_MAX_DESCRIPTOR_SIZE :: nat where "HID_MAX_DESCRIPTOR_SIZE = 4096"
definition UHID_DATA_MAX :: nat where "UHID_DATA_MAX = 4096"
definition UHID_EVENT_SIZE :: nat where "UHID_EVENT_SIZE = 4376"
definition UHID_NAME_MAX :: nat where "UHID_NAME_MAX = 128"
definition UHID_PHYS_MAX :: nat where "UHID_PHYS_MAX = 64"
definition UHID_UNIQ_MAX :: nat where "UHID_UNIQ_MAX = 64"

definition FIDO_HID_REPORT_DESCRIPTOR :: bytes where
  "FIDO_HID_REPORT_DESCRIPTOR =
    [0x06, 0xD0, 0xF1, 0x09, 0x01, 0xA1, 0x01, 0x09, 0x20, 0x15, 0x00, 0x26, 0xFF, 0x00, 0x75, 0x08,
     0x95, 0x40, 0x81, 0x02, 0x09, 0x21, 0x15, 0x00, 0x26, 0xFF, 0x00, 0x75, 0x08, 0x95, 0x40, 0x91,
     0x02, 0xC0]"

lemmas uhid_types = UHID_DESTROY_def UHID_START_def UHID_STOP_def UHID_OPEN_def UHID_CLOSE_def UHID_OUTPUT_def
  UHID_GET_REPORT_def UHID_GET_REPORT_REPLY_def UHID_CREATE2_def UHID_INPUT2_def UHID_SET_REPORT_def
  UHID_SET_REPORT_REPLY_def

lemmas uhid_sizes = HID_MAX_DESCRIPTOR_SIZE_def UHID_DATA_MAX_def UHID_EVENT_SIZE_def UHID_NAME_MAX_def
  UHID_PHYS_MAX_def UHID_UNIQ_MAX_def

section \<open>The structures of the kernel interface\<close>

record uhid_create2_req =
  c2_name :: bytes
  c2_phys :: bytes
  c2_uniq :: bytes
  c2_rd_size :: u16
  c2_bus :: u16
  c2_vendor :: u32
  c2_product :: u32
  c2_version :: u32
  c2_country :: u32
  c2_rd_data :: bytes

record uhid_output_req =
  out_data :: bytes
  out_size :: u16
  out_rtype :: u8

record uhid_input2_req =
  in2_size :: u16
  in2_data :: bytes

record uhid_get_report_req =
  gr_id :: u32
  gr_rnum :: u8
  gr_rtype :: u8

record uhid_get_report_reply_req =
  grr_id :: u32
  grr_err :: u16
  grr_size :: u16
  grr_data :: bytes

record uhid_set_report_req =
  sr_id :: u32
  sr_rnum :: u8
  sr_rtype :: u8
  sr_size :: u16
  sr_data :: bytes

record uhid_set_report_reply_req =
  srr_id :: u32
  srr_err :: u16

record uhid_start_req =
  st_dev_flags :: u64

text \<open>The memory of the packed structures, field after field.\<close>

definition create2_bytes :: "bool \<Rightarrow> uhid_create2_req \<Rightarrow> bytes" where
  "create2_bytes be r = c2_name r @ c2_phys r @ c2_uniq r @ to_ne_bytes be (c2_rd_size r) @ to_ne_bytes be (c2_bus r) @
     to_ne_bytes be (c2_vendor r) @ to_ne_bytes be (c2_product r) @ to_ne_bytes be (c2_version r) @
     to_ne_bytes be (c2_country r) @ c2_rd_data r"

definition output_bytes :: "bool \<Rightarrow> uhid_output_req \<Rightarrow> bytes" where
  "output_bytes be r = out_data r @ to_ne_bytes be (out_size r) @ [out_rtype r]"

definition input2_bytes :: "bool \<Rightarrow> uhid_input2_req \<Rightarrow> bytes" where
  "input2_bytes be r = to_ne_bytes be (in2_size r) @ in2_data r"

definition get_report_bytes :: "bool \<Rightarrow> uhid_get_report_req \<Rightarrow> bytes" where
  "get_report_bytes be r = to_ne_bytes be (gr_id r) @ [gr_rnum r, gr_rtype r]"

definition get_report_reply_bytes :: "bool \<Rightarrow> uhid_get_report_reply_req \<Rightarrow> bytes" where
  "get_report_reply_bytes be r = to_ne_bytes be (grr_id r) @ to_ne_bytes be (grr_err r) @ to_ne_bytes be (grr_size r) @ grr_data r"

definition set_report_bytes :: "bool \<Rightarrow> uhid_set_report_req \<Rightarrow> bytes" where
  "set_report_bytes be r = to_ne_bytes be (sr_id r) @ [sr_rnum r, sr_rtype r] @ to_ne_bytes be (sr_size r) @ sr_data r"

definition set_report_reply_bytes :: "bool \<Rightarrow> uhid_set_report_reply_req \<Rightarrow> bytes" where
  "set_report_reply_bytes be r = to_ne_bytes be (srr_id r) @ to_ne_bytes be (srr_err r)"

definition start_bytes :: "bool \<Rightarrow> uhid_start_req \<Rightarrow> bytes" where
  "start_bytes be r = to_ne_bytes be (st_dev_flags r)"

text \<open>\<open>size_of\<close> of the structures that the code asks for.\<close>

definition create2_size :: nat where "create2_size = 4372"
definition input2_size :: nat where "input2_size = 4098"
definition get_report_reply_size :: nat where "get_report_reply_size = 4104"
definition set_report_reply_size :: nat where "set_report_reply_size = 6"

lemmas uhid_req_sizes = create2_size_def input2_size_def get_report_reply_size_def set_report_reply_size_def

section \<open>Reading an event\<close>

datatype uhid_event =
    EvStart u64
  | EvStop
  | EvOpen
  | EvClose
  | EvOutput bytes u8
  | EvGetReport u32 u8 u8
  | EvSetReport u32 u8 u8 bytes
  | EvUnknown u32

definition parse_event :: "bool \<Rightarrow> u32 \<Rightarrow> bytes \<Rightarrow> nat \<Rightarrow> uhid_event option" where
  "parse_event be event_type buffer n =
    (if event_type = UHID_START then
       (if n \<ge> 12 then do {
          bs \<leftarrow> slice_at 4 12 buffer;
          Some (EvStart (from_ne_bytes be bs))
        } else Some (EvStart 0))
     else if event_type = UHID_STOP then Some EvStop
     else if event_type = UHID_OPEN then Some EvOpen
     else if event_type = UHID_CLOSE then Some EvClose
     else if event_type = UHID_OUTPUT then
       (let data_offset = 4; size_offset = data_offset + UHID_DATA_MAX; rtype_offset = size_offset + 2 in
        if n > rtype_offset then do {
          size_bytes \<leftarrow> slice_at size_offset (size_offset + 2) buffer;
          let size = unat (from_ne_bytes be size_bytes :: u16);
          rtype \<leftarrow> index_at rtype_offset buffer;
          let data_end = min (min (data_offset + size) (data_offset + UHID_DATA_MAX)) n;
          data \<leftarrow> (if data_end > data_offset then slice_at data_offset data_end buffer else Some []);
          Some (EvOutput data rtype)
        } else Some (EvOutput [] 0))
     else if event_type = UHID_GET_REPORT then
       (let id_offset = 4; rnum_offset = id_offset + 4; rtype_offset = rnum_offset + 1 in
        if n > rtype_offset then do {
          id_bytes \<leftarrow> slice_at id_offset (id_offset + 4) buffer;
          rnum \<leftarrow> index_at rnum_offset buffer;
          rtype \<leftarrow> index_at rtype_offset buffer;
          Some (EvGetReport (from_ne_bytes be id_bytes) rnum rtype)
        } else Some (EvUnknown UHID_GET_REPORT))
     else if event_type = UHID_SET_REPORT then
       (let id_offset = 4; rnum_offset = id_offset + 4; rtype_offset = rnum_offset + 1;
            size_offset = rtype_offset + 1; data_offset = size_offset + 2 in
        if n > size_offset + 1 then do {
          id_bytes \<leftarrow> slice_at id_offset (id_offset + 4) buffer;
          rnum \<leftarrow> index_at rnum_offset buffer;
          rtype \<leftarrow> index_at rtype_offset buffer;
          size_bytes \<leftarrow> slice_at size_offset (size_offset + 2) buffer;
          let size = unat (from_ne_bytes be size_bytes :: u16);
          let data_end = min (min (data_offset + size) (data_offset + UHID_DATA_MAX)) n;
          data \<leftarrow> (if data_end > data_offset then slice_at data_offset data_end buffer else Some []);
          Some (EvSetReport (from_ne_bytes be id_bytes) rnum rtype data)
        } else Some (EvUnknown UHID_SET_REPORT))
     else Some (EvUnknown event_type))"

section \<open>Device identities\<close>

datatype io_error = OsError int | WriteZero string

datatype uhid_error =
    UhOpen io_error
  | UhCreate2 io_error
  | UhDestroy io_error
  | UhInput2 io_error
  | UhGetReportReply io_error
  | UhSetReportReply io_error
  | UhRead io_error
  | StartTimeout
  | PacketTooLarge nat
  | DescriptorTooLarge nat
  | ShortWrite nat nat
  | Fcntl string
  | IdentityNul string
  | IdentityFieldTooLong string nat nat
  | IdentityInvalidUtf8 string

record uhid_identity =
  id_name :: string
  id_phys :: string
  id_uniq :: string
  id_vendor :: u32
  id_product :: u32
  id_version :: u32

definition validate_field :: "string \<Rightarrow> string \<Rightarrow> nat \<Rightarrow> uhid_error + unit" where
  "validate_field v field mx =
    (if CHR 0x00 \<in> set v then Err (IdentityNul field)
     else if length v > mx then Err (IdentityFieldTooLong field (length v) mx)
     else Ok ())"

definition validate_identity :: "uhid_identity \<Rightarrow> uhid_error + unit" where
  "validate_identity i =
    res_bind (validate_field (id_name i) ''name'' UHID_NAME_MAX) (\<lambda>_.
    res_bind (validate_field (id_phys i) ''phys'' UHID_PHYS_MAX) (\<lambda>_.
    validate_field (id_uniq i) ''uniq'' UHID_UNIQ_MAX))"

definition default_identity :: uhid_identity where
  "default_identity = \<lparr>id_name = ''passless-uhid-test'', id_phys = [], id_uniq = [],
     id_vendor = 0xFFFF, id_product = 0xFFFF, id_version = 0\<rparr>"

section \<open>Writing an event\<close>

text \<open>
  The part of \<open>send_create2\<close> after the guards: the buffer that goes to \<open>write_event\<close>.
\<close>

definition create2_event :: "bool \<Rightarrow> uhid_identity \<Rightarrow> bytes \<Rightarrow> bytes option" where
  "create2_event be ident rd = do {
     buf \<leftarrow> copy_range 0 4 (to_ne_bytes be UHID_CREATE2) (replicate UHID_EVENT_SIZE 0);
     sub_mut 4 (4 + create2_size) (\<lambda>payload. do {
       let name_bytes = as_bytes (id_name ident);
       let name_len = min (length name_bytes) UHID_NAME_MAX;
       payload \<leftarrow> copy_range 0 name_len (take name_len name_bytes) payload;
       let phys_start = UHID_NAME_MAX;
       let phys_bytes = as_bytes (id_phys ident);
       let phys_len = min (length phys_bytes) UHID_PHYS_MAX;
       payload \<leftarrow> copy_range phys_start (phys_start + phys_len) (take phys_len phys_bytes) payload;
       let uniq_start = phys_start + UHID_PHYS_MAX;
       let uniq_bytes = as_bytes (id_uniq ident);
       let uniq_len = min (length uniq_bytes) UHID_UNIQ_MAX;
       payload \<leftarrow> copy_range uniq_start (uniq_start + uniq_len) (take uniq_len uniq_bytes) payload;
       let rd_size_offset = uniq_start + UHID_UNIQ_MAX;
       payload \<leftarrow> copy_range rd_size_offset (rd_size_offset + 2) (to_ne_bytes be (of_nat (length rd) :: u16)) payload;
       let bus_offset = rd_size_offset + 2;
       payload \<leftarrow> copy_range bus_offset (bus_offset + 2) (to_ne_bytes be BUS_USB) payload;
       let vendor_offset = bus_offset + 2;
       payload \<leftarrow> copy_range vendor_offset (vendor_offset + 4) (to_ne_bytes be (id_vendor ident)) payload;
       let product_offset = vendor_offset + 4;
       payload \<leftarrow> copy_range product_offset (product_offset + 4) (to_ne_bytes be (id_product ident)) payload;
       let version_offset = product_offset + 4;
       payload \<leftarrow> copy_range version_offset (version_offset + 4) (to_ne_bytes be (id_version ident)) payload;
       let country_offset = version_offset + 4;
       payload \<leftarrow> copy_range country_offset (country_offset + 4) (to_ne_bytes be (0 :: u32)) payload;
       let rd_data_offset = country_offset + 4;
       copy_range rd_data_offset (rd_data_offset + length rd) rd payload
     }) buf
   }"

definition input2_event :: "bool \<Rightarrow> bytes \<Rightarrow> bytes option" where
  "input2_event be data = do {
     buf \<leftarrow> copy_range 0 4 (to_ne_bytes be UHID_INPUT2) (replicate UHID_EVENT_SIZE 0);
     sub_mut 4 (4 + input2_size) (\<lambda>payload. do {
       payload \<leftarrow> copy_range 0 2 (to_ne_bytes be (of_nat (length data) :: u16)) payload;
       copy_range 2 (2 + length data) data payload
     }) buf
   }"

definition get_report_reply_event :: "bool \<Rightarrow> u32 \<Rightarrow> u16 \<Rightarrow> bytes \<Rightarrow> bytes option" where
  "get_report_reply_event be rid err data = do {
     buf \<leftarrow> copy_range 0 4 (to_ne_bytes be UHID_GET_REPORT_REPLY) (replicate UHID_EVENT_SIZE 0);
     sub_mut 4 (4 + get_report_reply_size) (\<lambda>payload. do {
       payload \<leftarrow> copy_range 0 4 (to_ne_bytes be rid) payload;
       payload \<leftarrow> copy_range 4 6 (to_ne_bytes be err) payload;
       payload \<leftarrow> copy_range 6 8 (to_ne_bytes be (of_nat (length data) :: u16)) payload;
       copy_range 8 (8 + length data) data payload
     }) buf
   }"

definition set_report_reply_event :: "bool \<Rightarrow> u32 \<Rightarrow> u16 \<Rightarrow> bytes option" where
  "set_report_reply_event be rid err = do {
     buf \<leftarrow> copy_range 0 4 (to_ne_bytes be UHID_SET_REPORT_REPLY) (replicate UHID_EVENT_SIZE 0);
     sub_mut 4 (4 + set_report_reply_size) (\<lambda>payload. do {
       payload \<leftarrow> copy_range 0 4 (to_ne_bytes be rid) payload;
       copy_range 4 6 (to_ne_bytes be err) payload
     }) buf
   }"

section \<open>The writers agree with the structures\<close>

text \<open>A field of fixed size that holds a shorter value, followed by zeros.\<close>

definition pad :: "nat \<Rightarrow> bytes \<Rightarrow> bytes" where
  "pad n xs = xs @ replicate (n - length xs) 0"

lemma length_pad [simp]: "length (pad n xs) = max n (length xs)"
  by (simp add: pad_def)

lemma pad_full [simp]: "n \<le> length xs \<Longrightarrow> pad n xs = xs"
  by (simp add: pad_def)

lemma pad_append: "length xs \<le> n \<Longrightarrow> pad n (xs @ ys) = xs @ pad (n - length xs) ys"
  by (simp add: pad_def)

lemma pad_append_full: "length xs = k \<Longrightarrow> k \<le> n \<Longrightarrow> pad n (xs @ ys) = xs @ pad (n - k) ys"
  by (simp add: pad_def)

lemma replicate_pad: "replicate n 0 = pad n []"
  by (simp add: pad_def)

lemma take_pad: "n \<le> length xs \<Longrightarrow> take n (pad m xs) = take n xs"
  by (simp add: pad_def)

lemma copy_range_pad:
  assumes "length xs \<le> a" and "b = a + length src" and "b \<le> n"
  shows "copy_range a b src (pad n xs) = Some (pad n (pad a xs @ src))"
proof -
  have "take a (pad n xs) = pad a xs" "drop b (pad n xs) = replicate (n - b) 0"
    using assms by (simp_all add: pad_def)
  with assms show ?thesis by (simp add: copy_range_def pad_def)
qed

lemma length_to_ne_bytes [simp]: "length (to_ne_bytes be (w :: 'a::len word)) = LENGTH('a) div 8"
  by (simp add: to_ne_bytes_def)

lemma from_to_ne_bytes [simp]: "8 dvd LENGTH('a::len) \<Longrightarrow> from_ne_bytes be (to_ne_bytes be (w :: 'a word)) = w"
  by (simp add: to_ne_bytes_def from_ne_bytes_def)

text \<open>An event: its type, its structure, zeros up to the size of the event.\<close>

lemma event_by_payload:
  assumes "f (pad n []) = Some payload" and "length payload = n" and "4 + n \<le> UHID_EVENT_SIZE"
  shows "do { buf \<leftarrow> copy_range 0 4 (to_ne_bytes be (t :: u32)) (replicate UHID_EVENT_SIZE 0); sub_mut 4 (4 + n) f buf } =
    Some (pad UHID_EVENT_SIZE (to_ne_bytes be t @ payload))"
proof -
  let ?t = "to_ne_bytes be t"
  have c: "copy_range 0 4 ?t (replicate UHID_EVENT_SIZE 0) = Some (pad UHID_EVENT_SIZE ?t)"
    using copy_range_pad [of "[]" 0 4 ?t UHID_EVENT_SIZE] by (simp add: replicate_pad uhid_sizes)
  have "slice_at 4 (4 + n) (pad UHID_EVENT_SIZE ?t) = Some (pad n [])"
    "take 4 (pad UHID_EVENT_SIZE ?t) = ?t" "drop (4 + n) (pad UHID_EVENT_SIZE ?t) = replicate (UHID_EVENT_SIZE - (4 + n)) 0"
    using assms(3) by (simp_all add: slice_at_def slice_def pad_def)
  with assms c show ?thesis by (simp add: sub_mut_def pad_def)
qed

definition create2_req_of :: "uhid_identity \<Rightarrow> bytes \<Rightarrow> uhid_create2_req" where
  "create2_req_of i rd = \<lparr>c2_name = pad UHID_NAME_MAX (as_bytes (id_name i)), c2_phys = pad UHID_PHYS_MAX (as_bytes (id_phys i)),
     c2_uniq = pad UHID_UNIQ_MAX (as_bytes (id_uniq i)), c2_rd_size = of_nat (length rd), c2_bus = BUS_USB,
     c2_vendor = id_vendor i, c2_product = id_product i, c2_version = id_version i, c2_country = 0,
     c2_rd_data = pad HID_MAX_DESCRIPTOR_SIZE rd\<rparr>"

lemma validate_identity_ok:
  "validate_identity i = Ok () \<longleftrightarrow>
    list_all (\<lambda>(v, mx). CHR 0x00 \<notin> set v \<and> length v \<le> mx)
      [(id_name i, UHID_NAME_MAX), (id_phys i, UHID_PHYS_MAX), (id_uniq i, UHID_UNIQ_MAX)]"
  by (auto simp: validate_identity_def validate_field_def res_bind_def split: sum.splits)

lemma create2_event_layout:
  assumes "length (id_name i) \<le> UHID_NAME_MAX" and "length (id_phys i) \<le> UHID_PHYS_MAX"
    and "length (id_uniq i) \<le> UHID_UNIQ_MAX" and "length rd \<le> HID_MAX_DESCRIPTOR_SIZE"
  shows "create2_event be i rd = Some (to_ne_bytes be UHID_CREATE2 @ create2_bytes be (create2_req_of i rd))"
  unfolding create2_event_def
  apply (subst event_by_payload [where payload = "create2_bytes be (create2_req_of i rd)"])
  subgoal using assms
    by (simp add: Let_def copy_range_pad uhid_sizes create2_size_def)
      (simp add: pad_append_full create2_bytes_def create2_req_of_def uhid_sizes)
  subgoal using assms by (simp add: create2_bytes_def create2_req_of_def uhid_sizes create2_size_def)
  subgoal by (simp add: uhid_sizes create2_size_def)
  subgoal using assms by (simp add: create2_bytes_def create2_req_of_def uhid_sizes)
  done

lemma input2_event_layout:
  assumes "length data \<le> UHID_DATA_MAX"
  shows "input2_event be data = Some (pad UHID_EVENT_SIZE (to_ne_bytes be UHID_INPUT2 @
    input2_bytes be \<lparr>in2_size = of_nat (length data), in2_data = pad UHID_DATA_MAX data\<rparr>))"
  unfolding input2_event_def
  apply (rule event_by_payload)
  subgoal using assms
    by (simp add: copy_range_pad uhid_sizes input2_size_def) (simp add: pad_append_full input2_bytes_def)
  using assms by (simp_all add: input2_bytes_def uhid_sizes input2_size_def)

lemma get_report_reply_event_layout:
  assumes "length data \<le> UHID_DATA_MAX"
  shows "get_report_reply_event be i e data = Some (pad UHID_EVENT_SIZE (to_ne_bytes be UHID_GET_REPORT_REPLY @
    get_report_reply_bytes be \<lparr>grr_id = i, grr_err = e, grr_size = of_nat (length data), grr_data = pad UHID_DATA_MAX data\<rparr>))"
  unfolding get_report_reply_event_def
  apply (rule event_by_payload)
  subgoal using assms
    by (simp add: copy_range_pad uhid_sizes get_report_reply_size_def) (simp add: pad_append_full get_report_reply_bytes_def)
  using assms by (simp_all add: get_report_reply_bytes_def uhid_sizes get_report_reply_size_def)

lemma set_report_reply_event_layout:
  "set_report_reply_event be i e = Some (pad UHID_EVENT_SIZE (to_ne_bytes be UHID_SET_REPORT_REPLY @
    set_report_reply_bytes be \<lparr>srr_id = i, srr_err = e\<rparr>))"
  unfolding set_report_reply_event_def
  apply (rule event_by_payload)
  subgoal by (simp add: copy_range_pad set_report_reply_size_def) (simp add: set_report_reply_bytes_def)
  by (simp_all add: set_report_reply_bytes_def uhid_sizes set_report_reply_size_def)

section \<open>The reader agrees with the structures\<close>

text \<open>
  Reading never leaves the buffer when \<open>n\<close> bytes of it are valid, and looks only at those bytes.
\<close>

lemma slice_at_append: "b \<le> length xs \<Longrightarrow> slice_at a b (xs @ ys) = slice_at a b xs"
  by (auto simp: slice_at_def slice_def)

lemma index_at_append: "i < length xs \<Longrightarrow> index_at i (xs @ ys) = index_at i xs"
  by (simp add: index_at_def nth_append)

lemma slice_at_ok: "a \<le> b \<Longrightarrow> b \<le> length xs \<Longrightarrow> slice_at a b xs = Some (slice a b xs)"
  by (simp add: slice_at_def)

lemma index_at_ok: "i < length xs \<Longrightarrow> index_at i xs = Some (xs ! i)"
  by (simp add: index_at_def)

lemmas in_range = slice_at_ok index_at_ok

lemma parse_event_total: "n \<le> length buffer \<Longrightarrow> \<exists>ev. parse_event be t buffer n = Some ev"
  by (simp add: parse_event_def Let_def in_range uhid_sizes)

lemma parse_event_local:
  assumes "length xs = n"
  shows "parse_event be t (xs @ ys) n = parse_event be t xs n"
  using assms by (simp add: parse_event_def Let_def slice_at_append index_at_append uhid_sizes min_le_iff_disj cong: if_cong)

text \<open>
  What the kernel may deliver: the type of the event and the memory of its structure.  The kernel fills the
  arrays of the structures completely; \<open>kernel_ok\<close> states their declared sizes.
\<close>

datatype kernel_event =
    KStart uhid_start_req
  | KStop
  | KOpen
  | KClose
  | KOutput uhid_output_req
  | KGetReport uhid_get_report_req
  | KSetReport uhid_set_report_req

fun kernel_ok :: "kernel_event \<Rightarrow> bool" where
  "kernel_ok (KOutput r) = (length (out_data r) = UHID_DATA_MAX)"
| "kernel_ok (KSetReport r) = (length (sr_data r) = UHID_DATA_MAX)"
| "kernel_ok _ = True"

fun kernel_type :: "kernel_event \<Rightarrow> u32" where
  "kernel_type (KStart _) = UHID_START"
| "kernel_type KStop = UHID_STOP"
| "kernel_type KOpen = UHID_OPEN"
| "kernel_type KClose = UHID_CLOSE"
| "kernel_type (KOutput _) = UHID_OUTPUT"
| "kernel_type (KGetReport _) = UHID_GET_REPORT"
| "kernel_type (KSetReport _) = UHID_SET_REPORT"

fun kernel_payload :: "bool \<Rightarrow> kernel_event \<Rightarrow> bytes" where
  "kernel_payload be (KStart r) = start_bytes be r"
| "kernel_payload be (KOutput r) = output_bytes be r"
| "kernel_payload be (KGetReport r) = get_report_bytes be r"
| "kernel_payload be (KSetReport r) = set_report_bytes be r"
| "kernel_payload be _ = []"

definition kernel_bytes :: "bool \<Rightarrow> kernel_event \<Rightarrow> bytes" where
  "kernel_bytes be k = to_ne_bytes be (kernel_type k) @ kernel_payload be k"

text \<open>The event the code should see: the reported size says how much of the data array counts.\<close>

fun event_of :: "kernel_event \<Rightarrow> uhid_event" where
  "event_of (KStart r) = EvStart (st_dev_flags r)"
| "event_of KStop = EvStop"
| "event_of KOpen = EvOpen"
| "event_of KClose = EvClose"
| "event_of (KOutput r) = EvOutput (take (unat (out_size r)) (out_data r)) (out_rtype r)"
| "event_of (KGetReport r) = EvGetReport (gr_id r) (gr_rnum r) (gr_rtype r)"
| "event_of (KSetReport r) = EvSetReport (sr_id r) (sr_rnum r) (sr_rtype r) (take (unat (sr_size r)) (sr_data r))"

lemma slice_at_middle:
  "length xs = a \<Longrightarrow> length ys = b - a \<Longrightarrow> a \<le> b \<Longrightarrow> slice_at a b (xs @ ys @ zs) = Some ys"
  by (simp add: slice_at_def slice_def)

lemma slice_at_last: "length xs = a \<Longrightarrow> length ys = b - a \<Longrightarrow> a \<le> b \<Longrightarrow> slice_at a b (xs @ ys) = Some ys"
  by (simp add: slice_at_def slice_def)

lemma index_at_middle: "length xs = a \<Longrightarrow> index_at a (xs @ y # zs) = Some y"
  by (auto simp: index_at_def)

text \<open>The data of a report, cut out by the reader.\<close>

lemma report_data:
  assumes "length xs = a" and "length ds = UHID_DATA_MAX" and "a + UHID_DATA_MAX \<le> n"
  shows "(let e = min (min (a + k) (a + UHID_DATA_MAX)) n in if e > a then slice_at a e (xs @ ds @ ys) else Some []) =
    Some (take k ds)"
proof -
  have e: "min (min (a + k) (a + UHID_DATA_MAX)) n = a + min k UHID_DATA_MAX" using assms(3) by simp
  show ?thesis
  proof (cases "k = 0")
    case True
    with e show ?thesis by (simp add: Let_def)
  next
    case False
    then have "0 < min k UHID_DATA_MAX" by (simp add: uhid_sizes)
    moreover have "slice_at a (a + min k UHID_DATA_MAX) (xs @ ds @ ys) = Some (take (min k UHID_DATA_MAX) ds)"
      using assms by (simp add: slice_at_def slice_def)
    moreover have "take (min k UHID_DATA_MAX) ds = take k ds" using assms(2) by (simp add: min_def)
    ultimately show ?thesis unfolding e Let_def by simp
  qed
qed

lemma parse_output:
  assumes "length h = 4" and "length ds = UHID_DATA_MAX" and "n \<ge> 4103"
  shows "parse_event be UHID_OUTPUT (h @ ds @ to_ne_bytes be (sz :: u16) @ rt # rest) n = Some (EvOutput (take (unat sz) ds) rt)"
    (is "parse_event be _ ?b n = _")
proof -
  let ?s = "to_ne_bytes be sz"
  have "slice_at 4100 4102 ?b = Some ?s" using assms slice_at_middle [of "h @ ds" 4100 ?s 4102] by (simp add: uhid_sizes)
  moreover have "index_at 4102 ?b = Some rt" using assms index_at_middle [of "h @ ds @ ?s" 4102] by (simp add: uhid_sizes)
  ultimately show ?thesis
    using assms report_data [of h 4 ds n "unat sz" "?s @ rt # rest"]
    by (simp add: parse_event_def uhid_types uhid_sizes Let_def split: if_splits)
qed

lemma parse_get_report:
  assumes "length h = 4" and "n \<ge> 10"
  shows "parse_event be UHID_GET_REPORT (h @ to_ne_bytes be rid @ rn # rt # rest) n = Some (EvGetReport rid rn rt)"
    (is "parse_event be _ ?b n = _")
proof -
  let ?i = "to_ne_bytes be rid"
  have "slice_at 4 8 ?b = Some ?i" using assms slice_at_middle [of h 4 ?i 8] by simp
  moreover have "index_at 8 ?b = Some rn" using assms index_at_middle [of "h @ ?i" 8] by simp
  moreover have "index_at 9 ?b = Some rt" using assms index_at_middle [of "h @ ?i @ [rn]" 9] by simp
  ultimately show ?thesis using assms by (simp add: parse_event_def uhid_types Let_def)
qed

lemma parse_set_report:
  assumes "length h = 4" and "length ds = UHID_DATA_MAX" and "n \<ge> 4108"
  shows "parse_event be UHID_SET_REPORT (h @ to_ne_bytes be rid @ rn # rt # to_ne_bytes be (sz :: u16) @ ds @ rest) n =
    Some (EvSetReport rid rn rt (take (unat sz) ds))"
    (is "parse_event be _ ?b n = _")
proof -
  let ?i = "to_ne_bytes be rid" and ?s = "to_ne_bytes be sz"
  have "slice_at 4 8 ?b = Some ?i" using assms slice_at_middle [of h 4 ?i 8] by simp
  moreover have "index_at 8 ?b = Some rn" using assms index_at_middle [of "h @ ?i" 8] by simp
  moreover have "index_at 9 ?b = Some rt" using assms index_at_middle [of "h @ ?i @ [rn]" 9] by simp
  moreover have "slice_at 10 12 ?b = Some ?s" using assms slice_at_middle [of "h @ ?i @ [rn, rt]" 10 ?s 12] by simp
  ultimately show ?thesis
    using assms report_data [of "h @ ?i @ rn # rt # ?s" 12 ds n "unat sz" rest]
    by (simp add: parse_event_def uhid_types uhid_sizes Let_def split: if_splits)
qed

lemma parse_start:
  assumes "length h = 4" and "n \<ge> 12"
  shows "parse_event be UHID_START (h @ to_ne_bytes be w @ rest) n = Some (EvStart w)"
  using assms slice_at_middle [of h 4 "to_ne_bytes be w" 12] by (simp add: parse_event_def)

lemma parse_kernel_event:
  assumes "kernel_ok k" and "n \<ge> 4108"
  shows "parse_event be (kernel_type k) (kernel_bytes be k @ rest) n = Some (event_of k)"
proof -
  have h: "length (to_ne_bytes be (kernel_type k)) = 4" by simp
  show ?thesis
  proof (cases k)
    case (KStart r)
    with h assms(2) parse_start [of _ n be "st_dev_flags r" rest] show ?thesis by (simp add: kernel_bytes_def start_bytes_def)
  next
    case (KOutput r)
    with h assms parse_output [of _ "out_data r" n be "out_size r" "out_rtype r" rest] show ?thesis
      by (simp add: kernel_bytes_def output_bytes_def)
  next
    case (KGetReport r)
    with h assms(2) parse_get_report [of _ n be "gr_id r"] show ?thesis by (simp add: kernel_bytes_def get_report_bytes_def)
  next
    case (KSetReport r)
    with h assms parse_set_report [of _ "sr_data r" n be "sr_id r" _ _ "sr_size r"] show ?thesis
      by (simp add: kernel_bytes_def set_report_bytes_def)
  qed (simp_all add: parse_event_def uhid_types)
qed

end
