(* ===== verification/Uhid_Device.thy ===== *)
theory Uhid_Device
  imports Uhid_Protocol
begin

text \<open>
  The device of \<open>passless-uhid/src/device.rs\<close> over an explicit file.  The file carries a script of what the
  system calls answer: the outcomes of the coming \<open>fcntl\<close>, \<open>read\<close> and \<open>write\<close> calls.  When a script is
  exhausted, \<open>fcntl\<close> succeeds, \<open>read\<close> answers that it would block and \<open>write\<close> takes the whole buffer.  Of the
  status flags of the descriptor only \<open>O_NONBLOCK\<close> is used, and no other flag is changed.
\<close>

section \<open>The file and its system calls\<close>

datatype read_ret = RdFails int | RdBytes bytes
datatype write_ret = WrFails int | Wrote nat

definition EAGAIN :: int where "EAGAIN = 11"

record uhid_file =
  f_nonblocking :: bool
  f_fcntl :: "bool list"
  f_reads :: "read_ret list"
  f_writes :: "write_ret list"
  f_written :: "bytes list"

record raw_uhid_device =
  dv_file :: uhid_file
  dv_identity :: uhid_identity
  dv_started :: bool

definition sys_fcntl :: "raw_uhid_device \<Rightarrow> raw_uhid_device \<times> bool" where
  "sys_fcntl dev = (case f_fcntl (dv_file dev) of [] \<Rightarrow> (dev, True)
     | ok # oks \<Rightarrow> (dev\<lparr>dv_file := (dv_file dev)\<lparr>f_fcntl := oks\<rparr>\<rparr>, ok))"

text \<open>\<open>read\<close> gives at most the number of bytes asked for.\<close>

definition sys_read :: "nat \<Rightarrow> raw_uhid_device \<Rightarrow> raw_uhid_device \<times> read_ret" where
  "sys_read count dev = (case f_reads (dv_file dev) of [] \<Rightarrow> (dev, RdFails EAGAIN)
     | r # rs \<Rightarrow> (dev\<lparr>dv_file := (dv_file dev)\<lparr>f_reads := rs\<rparr>\<rparr>,
         (case r of RdFails e \<Rightarrow> RdFails e | RdBytes bs \<Rightarrow> RdBytes (take count bs))))"

definition sys_write :: "bytes \<Rightarrow> raw_uhid_device \<Rightarrow> raw_uhid_device \<times> write_ret" where
  "sys_write buf dev =
    (let f = dv_file dev; r = (case f_writes f of [] \<Rightarrow> Wrote (length buf) | r # rs \<Rightarrow> r) in
     (dev\<lparr>dv_file := f\<lparr>f_writes := tl (f_writes f),
        f_written := (case r of WrFails _ \<Rightarrow> f_written f | Wrote n \<Rightarrow> f_written f @ [take n buf])\<rparr>\<rparr>, r))"

section \<open>Flags\<close>

definition fcntl_get_flags :: "raw_uhid_device \<Rightarrow> raw_uhid_device \<times> (uhid_error + bool)" where
  "fcntl_get_flags dev = (case sys_fcntl dev of (dev, ok) \<Rightarrow>
     (dev, if ok then Ok (f_nonblocking (dv_file dev)) else Err (Fcntl ''F_GETFL'')))"

definition fcntl_set_flags :: "bool \<Rightarrow> raw_uhid_device \<Rightarrow> raw_uhid_device \<times> (uhid_error + unit)" where
  "fcntl_set_flags nb dev = (case sys_fcntl dev of (dev, ok) \<Rightarrow>
     (if ok then (dev\<lparr>dv_file := (dv_file dev)\<lparr>f_nonblocking := nb\<rparr>\<rparr>, Ok ()) else (dev, Err (Fcntl ''F_SETFL''))))"

definition is_nonblocking :: "raw_uhid_device \<Rightarrow> raw_uhid_device \<times> (uhid_error + bool)" where
  "is_nonblocking dev = fcntl_get_flags dev"

definition set_nonblocking :: "bool \<Rightarrow> raw_uhid_device \<Rightarrow> raw_uhid_device \<times> (uhid_error + unit)" where
  "set_nonblocking nb dev = and_then (fcntl_get_flags dev) (\<lambda>dev flags. fcntl_set_flags nb dev)"

section \<open>Writing\<close>

definition write_event :: "bytes \<Rightarrow> raw_uhid_device \<Rightarrow> raw_uhid_device \<times> (io_error + unit)" where
  "write_event buf dev = (case sys_write buf dev of (dev, r) \<Rightarrow> (dev,
     (case r of WrFails e \<Rightarrow> Err (OsError e)
      | Wrote n \<Rightarrow> if n \<noteq> length buf
          then Err (WriteZero (''short write: '' @ show_nat n @ '' of '' @ show_nat (length buf) @ '' bytes''))
          else Ok ())))"

definition map_err :: "('e \<Rightarrow> 'f) \<Rightarrow> 's \<times> ('e + 'a) \<Rightarrow> 's \<times> ('f + 'a)" where
  "map_err g p = (fst p, map_sum g (\<lambda>a. a) (snd p))"

text \<open>A writer panics when its event cannot be built, and sends it otherwise.\<close>

definition send_event :: "(io_error \<Rightarrow> uhid_error) \<Rightarrow> bytes option \<Rightarrow> raw_uhid_device \<Rightarrow>
    raw_uhid_device \<times> (uhid_error + unit) option" where
  "send_event g ev dev = (case ev of None \<Rightarrow> (dev, None)
     | Some buf \<Rightarrow> (case map_err g (write_event buf dev) of (dev, r) \<Rightarrow> (dev, Some r)))"

definition send_create2 :: "bool \<Rightarrow> raw_uhid_device \<Rightarrow> bytes \<Rightarrow> raw_uhid_device \<times> (uhid_error + unit) option" where
  "send_create2 be dev rd =
    (case validate_identity (dv_identity dev) of Inl e \<Rightarrow> (dev, Some (Err e))
     | Inr _ \<Rightarrow>
       if length rd > HID_MAX_DESCRIPTOR_SIZE then (dev, Some (Err (DescriptorTooLarge (length rd))))
       else send_event UhCreate2 (create2_event be (dv_identity dev) rd) dev)"

definition write_packet :: "bool \<Rightarrow> raw_uhid_device \<Rightarrow> bytes \<Rightarrow> raw_uhid_device \<times> (uhid_error + unit) option" where
  "write_packet be dev data =
    (if length data > UHID_DATA_MAX then (dev, Some (Err (PacketTooLarge (length data))))
     else send_event UhInput2 (input2_event be data) dev)"

definition send_get_report_reply :: "bool \<Rightarrow> raw_uhid_device \<Rightarrow> u32 \<Rightarrow> u16 \<Rightarrow> bytes \<Rightarrow>
    raw_uhid_device \<times> (uhid_error + unit) option" where
  "send_get_report_reply be dev rid err data =
    (if length data > UHID_DATA_MAX then (dev, Some (Err (PacketTooLarge (length data))))
     else send_event UhGetReportReply (get_report_reply_event be rid err data) dev)"

definition send_set_report_reply :: "bool \<Rightarrow> raw_uhid_device \<Rightarrow> u32 \<Rightarrow> u16 \<Rightarrow>
    raw_uhid_device \<times> (uhid_error + unit) option" where
  "send_set_report_reply be dev rid err = send_event UhSetReportReply (set_report_reply_event be rid err) dev"

definition destroy_device :: "bool \<Rightarrow> raw_uhid_device \<Rightarrow> raw_uhid_device \<times> (uhid_error + unit) option" where
  "destroy_device be dev =
    (case send_event UhDestroy (copy_range 0 4 (to_ne_bytes be UHID_DESTROY) (replicate UHID_EVENT_SIZE 0)) dev of (dev, r) \<Rightarrow>
      (case r of Some (Inr _) \<Rightarrow> (dev\<lparr>dv_started := False\<rparr>, r) | _ \<Rightarrow> (dev, r)))"

definition drop_device :: "bool \<Rightarrow> raw_uhid_device \<Rightarrow> raw_uhid_device" where
  "drop_device be dev = (if dv_started dev then fst (destroy_device be dev) else dev)"

section \<open>Reading\<close>

text \<open>The new content of the buffer is part of the result, because loops use one buffer again.\<close>

definition read_event_from_fd :: "bool \<Rightarrow> raw_uhid_device \<Rightarrow> bytes \<Rightarrow>
    raw_uhid_device \<times> bytes \<times> (uhid_error + uhid_event option) option" where
  "read_event_from_fd be dev buf = (case sys_read (length buf) dev of (dev, r) \<Rightarrow>
     (case r of
        RdFails e \<Rightarrow> (dev, buf, Some (if e = EAGAIN then Ok None else Err (UhRead (OsError e))))
      | RdBytes bs \<Rightarrow>
          (let n = length bs; buf = bs @ drop n buf in
           if n < 4 then (dev, buf, Some (Ok None))
           else (dev, buf, map_option (\<lambda>ev. Ok (Some ev)) (parse_event be (from_ne_bytes be (take 4 buf)) buf n)))))"

definition read_event :: "bool \<Rightarrow> raw_uhid_device \<Rightarrow> raw_uhid_device \<times> (uhid_error + uhid_event option) option" where
  "read_event be dev = (case read_event_from_fd be dev (replicate UHID_EVENT_SIZE 0) of (dev, buf, r) \<Rightarrow> (dev, r))"

definition START_TIMEOUT_ITERS :: nat where "START_TIMEOUT_ITERS = 50"
definition DRAIN_MAX_EVENTS :: nat where "DRAIN_MAX_EVENTS = 256"

fun wait_loop :: "bool \<Rightarrow> nat \<Rightarrow> raw_uhid_device \<Rightarrow> bytes \<Rightarrow> raw_uhid_device \<times> (uhid_error + unit) option" where
  "wait_loop be 0 dev buf = (dev, Some (Err StartTimeout))"
| "wait_loop be (Suc k) dev buf = (case read_event_from_fd be dev buf of (dev, buf, r) \<Rightarrow>
     (case r of
        Some (Inr (Some EvOpen)) \<Rightarrow> (dev\<lparr>dv_started := True\<rparr>, Some (Ok ()))
      | Some (Inr (Some (EvStart _))) \<Rightarrow> (dev\<lparr>dv_started := True\<rparr>, Some (Ok ()))
      | Some (Inr _) \<Rightarrow> wait_loop be k dev buf
      | Some (Inl e) \<Rightarrow> (dev, Some (Err e))
      | None \<Rightarrow> (dev, None)))"

definition wait_for_start_inner :: "bool \<Rightarrow> raw_uhid_device \<Rightarrow> raw_uhid_device \<times> (uhid_error + unit) option" where
  "wait_for_start_inner be dev = wait_loop be START_TIMEOUT_ITERS dev (replicate UHID_EVENT_SIZE 0)"

text \<open>
  The common shape of \<open>wait_for_start\<close> and \<open>drain\<close>: switch to non-blocking mode, run the body, switch back
  unless the body panics; a failure to switch back hides the result of the body.
\<close>

definition in_nonblocking :: "(raw_uhid_device \<Rightarrow> raw_uhid_device \<times> (uhid_error + 'a) option) \<Rightarrow> raw_uhid_device \<Rightarrow>
    raw_uhid_device \<times> (uhid_error + 'a) option" where
  "in_nonblocking body dev =
    (case is_nonblocking dev of (dev, Inl e) \<Rightarrow> (dev, Some (Err e))
     | (dev, Inr was) \<Rightarrow>
       (case (if was then (dev, Ok ()) else set_nonblocking True dev) of (dev, Inl e) \<Rightarrow> (dev, Some (Err e))
        | (dev, Inr _) \<Rightarrow>
          (case body dev of (dev, None) \<Rightarrow> (dev, None)
           | (dev, Some r) \<Rightarrow>
             (case (if was then (dev, Ok ()) else set_nonblocking False dev) of (dev, Inl e) \<Rightarrow> (dev, Some (Err e))
              | (dev, Inr _) \<Rightarrow> (dev, Some r)))))"

definition wait_for_start :: "bool \<Rightarrow> raw_uhid_device \<Rightarrow> raw_uhid_device \<times> (uhid_error + unit) option" where
  "wait_for_start be dev = in_nonblocking (wait_for_start_inner be) dev"

fun drain_loop :: "bool \<Rightarrow> nat \<Rightarrow> raw_uhid_device \<Rightarrow> bytes \<Rightarrow> uhid_event list \<Rightarrow>
    raw_uhid_device \<times> (uhid_error + uhid_event list) option" where
  "drain_loop be 0 dev buf events = (dev, Some (Ok events))"
| "drain_loop be (Suc k) dev buf events = (case read_event_from_fd be dev buf of (dev, buf, r) \<Rightarrow>
     (case r of
        Some (Inr (Some ev)) \<Rightarrow> drain_loop be k dev buf (events @ [ev])
      | Some (Inr None) \<Rightarrow> (dev, Some (Ok events))
      | Some (Inl e) \<Rightarrow> (dev, Some (Err e))
      | None \<Rightarrow> (dev, None)))"

definition drain :: "bool \<Rightarrow> raw_uhid_device \<Rightarrow> raw_uhid_device \<times> (uhid_error + uhid_event list) option" where
  "drain be dev = in_nonblocking (\<lambda>dev. drain_loop be DRAIN_MAX_EVENTS dev (replicate UHID_EVENT_SIZE 0) []) dev"

section \<open>Creating a device\<close>

definition open_device :: "io_error + uhid_file \<Rightarrow> uhid_error + raw_uhid_device" where
  "open_device f = (case f of Inl e \<Rightarrow> Err (UhOpen e)
     | Inr f \<Rightarrow> Ok \<lparr>dv_file = f, dv_identity = default_identity, dv_started = False\<rparr>)"

text \<open>
  The device as it is left, after its \<open>Drop\<close> on an early return, is given back beside the result.
\<close>

definition create_with_descriptor :: "bool \<Rightarrow> io_error + uhid_file \<Rightarrow> uhid_identity \<Rightarrow> bytes \<Rightarrow>
    raw_uhid_device option \<times> (uhid_error + raw_uhid_device) option" where
  "create_with_descriptor be f ident rd =
    (case open_device f of Inl e \<Rightarrow> (None, Some (Err e))
     | Inr dev \<Rightarrow>
       (case send_create2 be (dev\<lparr>dv_identity := ident\<rparr>) rd of
          (dev, Some (Inr _)) \<Rightarrow>
            (case wait_for_start be dev of
               (dev, Some (Inr _)) \<Rightarrow> (Some dev, Some (Ok dev))
             | (dev, Some (Inl e)) \<Rightarrow> (Some (drop_device be dev), Some (Err e))
             | (dev, None) \<Rightarrow> (Some dev, None))
        | (dev, Some (Inl e)) \<Rightarrow> (Some (drop_device be dev), Some (Err e))
        | (dev, None) \<Rightarrow> (Some dev, None)))"

definition create_device :: "bool \<Rightarrow> io_error + uhid_file \<Rightarrow> uhid_identity \<Rightarrow>
    raw_uhid_device option \<times> (uhid_error + raw_uhid_device) option" where
  "create_device be f ident = create_with_descriptor be f ident FIDO_HID_REPORT_DESCRIPTOR"

section \<open>No panic\<close>

lemma map_err_pair [simp]: "map_err g (s, r) = (s, map_sum g (\<lambda>a. a) r)"
  by (simp add: map_err_def)

lemma send_event_total: "\<exists>buf. ev = Some buf \<Longrightarrow> snd (send_event g ev dev) \<noteq> None"
  by (auto simp: send_event_def split: prod.split)

lemma read_event_from_fd_total:
  "snd (snd (read_event_from_fd be dev buf)) \<noteq> None"
  "length (fst (snd (read_event_from_fd be dev buf))) = length buf"
proof -
  have "parse_event be t (take (length buf) bs @ drop (min (length bs) (length buf)) buf) (min (length bs) (length buf)) \<noteq> None" for t bs
    using parse_event_total [of "min (length bs) (length buf)" "take (length buf) bs @ drop (min (length bs) (length buf)) buf" be t]
    by auto
  then show "snd (snd (read_event_from_fd be dev buf)) \<noteq> None"
    by (auto simp: read_event_from_fd_def sys_read_def Let_def split: list.split read_ret.split)
  show "length (fst (snd (read_event_from_fd be dev buf))) = length buf"
    by (auto simp: read_event_from_fd_def sys_read_def Let_def split: list.split read_ret.split)
qed

lemma read_event_from_fd_cases:
  obtains (event) dev' buf' ev where "read_event_from_fd be dev buf = (dev', buf', Some (Ok (Some ev)))"
  | (nothing) dev' buf' where "read_event_from_fd be dev buf = (dev', buf', Some (Ok None))"
  | (failed) dev' buf' e where "read_event_from_fd be dev buf = (dev', buf', Some (Err e))"
proof (cases "read_event_from_fd be dev buf")
  case (fields dev' buf' r)
  with read_event_from_fd_total(1) [of be dev buf] obtain x where x: "r = Some x" by (cases r) simp_all
  show thesis
  proof (cases x)
    case (Inr y)
    with x fields that(1,2) show thesis by (cases y) blast+
  qed (use x fields that(3) in blast)
qed

lemma wait_loop_total: "snd (wait_loop be k dev buf) \<noteq> None"
proof (induction k arbitrary: dev buf)
  case (Suc k)
  show ?case
  proof (cases rule: read_event_from_fd_cases [of be dev buf])
    case (event dev' buf' ev)
    then show ?thesis using Suc by (cases ev) simp_all
  qed (simp_all add: Suc)
qed simp

lemma drain_loop_total: "snd (drain_loop be k dev buf evs) \<noteq> None"
proof (induction k arbitrary: dev buf evs)
  case (Suc k)
  show ?case by (cases rule: read_event_from_fd_cases [of be dev buf]) (simp_all add: Suc)
qed simp

lemma in_nonblocking_cases:
  assumes "\<And>d. snd (body d) \<noteq> None"
  obtains (failed) d e where "in_nonblocking body dev = (d, Some (Err e))"
  | (ran) d1 was d2 d3 r d4 where "is_nonblocking dev = (d1, Ok was)"
      "(if was then (d1, Ok ()) else set_nonblocking True d1) = (d2, Ok ())" "body d2 = (d3, Some r)"
      "(if was then (d3, Ok ()) else set_nonblocking False d3) = (d4, Ok ())" "in_nonblocking body dev = (d4, Some r)"
proof -
  obtain d1 r1 where 1: "is_nonblocking dev = (d1, r1)" by (cases "is_nonblocking dev")
  show thesis
  proof (cases r1)
    case (Inr was)
    obtain d2 r2 where 2: "(if was then (d1, Ok ()) else set_nonblocking True d1) = (d2, r2)"
      by (cases "if was then (d1, Ok ()) else set_nonblocking True d1")
    obtain d3 r3 where 3: "body d2 = (d3, Some r3)" using assms [of d2] by (cases "body d2") auto
    obtain d4 r4 where 4: "(if was then (d3, Ok ()) else set_nonblocking False d3) = (d4, r4)"
      by (cases "if was then (d3, Ok ()) else set_nonblocking False d3")
    note eqs = in_nonblocking_def 1 Inr 2 3 4
    show thesis
    proof (cases r2)
      case r2: Inr
      show thesis
      proof (cases r4)
        case (Inr u)
        then show thesis by (rule_tac that(2)) (use 1 \<open>r1 = Inr was\<close> 2 3 4 r2 in \<open>simp_all add: in_nonblocking_def\<close>)
      qed (rule that(1), simp add: eqs r2)
    qed (rule that(1), simp add: eqs)
  qed (rule that(1), simp add: in_nonblocking_def 1)
qed

lemma in_nonblocking_total:
  assumes "\<And>d. snd (body d) \<noteq> None"
  shows "snd (in_nonblocking body dev) \<noteq> None"
  by (rule in_nonblocking_cases [of body dev, OF assms]) simp_all

lemma create2_event_total:
  "validate_identity i = Ok u \<Longrightarrow> length rd \<le> HID_MAX_DESCRIPTOR_SIZE \<Longrightarrow> \<exists>buf. create2_event be i rd = Some buf"
  using create2_event_layout [of i rd be] validate_identity_ok [of i] by simp

lemma writers_total:
  "snd (send_create2 be dev rd) \<noteq> None"
  "snd (write_packet be dev data) \<noteq> None"
  "snd (send_get_report_reply be dev rid err data) \<noteq> None"
  "snd (send_set_report_reply be dev rid err) \<noteq> None"
  "snd (destroy_device be dev) \<noteq> None"
proof -
  show "snd (send_create2 be dev rd) \<noteq> None"
    using create2_event_total [of "dv_identity dev" _ rd be] send_event_total
    by (auto simp: send_create2_def not_less split: sum.split)
  show "snd (write_packet be dev data) \<noteq> None" "snd (send_get_report_reply be dev rid err data) \<noteq> None"
    "snd (send_set_report_reply be dev rid err) \<noteq> None"
    using input2_event_layout [of data be] get_report_reply_event_layout [of data be rid err]
      set_report_reply_event_layout [of be rid err] send_event_total
    by (simp_all add: write_packet_def send_get_report_reply_def send_set_report_reply_def not_less)
  have "\<exists>buf. copy_range 0 4 (to_ne_bytes be UHID_DESTROY) (replicate UHID_EVENT_SIZE 0) = Some buf"
    by (simp add: copy_range_def uhid_sizes)
  from send_event_total [OF this, of UhDestroy dev] show "snd (destroy_device be dev) \<noteq> None"
    by (auto simp: destroy_device_def split: prod.split option.split sum.split)
qed

lemma readers_total: "snd (read_event be dev) \<noteq> None" "snd (wait_for_start be dev) \<noteq> None" "snd (drain be dev) \<noteq> None"
  using read_event_from_fd_total(1) [of be dev "replicate UHID_EVENT_SIZE 0"] wait_loop_total drain_loop_total
  by (auto simp: read_event_def wait_for_start_def wait_for_start_inner_def drain_def in_nonblocking_total split: prod.split)

lemma create_total: "snd (create_with_descriptor be f ident rd) \<noteq> None"
proof (cases "open_device f")
  case (Inr dev)
  let ?s = "send_create2 be (dev\<lparr>dv_identity := ident\<rparr>) rd"
  show ?thesis
    using Inr writers_total(1) [of be "dev\<lparr>dv_identity := ident\<rparr>" rd] readers_total(2) [of be "fst ?s"]
    by (auto simp: create_with_descriptor_def split: prod.split option.split sum.split)
qed (simp add: create_with_descriptor_def)

text \<open>C19. No operation of the device panics, whatever the system calls answer: every index and every slice
  that the code computes stays inside its buffer, for every event type, length and content that the
  kernel delivers and for every identity, descriptor and packet it is asked to send.\<close>

theorem uhid_never_panics:
  "snd (read_event be dev) \<noteq> None \<and> snd (wait_for_start be dev) \<noteq> None \<and> snd (drain be dev) \<noteq> None \<and>
   snd (send_create2 be dev rd) \<noteq> None \<and> snd (write_packet be dev data) \<noteq> None \<and>
   snd (send_get_report_reply be dev rid err data) \<noteq> None \<and> snd (send_set_report_reply be dev rid err) \<noteq> None \<and>
   snd (destroy_device be dev) \<noteq> None \<and> snd (create_device be f ident) \<noteq> None"
  unfolding create_device_def by (intro conjI readers_total writers_total create_total)

section \<open>What the code sees of the kernel's events\<close>

text \<open>The answer to one \<open>read\<close>, independent of what the buffer held before.\<close>

definition read_answer :: "bool \<Rightarrow> read_ret \<Rightarrow> uhid_error + uhid_event option" where
  "read_answer be r = (case r of
     RdFails e \<Rightarrow> if e = EAGAIN then Ok None else Err (UhRead (OsError e))
   | RdBytes bs \<Rightarrow> (let bs = take UHID_EVENT_SIZE bs in
       if length bs < 4 then Ok None else Ok (parse_event be (from_ne_bytes be (take 4 bs)) bs (length bs))))"

definition next_answer :: "bool \<Rightarrow> read_ret list \<Rightarrow> uhid_error + uhid_event option" where
  "next_answer be rs = (case rs of [] \<Rightarrow> Ok None | r # _ \<Rightarrow> read_answer be r)"

definition after_read :: "raw_uhid_device \<Rightarrow> raw_uhid_device" where
  "after_read dev = dev\<lparr>dv_file := (dv_file dev)\<lparr>f_reads := tl (f_reads (dv_file dev))\<rparr>\<rparr>"

lemma after_read_fields [simp]:
  "f_reads (dv_file (after_read dev)) = tl (f_reads (dv_file dev))"
  "f_fcntl (dv_file (after_read dev)) = f_fcntl (dv_file dev)"
  "f_writes (dv_file (after_read dev)) = f_writes (dv_file dev)"
  "f_written (dv_file (after_read dev)) = f_written (dv_file dev)"
  "f_nonblocking (dv_file (after_read dev)) = f_nonblocking (dv_file dev)"
  "dv_identity (after_read dev) = dv_identity dev"
  "dv_started (after_read dev) = dv_started dev"
  by (simp_all add: after_read_def)

lemma after_read_empty: "f_reads (dv_file dev) = [] \<Longrightarrow> after_read dev = dev"
  by (simp add: after_read_def)

lemma parse_answer:
  assumes "length bs \<le> length buf" and "4 \<le> length bs"
  shows "parse_event be (from_ne_bytes be (take 4 (bs @ drop (length bs) buf))) (bs @ drop (length bs) buf) (length bs) =
    parse_event be (from_ne_bytes be (take 4 bs)) bs (length bs)"
  using assms by (simp add: parse_event_local)

lemma read_event_from_fd_answer:
  assumes "length buf = UHID_EVENT_SIZE"
  shows "\<exists>buf'. read_event_from_fd be dev buf = (after_read dev, buf', Some (next_answer be (f_reads (dv_file dev)))) \<and>
    length buf' = UHID_EVENT_SIZE"
proof (cases "f_reads (dv_file dev)")
  case Nil
  with assms show ?thesis by (simp add: read_event_from_fd_def sys_read_def next_answer_def after_read_empty)
next
  case (Cons r rs)
  show ?thesis
  proof (cases r)
    case (RdBytes bs)
    define bs' where "bs' = take UHID_EVENT_SIZE bs"
    then have l: "length bs' \<le> UHID_EVENT_SIZE" by simp
    obtain ev where "parse_event be (from_ne_bytes be (take 4 bs')) bs' (length bs') = Some ev"
      using parse_event_total by blast
    with Cons RdBytes assms l parse_answer [of bs' buf be] show ?thesis
      by (simp add: read_event_from_fd_def sys_read_def next_answer_def read_answer_def after_read_def Let_def not_less
          del: take_append flip: bs'_def)
  qed (use Cons assms in \<open>simp add: read_event_from_fd_def sys_read_def next_answer_def read_answer_def after_read_def\<close>)
qed

lemma kernel_answer:
  assumes "kernel_ok k"
  shows "read_answer be (RdBytes (pad UHID_EVENT_SIZE (kernel_bytes be k))) = Ok (Some (event_of k))"
proof -
  let ?b = "pad UHID_EVENT_SIZE (kernel_bytes be k)"
  have "length (kernel_payload be k) \<le> UHID_EVENT_SIZE - 4"
    using assms by (cases k) (simp_all add: start_bytes_def output_bytes_def get_report_bytes_def set_report_bytes_def uhid_sizes)
  then have l: "length ?b = UHID_EVENT_SIZE" by (simp add: kernel_bytes_def uhid_sizes)
  have t: "take 4 ?b = to_ne_bytes be (kernel_type k)" by (simp add: pad_def kernel_bytes_def)
  have "parse_event be (kernel_type k) ?b UHID_EVENT_SIZE = Some (event_of k)"
    unfolding pad_def using parse_kernel_event [OF assms, of UHID_EVENT_SIZE] by (simp add: uhid_sizes)
  then show ?thesis using l t by (simp add: read_answer_def Let_def) (simp add: uhid_sizes)
qed

text \<open>C20. When the kernel delivers an event, the code sees exactly its type and its fields, the data cut to the
  reported size: the offsets computed by hand agree with the packed structures, in both byte orders.\<close>

theorem kernel_events_read:
  assumes "kernel_ok k" and "f_reads (dv_file dev) = RdBytes (pad UHID_EVENT_SIZE (kernel_bytes be k)) # rs"
  shows "read_event be dev = (dev\<lparr>dv_file := (dv_file dev)\<lparr>f_reads := rs\<rparr>\<rparr>, Some (Ok (Some (event_of k))))"
  using read_event_from_fd_answer [of "replicate UHID_EVENT_SIZE 0" be dev] assms
  by (auto simp: read_event_def after_read_def next_answer_def kernel_answer)

definition sample_output :: kernel_event where
  "sample_output = KOutput \<lparr>out_data = pad UHID_DATA_MAX [1, 2, 3], out_size = 3, out_rtype = 1\<rparr>"

definition sample_file :: "read_ret list \<Rightarrow> uhid_file" where
  "sample_file rs = \<lparr>f_nonblocking = False, f_fcntl = [], f_reads = rs, f_writes = [], f_written = []\<rparr>"

definition sample_device :: "read_ret list \<Rightarrow> raw_uhid_device" where
  "sample_device rs = \<lparr>dv_file = sample_file rs, dv_identity = default_identity, dv_started = True\<rparr>"

theorem kernel_events_read_witness:
  "read_event False (sample_device [RdBytes (pad UHID_EVENT_SIZE (kernel_bytes False sample_output))]) =
    (sample_device [], Some (Ok (Some (EvOutput [1, 2, 3] 1))))"
  using kernel_events_read [of sample_output
      "sample_device [RdBytes (pad UHID_EVENT_SIZE (kernel_bytes False sample_output))]" False "[]"]
  by (simp add: sample_device_def sample_file_def) (simp add: sample_output_def uhid_sizes pad_def)

section \<open>Creating a device\<close>

text \<open>The wait for the start of the device, as a scan of what the kernel delivers.\<close>

fun scan_start :: "bool \<Rightarrow> nat \<Rightarrow> read_ret list \<Rightarrow> uhid_error + unit" where
  "scan_start be 0 rs = Err StartTimeout"
| "scan_start be (Suc k) rs = (case next_answer be rs of
     Inl e \<Rightarrow> Err e
   | Inr (Some EvOpen) \<Rightarrow> Ok ()
   | Inr (Some (EvStart _)) \<Rightarrow> Ok ()
   | Inr _ \<Rightarrow> scan_start be k (tl rs))"

text \<open>Reading changes only the script of the reads and whether the device is started.\<close>

definition only_reads :: "raw_uhid_device \<Rightarrow> raw_uhid_device \<Rightarrow> bool" where
  "only_reads dev dev' = (dv_identity dev' = dv_identity dev \<and> f_nonblocking (dv_file dev') = f_nonblocking (dv_file dev) \<and>
     f_fcntl (dv_file dev') = f_fcntl (dv_file dev) \<and> f_writes (dv_file dev') = f_writes (dv_file dev) \<and>
     f_written (dv_file dev') = f_written (dv_file dev))"

lemma only_reads_refl [simp]: "only_reads dev dev"
  by (simp add: only_reads_def)

lemma only_reads_after [simp]: "only_reads dev (after_read dev)" "only_reads dev ((after_read dev)\<lparr>dv_started := b\<rparr>)"
  by (simp_all add: only_reads_def)

lemma only_reads_trans: "only_reads a b \<Longrightarrow> only_reads b c \<Longrightarrow> only_reads a c"
  by (simp add: only_reads_def)

lemma wait_loop_scan:
  assumes "length buf = UHID_EVENT_SIZE"
  shows "\<exists>dev'. wait_loop be k dev buf = (dev', Some (scan_start be k (f_reads (dv_file dev)))) \<and> only_reads dev dev' \<and>
    dv_started dev' = (dv_started dev \<or> is_ok (scan_start be k (f_reads (dv_file dev))))"
  using assms
proof (induction k arbitrary: dev buf)
  case (Suc k)
  let ?rs = "f_reads (dv_file dev)"
  obtain buf' where r: "read_event_from_fd be dev buf = (after_read dev, buf', Some (next_answer be ?rs))"
    and l: "length buf' = UHID_EVENT_SIZE" using read_event_from_fd_answer [OF Suc.prems] by blast
  obtain dev' where IH: "wait_loop be k (after_read dev) buf' = (dev', Some (scan_start be k (tl ?rs)))"
    "only_reads (after_read dev) dev'" "dv_started dev' = (dv_started dev \<or> is_ok (scan_start be k (tl ?rs)))"
    using Suc.IH [OF l, of "after_read dev"] by auto
  then have o: "only_reads dev dev'" by (blast intro: only_reads_trans only_reads_after)
  show ?case
  proof (cases "next_answer be ?rs")
    case (Inr x)
    show ?thesis
    proof (cases x)
      case None
      with Inr r IH o show ?thesis by simp
    next
      case (Some ev)
      with Inr r IH o show ?thesis by (cases ev) simp_all
    qed
  qed (simp add: r)
qed simp

lemma fcntl_ok:
  assumes "f_fcntl (dv_file dev) = []"
  shows "is_nonblocking dev = (dev, Ok (f_nonblocking (dv_file dev)))"
    and "set_nonblocking nb dev = (dev\<lparr>dv_file := (dv_file dev)\<lparr>f_nonblocking := nb\<rparr>\<rparr>, Ok ())"
  using assms by (simp_all add: is_nonblocking_def set_nonblocking_def fcntl_get_flags_def fcntl_set_flags_def sys_fcntl_def)

text \<open>As long as \<open>fcntl\<close> does not fail, the flags are afterwards as they were before.\<close>

lemma wait_for_start_scan:
  assumes "f_fcntl (dv_file dev) = []"
  shows "\<exists>dev'. wait_for_start be dev = (dev', Some (scan_start be START_TIMEOUT_ITERS (f_reads (dv_file dev)))) \<and>
    only_reads dev dev' \<and>
    dv_started dev' = (dv_started dev \<or> is_ok (scan_start be START_TIMEOUT_ITERS (f_reads (dv_file dev))))"
proof -
  define d where "d = (if f_nonblocking (dv_file dev) then dev else dev\<lparr>dv_file := (dv_file dev)\<lparr>f_nonblocking := True\<rparr>\<rparr>)"
  have d: "f_reads (dv_file d) = f_reads (dv_file dev)" "dv_started d = dv_started dev" "f_fcntl (dv_file d) = []"
    using assms by (simp_all add: d_def)
  obtain d' where w: "wait_loop be START_TIMEOUT_ITERS d (replicate UHID_EVENT_SIZE 0) =
      (d', Some (scan_start be START_TIMEOUT_ITERS (f_reads (dv_file dev))))" and o: "only_reads d d'"
    and s: "dv_started d' = (dv_started dev \<or> is_ok (scan_start be START_TIMEOUT_ITERS (f_reads (dv_file dev))))"
    using wait_loop_scan [of "replicate UHID_EVENT_SIZE 0" be START_TIMEOUT_ITERS d] d by auto
  from o d(3) have "f_fcntl (dv_file d') = []" by (simp add: only_reads_def)
  note f = fcntl_ok [OF assms] fcntl_ok [OF this]
  show ?thesis
  proof (cases "f_nonblocking (dv_file dev)")
    case True
    then have "d = dev" by (simp add: d_def)
    with True f w o s show ?thesis by (simp add: wait_for_start_def in_nonblocking_def wait_for_start_inner_def)
  next
    case False
    then have "dev\<lparr>dv_file := (dv_file dev)\<lparr>f_nonblocking := True\<rparr>\<rparr> = d" by (simp add: d_def)
    moreover have "only_reads dev (d'\<lparr>dv_file := (dv_file d')\<lparr>f_nonblocking := False\<rparr>\<rparr>)"
      using o False by (simp add: only_reads_def d_def)
    ultimately show ?thesis
      using False f w s by (simp add: wait_for_start_def in_nonblocking_def wait_for_start_inner_def)
  qed
qed

lemma write_event_ok:
  assumes "f_writes (dv_file dev) = []"
  shows "write_event buf dev = (dev\<lparr>dv_file := (dv_file dev)\<lparr>f_written := f_written (dv_file dev) @ [buf]\<rparr>\<rparr>, Ok ())"
  using assms by (simp add: write_event_def sys_write_def Let_def)

lemma send_create2_ok:
  assumes "f_writes (dv_file dev) = []" and "validate_identity (dv_identity dev) = Ok ()"
    and "length rd \<le> HID_MAX_DESCRIPTOR_SIZE"
  shows "send_create2 be dev rd = (dev\<lparr>dv_file := (dv_file dev)\<lparr>f_written := f_written (dv_file dev) @
      [to_ne_bytes be UHID_CREATE2 @ create2_bytes be (create2_req_of (dv_identity dev) rd)]\<rparr>\<rparr>, Some (Ok ()))"
proof -
  have "create2_event be (dv_identity dev) rd =
      Some (to_ne_bytes be UHID_CREATE2 @ create2_bytes be (create2_req_of (dv_identity dev) rd))"
    using assms(2,3) create2_event_layout by (simp add: validate_identity_ok)
  with assms show ?thesis by (simp add: send_create2_def send_event_def write_event_ok)
qed

text \<open>When opening, writing and \<open>fcntl\<close> succeed, a device is created exactly if its identity is valid and
  the kernel reports a start or an open among the first 50 reads, before a failing read; otherwise the
  error says which of these went wrong.  A created device is started, has told the kernel its identity
  and the descriptor in one event with the layout of \<open>uhid_create2_req\<close>, and is blocking exactly if the
  opened file was.\<close>

theorem create_device_iff:
  assumes "f_fcntl f = []" and "f_writes f = []"
  shows "\<exists>dev. snd (create_device be (Ok f) ident) =
      Some (res_bind (validate_identity ident) (\<lambda>_. res_bind (scan_start be START_TIMEOUT_ITERS (f_reads f)) (\<lambda>_. Ok dev))) \<and>
    dv_started dev \<and> dv_identity dev = ident \<and> f_nonblocking (dv_file dev) = f_nonblocking f \<and>
    f_written (dv_file dev) = f_written f @
      [to_ne_bytes be UHID_CREATE2 @ create2_bytes be (create2_req_of ident FIDO_HID_REPORT_DESCRIPTOR)]"
    (is "\<exists>dev. ?C dev")
proof -
  let ?ev = "to_ne_bytes be UHID_CREATE2 @ create2_bytes be (create2_req_of ident FIDO_HID_REPORT_DESCRIPTOR)"
  define d where "d = \<lparr>dv_file = f\<lparr>f_written := f_written f @ [?ev]\<rparr>, dv_identity = ident, dv_started = True\<rparr>"
  show ?thesis
  proof (cases "validate_identity ident")
    case (Inl e)
    then have "?C d" by (simp add: d_def create_device_def create_with_descriptor_def open_device_def send_create2_def)
    then show ?thesis ..
  next
    case (Inr u)
    have rd: "length FIDO_HID_REPORT_DESCRIPTOR \<le> HID_MAX_DESCRIPTOR_SIZE"
      by (simp add: FIDO_HID_REPORT_DESCRIPTOR_def uhid_sizes)
    let ?d0 = "d\<lparr>dv_started := False\<rparr>"
    have c: "send_create2 be \<lparr>dv_file = f, dv_identity = ident, dv_started = False\<rparr> FIDO_HID_REPORT_DESCRIPTOR = (?d0, Some (Ok ()))"
      using send_create2_ok [OF _ _ rd, of "\<lparr>dv_file = f, dv_identity = ident, dv_started = False\<rparr>" be] assms(2) Inr
      by (simp add: d_def)
    let ?r = "scan_start be START_TIMEOUT_ITERS (f_reads f)"
    obtain d' where w: "wait_for_start be ?d0 = (d', Some ?r)" and o: "only_reads ?d0 d'" and s: "dv_started d' = is_ok ?r"
      using wait_for_start_scan [of ?d0 be] assms(1) by (auto simp: d_def)
    have e: "snd (create_device be (Ok f) ident) = Some (case ?r of Inl e \<Rightarrow> Err e | Inr _ \<Rightarrow> Ok d')"
      using c w by (simp add: create_device_def create_with_descriptor_def open_device_def split: sum.split)
    show ?thesis
    proof (cases ?r)
      case (Inl x)
      with e Inr have "?C d" by (simp add: d_def)
      then show ?thesis ..
    next
      case (Inr y)
      with e o s \<open>validate_identity ident = Inr u\<close> have "?C d'" by (simp add: only_reads_def d_def)
      then show ?thesis ..
    qed
  qed
qed

theorem create_device_iff_witness:
  "\<exists>dev. snd (create_device False (Ok (sample_file [RdBytes (pad UHID_EVENT_SIZE (kernel_bytes False KStop)),
      RdBytes (pad UHID_EVENT_SIZE (kernel_bytes False (KStart \<lparr>st_dev_flags = 0\<rparr>)))])) default_identity) = Some (Ok dev) \<and>
    dv_started dev \<and> length (f_written (dv_file dev)) = 1"
proof -
  let ?f = "sample_file [RdBytes (pad UHID_EVENT_SIZE (kernel_bytes False KStop)),
      RdBytes (pad UHID_EVENT_SIZE (kernel_bytes False (KStart \<lparr>st_dev_flags = 0\<rparr>)))]"
  have "scan_start False START_TIMEOUT_ITERS (f_reads ?f) = Ok ()"
    by (simp add: START_TIMEOUT_ITERS_def sample_file_def next_answer_def kernel_answer eval_nat_numeral)
  moreover have "validate_identity default_identity = Ok ()"
    by (simp add: validate_identity_ok default_identity_def uhid_sizes)
  ultimately show ?thesis
    using create_device_iff [of ?f False default_identity] by (auto simp: sample_file_def)
qed

end
