(* ===== verification/Hid_Worker.thy ===== *)
theory Hid_Worker
  imports Uhid_Device
begin

text \<open>
  The worker threads of \<open>cmd/passless/src/worker.rs\<close>: the handle through which a worker is cancelled and
  joined, the HID endpoint over a UHID device, and the loop that passes packets from the endpoint to the
  CTAPHID handler and the responses back.  The handler belongs to the crate \<open>soft_fido2_transport\<close> and is a
  parameter, as is the debug printer of UHID errors.  A panic of the thread is \<open>None\<close>.  The loop runs over the
  list of what its iterations observe (the cancellation flag and the clock); when the list ends, it is
  still running.
\<close>

section \<open>Outcomes and handles\<close>

datatype worker_error = WkRead string | WkWrite string
datatype worker_outcome = WClean | WError worker_error | WPanicked
datatype join_outcome = Finished worker_outcome | TimedOut

definition worker_error_display :: "worker_error \<Rightarrow> string" where
  "worker_error_display e = (case e of WkRead msg \<Rightarrow> ''read error: '' @ msg | WkWrite msg \<Rightarrow> ''write error: '' @ msg)"

text \<open>
  A handle holds the thread until it is joined for the first time, and then the receiver of its outcome until the
  outcome arrives.  What the receiver answers is an argument.
\<close>

record worker_handle =
  wh_cancel :: bool
  wh_thread :: bool
  wh_pending_rx :: bool

datatype recv_answer = RecvOk worker_outcome | RecvNothing | RecvDisconnected

definition new_worker_handle :: worker_handle where
  "new_worker_handle = \<lparr>wh_cancel = False, wh_thread = True, wh_pending_rx = False\<rparr>"

definition cancel_worker :: "worker_handle \<Rightarrow> worker_handle" where
  "cancel_worker h = h\<lparr>wh_cancel := True\<rparr>"

definition join_timeout :: "worker_handle \<Rightarrow> recv_answer \<Rightarrow> worker_handle \<times> join_outcome" where
  "join_timeout h ans =
    (if wh_pending_rx h then
       (let h = h\<lparr>wh_pending_rx := False\<rparr> in
        (case ans of RecvOk outcome \<Rightarrow> (h, Finished outcome)
         | RecvNothing \<Rightarrow> (h\<lparr>wh_pending_rx := True\<rparr>, TimedOut)
         | RecvDisconnected \<Rightarrow> (h, Finished WClean)))
     else if \<not> wh_thread h then (h, Finished WClean)
     else
       (let h = h\<lparr>wh_thread := False\<rparr> in
        (case ans of RecvOk outcome \<Rightarrow> (h, Finished outcome)
         | RecvNothing \<Rightarrow> (h\<lparr>wh_pending_rx := True\<rparr>, TimedOut)
         | RecvDisconnected \<Rightarrow> (h, Finished WClean))))"

definition try_join :: "worker_handle \<Rightarrow> bool \<Rightarrow> recv_answer \<Rightarrow> worker_handle \<times> worker_outcome option" where
  "try_join h is_finished ans =
    (if wh_pending_rx h then
       (let h = h\<lparr>wh_pending_rx := False\<rparr> in
        (case ans of RecvOk outcome \<Rightarrow> (h, Some outcome)
         | RecvNothing \<Rightarrow> (h\<lparr>wh_pending_rx := True\<rparr>, None)
         | RecvDisconnected \<Rightarrow> (h, Some WClean)))
     else if \<not> wh_thread h then (h, Some WClean)
     else if \<not> is_finished then (h, None)
     else
       (let h = h\<lparr>wh_thread := False\<rparr> in
        (case ans of RecvOk outcome \<Rightarrow> (h, Some outcome)
         | RecvNothing \<Rightarrow> (h\<lparr>wh_pending_rx := True\<rparr>, None)
         | RecvDisconnected \<Rightarrow> (h, Some WClean))))"

text \<open>\<open>join\<close> consumes the handle; a receiver that is disconnected gives \<open>Clean\<close>.\<close>

definition join_worker :: "worker_handle \<Rightarrow> recv_answer \<Rightarrow> worker_outcome option" where
  "join_worker h ans =
    (if wh_pending_rx h \<or> wh_thread h then
       (case ans of RecvOk outcome \<Rightarrow> Some outcome | RecvNothing \<Rightarrow> None | RecvDisconnected \<Rightarrow> Some WClean)
     else Some WClean)"

text \<open>A handle whose outcome has not been delivered yet.\<close>

definition undelivered :: "worker_handle \<Rightarrow> bool" where
  "undelivered h = (wh_thread h \<noteq> wh_pending_rx h)"

lemma undelivered_new [simp]: "undelivered new_worker_handle"
  by (simp add: undelivered_def new_worker_handle_def)

lemma undelivered_cancel [simp]: "undelivered (cancel_worker h) = undelivered h"
  by (simp add: undelivered_def cancel_worker_def)

lemma join_timeout_undelivered:
  assumes "undelivered h"
  shows "snd (join_timeout h (RecvOk outcome)) = Finished outcome"
    and "snd (join_timeout h RecvNothing) = TimedOut" and "undelivered (fst (join_timeout h RecvNothing))"
  using assms by (auto simp: undelivered_def join_timeout_def Let_def)

lemma join_timeout_TimedOut:
  "undelivered h \<Longrightarrow> join_timeout h ans = (h', TimedOut) \<Longrightarrow> undelivered h' \<and> wh_cancel h' = wh_cancel h"
  by (auto simp: undelivered_def join_timeout_def Let_def split: if_splits recv_answer.splits)

lemma try_join_None:
  "undelivered h \<Longrightarrow> try_join h fin ans = (h', None) \<Longrightarrow> undelivered h' \<and> wh_cancel h' = wh_cancel h"
  by (auto simp: undelivered_def try_join_def Let_def split: if_splits recv_answer.splits)

section \<open>The endpoint of a UHID device\<close>

lemma read_event_consumes:
  assumes "read_event be dev = (dev', Some (Ok (Some ev)))"
  shows "length (f_reads (dv_file dev')) < length (f_reads (dv_file dev))"
proof -
  obtain buf' where "read_event_from_fd be dev (replicate UHID_EVENT_SIZE 0) =
      (after_read dev, buf', Some (next_answer be (f_reads (dv_file dev))))"
    using read_event_from_fd_answer [of "replicate UHID_EVENT_SIZE 0" be dev] by auto
  with assms have "dev' = after_read dev" "next_answer be (f_reads (dv_file dev)) = Ok (Some ev)"
    by (simp_all add: read_event_def)
  then show ?thesis by (cases "f_reads (dv_file dev)") (simp_all add: next_answer_def)
qed

function read_packet :: "bool \<Rightarrow> (uhid_error \<Rightarrow> string) \<Rightarrow> raw_uhid_device \<Rightarrow> bytes \<Rightarrow>
    raw_uhid_device \<times> bytes \<times> (worker_error + nat option) option" where
  "read_packet be dbg dev buffer = (case read_event be dev of
     (dev', Some (Inr (Some ev))) \<Rightarrow>
       (case ev of
          EvOutput data rt \<Rightarrow>
            if length data = 65 \<and> data ! 0 = 0 then (dev', slice 1 65 data @ drop 64 buffer, Some (Ok (Some 64)))
            else if length data \<le> 64 then (dev', data @ drop (length data) buffer, Some (Ok (Some (length data))))
            else read_packet be dbg dev' buffer
        | _ \<Rightarrow> read_packet be dbg dev' buffer)
   | (dev', Some (Inr None)) \<Rightarrow> (dev', buffer, Some (Ok None))
   | (dev', Some (Inl e)) \<Rightarrow> (dev', buffer, Some (Err (WkRead (dbg e))))
   | (dev', None) \<Rightarrow> (dev', buffer, None))"
  by pat_completeness auto
termination
  by (relation "measure (\<lambda>(be, dbg, dev, buffer). length (f_reads (dv_file dev)))") (auto dest: read_event_consumes [OF sym])

declare read_packet.simps [simp del]

definition endpoint_write :: "bool \<Rightarrow> (uhid_error \<Rightarrow> string) \<Rightarrow> raw_uhid_device \<Rightarrow> bytes \<Rightarrow>
    raw_uhid_device \<times> (worker_error + unit) option" where
  "endpoint_write be dbg dev data = (case write_packet be dev data of (dev, r) \<Rightarrow>
     (dev, map_option (\<lambda>r. map_sum (\<lambda>e. WkWrite (dbg e)) (\<lambda>u. u) r) r))"

section \<open>The loop\<close>

record ('e, 'h, 'x) worker_parts =
  wp_read :: "'e \<Rightarrow> bytes \<Rightarrow> 'e \<times> bytes \<times> (worker_error + nat option) option"
  wp_write :: "'e \<Rightarrow> bytes \<Rightarrow> 'e \<times> (worker_error + unit) option"
  wp_process :: "'h \<Rightarrow> bytes \<Rightarrow> 'h \<times> ('x + bytes list) option"

text \<open>Times in milliseconds.\<close>

record worker_config =
  wc_poll_interval :: nat
  wc_cache_cleanup_interval :: nat

definition default_worker_config :: worker_config where
  "default_worker_config = \<lparr>wc_poll_interval = 10, wc_cache_cleanup_interval = 5000\<rparr>"

text \<open>
  The variables of the loop, how often the cache was cleaned up and how often the hook \<open>on_response_sent\<close> ran.
\<close>

record ('e, 'h) worker_loop =
  wl_endpoint :: 'e
  wl_ctaphid :: 'h
  wl_buffer :: bytes
  wl_last_cleanup :: nat
  wl_draining :: bool
  wl_cleanups :: nat
  wl_responses :: nat

text \<open>What one iteration observes: the cancellation flag, the clock before and after the cleanup.\<close>

record loop_input =
  li_cancel :: bool
  li_now :: nat
  li_reset :: nat

definition start_loop :: "'e \<Rightarrow> 'h \<Rightarrow> nat \<Rightarrow> ('e, 'h) worker_loop" where
  "start_loop endpoint ctaphid now = \<lparr>wl_endpoint = endpoint, wl_ctaphid = ctaphid, wl_buffer = replicate 64 0,
     wl_last_cleanup = now, wl_draining = False, wl_cleanups = 0, wl_responses = 0\<rparr>"

fun write_all :: "('e \<Rightarrow> bytes \<Rightarrow> 'e \<times> (worker_error + unit) option) \<Rightarrow> 'e \<Rightarrow> bytes list \<Rightarrow>
    'e \<times> (worker_error + unit) option" where
  "write_all wr e [] = (e, Some (Ok ()))"
| "write_all wr e (p # ps) = (case wr e p of
     (e, Some (Inr _)) \<Rightarrow> write_all wr e ps
   | (e, r) \<Rightarrow> (e, r))"

text \<open>Leaving the loop by \<open>break\<close>, and by \<open>return Err\<close> or a panic.\<close>

definition leave_loop :: "('e, 'h) worker_loop \<Rightarrow> ('e, 'h) worker_loop \<times> worker_outcome option" where
  "leave_loop w = (w\<lparr>wl_cleanups := Suc (wl_cleanups w)\<rparr>, Some WClean)"

definition loop_head :: "worker_config \<Rightarrow> loop_input \<Rightarrow> ('e, 'h) worker_loop \<Rightarrow> ('e, 'h) worker_loop" where
  "loop_head cfg i w =
    (let w = (if li_cancel i \<and> \<not> wl_draining w then w\<lparr>wl_draining := True\<rparr> else w) in
     if li_now i - wl_last_cleanup w \<ge> wc_cache_cleanup_interval cfg
     then w\<lparr>wl_cleanups := Suc (wl_cleanups w), wl_last_cleanup := li_reset i\<rparr> else w)"

definition handle_packet :: "('e, 'h, 'x) worker_parts \<Rightarrow> ('e, 'h) worker_loop \<Rightarrow>
    ('e, 'h) worker_loop \<times> worker_outcome option" where
  "handle_packet ps w = (case wp_process ps (wl_ctaphid w) (wl_buffer w) of
     (h, None) \<Rightarrow> (w\<lparr>wl_ctaphid := h\<rparr>, Some WPanicked)
   | (h, Some (Inl _)) \<Rightarrow>
       (let w = w\<lparr>wl_ctaphid := h\<rparr> in if wl_draining w then leave_loop w else (w, None))
   | (h, Some (Inr response_packets)) \<Rightarrow>
       (let w = w\<lparr>wl_ctaphid := h\<rparr> in
        if length response_packets = 0 then (w, None)
        else (case write_all (wp_write ps) (wl_endpoint w) response_packets of
           (e, None) \<Rightarrow> (w\<lparr>wl_endpoint := e\<rparr>, Some WPanicked)
         | (e, Some (Inl err)) \<Rightarrow>
             (let w = w\<lparr>wl_endpoint := e\<rparr> in if wl_draining w then leave_loop w else (w, Some (WError err)))
         | (e, Some (Inr _)) \<Rightarrow> (w\<lparr>wl_endpoint := e, wl_responses := Suc (wl_responses w)\<rparr>, None))))"

definition loop_iter :: "('e, 'h, 'x) worker_parts \<Rightarrow> worker_config \<Rightarrow> loop_input \<Rightarrow> ('e, 'h) worker_loop \<Rightarrow>
    ('e, 'h) worker_loop \<times> worker_outcome option" where
  "loop_iter ps cfg i w =
    (let w = loop_head cfg i w in
     (case wp_read ps (wl_endpoint w) (wl_buffer w) of (e, buf, r) \<Rightarrow>
       (let w = w\<lparr>wl_endpoint := e, wl_buffer := buf\<rparr> in
        (case r of
           None \<Rightarrow> (w, Some WPanicked)
         | Some (Inr (Some _)) \<Rightarrow> handle_packet ps w
         | Some (Inr None) \<Rightarrow> if wl_draining w then leave_loop w else (w, None)
         | Some (Inl err) \<Rightarrow> if wl_draining w then leave_loop w else (w, Some (WError err))))))"

fun run_loop :: "('e, 'h, 'x) worker_parts \<Rightarrow> worker_config \<Rightarrow> loop_input list \<Rightarrow> ('e, 'h) worker_loop \<Rightarrow>
    ('e, 'h) worker_loop \<times> worker_outcome option" where
  "run_loop ps cfg [] w = (w, None)"
| "run_loop ps cfg (i # is) w = (case loop_iter ps cfg i w of
     (w, Some outcome) \<Rightarrow> (w, Some outcome)
   | (w, None) \<Rightarrow> run_loop ps cfg is w)"

section \<open>A cancelled worker stops\<close>

text \<open>
  What the loop relies on: reading a packet uses up a part of what the host has sent, and writing adds nothing.
\<close>

locale draining_endpoint =
  fixes rd :: "'e \<Rightarrow> bytes \<Rightarrow> 'e \<times> bytes \<times> (worker_error + nat option) option"
    and wr :: "'e \<Rightarrow> bytes \<Rightarrow> 'e \<times> (worker_error + unit) option"
    and pending :: "'e \<Rightarrow> nat"
  assumes read_uses: "rd e buf = (e', buf', Some (Ok (Some n))) \<Longrightarrow> pending e' < pending e"
    and read_total: "snd (snd (rd e buf)) \<noteq> None"
    and write_adds_nothing: "pending (fst (wr e p)) \<le> pending e"
    and write_total: "snd (wr e p) \<noteq> None"
begin

lemma write_all_adds_nothing: "pending (fst (write_all wr e qs)) \<le> pending e"
proof (induction qs arbitrary: e)
  case (Cons q qs)
  obtain e' r where w: "wr e q = (e', r)" by (cases "wr e q")
  with write_adds_nothing [of e q] have "pending e' \<le> pending e" by simp
  moreover from Cons have "pending (fst (write_all wr e' qs)) \<le> pending e'" .
  ultimately show ?case using w by (auto split: option.split sum.split)
qed simp

lemma write_all_total: "snd (write_all wr e qs) \<noteq> None"
proof (induction qs arbitrary: e)
  case (Cons q qs)
  then show ?case using write_total [of e q] by (auto split: prod.split option.split sum.split)
qed simp

lemma handle_packet_draining:
  assumes "wp_write ps = wr" and "\<And>h b. snd (wp_process ps h b) \<noteq> None" and "wl_draining w"
    and "handle_packet ps w = (w', r)"
  shows "r = Some WClean \<or> r = None \<and> wl_draining w' \<and> pending (wl_endpoint w') \<le> pending (wl_endpoint w)"
proof -
  obtain h x where p: "wp_process ps (wl_ctaphid w) (wl_buffer w) = (h, Some x)"
    using assms(2) [of "wl_ctaphid w" "wl_buffer w"] by (cases "wp_process ps (wl_ctaphid w) (wl_buffer w)") auto
  show ?thesis
  proof (cases x)
    case (Inl err)
    with p assms(3,4) show ?thesis by (auto simp: handle_packet_def leave_loop_def)
  next
    case (Inr qs)
    obtain e y where q: "write_all wr (wl_endpoint w) qs = (e, Some y)"
      using write_all_total [of "wl_endpoint w" qs] by (cases "write_all wr (wl_endpoint w) qs") auto
    with write_all_adds_nothing [of "wl_endpoint w" qs] have "pending e \<le> pending (wl_endpoint w)" by simp
    with p q Inr assms(1,3,4) show ?thesis
      by (cases y) (auto simp: handle_packet_def leave_loop_def Let_def split: if_splits)
  qed
qed

lemma loop_iter_draining:
  assumes "wp_read ps = rd" and "wp_write ps = wr" and "\<And>h b. snd (wp_process ps h b) \<noteq> None"
    and "li_cancel i \<or> wl_draining w" and "loop_iter ps cfg i w = (w', r)"
  shows "r = Some WClean \<or> r = None \<and> wl_draining w' \<and> pending (wl_endpoint w') < pending (wl_endpoint w)"
proof -
  define v where "v = loop_head cfg i w"
  have v: "wl_draining v" "wl_endpoint v = wl_endpoint w"
    using assms(4) by (auto simp: v_def loop_head_def Let_def)
  obtain e buf x where rd: "rd (wl_endpoint v) (wl_buffer v) = (e, buf, Some x)"
    using read_total [of "wl_endpoint v" "wl_buffer v"] by (cases "rd (wl_endpoint v) (wl_buffer v)") auto
  define u where "u = v\<lparr>wl_endpoint := e, wl_buffer := buf\<rparr>"
  have u: "wl_draining u" "wl_endpoint u = e" by (simp_all add: u_def v)
  have l: "loop_iter ps cfg i w = (case x of Inr (Some _) \<Rightarrow> handle_packet ps u | _ \<Rightarrow> leave_loop u)"
    using rd u(1) by (simp add: loop_iter_def assms(1) Let_def flip: v_def) (simp add: v(1) flip: u_def split: sum.split option.split)
  show ?thesis
  proof (cases "\<exists>n. x = Ok (Some n)")
    case True
    then obtain n where n: "x = Ok (Some n)" by blast
    with rd read_uses v(2) have "pending e < pending (wl_endpoint w)" by metis
    with handle_packet_draining [OF assms(2,3) u(1), of w' r] l assms(5) n u(2) show ?thesis by auto
  next
    case False
    then have "loop_iter ps cfg i w = leave_loop u" using l by (auto split: sum.splits option.splits)
    with assms(5) show ?thesis by (simp add: leave_loop_def)
  qed
qed

lemma run_loop_draining:
  assumes "wp_read ps = rd" and "wp_write ps = wr" and "\<And>h b. snd (wp_process ps h b) \<noteq> None"
  shows "pending (wl_endpoint w) < length is \<Longrightarrow> wl_draining w \<or> li_cancel (hd is) \<Longrightarrow>
    snd (run_loop ps cfg is w) = Some WClean"
proof (induction "is" arbitrary: w)
  case (Cons i "is")
  obtain w' r where l: "loop_iter ps cfg i w = (w', r)" by (cases "loop_iter ps cfg i w")
  from loop_iter_draining [OF assms _ l] Cons.prems(2)
  consider "r = Some WClean" | "r = None" "wl_draining w'" "pending (wl_endpoint w') < pending (wl_endpoint w)" by auto
  then show ?case
  proof cases
    case 2
    with Cons.IH [of w'] Cons.prems(1) l show ?thesis by simp
  qed (simp add: l)
qed simp

end

text \<open>The converse: only a cancelled worker ends without an error.\<close>

lemma handle_packet_running:
  "\<not> wl_draining w \<Longrightarrow> handle_packet ps w = (w', r) \<Longrightarrow> r \<noteq> Some WClean \<and> \<not> wl_draining w'"
  by (auto simp: handle_packet_def Let_def split: prod.splits option.splits sum.splits if_splits)

lemma loop_iter_running:
  assumes "\<not> wl_draining w" and "\<not> li_cancel i" and "loop_iter ps cfg i w = (w', r)"
  shows "r \<noteq> Some WClean \<and> \<not> wl_draining w'"
proof -
  define v where "v = loop_head cfg i w"
  have v: "\<not> wl_draining v" using assms(1,2) by (simp add: v_def loop_head_def Let_def)
  obtain e buf x where rd: "wp_read ps (wl_endpoint v) (wl_buffer v) = (e, buf, x)"
    by (cases "wp_read ps (wl_endpoint v) (wl_buffer v)")
  show ?thesis
    using assms(3) rd v handle_packet_running [of "v\<lparr>wl_endpoint := e, wl_buffer := buf\<rparr>" ps w' r]
    by (auto simp: loop_iter_def Let_def simp flip: v_def split: option.splits sum.splits)
qed

lemma run_loop_running:
  "\<not> wl_draining w \<Longrightarrow> list_all (\<lambda>i. \<not> li_cancel i) is \<Longrightarrow> snd (run_loop ps cfg is w) \<noteq> Some WClean"
proof (induction "is" arbitrary: w)
  case (Cons i "is")
  obtain w' r where l: "loop_iter ps cfg i w = (w', r)" by (cases "loop_iter ps cfg i w")
  with loop_iter_running [OF _ _ l] Cons show ?case by (cases r) simp_all
qed simp

section \<open>The loop over a UHID device\<close>

text \<open>How an event fills the buffer of the worker: only output reports of 65 bytes that start with the report
  number 0, and of at most 64 bytes, count.\<close>

definition fill_buffer :: "bytes \<Rightarrow> uhid_event \<Rightarrow> (bytes \<times> nat) option" where
  "fill_buffer buffer ev = (case ev of
     EvOutput data rt \<Rightarrow>
       if length data = 65 \<and> data ! 0 = 0 then Some (slice 1 65 data @ drop 64 buffer, 64)
       else if length data \<le> 64 then Some (data @ drop (length data) buffer, length data)
       else None
   | _ \<Rightarrow> None)"

lemma read_packet_event:
  "read_event be dev = (d, Some (Ok (Some ev))) \<Longrightarrow> read_packet be dbg dev buf =
    (case fill_buffer buf ev of Some (b, n) \<Rightarrow> (d, b, Some (Ok (Some n))) | None \<Rightarrow> read_packet be dbg d buf)"
  by (subst read_packet.simps) (simp add: fill_buffer_def split: uhid_event.split)

lemma read_packet_end:
  "read_event be dev = (d, Some (Ok None)) \<Longrightarrow> read_packet be dbg dev buf = (d, buf, Some (Ok None))"
  "read_event be dev = (d, Some (Err e)) \<Longrightarrow> read_packet be dbg dev buf = (d, buf, Some (Err (WkRead (dbg e))))"
  by (subst read_packet.simps, simp)+

lemma read_event_cases:
  obtains (event) d ev where "read_event be dev = (d, Some (Ok (Some ev)))"
  | (nothing) d where "read_event be dev = (d, Some (Ok None))"
  | (failed) d e where "read_event be dev = (d, Some (Err e))"
  by (cases rule: read_event_from_fd_cases [of be dev "replicate UHID_EVENT_SIZE 0"]) (simp_all add: read_event_def)

text \<open>Every call returns: it uses up the events that it skips.\<close>

lemma read_packet_returns:
  "snd (snd (read_packet be dbg dev buf)) \<noteq> None"
  "read_packet be dbg dev buf = (dev', buf', Some (Ok (Some n))) \<Longrightarrow>
    length (f_reads (dv_file dev')) < length (f_reads (dv_file dev))"
proof (induction "length (f_reads (dv_file dev))" arbitrary: dev rule: less_induct)
  case less
  { case 1
    show ?case
    proof (cases rule: read_event_cases [of be dev])
      case (event d ev)
      with less(1) [OF read_event_consumes [OF event]] show ?thesis
        by (auto simp: read_packet_event split: option.split prod.split)
    qed (simp_all add: read_packet_end)
  }
  { case 2
    show ?case
    proof (cases rule: read_event_cases [of be dev])
      case (event d ev)
      then have l: "length (f_reads (dv_file d)) < length (f_reads (dv_file dev))" by (rule read_event_consumes)
      show ?thesis
      proof (cases "fill_buffer buf ev")
        case None
        with 2 event have "read_packet be dbg d buf = (dev', buf', Some (Ok (Some n)))" by (simp add: read_packet_event)
        from less(2) [OF l this] l show ?thesis by simp
      qed (use 2 event l in \<open>auto simp: read_packet_event\<close>)
    qed (use 2 in \<open>simp_all add: read_packet_end\<close>)
  }
qed

lemma write_packet_reads: "f_reads (dv_file (fst (write_packet be dev p))) = f_reads (dv_file dev)"
  by (simp add: write_packet_def send_event_def write_event_def sys_write_def Let_def split: option.split)

lemma endpoint_write_facts:
  "f_reads (dv_file (fst (endpoint_write be dbg dev p))) = f_reads (dv_file dev)"
  "snd (endpoint_write be dbg dev p) \<noteq> None"
  using write_packet_reads [of be dev p] writers_total(2) [of be dev p]
  by (cases "write_packet be dev p", simp add: endpoint_write_def, cases "write_packet be dev p", auto simp: endpoint_write_def)

interpretation uhid: draining_endpoint "read_packet be dbg" "endpoint_write be dbg" "\<lambda>dev. length (f_reads (dv_file dev))"
  for be dbg
  by unfold_locales (simp_all only: read_packet_returns endpoint_write_facts order_refl not_False_eq_True)

section \<open>What the handler sees and the host gets\<close>

text \<open>The event by which the kernel passes on a report of the host, and the event that carries a response.\<close>

definition report_read :: "bool \<Rightarrow> bytes \<Rightarrow> read_ret" where
  "report_read be d = RdBytes (pad UHID_EVENT_SIZE (kernel_bytes be
     (KOutput \<lparr>out_data = pad UHID_DATA_MAX d, out_size = of_nat (length d), out_rtype = 1\<rparr>)))"

definition response_event :: "bool \<Rightarrow> bytes \<Rightarrow> bytes" where
  "response_event be r = pad UHID_EVENT_SIZE (to_ne_bytes be UHID_INPUT2 @
     input2_bytes be \<lparr>in2_size = of_nat (length r), in2_data = pad UHID_DATA_MAX r\<rparr>)"

text \<open>The packets that reach the handler, and a handler run over packets.\<close>

fun overlay :: "bytes \<Rightarrow> bytes list \<Rightarrow> bytes list" where
  "overlay buf [] = []"
| "overlay buf (d # ds) = (let b = d @ drop (length d) buf in b # overlay b ds)"

fun serve :: "('h \<Rightarrow> bytes \<Rightarrow> 'h \<times> bytes list) \<Rightarrow> 'h \<Rightarrow> bytes list \<Rightarrow> 'h \<times> bytes list" where
  "serve step h [] = (h, [])"
| "serve step h (b # bs) = (case step h b of (h', rs) \<Rightarrow> (case serve step h' bs of (h'', rs') \<Rightarrow> (h'', rs @ rs')))"

definition uhid_parts :: "bool \<Rightarrow> (uhid_error \<Rightarrow> string) \<Rightarrow> ('h \<Rightarrow> bytes \<Rightarrow> 'h \<times> bytes list) \<Rightarrow>
    (raw_uhid_device, 'h, unit) worker_parts" where
  "uhid_parts be dbg step = \<lparr>wp_read = read_packet be dbg, wp_write = endpoint_write be dbg,
     wp_process = \<lambda>h b. (fst (step h b), Some (Ok (snd (step h b))))\<rparr>"

lemma report_answer: "length d \<le> 64 \<Longrightarrow> read_answer be (report_read be d) = Ok (Some (EvOutput d 1))"
proof -
  let ?k = "KOutput \<lparr>out_data = pad UHID_DATA_MAX d, out_size = of_nat (length d), out_rtype = 1\<rparr>"
  assume d: "length d \<le> 64"
  then have "kernel_ok ?k" by (simp add: uhid_sizes)
  moreover have "unat (of_nat (length d) :: u16) = length d" using d by (simp add: unat_of_nat)
  then have "event_of ?k = EvOutput d 1" using d by (simp add: take_pad)
  ultimately show ?thesis by (simp add: report_read_def kernel_answer)
qed

lemma read_event_answer: "read_event be dev = (after_read dev, Some (next_answer be (f_reads (dv_file dev))))"
  using read_event_from_fd_answer [of "replicate UHID_EVENT_SIZE 0" be dev] by (auto simp: read_event_def)

lemma read_report:
  assumes "length d \<le> 64" and "f_reads (dv_file dev) = report_read be d # rs"
  shows "read_packet be dbg dev buf =
    (dev\<lparr>dv_file := (dv_file dev)\<lparr>f_reads := rs\<rparr>\<rparr>, d @ drop (length d) buf, Some (Ok (Some (length d))))"
  using assms by (simp add: read_packet_event read_event_answer next_answer_def report_answer fill_buffer_def after_read_def)

lemma endpoint_write_ok:
  assumes "f_writes (dv_file dev) = []" and "length r \<le> UHID_DATA_MAX"
  shows "endpoint_write be dbg dev r =
    (dev\<lparr>dv_file := (dv_file dev)\<lparr>f_written := f_written (dv_file dev) @ [response_event be r]\<rparr>\<rparr>, Some (Ok ()))"
  using assms input2_event_layout [OF assms(2), of be]
  by (simp add: endpoint_write_def write_packet_def send_event_def write_event_ok response_event_def)

lemma write_all_ok:
  assumes "list_all (\<lambda>r. length r \<le> UHID_DATA_MAX) rs"
  shows "f_writes (dv_file dev) = [] \<Longrightarrow> write_all (endpoint_write be dbg) dev rs =
    (dev\<lparr>dv_file := (dv_file dev)\<lparr>f_written := f_written (dv_file dev) @ map (response_event be) rs\<rparr>\<rparr>, Some (Ok ()))"
  using assms by (induction rs arbitrary: dev) (simp_all add: endpoint_write_ok)

lemma loop_iter_serves:
  assumes d: "length d \<le> 64" and rs: "f_reads (dv_file (wl_endpoint w)) = report_read be d # rs"
    and wr: "f_writes (dv_file (wl_endpoint w)) = []"
    and small: "list_all (\<lambda>r. length r \<le> UHID_DATA_MAX) (snd (step (wl_ctaphid w) (d @ drop (length d) (wl_buffer w))))"
  obtains w' where "loop_iter (uhid_parts be dbg step) cfg i w = (w', None)"
    and "wl_buffer w' = d @ drop (length d) (wl_buffer w)"
    and "wl_ctaphid w' = fst (step (wl_ctaphid w) (d @ drop (length d) (wl_buffer w)))"
    and "f_reads (dv_file (wl_endpoint w')) = rs" and "f_writes (dv_file (wl_endpoint w')) = []"
    and "f_written (dv_file (wl_endpoint w')) = f_written (dv_file (wl_endpoint w)) @
      map (response_event be) (snd (step (wl_ctaphid w) (d @ drop (length d) (wl_buffer w))))"
proof -
  define v where "v = loop_head cfg i w"
  have v: "wl_endpoint v = wl_endpoint w" "wl_buffer v = wl_buffer w" "wl_ctaphid v = wl_ctaphid w"
    by (simp_all add: v_def loop_head_def Let_def)
  let ?b = "d @ drop (length d) (wl_buffer w)"
  define e where "e = (wl_endpoint w)\<lparr>dv_file := (dv_file (wl_endpoint w))\<lparr>f_reads := rs\<rparr>\<rparr>"
  have r: "read_packet be dbg (wl_endpoint w) (wl_buffer w) = (e, ?b, Some (Ok (Some (length d))))"
    using read_report [OF d rs] by (simp add: e_def)
  obtain h qs where s: "step (wl_ctaphid w) ?b = (h, qs)" by (cases "step (wl_ctaphid w) ?b")
  have wa: "write_all (endpoint_write be dbg) e qs =
      (e\<lparr>dv_file := (dv_file e)\<lparr>f_written := f_written (dv_file e) @ map (response_event be) qs\<rparr>\<rparr>, Some (Ok ()))"
    using small s wr by (intro write_all_ok) (simp_all add: e_def)
  have e: "f_reads (dv_file e) = rs" "f_writes (dv_file e) = []" "f_written (dv_file e) = f_written (dv_file (wl_endpoint w))"
    using wr by (simp_all add: e_def)
  have "loop_iter (uhid_parts be dbg step) cfg i w = handle_packet (uhid_parts be dbg step) (v\<lparr>wl_endpoint := e, wl_buffer := ?b\<rparr>)"
    using r by (simp add: loop_iter_def uhid_parts_def v Let_def flip: v_def)
  then show thesis
    using that wa s v e by (cases qs) (simp_all add: handle_packet_def uhid_parts_def Let_def)
qed

lemma run_loop_serves:
  assumes "\<forall>h b. list_all (\<lambda>r. length r \<le> UHID_DATA_MAX) (snd (step h b))"
  shows "list_all (\<lambda>d. length d \<le> 64) ds \<Longrightarrow> f_reads (dv_file (wl_endpoint w)) = map (report_read be) ds \<Longrightarrow>
    f_writes (dv_file (wl_endpoint w)) = [] \<Longrightarrow> length is = length ds \<Longrightarrow>
    \<exists>w'. run_loop (uhid_parts be dbg step) cfg is w = (w', None) \<and> f_reads (dv_file (wl_endpoint w')) = [] \<and>
      wl_ctaphid w' = fst (serve step (wl_ctaphid w) (overlay (wl_buffer w) ds)) \<and>
      f_written (dv_file (wl_endpoint w')) = f_written (dv_file (wl_endpoint w)) @
        map (response_event be) (snd (serve step (wl_ctaphid w) (overlay (wl_buffer w) ds)))"
proof (induction ds arbitrary: "is" w)
  case (Cons d ds)
  from Cons.prems(4) obtain i js where i: "is = i # js" "length js = length ds" by (cases "is") simp_all
  let ?b = "d @ drop (length d) (wl_buffer w)"
  from Cons.prems assms obtain w1 where w1: "loop_iter (uhid_parts be dbg step) cfg i w = (w1, None)"
    "wl_buffer w1 = ?b" "wl_ctaphid w1 = fst (step (wl_ctaphid w) ?b)"
    "f_reads (dv_file (wl_endpoint w1)) = map (report_read be) ds" "f_writes (dv_file (wl_endpoint w1)) = []"
    "f_written (dv_file (wl_endpoint w1)) = f_written (dv_file (wl_endpoint w)) @ map (response_event be) (snd (step (wl_ctaphid w) ?b))"
    by (elim loop_iter_serves [of d w be "map (report_read be) ds" step dbg cfg i, rotated 4]) simp_all
  from Cons.IH [of w1 js] Cons.prems(1) w1(4,5) i(2) obtain w2 where
    "run_loop (uhid_parts be dbg step) cfg js w1 = (w2, None)" "f_reads (dv_file (wl_endpoint w2)) = []"
    "wl_ctaphid w2 = fst (serve step (wl_ctaphid w1) (overlay ?b ds))"
    "f_written (dv_file (wl_endpoint w2)) = f_written (dv_file (wl_endpoint w1)) @
      map (response_event be) (snd (serve step (wl_ctaphid w1) (overlay ?b ds)))"
    using w1(2) by auto
  with w1 i(1) show ?case by (simp add: Let_def split: prod.split)
qed simp

lemma overlay_full: "list_all (\<lambda>d. length d = n) ds \<Longrightarrow> length buf = n \<Longrightarrow> overlay buf ds = ds"
  by (induction ds arbitrary: buf) (simp_all add: Let_def)

text \<open>C12. The transport is transparent: when the host sends packets of 64 bytes and nothing fails, the handler
  processes exactly these packets in this order, and the host gets exactly the handler's responses in
  their order, each as one event with the layout of \<open>uhid_input2_req\<close>.\<close>

theorem worker_serves_host:
  assumes "list_all (\<lambda>d. length d = 64) ds" and "f_reads (dv_file dev) = map (report_read be) ds"
    and "f_writes (dv_file dev) = []" and "length is = length ds"
    and "\<forall>h b. list_all (\<lambda>r. length r \<le> UHID_DATA_MAX) (snd (step h b))"
  shows "\<exists>w. run_loop (uhid_parts be dbg step) cfg is (start_loop dev h now) = (w, None) \<and>
    f_reads (dv_file (wl_endpoint w)) = [] \<and> wl_ctaphid w = fst (serve step h ds) \<and>
    f_written (dv_file (wl_endpoint w)) = f_written (dv_file dev) @ map (response_event be) (snd (serve step h ds))"
proof -
  have "list_all (\<lambda>d. length d \<le> 64) ds" using assms(1) by (simp add: list_all_iff)
  moreover have "overlay (replicate 64 0) ds = ds" by (rule overlay_full [OF assms(1)]) simp
  ultimately show ?thesis
    using run_loop_serves [OF assms(5), of ds "start_loop dev h now" be "is" dbg cfg] assms(2,3,4) by (simp add: start_loop_def)
qed

definition echo :: "bytes list \<Rightarrow> bytes \<Rightarrow> bytes list \<times> bytes list" where
  "echo h b = (h @ [b], [take UHID_DATA_MAX b])"

definition sample_input :: loop_input where
  "sample_input = \<lparr>li_cancel = False, li_now = 0, li_reset = 0\<rparr>"

theorem worker_serves_host_witness:
  "\<exists>w. run_loop (uhid_parts True (\<lambda>_. []) echo) default_worker_config [sample_input, sample_input]
      (start_loop (sample_device (map (report_read True) [replicate 64 1, replicate 64 2])) [] 0) = (w, None) \<and>
    wl_ctaphid w = [replicate 64 1, replicate 64 2] \<and>
    f_written (dv_file (wl_endpoint w)) = [response_event True (replicate 64 1), response_event True (replicate 64 2)]"
proof -
  have e: "\<forall>h b. list_all (\<lambda>r. length r \<le> UHID_DATA_MAX) (snd (echo h b))" by (simp add: echo_def)
  have s: "serve echo [] [replicate 64 1, replicate 64 2] =
      ([replicate 64 1, replicate 64 2], [replicate 64 1, replicate 64 2])"
    by (simp add: echo_def uhid_sizes)
  let ?ds = "[replicate 64 1, replicate 64 2]"
  let ?dev = "sample_device (map (report_read True) ?ds)"
  have d: "f_reads (dv_file ?dev) = map (report_read True) ?ds" "f_writes (dv_file ?dev) = []" "f_written (dv_file ?dev) = []"
    by (simp_all only: sample_device_def sample_file_def raw_uhid_device.simps uhid_file.simps)
  have "list_all (\<lambda>d. length d = 64) ?ds" "length [sample_input, sample_input] = length ?ds" by simp_all
  from worker_serves_host [OF this(1) d(1,2) this(2) e, of "\<lambda>_. []" default_worker_config "[]" 0]
  show ?thesis unfolding s d(3) by (simp only: fst_conv snd_conv append_Nil list.map) blast
qed

text \<open>A report of less than 64 bytes is completed with the end of the packet before it: the handler is given
  bytes that the host sent in another packet.\<close>

theorem short_report_keeps_tail:
  assumes "length p = 64" and "length q < 64" and "f_reads (dv_file dev) = map (report_read be) [p, q]"
    and "f_writes (dv_file dev) = []" and "length is = 2"
    and "\<forall>h b. list_all (\<lambda>r. length r \<le> UHID_DATA_MAX) (snd (step h b))"
  shows "\<exists>w. run_loop (uhid_parts be dbg step) cfg is (start_loop dev h now) = (w, None) \<and>
    wl_ctaphid w = fst (serve step h [p, q @ drop (length q) p])"
  using run_loop_serves [OF assms(6), of "[p, q]" "start_loop dev h now" be "is" dbg cfg] assms(1-5)
  by (auto simp: start_loop_def Let_def)

theorem short_report_keeps_tail_witness:
  "\<exists>w. run_loop (uhid_parts False (\<lambda>_. []) echo) default_worker_config [sample_input, sample_input]
      (start_loop (sample_device (map (report_read False) [replicate 64 1, replicate 8 2])) [] 0) = (w, None) \<and>
    wl_ctaphid w = [replicate 64 1, replicate 8 2 @ replicate 56 1]"
proof -
  have e: "\<forall>h b. list_all (\<lambda>r. length r \<le> UHID_DATA_MAX) (snd (echo h b))" by (simp add: echo_def)
  have s: "fst (serve echo [] [replicate 64 1, replicate 8 2 @ drop (length (replicate 8 (2 :: u8))) (replicate 64 1)]) =
      [replicate 64 1, replicate 8 2 @ replicate 56 1]"
    by (simp add: echo_def)
  let ?dev = "sample_device (map (report_read False) [replicate 64 1, replicate 8 2])"
  have d: "f_reads (dv_file ?dev) = map (report_read False) [replicate 64 1, replicate 8 2]" "f_writes (dv_file ?dev) = []"
    by (simp_all only: sample_device_def sample_file_def raw_uhid_device.simps uhid_file.simps)
  have "length (replicate 64 (1 :: u8)) = 64" "length (replicate 8 (2 :: u8)) < 64" "length [sample_input, sample_input] = 2"
    by simp_all
  from short_report_keeps_tail [OF this(1,2) d this(3) e, of "\<lambda>_. []" default_worker_config "[]" 0]
  show ?thesis unfolding s .
qed

section \<open>What a cancelled worker still does\<close>

text \<open>
  The events that wait in the kernel, given to the handler in their order, up to the first read that yields no event
  (nothing waits, the read fails, or the event is too short or unknown) or the first packet that the handler refuses:
  the handler's state and responses, and the reads that are left.  Events that carry no packet are passed over.
\<close>

fun handle_waiting :: "bool \<Rightarrow> ('h \<Rightarrow> bytes \<Rightarrow> 'h \<times> ('x + bytes list) option) \<Rightarrow> 'h \<Rightarrow> bytes \<Rightarrow> read_ret list \<Rightarrow>
    'h \<times> bytes list \<times> read_ret list" where
  "handle_waiting be proc h buf [] = (h, [], [])"
| "handle_waiting be proc h buf (r # rs) = (case read_answer be r of
     Inr (Some ev) \<Rightarrow> (case fill_buffer buf ev of
        None \<Rightarrow> handle_waiting be proc h buf rs
      | Some (b, n) \<Rightarrow> (case proc h b of
           (h', Some (Inr qs)) \<Rightarrow> (case handle_waiting be proc h' b rs of (h'', qs', left) \<Rightarrow> (h'', qs @ qs', left))
         | (h', _) \<Rightarrow> (h', [], rs)))
   | _ \<Rightarrow> (h, [], rs))"

definition small_responses :: "('h \<Rightarrow> bytes \<Rightarrow> 'h \<times> ('x + bytes list) option) \<Rightarrow> bool" where
  "small_responses proc \<longleftrightarrow> (\<forall>h b qs. snd (proc h b) = Some (Ok qs) \<longrightarrow> list_all (\<lambda>q. length q \<le> UHID_DATA_MAX) qs)"

definition drained :: "bool \<Rightarrow> 'h \<times> bytes list \<times> read_ret list \<Rightarrow> raw_uhid_device \<Rightarrow> (raw_uhid_device, 'h) worker_loop \<Rightarrow> bool" where
  "drained be d dev w \<longleftrightarrow> (case d of (h, qs, left) \<Rightarrow>
     wl_ctaphid w = h \<and> f_reads (dv_file (wl_endpoint w)) = left \<and>
     f_written (dv_file (wl_endpoint w)) = f_written (dv_file dev) @ map (response_event be) qs)"

text \<open>When nothing but reports waits and the handler accepts every packet, it gets all of them and nothing is left.\<close>

lemma handle_waiting_reports:
  assumes "\<And>h b. proc h b = (fst (step h b), Some (Ok (snd (step h b))))"
  shows "list_all (\<lambda>d. length d \<le> 64) ds \<Longrightarrow> handle_waiting be proc h buf (map (report_read be) ds) =
    (fst (serve step h (overlay buf ds)), snd (serve step h (overlay buf ds)), [])"
proof (induction ds arbitrary: h buf)
  case (Cons d ds)
  with assms show ?case by (simp add: report_answer fill_buffer_def Let_def split: prod.split)
qed simp

lemma loop_head_fields:
  "wl_endpoint (loop_head cfg i w) = wl_endpoint w" "wl_buffer (loop_head cfg i w) = wl_buffer w"
  "wl_ctaphid (loop_head cfg i w) = wl_ctaphid w"
  "wl_draining (loop_head cfg i w) \<longleftrightarrow> wl_draining w \<or> li_cancel i"
  by (auto simp: loop_head_def Let_def)

lemma loop_head_endpoint: "loop_head cfg i (w\<lparr>wl_endpoint := e\<rparr>) = (loop_head cfg i w)\<lparr>wl_endpoint := e\<rparr>"
  by (simp add: loop_head_def Let_def)

lemma handle_packet_ok:
  assumes "wp_write ps = endpoint_write be dbg" and "wp_process ps (wl_ctaphid w) (wl_buffer w) = (h, Some (Ok qs))"
    and "f_writes (dv_file (wl_endpoint w)) = []" and "list_all (\<lambda>q. length q \<le> UHID_DATA_MAX) qs"
  obtains w' where "handle_packet ps w = (w', None)" and "wl_ctaphid w' = h" and "wl_buffer w' = wl_buffer w"
    and "wl_draining w' = wl_draining w" and "f_writes (dv_file (wl_endpoint w')) = []"
    and "f_reads (dv_file (wl_endpoint w')) = f_reads (dv_file (wl_endpoint w))"
    and "f_written (dv_file (wl_endpoint w')) = f_written (dv_file (wl_endpoint w)) @ map (response_event be) qs"
proof (cases qs)
  case Nil
  with assms that [of "w\<lparr>wl_ctaphid := h\<rparr>"] show thesis by (simp add: handle_packet_def)
next
  case (Cons q ps')
  define e where "e = (wl_endpoint w)\<lparr>dv_file := (dv_file (wl_endpoint w))\<lparr>f_written :=
    f_written (dv_file (wl_endpoint w)) @ map (response_event be) qs\<rparr>\<rparr>"
  have "write_all (endpoint_write be dbg) (wl_endpoint w) qs = (e, Some (Ok ()))"
    unfolding e_def by (rule write_all_ok [OF assms(4,3)])
  then have "handle_packet ps w = (w\<lparr>wl_ctaphid := h, wl_endpoint := e, wl_responses := Suc (wl_responses w)\<rparr>, None)"
    using assms(1,2) Cons by (simp add: handle_packet_def Let_def del: write_all.simps)
  from that [OF this] assms(3) show thesis by (simp add: e_def)
qed

text \<open>One iteration of a draining worker whose next read is \<open>r\<close>.\<close>

lemma loop_iter_read:
  assumes "ps = \<lparr>wp_read = read_packet be dbg, wp_write = wr, wp_process = proc\<rparr>" and "wl_draining w \<or> li_cancel i"
  shows "loop_iter ps cfg i w = (case read_packet be dbg (wl_endpoint w) (wl_buffer w) of (e, buf, x) \<Rightarrow>
      (let v = (loop_head cfg i w)\<lparr>wl_endpoint := e, wl_buffer := buf\<rparr> in
       case x of None \<Rightarrow> (v, Some WPanicked) | Some (Inr (Some _)) \<Rightarrow> handle_packet ps v | _ \<Rightarrow> leave_loop v))"
  using assms by (simp add: loop_iter_def Let_def loop_head_fields split: prod.split option.split sum.split)

lemma loop_iter_quiet:
  assumes "ps = \<lparr>wp_read = read_packet be dbg, wp_write = wr, wp_process = proc\<rparr>" and "wl_draining w \<or> li_cancel i"
    and "\<forall>ev. next_answer be (f_reads (dv_file (wl_endpoint w))) \<noteq> Ok (Some ev)"
  shows "\<exists>w'. loop_iter ps cfg i w = (w', Some WClean) \<and> wl_ctaphid w' = wl_ctaphid w \<and>
    wl_endpoint w' = after_read (wl_endpoint w)"
proof -
  let ?v = "(loop_head cfg i w)\<lparr>wl_endpoint := after_read (wl_endpoint w), wl_buffer := wl_buffer w\<rparr>"
  have "loop_iter ps cfg i w = leave_loop ?v"
  proof (cases rule: read_event_cases [of be "wl_endpoint w"])
    case (event d ev)
    with assms(3) show ?thesis by (simp add: read_event_answer)
  qed (simp_all add: loop_iter_read [OF assms(1,2)] read_packet_end read_event_answer Let_def)
  then show ?thesis by (simp add: leave_loop_def loop_head_fields)
qed

lemma loop_iter_skip:
  assumes "ps = \<lparr>wp_read = read_packet be dbg, wp_write = wr, wp_process = proc\<rparr>" and "wl_draining w \<or> li_cancel i"
    and "next_answer be (f_reads (dv_file (wl_endpoint w))) = Ok (Some ev)" and "fill_buffer (wl_buffer w) ev = None"
  shows "loop_iter ps cfg i w = loop_iter ps cfg i (w\<lparr>wl_endpoint := after_read (wl_endpoint w)\<rparr>)"
proof -
  have "read_packet be dbg (wl_endpoint w) (wl_buffer w) = read_packet be dbg (after_read (wl_endpoint w)) (wl_buffer w)"
    using assms(3,4) by (simp add: read_packet_event read_event_answer)
  with assms(2) show ?thesis by (simp add: loop_iter_read [OF assms(1)] loop_head_endpoint)
qed

lemma loop_iter_packet:
  assumes ps: "ps = \<lparr>wp_read = read_packet be dbg, wp_write = endpoint_write be dbg, wp_process = proc\<rparr>"
    and dr: "wl_draining w \<or> li_cancel i" and wr: "f_writes (dv_file (wl_endpoint w)) = []" and small: "small_responses proc"
    and ev: "next_answer be (f_reads (dv_file (wl_endpoint w))) = Ok (Some ev)" "fill_buffer (wl_buffer w) ev = Some (b, n)"
    and p: "proc (wl_ctaphid w) b = (h, Some x)"
  shows "case x of
     Inl _ \<Rightarrow> \<exists>w'. loop_iter ps cfg i w = (w', Some WClean) \<and> wl_ctaphid w' = h \<and> wl_endpoint w' = after_read (wl_endpoint w)
   | Inr qs \<Rightarrow> \<exists>w'. loop_iter ps cfg i w = (w', None) \<and> wl_ctaphid w' = h \<and> wl_buffer w' = b \<and> wl_draining w' \<and>
       f_writes (dv_file (wl_endpoint w')) = [] \<and> f_reads (dv_file (wl_endpoint w')) = tl (f_reads (dv_file (wl_endpoint w))) \<and>
       f_written (dv_file (wl_endpoint w')) = f_written (dv_file (wl_endpoint w)) @ map (response_event be) qs"
proof -
  define u where "u = (loop_head cfg i w)\<lparr>wl_endpoint := after_read (wl_endpoint w), wl_buffer := b\<rparr>"
  have u: "wl_endpoint u = after_read (wl_endpoint w)" "wl_buffer u = b" "wl_ctaphid u = wl_ctaphid w" "wl_draining u"
    using dr by (simp_all add: u_def loop_head_fields)
  have l: "loop_iter ps cfg i w = handle_packet ps u"
    using ev by (simp add: loop_iter_read [OF ps dr] read_packet_event read_event_answer Let_def u_def)
  show ?thesis
  proof (cases x)
    case (Inl a)
    with l u p show ?thesis by (simp add: handle_packet_def ps leave_loop_def Let_def)
  next
    case (Inr qs)
    with p small have "list_all (\<lambda>q. length q \<le> UHID_DATA_MAX) qs" unfolding small_responses_def by (metis snd_conv)
    with handle_packet_ok [of ps be dbg u h qs] p Inr u wr l show ?thesis by (auto simp: ps)
  qed
qed

lemma run_loop_drains:
  assumes ps: "ps = \<lparr>wp_read = read_packet be dbg, wp_write = endpoint_write be dbg, wp_process = proc\<rparr>"
    and total: "\<forall>h b. snd (proc h b) \<noteq> None" and small: "small_responses proc"
  shows "f_reads (dv_file (wl_endpoint w)) = rs \<Longrightarrow> f_writes (dv_file (wl_endpoint w)) = [] \<Longrightarrow> length rs < length is \<Longrightarrow>
    wl_draining w \<or> li_cancel (hd is) \<Longrightarrow> \<exists>w'. run_loop ps cfg is w = (w', Some WClean) \<and>
      drained be (handle_waiting be proc (wl_ctaphid w) (wl_buffer w) rs) (wl_endpoint w) w'"
proof (induction rs arbitrary: w "is")
  case Nil
  then obtain i js where i: "is = i # js" by (cases "is") auto
  from loop_iter_quiet [OF ps, of w i cfg] Nil i show ?case by (auto simp: next_answer_def drained_def)
next
  case (Cons r rs)
  then obtain i js where i: "is = i # js" and dr: "wl_draining w \<or> li_cancel i" by (cases "is") auto
  have na: "next_answer be (f_reads (dv_file (wl_endpoint w))) = read_answer be r" using Cons.prems by (simp add: next_answer_def)
  consider (quiet) "\<forall>ev. read_answer be r \<noteq> Ok (Some ev)"
    | (skip) ev where "read_answer be r = Ok (Some ev)" "fill_buffer (wl_buffer w) ev = None"
    | (packet) ev b n where "read_answer be r = Ok (Some ev)" "fill_buffer (wl_buffer w) ev = Some (b, n)"
    by (metis option.exhaust surj_pair)
  then show ?case
  proof cases
    case quiet
    then have hw: "handle_waiting be proc (wl_ctaphid w) (wl_buffer w) (r # rs) = (wl_ctaphid w, [], rs)"
      by (auto split: sum.split option.split)
    have "\<forall>ev. next_answer be (f_reads (dv_file (wl_endpoint w))) \<noteq> Ok (Some ev)" using quiet by (simp add: na)
    then obtain w' where "loop_iter ps cfg i w = (w', Some WClean)"
      "wl_ctaphid w' = wl_ctaphid w" "wl_endpoint w' = after_read (wl_endpoint w)" using loop_iter_quiet [OF ps dr] by blast
    with Cons.prems(1) show ?thesis by (simp add: i hw drained_def del: handle_waiting.simps)
  next
    case skip
    let ?w = "w\<lparr>wl_endpoint := after_read (wl_endpoint w)\<rparr>"
    have "run_loop ps cfg is w = run_loop ps cfg is ?w" using loop_iter_skip [OF ps dr _ skip(2)] na skip(1) by (simp add: i)
    with Cons.IH [of ?w "is"] Cons.prems skip show ?thesis by (simp add: drained_def)
  next
    case packet
    obtain h x where p: "proc (wl_ctaphid w) b = (h, Some x)" using total by (metis option.exhaust prod.collapse)
    note iter = loop_iter_packet [OF ps dr Cons.prems(2) small _ packet(2) p, unfolded na, OF packet(1), of cfg]
    show ?thesis
    proof (cases x)
      case (Inl a)
      with iter p packet i Cons.prems(1) show ?thesis by (auto simp: drained_def)
    next
      case (Inr qs)
      with iter obtain w1 where w1: "loop_iter ps cfg i w = (w1, None)" "wl_ctaphid w1 = h" "wl_buffer w1 = b" "wl_draining w1"
        "f_writes (dv_file (wl_endpoint w1)) = []" "f_reads (dv_file (wl_endpoint w1)) = rs"
        "f_written (dv_file (wl_endpoint w1)) = f_written (dv_file (wl_endpoint w)) @ map (response_event be) qs"
        using Cons.prems(1) by auto
      from Cons.IH [OF w1(6,5), of js] Cons.prems(3) w1(4) i obtain w' where "run_loop ps cfg js w1 = (w', Some WClean)"
        "drained be (handle_waiting be proc h b rs) (wl_endpoint w1) w'" using w1(2,3) by auto
      with p Inr packet w1 show ?thesis by (simp add: i drained_def split: prod.splits)
    qed
  qed
qed

text \<open>C18. A cancelled worker stops, and drains first. Let the handler not panic. (1) From the iteration that sees the
  cancellation, at most one more iteration than there are reads waiting passes before the worker
  ends cleanly, whatever the reads, the handler and the writes answer. (2) When moreover the writes succeed and no
  response exceeds the size of an event, the worker has by then given the handler every packet
  that waited, in order, and written every response, up to the first read that yields no event or
  the first packet that the handler refuses, which end the draining with the rest unread. (3) A
  worker that is not cancelled never ends cleanly.\<close>

theorem cancelled_worker_stops:
  fixes parts :: "(raw_uhid_device, 'h, 'x) worker_parts"
  assumes "parts = \<lparr>wp_read = read_packet be dbg, wp_write = endpoint_write be dbg, wp_process = proc\<rparr>"
    and "\<forall>h b. snd (proc h b) \<noteq> None"
  shows "(length (f_reads (dv_file (wl_endpoint w))) < length is \<and> li_cancel (hd is) \<longrightarrow>
      snd (run_loop parts cfg is w) = Some WClean) \<and>
    (length (f_reads (dv_file (wl_endpoint w))) < length is \<and> li_cancel (hd is) \<and>
      f_writes (dv_file (wl_endpoint w)) = [] \<and> small_responses proc \<longrightarrow>
      drained be (handle_waiting be proc (wl_ctaphid w) (wl_buffer w) (f_reads (dv_file (wl_endpoint w))))
        (wl_endpoint w) (fst (run_loop parts cfg is w))) \<and>
    (\<not> wl_draining w \<and> list_all (\<lambda>i. \<not> li_cancel i) js \<longrightarrow> snd (run_loop parts cfg js w) \<noteq> Some WClean)"
proof (intro conjI impI)
  assume "length (f_reads (dv_file (wl_endpoint w))) < length is \<and> li_cancel (hd is)"
  then show "snd (run_loop parts cfg is w) = Some WClean"
    using assms uhid.run_loop_draining [of parts be dbg w "is" cfg] by simp
next
  assume "length (f_reads (dv_file (wl_endpoint w))) < length is \<and> li_cancel (hd is) \<and>
      f_writes (dv_file (wl_endpoint w)) = [] \<and> small_responses proc"
  then show "drained be (handle_waiting be proc (wl_ctaphid w) (wl_buffer w) (f_reads (dv_file (wl_endpoint w))))
        (wl_endpoint w) (fst (run_loop parts cfg is w))"
    using run_loop_drains [OF assms, of w _ "is" cfg] by fastforce
next
  assume "\<not> wl_draining w \<and> list_all (\<lambda>i. \<not> li_cancel i) js"
  then show "snd (run_loop parts cfg js w) \<noteq> Some WClean" using run_loop_running [of w js parts cfg] by blast
qed

text \<open>Two packets and a failing read wait when the worker is cancelled: both packets are handled and answered, and the
  event after the failed read stays in the kernel.\<close>

theorem cancelled_worker_stops_witness:
  "\<exists>w. run_loop (uhid_parts False (\<lambda>_. []) echo) default_worker_config (replicate 5 (sample_input\<lparr>li_cancel := True\<rparr>))
      (start_loop (sample_device [report_read False (replicate 64 1), report_read False (replicate 64 2), RdFails 5, report_read False []]) [] 0)
      = (w, Some WClean) \<and>
    wl_ctaphid w = [replicate 64 1, replicate 64 2] \<and>
    f_written (dv_file (wl_endpoint w)) = [response_event False (replicate 64 1), response_event False (replicate 64 2)] \<and>
    f_reads (dv_file (wl_endpoint w)) = [report_read False []] \<and>
    snd (run_loop (uhid_parts False (\<lambda>_. []) echo) default_worker_config (replicate 3 sample_input)
      (start_loop (sample_device [report_read False [1], RdFails 5]) [] 0)) \<noteq> Some WClean"
proof -
  let ?c = "sample_input\<lparr>li_cancel := True\<rparr>"
  let ?rs = "[report_read False (replicate 64 1), report_read False (replicate 64 2), RdFails 5, report_read False []]"
  let ?w = "start_loop (sample_device ?rs) [] 0" and ?w2 = "start_loop (sample_device [report_read False [1], RdFails 5]) [] 0"
  let ?p = "\<lambda>h b. (fst (echo h b), Some (Ok (snd (echo h b)) :: unit + bytes list))"
  have p: "\<forall>h b. snd (?p h b) \<noteq> None" and s: "small_responses ?p" by (simp_all add: small_responses_def echo_def)
  have f: "f_reads (dv_file (wl_endpoint ?w)) = ?rs" "f_writes (dv_file (wl_endpoint ?w)) = []" "f_written (dv_file (wl_endpoint ?w)) = []"
    "wl_ctaphid ?w = []" "wl_buffer ?w = replicate 64 0" "\<not> wl_draining ?w2"
    by (simp_all only: start_loop_def sample_device_def sample_file_def raw_uhid_device.simps uhid_file.simps worker_loop.simps simp_thms)
  have "read_answer False (RdFails 5) = Err (UhRead (OsError 5))" by (simp add: read_answer_def EAGAIN_def)
  then have hw: "handle_waiting False ?p [] (replicate 64 0) ?rs =
      ([replicate 64 1, replicate 64 2], [replicate 64 1, replicate 64 2], [report_read False []])"
    by (simp add: report_answer fill_buffer_def echo_def uhid_sizes)
  have l: "length (f_reads (dv_file (wl_endpoint ?w))) < length (replicate 5 ?c) \<and> li_cancel (hd (replicate 5 ?c))"
    unfolding f(1) by simp
  have n: "list_all (\<lambda>i. \<not> li_cancel i) (replicate 3 sample_input)" by (simp add: sample_input_def list_all_iff)
  note t = cancelled_worker_stops [OF refl p]
  show ?thesis
    using t [of ?w "replicate 5 ?c" False "\<lambda>_. []" default_worker_config] l f(2) s
      t [of ?w2 _ False "\<lambda>_. []" default_worker_config "replicate 3 sample_input"] n f(6)
    unfolding uhid_parts_def f(1,4,5) hw drained_def by (auto simp: f(3) prod_eq_iff)
qed

end
