(* ===== verification/Endpoint_Manager.thy ===== *)
theory Endpoint_Manager
  imports Endpoint_Registry Hid_Worker "HOL-Library.Multiset"
begin

text \<open>
  The manager of \<open>cmd/passless/src/agent/endpoint_manager.rs\<close>: it creates endpoints in the registry, starts a worker for each and
  cancels, destroys and reaps them.  Callbacks, device factories and what the joins of workers answer are
  arguments, as are random identifiers and the flag of the daemon; \<open>dbg\<close> prints transition outcomes.  The
  cancellation flag of an entry is the flag of its worker, which both share.  Elapsed times are arguments.
\<close>

section \<open>Data\<close>

datatype manager_error = CreateRejected string | DeviceCreationFailed string | MgrShutdown

datatype destroy_outcome =
    DestroyedOut endpoint_id nat
  | DestroyTimedOut endpoint_id nat
  | WorkerFailed endpoint_id string
  | WorkerPanicked endpoint_id

datatype reap_outcome = Reaped endpoint_id | StillRunning endpoint_id | ReapNotFound endpoint_id

datatype runtime_state = RsStarting | RsRunning | RsShuttingDown

record shutdown_all_result =
  sa_destroyed :: "endpoint_id list"
  sa_timed_out :: "endpoint_id list"
  sa_failed :: "(endpoint_id \<times> string) list"
  sa_panicked :: "endpoint_id list"

record runtime_entry =
  re_handle :: endpoint_handle
  re_profile_id :: string
  re_state :: runtime_state
  re_worker :: worker_handle

record endpoint_manager =
  em_registry :: endpoint_registry
  em_runtimes :: "(endpoint_id, runtime_entry) hashmap"
  em_worker_config :: worker_config

definition new_manager :: "nat \<Rightarrow> worker_config \<Rightarrow> endpoint_manager" where
  "new_manager mx cfg = \<lparr>em_registry = new_registry mx, em_runtimes = [], em_worker_config = cfg\<rparr>"

section \<open>Creation\<close>

definition on_registry :: "(endpoint_registry \<Rightarrow> endpoint_registry \<times> 'a) \<Rightarrow> endpoint_manager \<Rightarrow> endpoint_manager" where
  "on_registry f m = m\<lparr>em_registry := fst (f (em_registry m))\<rparr>"

definition start_worker :: "(transition_outcome \<Rightarrow> string) \<Rightarrow> endpoint_manager \<Rightarrow> endpoint_handle \<Rightarrow> endpoint_id \<Rightarrow> string \<Rightarrow>
    endpoint_manager \<times> (manager_error + endpoint_id)" where
  "start_worker dbg m handle eid pid =
    (let worker = new_worker_handle in
     (case mark_ready (em_registry m) handle of
        (r, TrRejected e) \<Rightarrow>
          (let reason = ''mark_ready transition failed: '' @ dbg (TrRejected e) in
           (on_registry (\<lambda>r. mark_failed r handle reason) (m\<lparr>em_registry := r\<rparr>), Err (DeviceCreationFailed reason)))
      | (r, Transitioned _ _) \<Rightarrow>
          (case mark_active r handle of
             (r, TrRejected e) \<Rightarrow>
               (let reason = ''mark_active transition failed: '' @ dbg (TrRejected e) in
                (on_registry (\<lambda>r. mark_failed r handle reason) (m\<lparr>em_registry := r\<rparr>), Err (DeviceCreationFailed reason)))
           | (r, Transitioned _ _) \<Rightarrow>
               (m\<lparr>em_registry := r, em_runtimes := hm_insert eid
                   \<lparr>re_handle = handle, re_profile_id = pid, re_state = RsRunning, re_worker = worker\<rparr> (em_runtimes m)\<rparr>,
                Ok eid))))"

text \<open>
  The body that \<open>create_and_start_full\<close> and \<open>create_and_start_with_transport_full\<close> share.  \<open>made\<close> is the outcome
  of the steps between the callback and the worker: on a failure the reason for the registry and the error.
\<close>

definition create_and_start_by :: "(transition_outcome \<Rightarrow> string) \<Rightarrow> endpoint_manager \<Rightarrow> bool \<Rightarrow> endpoint_id \<Rightarrow> endpoint_binding \<Rightarrow> string \<Rightarrow>
    (endpoint_id \<Rightarrow> string + unit) option \<Rightarrow> (string \<times> manager_error) + unit \<Rightarrow> endpoint_manager \<times> (manager_error + endpoint_id)" where
  "create_and_start_by dbg m daemon_cancel eid binding pid before_start made =
    (if daemon_cancel then (m, Err MgrShutdown)
     else (case create_endpoint (em_registry m) eid binding of
        (r, CrRejected e) \<Rightarrow> (m\<lparr>em_registry := r\<rparr>, Err (CreateRejected (create_error_display e)))
      | (r, Created snapshot) \<Rightarrow>
          (let m = m\<lparr>em_registry := r\<rparr>; handle = es_handle snapshot; eid = eh_id handle in
           (case (case before_start of None \<Rightarrow> Ok () | Some f \<Rightarrow> f eid) of
              Inl e \<Rightarrow>
                (on_registry (\<lambda>r. mark_failed r handle (''before_start callback failed: '' @ e)) m, Err (CreateRejected e))
            | Inr _ \<Rightarrow>
                (case made of
                   Inl (reason, e) \<Rightarrow> (on_registry (\<lambda>r. mark_failed r handle reason) m, Err e)
                 | Inr _ \<Rightarrow> start_worker dbg m handle eid pid)))))"

definition create_and_start_full :: "(transition_outcome \<Rightarrow> string) \<Rightarrow> endpoint_manager \<Rightarrow> bool \<Rightarrow> endpoint_id \<Rightarrow> endpoint_binding \<Rightarrow> string \<Rightarrow>
    (endpoint_id \<Rightarrow> string + unit) option \<Rightarrow> string + unit \<Rightarrow> string + unit \<Rightarrow> endpoint_manager \<times> (manager_error + endpoint_id)" where
  "create_and_start_full dbg m daemon_cancel eid binding pid before_start device nonblocking =
    create_and_start_by dbg m daemon_cancel eid binding pid before_start
      (case device of
         Inl e \<Rightarrow> Inl (''device creation failed: '' @ e, DeviceCreationFailed e)
       | Inr _ \<Rightarrow> (case nonblocking of
           Inl e \<Rightarrow> Inl (''set_nonblocking failed: '' @ e, DeviceCreationFailed (''set_nonblocking failed: '' @ e))
         | Inr _ \<Rightarrow> Inr ()))"

definition create_and_start_with_transport_full :: "(transition_outcome \<Rightarrow> string) \<Rightarrow> endpoint_manager \<Rightarrow> bool \<Rightarrow> endpoint_id \<Rightarrow> endpoint_binding \<Rightarrow> string \<Rightarrow>
    (endpoint_id \<Rightarrow> string + unit) option \<Rightarrow> string + unit \<Rightarrow> endpoint_manager \<times> (manager_error + endpoint_id)" where
  "create_and_start_with_transport_full dbg m daemon_cancel eid binding pid before_start endpoint =
    create_and_start_by dbg m daemon_cancel eid binding pid before_start
      (case endpoint of
         Inl e \<Rightarrow> Inl (''endpoint creation failed: '' @ e, DeviceCreationFailed e)
       | Inr _ \<Rightarrow> Inr ())"

section \<open>Cancellation and destruction\<close>

definition shut_down_entry :: "runtime_entry \<Rightarrow> runtime_entry" where
  "shut_down_entry e = e\<lparr>re_worker := cancel_worker (re_worker e), re_state := RsShuttingDown\<rparr>"

definition cancel_endpoint :: "endpoint_manager \<Rightarrow> endpoint_id \<Rightarrow> endpoint_manager" where
  "cancel_endpoint m eid = m\<lparr>em_runtimes := hm_update shut_down_entry eid (em_runtimes m)\<rparr>"

definition cancel_all :: "endpoint_manager \<Rightarrow> endpoint_manager" where
  "cancel_all m = (on_registry shutdown_registry m)\<lparr>em_runtimes := hm_map shut_down_entry (em_runtimes m)\<rparr>"

text \<open>The steps after a successful join that all four operations end with.\<close>

definition remove_finished :: "endpoint_manager \<Rightarrow> endpoint_id \<Rightarrow> runtime_entry \<Rightarrow> endpoint_manager" where
  "remove_finished m eid e =
    (on_registry (\<lambda>r. mark_destroyed r (re_handle e)) m)\<lparr>em_runtimes := hm_remove eid (em_runtimes m)\<rparr>"

definition finished_outcome :: "endpoint_id \<Rightarrow> nat \<Rightarrow> worker_outcome \<Rightarrow> destroy_outcome" where
  "finished_outcome eid elapsed outcome = (case outcome of
     WClean \<Rightarrow> DestroyedOut eid elapsed
   | WError e \<Rightarrow> WorkerFailed eid (worker_error_display e)
   | WPanicked \<Rightarrow> WorkerPanicked eid)"

definition destroy_endpoint :: "endpoint_manager \<Rightarrow> endpoint_id \<Rightarrow> recv_answer \<Rightarrow> nat \<Rightarrow> endpoint_manager \<times> destroy_outcome" where
  "destroy_endpoint m eid ans elapsed = (case hm_get (em_runtimes m) eid of
     None \<Rightarrow> (m, DestroyedOut eid 0)
   | Some entry \<Rightarrow>
       (let m = on_registry (\<lambda>r. mark_draining r (re_handle entry)) m;
            entry = shut_down_entry entry in
        (case join_timeout (re_worker entry) ans of
           (h, Finished outcome) \<Rightarrow> (remove_finished m eid entry, finished_outcome eid elapsed outcome)
         | (h, TimedOut) \<Rightarrow>
             (m\<lparr>em_runtimes := hm_insert eid (entry\<lparr>re_worker := h, re_state := RsShuttingDown\<rparr>) (em_runtimes m)\<rparr>,
              DestroyTimedOut eid elapsed))))"

definition reap_stopped :: "endpoint_manager \<Rightarrow> endpoint_id \<Rightarrow> bool \<Rightarrow> recv_answer \<Rightarrow> endpoint_manager \<times> reap_outcome" where
  "reap_stopped m eid is_finished ans = (case hm_get (em_runtimes m) eid of
     None \<Rightarrow> (m, ReapNotFound eid)
   | Some entry \<Rightarrow>
       if re_state entry \<noteq> RsShuttingDown then (m, StillRunning eid)
       else (case try_join (re_worker entry) is_finished ans of
           (h, Some _) \<Rightarrow> (remove_finished m eid entry, Reaped eid)
         | (h, None) \<Rightarrow> (m\<lparr>em_runtimes := hm_insert eid (entry\<lparr>re_worker := h\<rparr>) (em_runtimes m)\<rparr>, StillRunning eid)))"

definition retry_destroy :: "endpoint_manager \<Rightarrow> endpoint_id \<Rightarrow> recv_answer \<Rightarrow> nat \<Rightarrow> endpoint_manager \<times> destroy_outcome option" where
  "retry_destroy m eid ans elapsed = (case hm_get (em_runtimes m) eid of
     None \<Rightarrow> (m, None)
   | Some entry \<Rightarrow>
       if re_state entry \<noteq> RsShuttingDown then (m, None)
       else (case join_timeout (re_worker entry) ans of
           (h, Finished outcome) \<Rightarrow> (remove_finished m eid entry, Some (finished_outcome eid elapsed outcome))
         | (h, TimedOut) \<Rightarrow>
             (m\<lparr>em_runtimes := hm_insert eid (entry\<lparr>re_worker := h\<rparr>) (em_runtimes m)\<rparr>, Some (DestroyTimedOut eid elapsed))))"

text \<open>
  One round of the loop of \<open>shutdown_all\<close>: \<open>zero\<close> says that the deadline has passed.
\<close>

definition shutdown_one :: "(endpoint_id \<Rightarrow> bool) \<Rightarrow> (endpoint_id \<Rightarrow> recv_answer) \<Rightarrow> endpoint_id \<Rightarrow>
    endpoint_manager \<times> shutdown_all_result \<Rightarrow> endpoint_manager \<times> shutdown_all_result" where
  "shutdown_one zero ans eid p = (case p of (m, res) \<Rightarrow>
     if zero eid then
       (m\<lparr>em_runtimes := hm_update (\<lambda>e. e\<lparr>re_state := RsShuttingDown\<rparr>) eid (em_runtimes m)\<rparr>,
        res\<lparr>sa_timed_out := sa_timed_out res @ [eid]\<rparr>)
     else (case hm_get (em_runtimes m) eid of
        None \<Rightarrow> (m, res)
      | Some entry \<Rightarrow>
          (let m = on_registry (\<lambda>r. mark_draining r (re_handle entry)) m in
           (case join_timeout (re_worker entry) (ans eid) of
              (h, Finished outcome) \<Rightarrow>
                (remove_finished m eid entry,
                 (case outcome of
                    WClean \<Rightarrow> res\<lparr>sa_destroyed := sa_destroyed res @ [eid]\<rparr>
                  | WError e \<Rightarrow> res\<lparr>sa_failed := sa_failed res @ [(eid, worker_error_display e)]\<rparr>
                  | WPanicked \<Rightarrow> res\<lparr>sa_panicked := sa_panicked res @ [eid]\<rparr>))
            | (h, TimedOut) \<Rightarrow>
                (m\<lparr>em_runtimes := hm_insert eid (entry\<lparr>re_worker := h, re_state := RsShuttingDown\<rparr>) (em_runtimes m)\<rparr>,
                 res\<lparr>sa_timed_out := sa_timed_out res @ [eid]\<rparr>)))))"

definition shutdown_all :: "endpoint_manager \<Rightarrow> (endpoint_id \<Rightarrow> bool) \<Rightarrow> (endpoint_id \<Rightarrow> recv_answer) \<Rightarrow>
    endpoint_manager \<times> shutdown_all_result" where
  "shutdown_all m zero ans =
    (let m = cancel_all m in
     fold (shutdown_one zero ans) (map fst (em_runtimes m))
       (m, \<lparr>sa_destroyed = [], sa_timed_out = [], sa_failed = [], sa_panicked = []\<rparr>))"

definition manager_snapshot :: "endpoint_manager \<Rightarrow> endpoint_snapshot list" where
  "manager_snapshot m = list_endpoints (em_registry m)"

section \<open>The operations as one alphabet\<close>

datatype manager_op =
    MCreate bool endpoint_id endpoint_binding string "(endpoint_id \<Rightarrow> string + unit) option" "string + unit" "string + unit"
  | MCreateTransport bool endpoint_id endpoint_binding string "(endpoint_id \<Rightarrow> string + unit) option" "string + unit"
  | MCancel endpoint_id
  | MCancelAll
  | MDestroy endpoint_id recv_answer nat
  | MReap endpoint_id bool recv_answer
  | MRetry endpoint_id recv_answer nat
  | MShutdownAll "endpoint_id \<Rightarrow> bool" "endpoint_id \<Rightarrow> recv_answer"

datatype manager_out =
    MoCreated "manager_error + endpoint_id"
  | MoNothing
  | MoDestroyed destroy_outcome
  | MoReaped reap_outcome
  | MoRetried "destroy_outcome option"
  | MoShutdown shutdown_all_result

fun manager_step :: "(transition_outcome \<Rightarrow> string) \<Rightarrow> endpoint_manager \<Rightarrow> manager_op \<Rightarrow> endpoint_manager \<times> manager_out" where
  "manager_step dbg m (MCreate dc eid b pid f device nb) = apsnd MoCreated (create_and_start_full dbg m dc eid b pid f device nb)"
| "manager_step dbg m (MCreateTransport dc eid b pid f e) =
     apsnd MoCreated (create_and_start_with_transport_full dbg m dc eid b pid f e)"
| "manager_step dbg m (MCancel eid) = (cancel_endpoint m eid, MoNothing)"
| "manager_step dbg m MCancelAll = (cancel_all m, MoNothing)"
| "manager_step dbg m (MDestroy eid ans t) = apsnd MoDestroyed (destroy_endpoint m eid ans t)"
| "manager_step dbg m (MReap eid fin ans) = apsnd MoReaped (reap_stopped m eid fin ans)"
| "manager_step dbg m (MRetry eid ans t) = apsnd MoRetried (retry_destroy m eid ans t)"
| "manager_step dbg m (MShutdownAll zero ans) = apsnd MoShutdown (shutdown_all m zero ans)"

text \<open>Random identifiers are new.\<close>

fun fresh_op :: "endpoint_manager \<Rightarrow> manager_op \<Rightarrow> bool" where
  "fresh_op m (MCreate dc eid b pid f device nb) = (hm_get (er_endpoints (em_registry m)) eid = None)"
| "fresh_op m (MCreateTransport dc eid b pid f e) = (hm_get (er_endpoints (em_registry m)) eid = None)"
| "fresh_op m _ = True"

fun fresh_run :: "(transition_outcome \<Rightarrow> string) \<Rightarrow> endpoint_manager \<Rightarrow> manager_op list \<Rightarrow> bool" where
  "fresh_run dbg m [] = True"
| "fresh_run dbg m (x # xs) = (fresh_op m x \<and> fresh_run dbg (fst (manager_step dbg m x)) xs)"

section \<open>The invariant\<close>

text \<open>An entry of the manager belongs to a live endpoint of the registry whose current handle it holds.\<close>

definition runtime_ok :: "endpoint_registry \<Rightarrow> endpoint_id \<Rightarrow> runtime_entry \<Rightarrow> bool" where
  "runtime_ok r k e = (eh_id (re_handle e) = k \<and> ep_generation r k = Some (eh_generation (re_handle e)) \<and>
     (ep_state r k = Some EpActive \<or> ep_state r k = Some EpDraining) \<and> undelivered (re_worker e))"

definition manager_ok :: "endpoint_manager \<Rightarrow> bool" where
  "manager_ok m = (endpoints_ok (em_registry m) \<and> hm_all (runtime_ok (em_registry m)) (em_runtimes m))"

text \<open>An endpoint without an entry in the manager.\<close>

definition settled :: "endpoint_manager \<Rightarrow> endpoint_id \<Rightarrow> endpoint_state \<Rightarrow> bool" where
  "settled m k s = (hm_get (em_runtimes m) k = None \<and> ep_state (em_registry m) k = Some s)"

definition keeps :: "endpoint_manager \<Rightarrow> endpoint_manager \<Rightarrow> bool" where
  "keeps m m' = (manager_ok m' \<and> er_max_endpoints (em_registry m') = er_max_endpoints (em_registry m) \<and>
     (er_shutdown (em_registry m) \<longrightarrow> er_shutdown (em_registry m')) \<and>
     (\<forall>k s. settled m k s \<longrightarrow> settled m' k s))"

lemma keeps_refl: "manager_ok m \<Longrightarrow> keeps m m"
  by (simp add: keeps_def)

lemma keeps_trans: "keeps m m' \<Longrightarrow> keeps m' m'' \<Longrightarrow> keeps m m''"
  by (simp add: keeps_def)

lemma manager_ok_iff:
  "manager_ok m \<longleftrightarrow> endpoints_ok (em_registry m) \<and> hm_wf (em_runtimes m) \<and>
    (\<forall>k e. hm_get (em_runtimes m) k = Some e \<longrightarrow> runtime_ok (em_registry m) k e)"
  by (auto simp: manager_ok_def hm_all_iff)

lemma runtime_get: "manager_ok m \<Longrightarrow> hm_get (em_runtimes m) k = Some e \<Longrightarrow> runtime_ok (em_registry m) k e"
  by (simp add: manager_ok_iff)

lemma runtime_ok_other:
  "k \<noteq> eh_id h \<Longrightarrow> runtime_ok (fst (transition_inner r h t)) k e = runtime_ok r k e"
  by (simp add: runtime_ok_def)

lemma runtime_ok_shut [simp]: "runtime_ok r k (shut_down_entry e) = runtime_ok r k e"
  "re_handle (shut_down_entry e) = re_handle e"
  by (simp_all add: runtime_ok_def shut_down_entry_def)

lemma drained:
  assumes "runtime_ok r k e"
  shows "ep_state (fst (mark_draining r (re_handle e))) k = Some EpDraining"
    and "ep_generation (fst (mark_draining r (re_handle e))) k = ep_generation r k"
    and "runtime_ok (fst (mark_draining r (re_handle e))) k e"
proof -
  from assms have i: "eh_id (re_handle e) = k" and g: "ep_generation r k = Some (eh_generation (re_handle e))"
    and s: "ep_state r k = Some EpActive \<or> ep_state r k = Some EpDraining" by (auto simp: runtime_ok_def)
  show 1: "ep_state (fst (mark_draining r (re_handle e))) k = Some EpDraining"
    "ep_generation (fst (mark_draining r (re_handle e))) k = ep_generation r k"
    using s transition_done [of r "re_handle e" EpActive EpDraining] transition_refused [of r "re_handle e" EpDraining EpDraining] g i
    by (auto simp: mark_defs)
  with assms show "runtime_ok (fst (mark_draining r (re_handle e))) k e" by (simp add: runtime_ok_def)
qed

text \<open>A transition of the endpoint of one entry, followed by a change of that entry only.\<close>

lemma keeps_own_transition:
  assumes "manager_ok m" and "hm_get (em_runtimes m) k = Some e"
    and "em_registry m' = fst (transition_inner (em_registry m) (re_handle e) t)"
    and "em_runtimes m' = hm_remove k (em_runtimes m) \<or>
      (\<exists>e'. em_runtimes m' = hm_insert k e' (em_runtimes m) \<and> runtime_ok (em_registry m') k e')"
  shows "keeps m m'"
proof -
  have i: "eh_id (re_handle e) = k" using runtime_get [OF assms(1,2)] by (simp add: runtime_ok_def)
  have o: "endpoints_ok (em_registry m')" using assms(1,3) by (simp add: manager_ok_iff transition_keeps_ok)
  have s: "settled m' j s" if "settled m j s" for j s
  proof -
    have "j \<noteq> k" using that assms(2) by (auto simp: settled_def)
    with that assms(3,4) i show ?thesis by (auto simp: settled_def)
  qed
  have "hm_wf (em_runtimes m')" using assms(1,4) by (auto simp: manager_ok_iff)
  moreover have "runtime_ok (em_registry m') j e'" if "hm_get (em_runtimes m') j = Some e'" for j e'
    using that assms(1,3,4) i by (auto simp: manager_ok_iff runtime_ok_other split: if_splits)
  ultimately have "manager_ok m'" using o by (simp add: manager_ok_iff)
  with s assms(3) show ?thesis by (simp add: keeps_def)
qed

lemma keeps_entry_update:
  assumes "manager_ok m" and "hm_get (em_runtimes m) k = Some e" and "runtime_ok (em_registry m) k e'"
  shows "keeps m (m\<lparr>em_runtimes := hm_insert k e' (em_runtimes m)\<rparr>)"
  using assms by (auto simp: keeps_def manager_ok_iff settled_def)

lemma keeps_remove_finished:
  "manager_ok m \<Longrightarrow> hm_get (em_runtimes m) k = Some e \<Longrightarrow> re_handle e' = re_handle e \<Longrightarrow> keeps m (remove_finished m k e')"
  by (rule keeps_own_transition [where t = EpDestroyed and e = e and k = k])
    (simp_all add: remove_finished_def on_registry_def mark_destroyed_def)

lemma keeps_drain:
  assumes "manager_ok m" and "hm_get (em_runtimes m) k = Some e"
  shows "keeps m (on_registry (\<lambda>r. mark_draining r (re_handle e)) m)"
  by (rule keeps_own_transition [OF assms, where t = EpDraining])
    (use drained(3) [OF runtime_get [OF assms]] assms(2) in \<open>auto simp: on_registry_def mark_draining_def intro!: exI [of _ e]\<close>)

section \<open>Every operation keeps the invariant\<close>

lemma keeps_cancel: "manager_ok m \<Longrightarrow> keeps m (cancel_endpoint m k)"
  by (auto simp: keeps_def manager_ok_iff settled_def cancel_endpoint_def hm_get_update split: if_splits)

lemma shutdown_flag [simp]:
  "endpoints_ok (r\<lparr>er_shutdown := b\<rparr>) = endpoints_ok r"
  "ep_state (r\<lparr>er_shutdown := b\<rparr>) k = ep_state r k"
  "runtime_ok (r\<lparr>er_shutdown := b\<rparr>) k e = runtime_ok r k e"
  by (simp_all add: endpoints_ok_def live_count_def ep_state_def ep_generation_def runtime_ok_def)

lemma keeps_cancel_all: "manager_ok m \<Longrightarrow> keeps m (cancel_all m)"
  by (auto simp: keeps_def manager_ok_iff settled_def cancel_all_def on_registry_def shutdown_registry_def)

lemma runtime_ok_worker:
  "runtime_ok r k e \<Longrightarrow> undelivered h \<Longrightarrow> runtime_ok r k (e\<lparr>re_worker := h\<rparr>)"
  "runtime_ok r k e \<Longrightarrow> undelivered h \<Longrightarrow> runtime_ok r k (e\<lparr>re_worker := h, re_state := st\<rparr>)"
  "runtime_ok r k (e\<lparr>re_state := st\<rparr>) = runtime_ok r k e"
  by (simp_all add: runtime_ok_def)

lemma runtime_undelivered: "runtime_ok r k e \<Longrightarrow> undelivered (re_worker e)"
  by (simp add: runtime_ok_def)

lemma keeps_destroy:
  assumes "manager_ok m"
  shows "keeps m (fst (destroy_endpoint m k ans t))"
proof (cases "hm_get (em_runtimes m) k")
  case None
  with assms show ?thesis by (simp add: destroy_endpoint_def keeps_refl)
next
  case (Some e)
  let ?m = "on_registry (\<lambda>r. mark_draining r (re_handle e)) m"
  have k: "keeps m ?m" by (rule keeps_drain [OF assms Some])
  then have ok: "manager_ok ?m" by (simp add: keeps_def)
  have e: "hm_get (em_runtimes ?m) k = Some e" using Some by (simp add: on_registry_def)
  note r = runtime_get [OF ok e]
  obtain h j where j: "join_timeout (re_worker (shut_down_entry e)) ans = (h, j)"
    by (cases "join_timeout (re_worker (shut_down_entry e)) ans")
  have "keeps ?m (fst (destroy_endpoint m k ans t))"
  proof (cases j)
    case (Finished outcome)
    with Some j keeps_remove_finished [OF ok e, of "shut_down_entry e"] show ?thesis by (simp add: destroy_endpoint_def Let_def)
  next
    case TimedOut
    with j have "undelivered h" using join_timeout_TimedOut r runtime_undelivered runtime_ok_shut(1) by metis
    with r have "runtime_ok (em_registry ?m) k (shut_down_entry e\<lparr>re_worker := h, re_state := RsShuttingDown\<rparr>)"
      by (simp add: runtime_ok_worker)
    with Some j TimedOut keeps_entry_update [OF ok e] show ?thesis by (simp add: destroy_endpoint_def Let_def)
  qed
  with k show ?thesis by (rule keeps_trans)
qed

lemma keeps_reap:
  assumes "manager_ok m"
  shows "keeps m (fst (reap_stopped m k fin ans))"
proof (cases "hm_get (em_runtimes m) k")
  case (Some e)
  note r = runtime_get [OF assms Some]
  obtain h j where j: "try_join (re_worker e) fin ans = (h, j)" by (cases "try_join (re_worker e) fin ans")
  show ?thesis
  proof (cases j)
    case None
    with j r have "undelivered h" using try_join_None runtime_undelivered by metis
    with r have "runtime_ok (em_registry m) k (e\<lparr>re_worker := h\<rparr>)" by (simp add: runtime_ok_worker)
    with Some j None keeps_entry_update [OF assms Some] keeps_refl [OF assms] show ?thesis by (simp add: reap_stopped_def)
  next
    case (Some outcome)
    with \<open>hm_get (em_runtimes m) k = Some e\<close> j keeps_remove_finished [OF assms, of k e e] keeps_refl [OF assms] show ?thesis
      by (simp add: reap_stopped_def)
  qed
qed (simp add: reap_stopped_def keeps_refl assms)

lemma keeps_retry:
  assumes "manager_ok m"
  shows "keeps m (fst (retry_destroy m k ans t))"
proof (cases "hm_get (em_runtimes m) k")
  case (Some e)
  note r = runtime_get [OF assms Some]
  obtain h j where j: "join_timeout (re_worker e) ans = (h, j)" by (cases "join_timeout (re_worker e) ans")
  show ?thesis
  proof (cases j)
    case (Finished outcome)
    with Some j keeps_remove_finished [OF assms Some, of e] keeps_refl [OF assms] show ?thesis by (simp add: retry_destroy_def)
  next
    case TimedOut
    with j r have "undelivered h" using join_timeout_TimedOut runtime_undelivered by metis
    with r have "runtime_ok (em_registry m) k (e\<lparr>re_worker := h\<rparr>)" by (simp add: runtime_ok_worker)
    with Some j TimedOut keeps_entry_update [OF assms Some] keeps_refl [OF assms] show ?thesis by (simp add: retry_destroy_def)
  qed
qed (simp add: retry_destroy_def keeps_refl assms)

lemma keeps_shutdown_one:
  assumes "manager_ok m"
  shows "keeps m (fst (shutdown_one zero ans k (m, res)))"
proof (cases "hm_get (em_runtimes m) k")
  case None
  with assms show ?thesis by (simp add: shutdown_one_def keeps_refl hm_update_def)
next
  case (Some e)
  let ?m = "on_registry (\<lambda>r. mark_draining r (re_handle e)) m"
  have k: "keeps m ?m" by (rule keeps_drain [OF assms Some])
  then have ok: "manager_ok ?m" by (simp add: keeps_def)
  have e: "hm_get (em_runtimes ?m) k = Some e" using Some by (simp add: on_registry_def)
  note r = runtime_get [OF ok e]
  have z: "keeps m (m\<lparr>em_runtimes := hm_insert k (e\<lparr>re_state := RsShuttingDown\<rparr>) (em_runtimes m)\<rparr>)"
    using keeps_entry_update [OF assms Some] runtime_get [OF assms Some] by (simp add: runtime_ok_worker)
  obtain h j where j: "join_timeout (re_worker e) (ans k) = (h, j)" by (cases "join_timeout (re_worker e) (ans k)")
  show ?thesis
  proof (cases j)
    case (Finished outcome)
    with Some j z keeps_trans [OF k keeps_remove_finished [OF ok e, of e]] show ?thesis
      by (simp add: shutdown_one_def Let_def hm_update_def)
  next
    case TimedOut
    with j r have "undelivered h" using join_timeout_TimedOut runtime_undelivered by metis
    with r have "runtime_ok (em_registry ?m) k (e\<lparr>re_worker := h, re_state := RsShuttingDown\<rparr>)" by (simp add: runtime_ok_worker)
    with Some j z TimedOut keeps_trans [OF k keeps_entry_update [OF ok e]] show ?thesis
      by (simp add: shutdown_one_def Let_def hm_update_def)
  qed
qed

lemma keeps_shutdown_fold: "manager_ok m \<Longrightarrow> keeps m (fst (fold (shutdown_one zero ans) ks (m, res)))"
proof (induction ks arbitrary: m res)
  case (Cons k ks)
  obtain m' res' where s: "shutdown_one zero ans k (m, res) = (m', res')" by (cases "shutdown_one zero ans k (m, res)")
  with keeps_shutdown_one [OF Cons.prems, of zero ans k res] have "keeps m m'" by simp
  moreover from this have "manager_ok m'" by (simp add: keeps_def)
  ultimately show ?case using s Cons.IH [of m' res'] by (simp add: keeps_trans)
qed (simp add: keeps_refl)

lemma keeps_shutdown_all: "manager_ok m \<Longrightarrow> keeps m (fst (shutdown_all m zero ans))"
proof -
  assume "manager_ok m"
  then have k: "keeps m (cancel_all m)" by (rule keeps_cancel_all)
  then have "manager_ok (cancel_all m)" by (simp add: keeps_def)
  from keeps_trans [OF k keeps_shutdown_fold [OF this]] show ?thesis by (simp add: shutdown_all_def Let_def)
qed

text \<open>Creation: the new endpoint is the only one that changes.\<close>

lemma create_endpoint_created:
  assumes "create_endpoint r eid b = (r', Created snap)"
  shows "eh_id (es_handle snap) = eid" and "ep_state r' eid = Some EpCreating"
    and "ep_generation r' eid = Some (eh_generation (es_handle snap))"
    and "k \<noteq> eid \<Longrightarrow> ep_state r' k = ep_state r k" and "k \<noteq> eid \<Longrightarrow> ep_generation r' k = ep_generation r k"
    and "er_max_endpoints r' = er_max_endpoints r" and "er_shutdown r' = er_shutdown r" and "\<not> er_shutdown r"
  using assms by (auto simp: create_endpoint_def Let_def ep_state_def ep_generation_def split: if_splits)

lemma create_endpoint_rejected: "create_endpoint r eid b = (r', CrRejected e) \<Longrightarrow> r' = r"
  by (auto simp: create_endpoint_def Let_def split: if_splits)

lemma keeps_fresh_registry:
  assumes "manager_ok m" and "ep_state (em_registry m) eid = None" and "endpoints_ok r'"
    and "\<And>k. k \<noteq> eid \<Longrightarrow> ep_state r' k = ep_state (em_registry m) k \<and> ep_generation r' k = ep_generation (em_registry m) k"
    and "er_max_endpoints r' = er_max_endpoints (em_registry m)" and "er_shutdown r' = er_shutdown (em_registry m)"
    and "rs' = em_runtimes m \<or> (\<exists>e. rs' = hm_insert eid e (em_runtimes m) \<and> runtime_ok r' eid e)"
  shows "keeps m (m\<lparr>em_registry := r', em_runtimes := rs'\<rparr>)"
proof -
  have n: "hm_get (em_runtimes m) eid = None"
    using assms(1,2) by (cases "hm_get (em_runtimes m) eid") (auto dest: runtime_get simp: runtime_ok_def)
  have o: "runtime_ok r' k e = runtime_ok (em_registry m) k e" if "k \<noteq> eid" for k e
    using assms(4) [OF that] by (simp add: runtime_ok_def)
  have "runtime_ok r' k e" if "hm_get rs' k = Some e" for k e
  proof (cases "k = eid")
    case True
    with that n assms(7) show ?thesis by auto
  next
    case False
    with that assms(7) have "hm_get (em_runtimes m) k = Some e" by auto
    with runtime_get [OF assms(1)] o [OF False] show ?thesis by simp
  qed
  moreover have "hm_wf rs'" using assms(1,7) by (auto simp: manager_ok_iff)
  moreover have "settled (m\<lparr>em_registry := r', em_runtimes := rs'\<rparr>) k s" if "settled m k s" for k s
  proof -
    have "k \<noteq> eid" using that assms(2) by (auto simp: settled_def)
    with that assms(4,7) show ?thesis by (auto simp: settled_def)
  qed
  ultimately show ?thesis using assms(3,5,6) by (simp add: keeps_def manager_ok_iff)
qed

lemma start_worker_starts:
  assumes "ep_state (em_registry m) eid = Some EpCreating" and "ep_generation (em_registry m) eid = Some (eh_generation h)"
    and "eh_id h = eid" and "endpoints_ok (em_registry m)"
  obtains r' where "start_worker dbg m h eid pid = (m\<lparr>em_registry := r', em_runtimes := hm_insert eid
      \<lparr>re_handle = h, re_profile_id = pid, re_state = RsRunning, re_worker = new_worker_handle\<rparr> (em_runtimes m)\<rparr>, Ok eid)"
    and "ep_state r' eid = Some EpActive" and "ep_generation r' eid = Some (eh_generation h)" and "endpoints_ok r'"
    and "\<And>k. k \<noteq> eid \<Longrightarrow> ep_state r' k = ep_state (em_registry m) k \<and> ep_generation r' k = ep_generation (em_registry m) k"
    and "er_max_endpoints r' = er_max_endpoints (em_registry m)" and "er_shutdown r' = er_shutdown (em_registry m)"
proof -
  obtain r1 o1 where t1: "transition_inner (em_registry m) h EpReady = (r1, o1)"
    by (cases "transition_inner (em_registry m) h EpReady")
  obtain r2 o2 where t2: "transition_inner r1 h EpActive = (r2, o2)" by (cases "transition_inner r1 h EpActive")
  have 1: "o1 = Transitioned EpCreating EpReady" "ep_state r1 eid = Some EpReady" "ep_generation r1 eid = Some (eh_generation h)"
    using transition_done [of "em_registry m" h EpCreating EpReady] assms(1-3) t1 by simp_all
  have 2: "o2 = Transitioned EpReady EpActive" "ep_state r2 eid = Some EpActive" "ep_generation r2 eid = Some (eh_generation h)"
    using transition_done [of r1 h EpReady EpActive] 1 assms(3) t2 by simp_all
  have "start_worker dbg m h eid pid = (m\<lparr>em_registry := r2, em_runtimes := hm_insert eid
      \<lparr>re_handle = h, re_profile_id = pid, re_state = RsRunning, re_worker = new_worker_handle\<rparr> (em_runtimes m)\<rparr>, Ok eid)"
    using t1 t2 1 2 by (simp add: start_worker_def mark_defs)
  moreover have "endpoints_ok r2"
    using transition_keeps_ok [OF transition_keeps_ok [OF assms(4)], of h EpReady h EpActive] t1 t2 by simp
  moreover have "ep_state r2 k = ep_state (em_registry m) k \<and> ep_generation r2 k = ep_generation (em_registry m) k" if "k \<noteq> eid" for k
    using transition_other [of k h "em_registry m" EpReady] transition_other [of k h r1 EpActive] that t1 t2 assms(3) by simp
  moreover have "er_max_endpoints r2 = er_max_endpoints (em_registry m)" "er_shutdown r2 = er_shutdown (em_registry m)"
    using transition_max [of "em_registry m" h EpReady] transition_max [of r1 h EpActive]
      transition_shutdown [of "em_registry m" h EpReady] transition_shutdown [of r1 h EpActive] t1 t2 by simp_all
  ultimately show thesis using that 2 by blast
qed

lemma keeps_create:
  assumes "manager_ok m" and "ep_state (em_registry m) eid = None"
  shows "keeps m (fst (create_and_start_by dbg m dc eid b pid f made))"
proof (cases dc)
  case False
  obtain r1 o1 where c: "create_endpoint (em_registry m) eid b = (r1, o1)" by (cases "create_endpoint (em_registry m) eid b")
  show ?thesis
  proof (cases o1)
    case (CrRejected e)
    with c create_endpoint_rejected have "r1 = em_registry m" by blast
    with c CrRejected assms(1) show ?thesis by (simp add: create_and_start_by_def keeps_refl)
  next
    case (Created snap)
    note n = create_endpoint_created [OF c [unfolded Created]]
    let ?h = "es_handle snap"
    have ok: "endpoints_ok r1" using create_keeps_ok [of "em_registry m" eid b] assms(1) c by (simp add: manager_ok_iff)
    have failed: "keeps m (on_registry (\<lambda>r. mark_failed r ?h reason) (m\<lparr>em_registry := r1\<rparr>))" for reason
    proof -
      have "keeps m (m\<lparr>em_registry := fst (mark_failed r1 ?h reason), em_runtimes := em_runtimes m\<rparr>)"
        by (rule keeps_fresh_registry [OF assms]) (use n ok in \<open>simp_all add: mark_defs transition_keeps_ok\<close>)
      then show ?thesis by (simp add: on_registry_def)
    qed
    obtain r2 where w: "start_worker dbg (m\<lparr>em_registry := r1\<rparr>) ?h eid pid = (m\<lparr>em_registry := r2, em_runtimes := hm_insert eid
        \<lparr>re_handle = ?h, re_profile_id = pid, re_state = RsRunning, re_worker = new_worker_handle\<rparr> (em_runtimes m)\<rparr>, Ok eid)"
      and r2: "ep_state r2 eid = Some EpActive" "ep_generation r2 eid = Some (eh_generation ?h)" "endpoints_ok r2"
        "\<And>k. k \<noteq> eid \<Longrightarrow> ep_state r2 k = ep_state r1 k \<and> ep_generation r2 k = ep_generation r1 k"
        "er_max_endpoints r2 = er_max_endpoints r1" "er_shutdown r2 = er_shutdown r1"
      by (rule start_worker_starts [of "m\<lparr>em_registry := r1\<rparr>" eid ?h dbg pid]) (use n ok in simp_all)
    have started: "keeps m (fst (start_worker dbg (m\<lparr>em_registry := r1\<rparr>) ?h eid pid))"
      unfolding w fst_conv
    proof (rule keeps_fresh_registry [OF assms r2(3)])
      have "runtime_ok r2 eid \<lparr>re_handle = ?h, re_profile_id = pid, re_state = RsRunning, re_worker = new_worker_handle\<rparr>"
        using n(1) r2(1,2) by (simp add: runtime_ok_def)
      then show "hm_insert eid \<lparr>re_handle = ?h, re_profile_id = pid, re_state = RsRunning, re_worker = new_worker_handle\<rparr>
          (em_runtimes m) = em_runtimes m \<or> (\<exists>e. hm_insert eid \<lparr>re_handle = ?h, re_profile_id = pid, re_state = RsRunning,
          re_worker = new_worker_handle\<rparr> (em_runtimes m) = hm_insert eid e (em_runtimes m) \<and> runtime_ok r2 eid e)"
        by blast
    qed (use n r2 in simp_all)
    show ?thesis using False c Created failed started n(1)
      by (simp add: create_and_start_by_def Let_def split: sum.split)
  qed
qed (simp add: create_and_start_by_def keeps_refl assms(1))

lemma keeps_step:
  assumes "manager_ok m" and "fresh_op m x"
  shows "keeps m (fst (manager_step dbg m x))"
  using assms by (cases x) (simp_all add: create_and_start_full_def create_and_start_with_transport_full_def keeps_create ep_state_def
      keeps_cancel keeps_cancel_all keeps_destroy keeps_reap keeps_retry keeps_shutdown_all)

lemma keeps_run: "manager_ok m \<Longrightarrow> fresh_run dbg m xs \<Longrightarrow> keeps m (run_state (manager_step dbg) m xs)"
proof (induction xs arbitrary: m)
  case (Cons x xs)
  then have k: "keeps m (fst (manager_step dbg m x))" by (simp add: keeps_step)
  then have "manager_ok (fst (manager_step dbg m x))" by (simp add: keeps_def)
  with Cons.IH Cons.prems(2) keeps_trans [OF k] show ?case by simp
qed (simp add: keeps_refl)

lemma manager_ok_new [simp]: "manager_ok (new_manager mx cfg)"
  by (simp add: manager_ok_iff new_manager_def new_registry_def endpoints_ok_def live_count_def)

section \<open>Properties\<close>

lemma runtimes_le_live:
  assumes "manager_ok m"
  shows "length (em_runtimes m) \<le> live_count (em_registry m)"
proof -
  let ?live = "{k. \<exists>e. hm_get (er_endpoints (em_registry m)) k = Some e \<and> \<not> ep_is_terminal (ee_state e)}"
  have w: "hm_wf (em_runtimes m)" "hm_wf (er_endpoints (em_registry m))" using assms by (simp_all add: manager_ok_iff endpoints_ok_def)
  have "length (em_runtimes m) = card (fst ` set (em_runtimes m))"
    using w(1) distinct_card [of "map fst (em_runtimes m)"] by (simp add: hm_wf_def)
  also have "\<dots> \<le> card ?live"
  proof (rule card_mono)
    show "finite ?live"
      by (rule finite_subset [of _ "fst ` set (er_endpoints (em_registry m))"]) (force dest: hm_get_in_set)+
    show "fst ` set (em_runtimes m) \<subseteq> ?live"
      using w(1) runtime_get [OF assms] by (force simp: hm_get_iff [symmetric] runtime_ok_def ep_state_def ep_is_terminal_def)
  qed
  also have "\<dots> = live_count (em_registry m)" using w(2) by (simp add: live_count_def hm_count_card)
  finally show ?thesis .
qed

text \<open>C16. Whatever sequence of operations is run, with new identifiers for new endpoints, at most as many endpoints as
  configured are live, and at most as many workers run.\<close>

theorem endpoint_capacity:
  assumes "fresh_run dbg (new_manager mx cfg) xs"
  shows "live_count (em_registry (run_state (manager_step dbg) (new_manager mx cfg) xs)) \<le> mx \<and>
    length (em_runtimes (run_state (manager_step dbg) (new_manager mx cfg) xs))
      \<le> live_count (em_registry (run_state (manager_step dbg) (new_manager mx cfg) xs))"
proof -
  have k: "keeps (new_manager mx cfg) (run_state (manager_step dbg) (new_manager mx cfg) xs)"
    by (rule keeps_run [OF manager_ok_new assms])
  then show ?thesis
    using runtimes_le_live by (auto simp: keeps_def manager_ok_def endpoints_ok_def new_manager_def new_registry_def)
qed

text \<open>The end of a draining endpoint.\<close>

lemma hm_count_insert_drop:
  "hm_get m k = Some v \<Longrightarrow> p v \<Longrightarrow> \<not> p w \<Longrightarrow> Suc (hm_count p (hm_insert k w m)) = hm_count p m"
  by (induction m) (auto simp: hm_get_def hm_insert_def split: if_splits)

lemma hm_count_insert_eq:
  "hm_get m k = Some v \<Longrightarrow> p v = p w \<Longrightarrow> hm_count p (hm_insert k w m) = hm_count p m"
  by (induction m) (auto simp: hm_get_def hm_insert_def split: if_splits)

lemma transition_live_count:
  assumes "ep_state r (eh_id h) = Some s" and "\<not> ep_is_terminal s" and "snd (transition_inner r h t) = Transitioned s t"
  shows "live_count r = (if ep_is_terminal t then Suc (live_count (fst (transition_inner r h t)))
    else live_count (fst (transition_inner r h t)))"
  using assms by (auto simp: live_count_def ep_state_def transition_inner_def Let_def
      hm_count_insert_drop [symmetric] hm_count_insert_eq split: option.splits if_splits)

lemma drained_live_count:
  assumes "runtime_ok r k e"
  shows "live_count (fst (mark_draining r (re_handle e))) = live_count r"
proof -
  from assms have i: "eh_id (re_handle e) = k" "ep_generation r k = Some (eh_generation (re_handle e))"
    and s: "ep_state r k = Some EpActive \<or> ep_state r k = Some EpDraining" by (auto simp: runtime_ok_def)
  from s show ?thesis
  proof
    assume "ep_state r k = Some EpActive"
    with i transition_done(1) [of r "re_handle e" EpActive EpDraining] transition_live_count [of r "re_handle e" EpActive EpDraining]
    show ?thesis by (simp add: mark_draining_def ep_is_terminal_def)
  next
    assume "ep_state r k = Some EpDraining"
    with i transition_refused(1) [of r "re_handle e" EpDraining EpDraining] show ?thesis by (simp add: mark_draining_def)
  qed
qed

text \<open>What a destroyed endpoint leaves behind.\<close>

definition gone :: "endpoint_manager \<Rightarrow> endpoint_id \<Rightarrow> endpoint_manager \<Rightarrow> bool" where
  "gone m k m' = (settled m' k EpDestroyed \<and> Suc (live_count (em_registry m')) = live_count (em_registry m))"

lemma remove_finished_gone:
  assumes "runtime_ok (em_registry m) k e" and "ep_state (em_registry m) k = Some EpDraining"
  shows "gone m k (remove_finished m k e)"
proof -
  from assms(1) have i: "eh_id (re_handle e) = k" "ep_generation (em_registry m) k = Some (eh_generation (re_handle e))"
    by (auto simp: runtime_ok_def)
  have d: "snd (mark_destroyed (em_registry m) (re_handle e)) = Transitioned EpDraining EpDestroyed"
    "ep_state (fst (mark_destroyed (em_registry m) (re_handle e))) k = Some EpDestroyed"
    using transition_done [of "em_registry m" "re_handle e" EpDraining EpDestroyed] assms(2) i by (simp_all add: mark_destroyed_def)
  have "live_count (em_registry m) = Suc (live_count (fst (mark_destroyed (em_registry m) (re_handle e))))"
    using transition_live_count [of "em_registry m" "re_handle e" EpDraining EpDestroyed] d(1) assms(2) i
    by (simp add: mark_destroyed_def ep_is_terminal_def)
  with d(2) show ?thesis by (simp add: gone_def settled_def remove_finished_def on_registry_def)
qed

lemma destroy_finished:
  assumes "manager_ok m" and "hm_get (em_runtimes m) k = Some e"
  shows "snd (destroy_endpoint m k (RecvOk outcome) t) = finished_outcome k t outcome"
    and "gone m k (fst (destroy_endpoint m k (RecvOk outcome) t))"
proof -
  note r = runtime_get [OF assms]
  let ?e = "shut_down_entry e" and ?m = "on_registry (\<lambda>r. mark_draining r (re_handle e)) m"
  obtain h where j: "join_timeout (re_worker ?e) (RecvOk outcome) = (h, Finished outcome)"
    using join_timeout_undelivered(1) [of "re_worker ?e" outcome] runtime_undelivered [of "em_registry m" k ?e] r
    by (cases "join_timeout (re_worker ?e) (RecvOk outcome)") simp
  have d: "destroy_endpoint m k (RecvOk outcome) t = (remove_finished ?m k ?e, finished_outcome k t outcome)"
    using assms(2) j by (simp add: destroy_endpoint_def Let_def)
  then show "snd (destroy_endpoint m k (RecvOk outcome) t) = finished_outcome k t outcome" by simp
  have "gone ?m k (remove_finished ?m k ?e)"
    by (rule remove_finished_gone) (use drained [OF r] in \<open>simp_all add: on_registry_def\<close>)
  with drained_live_count [OF r] show "gone m k (fst (destroy_endpoint m k (RecvOk outcome) t))"
    unfolding d gone_def by (simp add: on_registry_def)
qed

lemma destroy_timed_out:
  assumes "manager_ok m" and "hm_get (em_runtimes m) k = Some e"
  shows "snd (destroy_endpoint m k RecvNothing t) = DestroyTimedOut k t"
    and "\<exists>e'. hm_get (em_runtimes (fst (destroy_endpoint m k RecvNothing t))) k = Some e' \<and> re_state e' = RsShuttingDown \<and>
      wh_cancel (re_worker e') \<and> wh_pending_rx (re_worker e')"
    and "ep_state (em_registry (fst (destroy_endpoint m k RecvNothing t))) k = Some EpDraining"
    and "live_count (em_registry (fst (destroy_endpoint m k RecvNothing t))) = live_count (em_registry m)"
proof -
  note r = runtime_get [OF assms]
  let ?e = "shut_down_entry e" and ?m = "on_registry (\<lambda>r. mark_draining r (re_handle e)) m"
  have u: "undelivered (re_worker ?e)" using r by (simp add: runtime_undelivered [of "em_registry m" k])
  obtain h where j: "join_timeout (re_worker ?e) RecvNothing = (h, TimedOut)"
    using join_timeout_undelivered(2) [OF u] by (cases "join_timeout (re_worker ?e) RecvNothing") simp
  with u have h: "wh_pending_rx h" "wh_cancel h" by (auto simp: join_timeout_def undelivered_def shut_down_entry_def cancel_worker_def Let_def split: if_splits)
  have d: "destroy_endpoint m k RecvNothing t =
      (?m\<lparr>em_runtimes := hm_insert k (?e\<lparr>re_worker := h, re_state := RsShuttingDown\<rparr>) (em_runtimes ?m)\<rparr>, DestroyTimedOut k t)"
    using assms(2) j by (simp add: destroy_endpoint_def Let_def)
  show "snd (destroy_endpoint m k RecvNothing t) = DestroyTimedOut k t"
    "\<exists>e'. hm_get (em_runtimes (fst (destroy_endpoint m k RecvNothing t))) k = Some e' \<and> re_state e' = RsShuttingDown \<and>
      wh_cancel (re_worker e') \<and> wh_pending_rx (re_worker e')"
    unfolding d using h by simp_all
  show "ep_state (em_registry (fst (destroy_endpoint m k RecvNothing t))) k = Some EpDraining"
    "live_count (em_registry (fst (destroy_endpoint m k RecvNothing t))) = live_count (em_registry m)"
    unfolding d using drained [OF r] drained_live_count [OF r] by (simp_all add: on_registry_def)
qed

lemma reap_pending:
  assumes "manager_ok m" and "hm_get (em_runtimes m) k = Some e" and "re_state e = RsShuttingDown" and "wh_pending_rx (re_worker e)"
    and "ep_state (em_registry m) k = Some EpDraining"
  shows "snd (reap_stopped m k fin (RecvOk outcome)) = Reaped k" and "gone m k (fst (reap_stopped m k fin (RecvOk outcome)))"
  using assms remove_finished_gone [OF runtime_get [OF assms(1,2)] assms(5)]
  by (simp_all add: reap_stopped_def try_join_def Let_def)

text \<open>C17. Destroying an endpoint whose worker ends in time reports how the worker ended, removes the entry, leaves
  the endpoint destroyed and makes its place free; when the worker does not end in time, the entry is kept, the
  worker is cancelled, and reaping it after its end does the same.\<close>

theorem destroy_frees_slot:
  assumes "fresh_run dbg (new_manager mx cfg) xs" and "m = run_state (manager_step dbg) (new_manager mx cfg) xs"
    and "hm_get (em_runtimes m) k = Some e"
  shows "snd (destroy_endpoint m k (RecvOk outcome) t) = finished_outcome k t outcome \<and>
    gone m k (fst (destroy_endpoint m k (RecvOk outcome) t)) \<and>
    snd (destroy_endpoint m k RecvNothing t) = DestroyTimedOut k t \<and>
    (\<exists>e'. hm_get (em_runtimes (fst (destroy_endpoint m k RecvNothing t))) k = Some e' \<and> wh_cancel (re_worker e')) \<and>
    snd (reap_stopped (fst (destroy_endpoint m k RecvNothing t)) k fin (RecvOk outcome)) = Reaped k \<and>
    gone m k (fst (reap_stopped (fst (destroy_endpoint m k RecvNothing t)) k fin (RecvOk outcome)))"
proof -
  have ok: "manager_ok m" using keeps_run [OF manager_ok_new assms(1)] assms(2) by (simp add: keeps_def)
  let ?m = "fst (destroy_endpoint m k RecvNothing t)"
  have ok': "manager_ok ?m" using keeps_destroy [OF ok, of k RecvNothing t] by (simp add: keeps_def)
  note d = destroy_timed_out [OF ok assms(3), of t]
  from d(2) obtain e' where e': "hm_get (em_runtimes ?m) k = Some e'" "re_state e' = RsShuttingDown" "wh_pending_rx (re_worker e')"
    "wh_cancel (re_worker e')" by blast
  note p = reap_pending [OF ok' e'(1-3) d(3), of fin outcome]
  have "gone m k (fst (reap_stopped ?m k fin (RecvOk outcome)))" using p(2) d(4) by (simp add: gone_def)
  with destroy_finished [OF ok assms(3), of outcome t] d(1) e' p(1) show ?thesis by blast
qed

lemma cancel_then_reap:
  assumes "manager_ok m" and "hm_get (em_runtimes m) k = Some e" and "ep_state (em_registry m) k = Some EpActive"
  shows "snd (reap_stopped (cancel_endpoint m k) k True (RecvOk outcome)) = Reaped k"
    and "settled (fst (reap_stopped (cancel_endpoint m k) k True (RecvOk outcome))) k EpActive"
proof -
  note r = runtime_get [OF assms(1,2)]
  let ?e = "shut_down_entry e" and ?m = "cancel_endpoint m k"
  have e: "hm_get (em_runtimes ?m) k = Some ?e" using assms(2) by (simp add: cancel_endpoint_def hm_get_update)
  have "undelivered (re_worker ?e)" using r by (simp add: runtime_undelivered [of "em_registry m" k])
  then obtain h where j: "try_join (re_worker ?e) True (RecvOk outcome) = (h, Some outcome)"
    by (cases "wh_pending_rx (re_worker ?e)") (auto simp: undelivered_def try_join_def Let_def)
  have eq: "reap_stopped ?m k True (RecvOk outcome) = (remove_finished ?m k ?e, Reaped k)"
    using e j by (simp add: reap_stopped_def) (simp add: shut_down_entry_def)
  have "fst (mark_destroyed (em_registry m) (re_handle e)) = em_registry m"
    using transition_refused(1) [of "em_registry m" "re_handle e" EpActive EpDestroyed] assms(3) r by (simp add: mark_destroyed_def runtime_ok_def)
  then show "snd (reap_stopped ?m k True (RecvOk outcome)) = Reaped k" "settled (fst (reap_stopped ?m k True (RecvOk outcome))) k EpActive"
    unfolding eq using assms(3) by (simp_all add: settled_def remove_finished_def on_registry_def cancel_endpoint_def)
qed

text \<open>C31. When an active endpoint is cancelled and its worker is reaped, the entry is removed, but the registry refuses
  to go from active to destroyed: the endpoint stays active without a worker in every later state, and its
  place is never free again.\<close>

theorem cancelled_endpoint_leaks_slot:
  assumes "fresh_run dbg (new_manager mx cfg) xs" and "m = run_state (manager_step dbg) (new_manager mx cfg) xs"
    and "hm_get (em_runtimes m) k = Some e" and "ep_state (em_registry m) k = Some EpActive"
    and "m' = fst (reap_stopped (cancel_endpoint m k) k True (RecvOk outcome))" and "fresh_run dbg m' ys"
  shows "snd (reap_stopped (cancel_endpoint m k) k True (RecvOk outcome)) = Reaped k \<and>
    settled (run_state (manager_step dbg) m' ys) k EpActive"
proof -
  have ok: "manager_ok m" using keeps_run [OF manager_ok_new assms(1)] assms(2) by (simp add: keeps_def)
  then have "manager_ok (cancel_endpoint m k)" using keeps_cancel by (simp add: keeps_def)
  then have "manager_ok m'" using keeps_reap assms(5) by (simp add: keeps_def)
  then have "keeps m' (run_state (manager_step dbg) m' ys)" using keeps_run assms(6) by blast
  with cancel_then_reap [OF ok assms(3,4)] assms(5) show ?thesis by (simp add: keeps_def)
qed

section \<open>Shutting everything down\<close>

text \<open>The endpoints that the result names.\<close>

definition accounted :: "shutdown_all_result \<Rightarrow> endpoint_id multiset" where
  "accounted res = mset (sa_destroyed res @ sa_timed_out res @ map fst (sa_failed res) @ sa_panicked res)"

lemma shutdown_one_accounts:
  assumes "hm_get (em_runtimes m) k = Some e" and "shutdown_one zero ans k (m, res) = (m', res')"
  shows "accounted res' = add_mset k (accounted res)"
    and "sa_timed_out res' = sa_timed_out res @ [k] \<and> hm_get (em_runtimes m') k \<noteq> None \<or>
      sa_timed_out res' = sa_timed_out res \<and> hm_get (em_runtimes m') k = None"
    and "j \<noteq> k \<Longrightarrow> hm_get (em_runtimes m') j = hm_get (em_runtimes m) j"
  using assms by (auto simp: shutdown_one_def accounted_def Let_def hm_update_def remove_finished_def on_registry_def
      split: if_splits prod.splits join_outcome.splits worker_outcome.splits)

lemma shutdown_fold_accounts:
  "distinct ks \<Longrightarrow> (\<forall>k \<in> set ks. hm_get (em_runtimes m) k \<noteq> None) \<Longrightarrow>
    fold (shutdown_one zero ans) ks (m, res) = (m', res') \<Longrightarrow>
    accounted res' = mset ks + accounted res \<and> (\<exists>ts. sa_timed_out res' = sa_timed_out res @ ts \<and> set ts \<subseteq> set ks \<and>
      (\<forall>k. hm_get (em_runtimes m') k \<noteq> None \<longleftrightarrow> (if k \<in> set ks then k \<in> set ts else hm_get (em_runtimes m) k \<noteq> None)))"
proof (induction ks arbitrary: m res)
  case Nil
  then show ?case by (auto intro: exI [of _ "[]"])
next
  case (Cons k ks)
  obtain m1 res1 where s: "shutdown_one zero ans k (m, res) = (m1, res1)" by (cases "shutdown_one zero ans k (m, res)")
  from Cons.prems(2) obtain e where e: "hm_get (em_runtimes m) k = Some e" by auto
  note a = shutdown_one_accounts [OF e s]
  have "\<forall>j \<in> set ks. hm_get (em_runtimes m1) j \<noteq> None" using Cons.prems(1,2) a(3) by (auto; metis option.distinct(1))
  with Cons.IH [of m1 res1] Cons.prems(1,3) s obtain ts where ts: "accounted res' = mset ks + accounted res1"
    "sa_timed_out res' = sa_timed_out res1 @ ts" "set ts \<subseteq> set ks"
    "\<And>j. hm_get (em_runtimes m') j \<noteq> None \<longleftrightarrow> (if j \<in> set ks then j \<in> set ts else hm_get (em_runtimes m1) j \<noteq> None)"
    by auto
  have k: "k \<notin> set ks" "k \<notin> set ts" using Cons.prems(1) ts(3) by auto
  from a(2) show ?case
  proof
    assume t: "sa_timed_out res1 = sa_timed_out res @ [k] \<and> hm_get (em_runtimes m1) k \<noteq> None"
    show ?thesis
      by (intro conjI exI [of _ "k # ts"] allI) (use t ts a k in \<open>auto split: if_splits\<close>)
  next
    assume t: "sa_timed_out res1 = sa_timed_out res \<and> hm_get (em_runtimes m1) k = None"
    show ?thesis
      by (intro conjI exI [of _ ts] allI) (use t ts a k in \<open>auto split: if_splits\<close>)
  qed
qed

lemma create_after_shutdown:
  "er_shutdown (em_registry m) \<Longrightarrow> snd (manager_step dbg m x) = MoCreated r \<Longrightarrow> \<exists>e. r = Err e"
  by (cases x) (auto simp: create_and_start_full_def create_and_start_with_transport_full_def create_and_start_by_def create_endpoint_def
      split: if_splits)

lemma no_creation_after_shutdown:
  "manager_ok m \<Longrightarrow> er_shutdown (em_registry m) \<Longrightarrow> fresh_run dbg m ys \<Longrightarrow>
    (x, MoCreated r) \<in> set (run_trace (manager_step dbg) m ys) \<Longrightarrow> \<exists>e. r = Err e"
proof (induction ys arbitrary: m)
  case (Cons y ys)
  let ?m = "fst (manager_step dbg m y)"
  have "keeps m ?m" using Cons.prems by (simp add: keeps_step)
  then have "manager_ok ?m" "er_shutdown (em_registry ?m)" using Cons.prems(2) by (simp_all add: keeps_def)
  with Cons.IH [of ?m] Cons.prems create_after_shutdown [of m dbg y] show ?case by auto
qed simp

text \<open>C30. \<open>shutdown_all\<close> accounts for every worker exactly once, as destroyed, timed out, failed or panicked; exactly the
  workers that timed out keep their entries; and no later operation creates an endpoint.\<close>

theorem shutdown_all_accounts:
  assumes "fresh_run dbg (new_manager mx cfg) xs" and "m = run_state (manager_step dbg) (new_manager mx cfg) xs"
    and "shutdown_all m zero ans = (m', res)" and "fresh_run dbg m' ys"
  shows "accounted res = mset (map fst (em_runtimes m)) \<and>
    {k. hm_get (em_runtimes m') k \<noteq> None} = set (sa_timed_out res) \<and>
    (\<forall>x r. (x, MoCreated r) \<in> set (run_trace (manager_step dbg) m' ys) \<longrightarrow> (\<exists>e. r = Err e))"
proof -
  have ok: "manager_ok m" using keeps_run [OF manager_ok_new assms(1)] assms(2) by (simp add: keeps_def)
  let ?c = "cancel_all m" and ?z = "\<lparr>sa_destroyed = [], sa_timed_out = [], sa_failed = [], sa_panicked = []\<rparr>"
  have c: "keeps m ?c" "er_shutdown (em_registry ?c)" "map fst (em_runtimes ?c) = map fst (em_runtimes m)"
    using keeps_cancel_all [OF ok] by (simp_all add: cancel_all_def on_registry_def shutdown_registry_def)
  then have okc: "manager_ok ?c" by (simp add: keeps_def)
  have f: "fold (shutdown_one zero ans) (map fst (em_runtimes ?c)) (?c, ?z) = (m', res)"
    using assms(3) by (simp add: shutdown_all_def Let_def)
  have ks: "distinct (map fst (em_runtimes ?c))" using okc by (simp add: manager_ok_iff hm_wf_def)
  have mem: "k \<in> set (map fst (em_runtimes ?c)) \<longleftrightarrow> hm_get (em_runtimes ?c) k \<noteq> None" for k
    by (simp add: hm_get_def map_of_eq_None_iff)
  then obtain ts where ts: "accounted res = mset (map fst (em_runtimes ?c)) + accounted ?z" "sa_timed_out res = sa_timed_out ?z @ ts"
      "set ts \<subseteq> set (map fst (em_runtimes ?c))"
      "\<And>k. hm_get (em_runtimes m') k \<noteq> None \<longleftrightarrow>
        (if k \<in> set (map fst (em_runtimes ?c)) then k \<in> set ts else hm_get (em_runtimes ?c) k \<noteq> None)"
    using shutdown_fold_accounts [OF ks _ f] by blast
  have a: "accounted res = mset (map fst (em_runtimes m))" using ts(1) c(3) by (simp add: accounted_def)
  have "hm_get (em_runtimes m') k \<noteq> None \<longleftrightarrow> k \<in> set ts" for k
  proof (cases "k \<in> set (map fst (em_runtimes ?c))")
    case True
    with ts(4) [of k] show ?thesis by (simp only: if_True)
  next
    case False
    then have "k \<notin> set ts" using ts(3) by blast
    with False ts(4) [of k] mem [of k] show ?thesis by (simp only: if_False)
  qed
  then have t: "{k. hm_get (em_runtimes m') k \<noteq> None} = set (sa_timed_out res)" using ts(2) by auto
  have "keeps ?c m'" using keeps_shutdown_fold [OF okc, of zero ans "map fst (em_runtimes ?c)" ?z] f by simp
  then have "manager_ok m'" "er_shutdown (em_registry m')" using c(2) by (simp_all add: keeps_def)
  with a t no_creation_after_shutdown assms(4) show ?thesis by blast
qed

section \<open>Examples\<close>

definition sample_binding :: endpoint_binding where
  "sample_binding = \<lparr>eb_profile_id = ProfileId ''p'', eb_mode = Isolated\<rparr>"

definition sample_create :: "string \<Rightarrow> manager_op" where
  "sample_create i = MCreateTransport False (EndpointId i) sample_binding ''p'' None (Ok ())"

definition sample_entry :: "string \<Rightarrow> u64 \<Rightarrow> runtime_entry" where
  "sample_entry i g = \<lparr>re_handle = \<lparr>eh_id = EndpointId i, eh_generation = g\<rparr>, re_profile_id = ''p'', re_state = RsRunning,
     re_worker = new_worker_handle\<rparr>"

definition sample_manager :: endpoint_manager where
  "sample_manager = \<lparr>em_registry = \<lparr>er_endpoints = [(EndpointId ''a'', \<lparr>ee_handle = \<lparr>eh_id = EndpointId ''a'', eh_generation = 1\<rparr>,
       ee_state = EpActive, ee_binding = sample_binding\<rparr>)], er_next_generation = 2, er_shutdown = False, er_max_endpoints = 1\<rparr>,
     em_runtimes = [(EndpointId ''a'', sample_entry ''a'' 1)], em_worker_config = default_worker_config\<rparr>"

lemma sample_run:
  "fresh_run (\<lambda>_. []) (new_manager 1 default_worker_config) [sample_create ''a'']"
  "run_state (manager_step (\<lambda>_. [])) (new_manager 1 default_worker_config) [sample_create ''a''] = sample_manager"
  by (simp_all add: sample_create_def sample_manager_def sample_entry_def new_manager_def new_registry_def
      create_and_start_with_transport_full_def create_and_start_by_def create_endpoint_def live_count_def start_worker_def
      mark_defs transition_inner_def hm_insert_def hm_get_def Let_def)

theorem endpoint_capacity_witness:
  "live_count (em_registry (run_state (manager_step (\<lambda>_. [])) (new_manager 1 default_worker_config) [sample_create ''a''])) \<le> 1 \<and>
    em_runtimes (run_state (manager_step (\<lambda>_. [])) (new_manager 1 default_worker_config) [sample_create ''a'']) \<noteq> []"
  using endpoint_capacity [OF sample_run(1)] unfolding sample_run(2) by (simp add: sample_manager_def)

lemma sample_manager_facts:
  "hm_get (em_runtimes sample_manager) (EndpointId ''a'') = Some (sample_entry ''a'' 1)"
  "ep_state (em_registry sample_manager) (EndpointId ''a'') = Some EpActive"
  "map fst (em_runtimes sample_manager) = [EndpointId ''a'']"
  by (simp_all add: sample_manager_def hm_get_def ep_state_def)

theorem destroy_frees_slot_witness:
  "snd (destroy_endpoint sample_manager (EndpointId ''a'') (RecvOk (WError (WkRead ''x''))) 3) =
      WorkerFailed (EndpointId ''a'') ''read error: x'' \<and>
    gone sample_manager (EndpointId ''a'')
      (fst (destroy_endpoint sample_manager (EndpointId ''a'') (RecvOk (WError (WkRead ''x''))) 3))"
  using destroy_frees_slot [OF sample_run(1) sample_run(2) [symmetric] sample_manager_facts(1), of "WError (WkRead ''x'')" 3 True]
  by (simp add: finished_outcome_def worker_error_display_def)

theorem cancelled_endpoint_leaks_slot_witness:
  "settled (fst (reap_stopped (cancel_endpoint sample_manager (EndpointId ''a'')) (EndpointId ''a'') True (RecvOk WClean)))
    (EndpointId ''a'') EpActive"
  using cancelled_endpoint_leaks_slot [OF sample_run(1) sample_run(2) [symmetric] sample_manager_facts(1,2) refl, of WClean "[]"]
  by simp

theorem shutdown_all_accounts_witness:
  "accounted (snd (shutdown_all sample_manager (\<lambda>_. False) (\<lambda>_. RecvNothing))) = {#EndpointId ''a''#} \<and>
    {k. hm_get (em_runtimes (fst (shutdown_all sample_manager (\<lambda>_. False) (\<lambda>_. RecvNothing)))) k \<noteq> None} =
      set (sa_timed_out (snd (shutdown_all sample_manager (\<lambda>_. False) (\<lambda>_. RecvNothing))))"
  using shutdown_all_accounts [OF sample_run(1) sample_run(2) [symmetric], of "\<lambda>_. False" "\<lambda>_. RecvNothing" _ _ "[]"]
  by (simp add: sample_manager_facts(3) prod_eq_iff)

end
