(* ===== verification/Spec2Isabelle.thy ===== *)
theory Spec2Isabelle
  imports Runtime_Examples Interaction Audit_Safety Delegated_Views Endpoint_Manager
begin

text \<open>
  \<^bold>\<open>A verification of the agent mode of Passless.\<close>  Passless is a software authenticator: a daemon that
  offers a virtual FIDO2 device to browsers and keeps passkeys in a credential store.  In agent mode programs that act
  for the user may use passkeys under a policy, with human approval and an audit log.  All paths are below
  \<open>src/passless/\<close>.

  \<^bold>\<open>The parts and how they interact.\<close>  The configuration of agent profiles
  (\<open>passless-core/src/agent/config.rs\<close>) is validated and compiled to policy snapshots.  The policy runtime
  (\<open>cmd/passless/src/agent/policy_engine.rs\<close>) joins the current generation of snapshots, the store of intents
  (\<open>intent.rs\<close>) and the grant registries (\<open>grant.rs\<close>): it takes requests, lets a human approve them, claims an
  approved intent for a ceremony and hands out a handle that the authenticator consumes once.  User presence and
  verification during the ceremony are answered from interaction tokens (\<open>interaction.rs\<close>).  Every decision goes
  through the audit gate (\<open>audit.rs\<close>) before it takes effect.  The endpoint manager (\<open>endpoint_manager.rs\<close>,
  \<open>device.rs\<close>) creates a virtual device per endpoint and runs a worker (\<open>worker.rs\<close>) over the UHID transport
  (\<open>passless-uhid/\<close>).  An endpoint sees the credential store (\<open>cmd/passless/src/storage/\<close>) through a view
  (\<open>agent/storage.rs\<close>) that is limited to the ceremony in progress.

  \<^bold>\<open>Conventions.\<close>  A struct is a record, an enum a datatype, a \<open>Result\<close> a sum (\<open>Err\<close> is \<open>Inl\<close>, \<open>Ok\<close> is
  \<open>Inr\<close>), \<open>u64\<close> a 64-bit word, a \<open>HashMap\<close> an association list with \<open>hm_get\<close>, \<open>hm_insert\<close> and so on, a string the list of
  its bytes.  A method that changes \<open>self\<close> returns the new state.  Readings of the clock, random identifiers and the
  outcomes of system calls are arguments.  A panic is \<open>None\<close> or a value of \<open>panic\<close>.  Code of other crates (SHA-256, hex, the
  public suffix list, serde, soft_fido2) is a parameter; what is assumed of it is a hypothesis of the theorem that needs
  it: that the codec reads back what it wrote, that hashes of the values involved do not collide.

  \<^bold>\<open>Shared theories.\<close>
  \<^item> \<open>Prelude\<close>: results, saturating arithmetic, hash maps, runs of an automaton (\<open>run_state\<close>, \<open>run_trace\<close>), and the
    locales \<open>automaton_inv\<close> (an invariant kept by every operation) and \<open>one_shot\<close> (something that happens at most
    once), interpreted by the intent store, the grant registries, the interaction tokens and the policy runtime.
  \<^item> \<open>Rust_Strings\<close>, \<open>Paths\<close>, \<open>Ip_Literals\<close>: the parts of \<open>str\<close>, \<open>std::path\<close> and \<open>core::net\<close> that the code uses.
  \<^item> \<open>Cbor\<close>: the deterministic encoder in \<open>policy.rs\<close>; the locale \<open>prefix_code\<close> shows that encodings determine values.

  \<^bold>\<open>Identifiers, policy and configuration.\<close>  \<open>Ids\<close> (\<open>ids.rs\<close>); \<open>Rp_Rules\<close> and \<open>Agent_Config\<close> (\<open>config.rs\<close>): which
  relying-party identifiers are accepted, and that a validated configuration keeps the storage of profiles apart;
  \<open>Policies\<close> (\<open>policy.rs\<close>): validation, canonical form and digest, and that the encoding determines the policy up to the
  fields it leaves out; \<open>Policy_Snapshots\<close> (first part of \<open>policy_engine.rs\<close>): the compiled snapshot decides as the
  configuration does.

  \<^bold>\<open>Authorisation.\<close>  \<open>Intents\<close> (\<open>intent.rs\<close>); \<open>Grant_Scope\<close>, \<open>Grants\<close>, \<open>Grant_Safety\<close>, \<open>Registration_Grants\<close>
  (\<open>grant.rs\<close>; the locale \<open>expiring_registry\<close> is the contract the two registries share); \<open>Interaction\<close>
  (\<open>interaction.rs\<close>); \<open>Policy_Runtime\<close> (\<open>policy_engine.rs\<close>, one definition per method), \<open>Runtime_Steps\<close> and
  \<open>Runtime_Invariant\<close> (every operation moves the parts by operations of the parts), \<open>Runtime_Safety\<close> (an intent is
  consumed at most once, only after approval, exactly if its handle is in flight under the current policy; a reload
  withdraws every intent, profile grant, claim and waiting request but leaves the registration grants, and the end of a session withdraws
  what the session holds), \<open>Runtime_Ceremonies\<close> (exactly when an authorisation is granted, an approved
  ceremony completes), \<open>Ledger\<close> (an abstract ledger of one-time permits, a label for every call from its arguments and its answer, and the proof
  that the labels of a run of the runtime are a run of the ledger, over the locale \<open>ledger_implementation\<close>), \<open>Runtime_Examples\<close> (a concrete run, on which the properties are instantiated).

  \<^bold>\<open>Audit.\<close>  \<open>Audit_Frames\<close> (frames and headers), \<open>Audit_Log\<close> (segments, anchor, append, rotation, start-up),
  \<open>Audit_Names\<close>, \<open>Audit_Chain\<close> (a verified log is fixed by its final hash), \<open>Audit_Layout\<close> and \<open>Audit_Recovery\<close> (the
  invariant of gate and disk, kept when writes, syncs, truncations or renames fail), \<open>Audit_Safety\<close> (acknowledged records survive any
  sequence of records, crashes and starts, and the log opens again; failures at start-up are included, but a file created for a new
  segment gets its whole header: a partial one locks the log for good).  Reads of the log return what is on disk.

  \<^bold>\<open>Credential storage.\<close>  \<open>Storage_Index\<close> (\<open>rp_id.rs\<close>, \<open>index.rs\<close>), \<open>Local_Store\<close> (\<open>local/mod.rs\<close>, \<open>credential.rs\<close> with the
  deserializers of the storage format; the CBOR library under them is the parameter \<open>se_cbor\<close>), \<open>Store_Refinement\<close> (the store refines a
  map from identifiers to credentials, with writes, removals and reads that fail, as long as an identifier keeps its relying party),
  \<open>Store_Properties\<close> (reading by relying party is exact, opening again gives the same store, files stay below the directory; and what
  happens when an identifier changes its relying party).  \<open>Delegated_Storage\<close>
  (\<open>agent/storage.rs\<close>): the scope of a ceremony and the two views; what they need of a store is the locale
  \<open>credential_backend\<close>, in which the effect of every operation of the delegated view is proved.  \<open>Delegated_Views\<close>
  interprets it by the local store: a delegated endpoint reads exactly what it was given, and without the right to register
  it changes nothing but fields of the credentials it was given that an update does not compare, and \<open>hmac_secret\<close>, which it does not keep.

  \<^bold>\<open>Devices.\<close>  \<open>Uhid_Protocol\<close> and \<open>Uhid_Device\<close> (\<open>passless-uhid/src/\<close>): the event codec never panics, and what the kernel
  sends is read; \<open>Hid_Worker\<close> (\<open>worker.rs\<close>; the locale \<open>draining_endpoint\<close> is what the loop needs of an endpoint): a worker
  serves the host in order, and a cancelled one stops after it handled what was waiting; \<open>Endpoint_Registry\<close> and \<open>Endpoint_Manager\<close> (\<open>device.rs\<close>,
  \<open>endpoint_manager.rs\<close>): never more endpoints than configured, and destroying one frees its slot.
\<close>

text \<open>
  \<^bold>\<open>Termination and bounds.\<close>  Loops over data are functions with a termination proof; no function takes fuel.  The loop that
  indexes a credential store asks the store for the next credential until it says there is none; for an arbitrary store this
  need not end, so it is a partial function with \<open>None\<close> for not ending, and \<open>Delegated_Views\<close> shows that it ends for the
  local store.  The worker loop runs over a script of kernel answers, and a cancelled worker is shown to leave it.  The names of
  audit segments sort like their indexes for the first 1,000,000 segments; the theorems about the log that need the order
  carry this bound.

  \<^bold>\<open>Concurrency.\<close>  A method that holds its lock for the whole call is one transition.  The methods
  \<open>consume_authorization\<close>, \<open>reload\<close> and \<open>authorize\<close> of the runtime take several locks one after the other and are modelled
  as one transition as well; that an intent is consumed once rests on the single step from claimed to consumed inside the
  store of intents, which holds one lock.

  \<^bold>\<open>Not modelled.\<close>
  \<^item> \<open>runtime.rs\<close>, \<open>backend.rs\<close>, \<open>ceremony.rs\<close>, \<open>register.rs\<close>, \<open>sign.rs\<close>, \<open>ipc.rs\<close>, \<open>client.rs\<close>: threads, sockets and
    calls of the CTAP library soft_fido2, whose behaviour is not in the repository.
  \<^item> \<open>browser.rs\<close>, \<open>cdp_bootstrap.rs\<close>, \<open>launcher.rs\<close>, \<open>doctor.rs\<close>, \<open>prompt.rs\<close>, \<open>notification.rs\<close>, \<open>fingerprint.rs\<close>,
    \<open>instance_lock.rs\<close>: process control, D-Bus and system calls.
  \<^item> \<open>authenticator.rs\<close> and \<open>pin_storage/\<close>: callbacks and state of soft_fido2.
  \<^item> \<open>storage/pass/\<close>, \<open>storage/tpm/\<close>, \<open>credential_backup.rs\<close>, \<open>storage_factory.rs\<close>: gpg, git, the TPM, archives and the
    opening of directories; the bounded cache in \<open>index.rs\<close>, which only these stores use.
  \<^item> \<open>protocol.rs\<close> beyond the enumerations of the engine: serde-derived messages.  In \<open>audit.rs\<close> the export and the permission
    checks of the directory; in \<open>agent/storage.rs\<close> the handle that only forwards.
  \<^item> The command line, the printing of errors, the C shim and the Python tools for the fingerprint reader.
\<close>

end
